(* ===== verification/Prelude.thy ===== *)
theory Prelude
  imports Main "HOL-Library.Char_ord" "HOL-Library.List_Lexorder"
begin

section \<open>Shared vocabulary: results, lists, strings, JSON values\<close>

text \<open>
  What every component of the development uses: results that carry an error value, the list and
  map lemmas the components share, the string operations of JavaScript that the sources call, and
  the JSON values that untyped fields hold.

  A JavaScript string is a list of 16-bit code units.  Here a string is a \<open>char list\<close>, so every
  code unit is below 256; the theories whose code looks at surrogates and at UTF-8 lengths work on
  lists of 16-bit words instead.  \<open>length\<close> is the \<open>length\<close> property of the source.
  The collection \<open>js_simps\<close> holds the evaluation rules of the string operations.
\<close>

named_theorems js_simps

subsection \<open>Results\<close>

text \<open>A fallible operation returns \<open>Inl\<close> with the thrown error or \<open>Inr\<close> with its value.\<close>

type_synonym ('e, 'a) result = "'e + 'a"

definition andThen :: "('e + 'a) \<Rightarrow> ('a \<Rightarrow> 'e + 'b) \<Rightarrow> 'e + 'b" where
  "andThen r f = (case r of Inl e \<Rightarrow> Inl e | Inr a \<Rightarrow> f a)"

lemma andThen_simps [simp]:
  "andThen (Inl e) f = Inl e"
  "andThen (Inr a) f = f a"
  by (simp_all add: andThen_def)

lemma andThen_eq_Inr [simp]: "andThen r f = Inr b \<longleftrightarrow> (\<exists>a. r = Inr a \<and> f a = Inr b)"
  by (cases r) auto

lemma if_Inl_eq_Inr [simp]: "(if b then Inl e else r) = Inr a \<longleftrightarrow> \<not> b \<and> r = Inr a"
  by simp

definition guardE :: "bool \<Rightarrow> 'e \<Rightarrow> 'e + unit" where
  "guardE ok e = (if ok then Inr () else Inl e)"

lemma guardE_eq_Inr [simp]: "guardE ok e = Inr u \<longleftrightarrow> ok"
  by (simp add: guardE_def)

lemma guardE_simps [simp]: "guardE True e = Inr ()" "guardE False e = Inl e"
  by (simp_all add: guardE_def)

primrec mapE :: "('a \<Rightarrow> 'e + 'b) \<Rightarrow> 'a list \<Rightarrow> 'e + 'b list" where
  "mapE f [] = Inr []"
| "mapE f (x # xs) = andThen (f x) (\<lambda>y. andThen (mapE f xs) (\<lambda>ys. Inr (y # ys)))"

primrec filterE :: "('a \<Rightarrow> 'e + bool) \<Rightarrow> 'a list \<Rightarrow> 'e + 'a list" where
  "filterE p [] = Inr []"
| "filterE p (x # xs) = andThen (p x) (\<lambda>b. andThen (filterE p xs) (\<lambda>ys. Inr (if b then x # ys else ys)))"

lemma mapE_total: "(\<And>x. x \<in> set xs \<Longrightarrow> f x = Inr (g x)) \<Longrightarrow> mapE f xs = Inr (map g xs)"
  by (induction xs) auto

lemma mapE_Inr_length: "mapE f xs = Inr ys \<Longrightarrow> length ys = length xs"
  by (induction xs arbitrary: ys) auto

lemma mapE_Inr_set: "mapE f xs = Inr ys \<Longrightarrow> x \<in> set xs \<Longrightarrow> \<exists>y \<in> set ys. f x = Inr y"
  by (induction xs arbitrary: ys) auto

lemma filterE_total: "(\<And>x. x \<in> set xs \<Longrightarrow> p x = Inr (q x)) \<Longrightarrow> filterE p xs = Inr (filter q xs)"
  by (induction xs) auto

lemma filterE_Inr: "filterE p xs = Inr ys \<longleftrightarrow> ys = filter (\<lambda>x. p x = Inr True) xs \<and> (\<forall>x \<in> set xs. \<exists>b. p x = Inr b)"
proof (induction xs arbitrary: ys)
  case (Cons x xs)
  show ?case
  proof (cases "p x")
    case (Inr b)
    then show ?thesis using Cons.IH by (cases b) auto
  qed simp
qed auto

lemma mapE_Inr: "mapE f xs = Inr ys \<longleftrightarrow> list_all2 (\<lambda>x y. f x = Inr y) xs ys"
  by (induction xs arbitrary: ys) (auto simp: list_all2_Cons1)

text \<open>An operation on an object's state that may throw: the result and the state it leaves.\<close>

type_synonym ('s, 'e, 'a) action = "'s \<Rightarrow> ('e + 'a) \<times> 's"

definition retS :: "'a \<Rightarrow> ('s, 'e, 'a) action" where
  "retS a s = (Inr a, s)"

definition throwS :: "'e \<Rightarrow> ('s, 'e, 'a) action" where
  "throwS e s = (Inl e, s)"

definition bindS :: "('s, 'e, 'a) action \<Rightarrow> ('a \<Rightarrow> ('s, 'e, 'b) action) \<Rightarrow> ('s, 'e, 'b) action" where
  "bindS m f s = (case m s of (Inl e, s') \<Rightarrow> (Inl e, s') | (Inr a, s') \<Rightarrow> f a s')"

lemma retS_apply [simp]: "retS a s = (Inr a, s)"
  by (simp add: retS_def)

lemma throwS_apply [simp]: "throwS e s = (Inl e, s)"
  by (simp add: throwS_def)

lemma bindS_Inr [simp]: "m s = (Inr a, s') \<Longrightarrow> bindS m f s = f a s'"
  by (simp add: bindS_def)

lemma bindS_Inl [simp]: "m s = (Inl e, s') \<Longrightarrow> bindS m f s = (Inl e, s')"
  by (simp add: bindS_def)

subsection \<open>Lists\<close>

text \<open>\<open>indexOf\<close> and \<open>findIndex\<close>: the first index, \<open>None\<close> for the source's \<open>-1\<close>.\<close>

primrec findIndex :: "('a \<Rightarrow> bool) \<Rightarrow> 'a list \<Rightarrow> nat option" where
  "findIndex p [] = None"
| "findIndex p (x # xs) = (if p x then Some 0 else map_option Suc (findIndex p xs))"

abbreviation indexOf :: "'a list \<Rightarrow> 'a \<Rightarrow> nat option" where
  "indexOf xs a \<equiv> findIndex (\<lambda>x. x = a) xs"

lemma findIndex_Some:
  "findIndex p xs = Some i \<Longrightarrow> i < length xs \<and> p (xs ! i) \<and> (\<forall>j < i. \<not> p (xs ! j))"
proof (induction xs arbitrary: i)
  case (Cons x xs)
  show ?case
  proof (cases "p x")
    case False
    with Cons.prems obtain k where "findIndex p xs = Some k" "i = Suc k" by auto
    with Cons.IH [of k] False show ?thesis by (auto simp: less_Suc_eq_0_disj)
  qed (use Cons.prems in auto)
qed simp

lemma findIndex_None [simp]: "findIndex p xs = None \<longleftrightarrow> (\<forall>x \<in> set xs. \<not> p x)"
  by (induction xs) auto

lemma findIndex_bound: "findIndex p xs = Some i \<Longrightarrow> i < length xs"
  by (simp add: findIndex_Some)

lemma findIndex_append_notin:
  "(\<And>x. x \<in> set xs \<Longrightarrow> \<not> p x) \<Longrightarrow> findIndex p (xs @ ys) = map_option ((+) (length xs)) (findIndex p ys)"
proof (induction xs)
  case Nil
  show ?case by (cases "findIndex p ys") (simp_all del: findIndex_None)
next
  case (Cons x xs)
  then have "findIndex p (x # xs @ ys) = map_option Suc (map_option ((+) (length xs)) (findIndex p ys))"
    by (simp del: findIndex_None)
  then show ?case by (simp add: option.map_comp comp_def del: findIndex_None)
qed

lemma findIndex_unique:
  assumes "i < length xs" "p (xs ! i)" "\<And>j. j < length xs \<Longrightarrow> p (xs ! j) \<Longrightarrow> j = i"
  shows "findIndex p xs = Some i"
proof (cases "findIndex p xs")
  case None
  with assms(1,2) show ?thesis by (auto dest: nth_mem)
next
  case (Some k)
  then show ?thesis using findIndex_Some [OF Some] assms(3) by auto
qed

lemma filter_eq_singletonD:
  assumes "filter p xs = [a]"
  obtains us vs where "xs = us @ a # vs" "p a" "\<forall>x \<in> set us \<union> set vs. \<not> p x"
proof -
  from assms obtain us vs where xs: "xs = us @ a # vs" "\<forall>u \<in> set us. \<not> p u" "p a" "[] = filter p vs"
    by (auto simp: filter_eq_Cons_iff)
  then have "\<forall>v \<in> set vs. \<not> p v" by (metis filter_empty_conv)
  with xs show thesis by (intro that [of us vs]) auto
qed

lemma distinct_map_filterI: "distinct (map f xs) \<Longrightarrow> distinct (map f (filter p xs))"
  by (induction xs) auto

lemma distinct_map_inj: "distinct (map f xs) \<Longrightarrow> x \<in> set xs \<Longrightarrow> y \<in> set xs \<Longrightarrow> f x = f y \<Longrightarrow> x = y"
  by (auto simp: distinct_map dest: inj_onD)

lemma map_of_map_pair: "map_of (map (\<lambda>x. (f x, x)) xs) k = find (\<lambda>x. f x = k) xs"
  by (induction xs) auto

lemma map_of_find_distinct:
  "distinct (map f xs) \<Longrightarrow> x \<in> set xs \<Longrightarrow> map_of (map (\<lambda>x. (f x, x)) xs) (f x) = Some x"
  by (induction xs) (auto simp: image_iff)

lemma find_append: "find p (xs @ ys) = (case find p xs of None \<Rightarrow> find p ys | Some x \<Rightarrow> Some x)"
  by (induction xs) auto

lemma find_key_None: "find (\<lambda>x. f x = k) xs = None \<longleftrightarrow> k \<notin> f ` set xs"
  by (induction xs) auto

lemma find_key_distinct: "distinct (map f xs) \<Longrightarrow> x \<in> set xs \<Longrightarrow> find (\<lambda>y. f y = f x) xs = Some x"
  by (induction xs) (auto simp: image_iff)

lemma distinct_map_before: "distinct (map f (pre @ k # post)) \<Longrightarrow> x \<in> set pre \<Longrightarrow> f x \<noteq> f k"
  by (induction pre) auto

lemma distinct_map_take:
  assumes "distinct (map f xs)" "i \<le> b" "b < length xs"
  shows "f (xs ! b) \<notin> f ` set (take i xs)"
proof
  assume "f (xs ! b) \<in> f ` set (take i xs)"
  then obtain j where "j < i" "j < length xs" "f (xs ! j) = f (xs ! b)" by (auto simp: in_set_conv_nth)
  then have "j = b" using assms(1,3) nth_eq_iff_index_eq [of "map f xs" j b] by simp
  then show False using \<open>j < i\<close> assms(2) by simp
qed

lemma image_disjoint: "\<forall>x \<in> A. f x \<notin> B \<Longrightarrow> B \<inter> f ` A = {}"
  by auto

lemma foldl_inv: "P s \<Longrightarrow> (\<And>s x. P s \<Longrightarrow> x \<in> set xs \<Longrightarrow> P (f s x)) \<Longrightarrow> P (foldl f s xs)"
  by (induction xs arbitrary: s) auto

subsection \<open>Insertion-ordered maps\<close>

text \<open>
  \<open>Map\<close> of the source iterates in insertion order, so where the order matters it is an
  association list: \<open>set\<close> replaces in place or appends.
\<close>

primrec alistSet :: "'k \<Rightarrow> 'v \<Rightarrow> ('k \<times> 'v) list \<Rightarrow> ('k \<times> 'v) list" where
  "alistSet k v [] = [(k, v)]"
| "alistSet k v (p # ps) = (if fst p = k then (k, v) # ps else p # alistSet k v ps)"

lemma map_of_alistSet [simp]: "map_of (alistSet k v ps) = (map_of ps)(k \<mapsto> v)"
  by (induction ps) auto

lemma fst_alistSet: "map fst (alistSet k v ps) = (if k \<in> fst ` set ps then map fst ps else map fst ps @ [k])"
  by (induction ps) auto

lemma dom_alistSet [simp]: "fst ` set (alistSet k v ps) = insert k (fst ` set ps)"
  by (induction ps) auto

lemma distinct_alistSet: "distinct (map fst ps) \<Longrightarrow> distinct (map fst (alistSet k v ps))"
  by (auto simp: fst_alistSet)

lemma alistSet_new: "k \<notin> fst ` set ps \<Longrightarrow> alistSet k v ps = ps @ [(k, v)]"
  by (induction ps) auto

definition alistDelete :: "'k \<Rightarrow> ('k \<times> 'v) list \<Rightarrow> ('k \<times> 'v) list" where
  "alistDelete k ps = filter (\<lambda>p. fst p \<noteq> k) ps"

text \<open>\<open>Set\<close> of the source iterates in insertion order too.\<close>

definition setAdd :: "'a \<Rightarrow> 'a list \<Rightarrow> 'a list" where
  "setAdd x xs = (if x \<in> set xs then xs else xs @ [x])"

lemma set_setAdd [simp]: "set (setAdd x xs) = insert x (set xs)"
  by (auto simp: setAdd_def)

lemma distinct_setAdd: "distinct xs \<Longrightarrow> distinct (setAdd x xs)"
  by (auto simp: setAdd_def)

lemma foldl_setAdd: "set (foldl (\<lambda>s f. setAdd f s) xs fs) = set xs \<union> set fs
    \<and> (distinct xs \<longrightarrow> distinct (foldl (\<lambda>s f. setAdd f s) xs fs))"
  by (induction fs arbitrary: xs) (auto simp: distinct_setAdd)

subsection \<open>Strings\<close>

definition nl :: string where
  "nl = [CHR 0x0A]"

definition jsWhitespace :: "char \<Rightarrow> bool" where
  "jsWhitespace c \<longleftrightarrow> of_char c \<in> {9, 10, 11, 12, 13, 32, 160 :: nat}"

definition trim :: "string \<Rightarrow> string" where
  "trim s = rev (dropWhile jsWhitespace (rev (dropWhile jsWhitespace s)))"

primrec joinWith :: "'c list \<Rightarrow> 'c list list \<Rightarrow> 'c list" where
  "joinWith sep [] = []"
| "joinWith sep (s # ss) = (if ss = [] then s else s @ sep @ joinWith sep ss)"

primrec splitOn :: "'c \<Rightarrow> 'c list \<Rightarrow> 'c list list" where
  "splitOn c [] = [[]]"
| "splitOn c (x # xs) =
    (if x = c then [] # splitOn c xs
     else (case splitOn c xs of [] \<Rightarrow> [[x]] | p # ps \<Rightarrow> (x # p) # ps))"

definition startsWith :: "'c list \<Rightarrow> 'c list \<Rightarrow> bool" where
  "startsWith p s \<longleftrightarrow> take (length p) s = p"

lemma splitOn_neq_Nil [simp]: "splitOn c xs \<noteq> []"
  by (induction xs) (auto split: list.split)

lemma splitOn_no_sep: "p \<in> set (splitOn c xs) \<Longrightarrow> c \<notin> set p"
  by (induction xs arbitrary: p) (auto split: list.splits if_splits)

definition digitChar :: "nat \<Rightarrow> char" where
  "digitChar d = char_of (48 + d)"

fun natToString :: "nat \<Rightarrow> string" where
  "natToString n = (if n < 10 then [digitChar n] else natToString (n div 10) @ [digitChar (n mod 10)])"

declare natToString.simps [simp del]

definition intToString :: "int \<Rightarrow> string" where
  "intToString i = (if i < 0 then CHR ''-'' # natToString (nat (- i)) else natToString (nat i))"

definition isDigit :: "char \<Rightarrow> bool" where
  "isDigit c \<longleftrightarrow> 48 \<le> (of_char c :: nat) \<and> (of_char c :: nat) \<le> 57"

definition digitsValue :: "string \<Rightarrow> nat" where
  "digitsValue ds = foldl (\<lambda>n c. 10 * n + (of_char c - 48)) 0 ds"

definition hexDigit :: "nat \<Rightarrow> char" where
  "hexDigit d = (if d < 10 then char_of (48 + d) else char_of (87 + d))"

subsection \<open>Dates\<close>

text \<open>
  \<open>new Date(s).getTime()\<close> on the format \<open>Date.prototype.toISOString\<close> writes,
  \<open>YYYY-MM-DDTHH:mm:ss.sssZ\<close>: the milliseconds since 1970, \<open>None\<close> for \<open>NaN\<close>.  Every timestamp of
  the modelled code is written in that format.
\<close>

definition daysFromCivil :: "int \<Rightarrow> int \<Rightarrow> int \<Rightarrow> int" where
  "daysFromCivil y m d =
    (let y' = (if m \<le> 2 then y - 1 else y);
         era = y' div 400;
         yoe = y' - era * 400;
         mp = (m + 9) mod 12;
         doy = (153 * mp + 2) div 5 + d - 1;
         doe = yoe * 365 + yoe div 4 - yoe div 100 + doy
     in era * 146097 + doe - 719468)"

definition isoMillis :: "string \<Rightarrow> int option" where
  "isoMillis s =
    (let num = (\<lambda>i n. int (digitsValue (take n (drop i s))));
         digitAt = (\<lambda>i. isDigit (s ! i))
     in if length s = 24
          \<and> list_all digitAt [0, 1, 2, 3, 5, 6, 8, 9, 11, 12, 14, 15, 17, 18, 20, 21, 22]
          \<and> s ! 4 = CHR ''-'' \<and> s ! 7 = CHR ''-'' \<and> s ! 10 = CHR ''T'' \<and> s ! 13 = CHR '':''
          \<and> s ! 16 = CHR '':'' \<and> s ! 19 = CHR ''.'' \<and> s ! 23 = CHR ''Z''
          \<and> num 5 2 \<in> {1..12} \<and> num 8 2 \<in> {1..31} \<and> num 11 2 \<in> {0..23}
          \<and> num 14 2 \<in> {0..59} \<and> num 17 2 \<in> {0..59}
        then Some ((((daysFromCivil (num 0 4) (num 5 2) (num 8 2) * 24 + num 11 2) * 60 + num 14 2) * 60
                    + num 17 2) * 1000 + num 20 3)
        else None)"

type_synonym jsTime = "int option"

subsection \<open>JSON values\<close>

text \<open>
  The untyped values of the source (\<open>unknown\<close>, \<open>any\<close>): tool arguments, entry \<open>details\<close> and
  \<open>data\<close>.  A number is an integer, another finite value (by the text that \<open>JSON.stringify\<close> writes
  for it) or one of the non-finite values; an object lists its own enumerable properties in
  property order, without repeated keys.
\<close>

datatype json =
    JNull
  | JBool bool
  | JNum int
  | JDecimal string
  | JNonFinite
  | JUndefined
  | JStr string
  | JArr "json list"
  | JObj "(string \<times> json) list"

definition jsonEscapeChar :: "char \<Rightarrow> string" where
  "jsonEscapeChar c =
    (let n = (of_char c :: nat)
     in if n = 34 then [CHR 0x5C, c]
        else if n = 92 then [CHR 0x5C, c]
        else if n = 8 then [CHR 0x5C, CHR ''b'']
        else if n = 9 then [CHR 0x5C, CHR ''t'']
        else if n = 10 then [CHR 0x5C, CHR ''n'']
        else if n = 12 then [CHR 0x5C, CHR ''f'']
        else if n = 13 then [CHR 0x5C, CHR ''r'']
        else if n < 32 then [CHR 0x5C, CHR ''u'', CHR ''0'', CHR ''0'', hexDigit (n div 16), hexDigit (n mod 16)]
        else [c])"

definition jsonQuote :: "string \<Rightarrow> string" where
  "jsonQuote s = [CHR 0x22] @ concat (map jsonEscapeChar s) @ [CHR 0x22]"

text \<open>Different strings have different quotations, even when more text follows.\<close>

lemma of_char_inj: "of_char c = (of_char d :: nat) \<Longrightarrow> c = d"
  by (metis char_of_char)

lemma jsonEscapeChar_hd: "hd (jsonEscapeChar c) \<noteq> CHR 0x22"
  by (auto simp: jsonEscapeChar_def Let_def)

text \<open>The length of an escape can be read off its first two characters.\<close>

definition escapeLength :: "string \<Rightarrow> nat" where
  "escapeLength s = (if hd s \<noteq> CHR 0x5C then 1 else if hd (tl s) = CHR ''u'' then 6 else 2)"

lemma escapeLength_escape: "escapeLength (jsonEscapeChar c @ xs) = length (jsonEscapeChar c)"
  by (auto simp: jsonEscapeChar_def escapeLength_def Let_def)

text \<open>The code that an escape stands for.\<close>

definition hexValue :: "char \<Rightarrow> nat" where
  "hexValue c = (if of_char c < (58 :: nat) then of_char c - 48 else of_char c - 87)"

definition escapedCode :: "string \<Rightarrow> nat" where
  "escapedCode s =
    (if hd s \<noteq> CHR 0x5C then of_char (hd s)
     else let x = s ! 1 in
       if x = CHR ''b'' then 8 else if x = CHR ''t'' then 9 else if x = CHR ''n'' then 10
       else if x = CHR ''f'' then 12 else if x = CHR ''r'' then 13
       else if x = CHR ''u'' then 16 * hexValue (s ! 4) + hexValue (s ! 5) else of_char x)"

lemma hexValue_hexDigit: "k < 16 \<Longrightarrow> hexValue (hexDigit k) = k"
  by (simp add: hexValue_def hexDigit_def)

lemma hexValue_pair: "n < 256 \<Longrightarrow> 16 * hexValue (hexDigit (n div 16)) + hexValue (hexDigit (n mod 16)) = n"
  by (simp add: hexValue_hexDigit)

lemma escapedCode_escape: "escapedCode (jsonEscapeChar c) = of_char c"
proof (cases "of_char c \<in> {34, 92, 8, 9, 10, 12, 13 :: nat}")
  case True
  then obtain n :: nat where "n \<in> {34, 92, 8, 9, 10, 12, 13}" "c = char_of n" by (metis char_of_char)
  moreover have "char_of (34 :: nat) = CHR 0x22" "char_of (92 :: nat) = CHR 0x5C" by code_simp+
  ultimately show ?thesis by (elim insertE emptyE; simp add: jsonEscapeChar_def escapedCode_def Let_def)
next
  case False
  then have "c \<noteq> CHR 0x5C" by auto
  with False show ?thesis
    using hexValue_pair [OF nat_of_char_less_256 [of c]] by (simp add: jsonEscapeChar_def escapedCode_def Let_def)
qed

lemma jsonEscapeChar_eq: "jsonEscapeChar c = jsonEscapeChar d \<Longrightarrow> c = d"
  by (metis escapedCode_escape of_char_inj)

lemma jsonEscapeChar_inj:
  assumes "jsonEscapeChar c @ xs = jsonEscapeChar d @ ys"
  shows "c = d \<and> xs = ys"
proof -
  have "length (jsonEscapeChar c) = length (jsonEscapeChar d)"
    using assms escapeLength_escape [of c xs] escapeLength_escape [of d ys] by simp
  with assms show ?thesis using jsonEscapeChar_eq by simp
qed

lemma jsonQuote_inj: "jsonQuote s @ xs = jsonQuote t @ ys \<Longrightarrow> s = t \<and> xs = ys"
proof (induction s arbitrary: t)
  case Nil
  then show ?case
  proof (cases t)
    case (Cons d t')
    have "jsonEscapeChar d \<noteq> []" by (simp add: jsonEscapeChar_def Let_def)
    then show ?thesis using Nil Cons jsonEscapeChar_hd [of d] by (cases "jsonEscapeChar d") (auto simp: jsonQuote_def)
  qed (simp add: jsonQuote_def)
next
  case (Cons c s)
  show ?case
  proof (cases t)
    case Nil
    have "jsonEscapeChar c \<noteq> []" by (simp add: jsonEscapeChar_def Let_def)
    then show ?thesis using Nil Cons jsonEscapeChar_hd [of c] by (cases "jsonEscapeChar c") (auto simp: jsonQuote_def)
  next
    case (Cons d t')
    then have "c = d" "jsonQuote s @ xs = jsonQuote t' @ ys" using Cons.prems jsonEscapeChar_inj [of c _ d] by (auto simp: jsonQuote_def)
    with Cons.IH Cons show ?thesis by blast
  qed
qed

text \<open>\<open>JSON.stringify\<close>; \<open>None\<close> is its result \<open>undefined\<close>.\<close>

fun jsonStringify :: "json \<Rightarrow> string option" where
  "jsonStringify JNull = Some ''null''"
| "jsonStringify (JBool b) = Some (if b then ''true'' else ''false'')"
| "jsonStringify (JNum n) = Some (intToString n)"
| "jsonStringify (JDecimal s) = Some s"
| "jsonStringify JNonFinite = Some ''null''"
| "jsonStringify JUndefined = None"
| "jsonStringify (JStr s) = Some (jsonQuote s)"
| "jsonStringify (JArr xs) =
    Some (''['' @ joinWith '','' (map (\<lambda>x. case jsonStringify x of None \<Rightarrow> ''null'' | Some s \<Rightarrow> s) xs) @ '']'')"
| "jsonStringify (JObj kvs) =
    Some (''{'' @ joinWith '','' (concat (map (\<lambda>(k, v). case jsonStringify v of
        None \<Rightarrow> [] | Some s \<Rightarrow> [jsonQuote k @ '':'' @ s]) kvs)) @ ''}'')"

text \<open>
  Property order of a JavaScript object: array-index keys first, in numeric order, then the other
  keys in the order of their insertion.
\<close>

definition isIndexKey :: "string \<Rightarrow> bool" where
  "isIndexKey k \<longleftrightarrow> k = ''0'' \<or>
    (k \<noteq> [] \<and> hd k \<noteq> CHR ''0'' \<and> list_all isDigit k \<and> digitsValue k < 2 ^ 32 - 1)"

definition propertyOrder :: "(string \<times> 'a) list \<Rightarrow> (string \<times> 'a) list" where
  "propertyOrder kvs =
    sort_key (\<lambda>kv. digitsValue (fst kv)) (filter (\<lambda>kv. isIndexKey (fst kv)) kvs)
    @ filter (\<lambda>kv. \<not> isIndexKey (fst kv)) kvs"

fun jsonField :: "json \<Rightarrow> string \<Rightarrow> json option" where
  "jsonField (JObj kvs) k = map_of kvs k"
| "jsonField v k = None"

fun isJsonRecord :: "json \<Rightarrow> bool" where
  "isJsonRecord (JObj kvs) = True"
| "isJsonRecord v = False"

text \<open>Optional properties of an object literal: absent when the value is \<open>None\<close>.\<close>

definition optField :: "string \<Rightarrow> ('a \<Rightarrow> json) \<Rightarrow> 'a option \<Rightarrow> (string \<times> json) list" where
  "optField k f v = (case v of None \<Rightarrow> [] | Some a \<Rightarrow> [(k, f a)])"

lemma optField_simps [simp]: "optField k f None = []" "optField k f (Some a) = [(k, f a)]"
  by (simp_all add: optField_def)

lemmas [js_simps] = trim_def joinWith.simps splitOn.simps startsWith_def jsonQuote_def jsonEscapeChar_def
  intToString_def natToString.simps digitChar_def jsWhitespace_def

end
