(* ===== verification/SessionTypes.thy ===== *)
theory SessionTypes
  imports Prelude
begin

section \<open>Messages and session-tree entries\<close>

text \<open>
  The data of \<open>packages/ai/types.ts\<close>, \<open>packages/agent/harness/messages.ts\<close> and
  \<open>packages/agent/harness/types.ts\<close>: content blocks, messages, the tagged union of session-tree
  entries, and the JSON object each of them is, which is what the transaction digest is taken of.

  An optional property is an \<open>option\<close>.  Where the code also builds the property with the value
  \<open>undefined\<close> (as \<open>Session.appendCompaction\<close> does), the type is \<open>jsProp\<close>: \<open>None\<close> is an absent property,
  \<open>Some None\<close> an own property that holds \<open>undefined\<close>; for untyped properties that is \<open>Some JUndefined\<close>.
  A message's \<open>timestamp\<close> is a \<open>jsTime\<close>, \<open>None\<close> being \<open>NaN\<close>.  Tool arguments, details and costs
  are JSON values.
\<close>

type_synonym 'a jsProp = "'a option option"

definition propField :: "string \<Rightarrow> ('a \<Rightarrow> json) \<Rightarrow> 'a jsProp \<Rightarrow> (string \<times> json) list" where
  "propField k f p = (case p of None \<Rightarrow> [] | Some None \<Rightarrow> [(k, JUndefined)] | Some (Some a) \<Rightarrow> [(k, f a)])"

definition jsTimeToJson :: "jsTime \<Rightarrow> json" where
  "jsTimeToJson t = (case t of None \<Rightarrow> JNonFinite | Some n \<Rightarrow> JNum n)"

subsection \<open>Content\<close>

datatype content_part =
    TextContent (partText: string) (textSignature: "string option")
  | ImageContent (imageData: string) (mimeType: string)

datatype user_content = ContentText string | ContentParts "content_part list"

record toolCall =
  tcId :: string
  tcName :: string
  tcArguments :: json
  tcThoughtSignature :: "string option"

datatype assistant_block =
    TextBlock string "string option"
  | ThinkingBlock string "string option" "bool option"
  | ToolCallBlock toolCall

definition contentPartToJson :: "content_part \<Rightarrow> json" where
  "contentPartToJson p = (case p of
     TextContent t sig \<Rightarrow> JObj ([(''type'', JStr ''text''), (''text'', JStr t)] @ optField ''textSignature'' JStr sig)
   | ImageContent d m \<Rightarrow> JObj [(''type'', JStr ''image''), (''data'', JStr d), (''mimeType'', JStr m)])"

definition userContentToJson :: "user_content \<Rightarrow> json" where
  "userContentToJson c = (case c of ContentText s \<Rightarrow> JStr s | ContentParts ps \<Rightarrow> JArr (map contentPartToJson ps))"

definition assistantBlockToJson :: "assistant_block \<Rightarrow> json" where
  "assistantBlockToJson b = (case b of
     TextBlock t sig \<Rightarrow> JObj ([(''type'', JStr ''text''), (''text'', JStr t)] @ optField ''textSignature'' JStr sig)
   | ThinkingBlock t sig r \<Rightarrow> JObj ([(''type'', JStr ''thinking''), (''thinking'', JStr t)]
       @ optField ''thinkingSignature'' JStr sig @ optField ''redacted'' JBool r)
   | ToolCallBlock c \<Rightarrow> JObj ([(''type'', JStr ''toolCall''), (''id'', JStr (tcId c)), (''name'', JStr (tcName c)),
       (''arguments'', tcArguments c)] @ optField ''thoughtSignature'' JStr (tcThoughtSignature c)))"

subsection \<open>Messages\<close>

record usage =
  uInput :: int
  uOutput :: int
  uCacheRead :: int
  uCacheWrite :: int
  uTotalTokens :: int
  uCost :: json

datatype stop_reason = StopPending | StopStop | StopLength | StopToolUse | StopError | StopAborted

definition stopReasonName :: "stop_reason \<Rightarrow> string" where
  "stopReasonName r = (case r of StopPending \<Rightarrow> ''pending'' | StopStop \<Rightarrow> ''stop'' | StopLength \<Rightarrow> ''length''
     | StopToolUse \<Rightarrow> ''toolUse'' | StopError \<Rightarrow> ''error'' | StopAborted \<Rightarrow> ''aborted'')"

record userMessage =
  umContent :: user_content
  umTimestamp :: jsTime

record assistantMessage =
  amContent :: "assistant_block list"
  amApi :: string
  amProvider :: string
  amModel :: string
  amResponseModel :: "string option"
  amResponseId :: "string option"
  amDiagnostics :: "json option"
  amUsage :: "usage option"
  amStopReason :: stop_reason
  amErrorMessage :: "string option"
  amTimestamp :: jsTime

record toolResultMessage =
  trToolCallId :: string
  trToolName :: string
  trContent :: "content_part list"
  trDetails :: "json option"
  trIsError :: bool
  trTimestamp :: jsTime

record bashExecutionMessage =
  beCommand :: string
  beOutput :: string
  beExitCode :: "int option"
  beCancelled :: bool
  beTruncated :: bool
  beFullOutputPath :: "string option"
  beTimestamp :: jsTime
  beExcludeFromContext :: "bool option"

record customMessage =
  cmCustomType :: string
  cmContent :: user_content
  cmDisplay :: bool
  cmDetails :: "json option"
  cmTimestamp :: jsTime

record branchSummaryMessage =
  bsmSummary :: string
  bsmFromId :: string
  bsmTimestamp :: jsTime

record compactionSummaryMessage =
  csmSummary :: string
  csmTokensBefore :: int
  csmTimestamp :: jsTime

datatype agent_message =
    UserMsg userMessage
  | AssistantMsg assistantMessage
  | ToolResultMsg toolResultMessage
  | BashExecutionMsg bashExecutionMessage
  | CustomMsg customMessage
  | BranchSummaryMsg branchSummaryMessage
  | CompactionSummaryMsg compactionSummaryMessage

definition usageToJson :: "usage \<Rightarrow> json" where
  "usageToJson u = JObj [(''input'', JNum (uInput u)), (''output'', JNum (uOutput u)),
     (''cacheRead'', JNum (uCacheRead u)), (''cacheWrite'', JNum (uCacheWrite u)),
     (''totalTokens'', JNum (uTotalTokens u)), (''cost'', uCost u)]"

definition messageRole :: "agent_message \<Rightarrow> string" where
  "messageRole m = (case m of UserMsg _ \<Rightarrow> ''user'' | AssistantMsg _ \<Rightarrow> ''assistant'' | ToolResultMsg _ \<Rightarrow> ''toolResult''
     | BashExecutionMsg _ \<Rightarrow> ''bashExecution'' | CustomMsg _ \<Rightarrow> ''custom'' | BranchSummaryMsg _ \<Rightarrow> ''branchSummary''
     | CompactionSummaryMsg _ \<Rightarrow> ''compactionSummary'')"

definition messageToJson :: "agent_message \<Rightarrow> json" where
  "messageToJson m = JObj ((''role'', JStr (messageRole m)) # (case m of
     UserMsg u \<Rightarrow> [(''content'', userContentToJson (umContent u)), (''timestamp'', jsTimeToJson (umTimestamp u))]
   | AssistantMsg a \<Rightarrow> [(''content'', JArr (map assistantBlockToJson (amContent a))), (''api'', JStr (amApi a)),
       (''provider'', JStr (amProvider a)), (''model'', JStr (amModel a))]
       @ optField ''responseModel'' JStr (amResponseModel a) @ optField ''responseId'' JStr (amResponseId a)
       @ optField ''diagnostics'' id (amDiagnostics a) @ optField ''usage'' usageToJson (amUsage a)
       @ [(''stopReason'', JStr (stopReasonName (amStopReason a)))]
       @ optField ''errorMessage'' JStr (amErrorMessage a) @ [(''timestamp'', jsTimeToJson (amTimestamp a))]
   | ToolResultMsg t \<Rightarrow> [(''toolCallId'', JStr (trToolCallId t)), (''toolName'', JStr (trToolName t)),
       (''content'', JArr (map contentPartToJson (trContent t)))] @ optField ''details'' id (trDetails t)
       @ [(''isError'', JBool (trIsError t)), (''timestamp'', jsTimeToJson (trTimestamp t))]
   | BashExecutionMsg b \<Rightarrow> [(''command'', JStr (beCommand b)), (''output'', JStr (beOutput b)),
       (''exitCode'', case beExitCode b of None \<Rightarrow> JUndefined | Some n \<Rightarrow> JNum n),
       (''cancelled'', JBool (beCancelled b)), (''truncated'', JBool (beTruncated b))]
       @ optField ''fullOutputPath'' JStr (beFullOutputPath b) @ [(''timestamp'', jsTimeToJson (beTimestamp b))]
       @ optField ''excludeFromContext'' JBool (beExcludeFromContext b)
   | CustomMsg c \<Rightarrow> [(''customType'', JStr (cmCustomType c)), (''content'', userContentToJson (cmContent c)),
       (''display'', JBool (cmDisplay c))] @ optField ''details'' id (cmDetails c)
       @ [(''timestamp'', jsTimeToJson (cmTimestamp c))]
   | BranchSummaryMsg b \<Rightarrow> [(''summary'', JStr (bsmSummary b)), (''fromId'', JStr (bsmFromId b)),
       (''timestamp'', jsTimeToJson (bsmTimestamp b))]
   | CompactionSummaryMsg c \<Rightarrow> [(''summary'', JStr (csmSummary c)), (''tokensBefore'', JNum (csmTokensBefore c)),
       (''timestamp'', jsTimeToJson (csmTimestamp c))]))"

subsection \<open>Session-tree entries\<close>

record compactionData =
  ceSummary :: string
  ceFirstKeptEntryId :: string
  ceTokensBefore :: int
  ceDetails :: "json option"
  ceFromHook :: "bool jsProp"

record branchSummaryData =
  bseFromId :: string
  bseSummary :: string
  bseDetails :: "json option"
  bseFromHook :: "bool jsProp"

record customMessageData =
  cmeCustomType :: string
  cmeContent :: user_content
  cmeDetails :: "json option"
  cmeDisplay :: bool

datatype entry_kind =
    MessageEntry agent_message
  | ThinkingLevelChangeEntry string
  | ModelChangeEntry (meProvider: string) (meModelId: string)
  | CompactionEntry compactionData
  | BranchSummaryEntry branchSummaryData
  | CustomEntry (cuCustomType: string) (cuData: "json option")
  | CustomMessageEntry customMessageData
  | LabelEntry (leTargetId: string) (leLabel: "string option")
  | SessionInfoEntry (siName: "string option")
  | LeafEntry (lfTargetId: "string option")

text \<open>\<open>SessionTreeEntryBase\<close> with the fields of its \<open>type\<close> in \<open>eKind\<close>.\<close>

record entry =
  eId :: string
  eParent :: "string option"
  eTimestamp :: string
  eTx :: "string option"
  eKind :: entry_kind

definition entryType :: "entry \<Rightarrow> string" where
  "entryType e = (case eKind e of MessageEntry _ \<Rightarrow> ''message'' | ThinkingLevelChangeEntry _ \<Rightarrow> ''thinking_level_change''
     | ModelChangeEntry _ _ \<Rightarrow> ''model_change'' | CompactionEntry _ \<Rightarrow> ''compaction''
     | BranchSummaryEntry _ \<Rightarrow> ''branch_summary'' | CustomEntry _ _ \<Rightarrow> ''custom''
     | CustomMessageEntry _ \<Rightarrow> ''custom_message'' | LabelEntry _ _ \<Rightarrow> ''label''
     | SessionInfoEntry _ \<Rightarrow> ''session_info'' | LeafEntry _ \<Rightarrow> ''leaf'')"

definition nullable :: "string option \<Rightarrow> json" where
  "nullable s = (case s of None \<Rightarrow> JNull | Some x \<Rightarrow> JStr x)"

definition entryKindToJson :: "entry_kind \<Rightarrow> (string \<times> json) list" where
  "entryKindToJson k = (case k of
     MessageEntry m \<Rightarrow> [(''message'', messageToJson m)]
   | ThinkingLevelChangeEntry l \<Rightarrow> [(''thinkingLevel'', JStr l)]
   | ModelChangeEntry p m \<Rightarrow> [(''provider'', JStr p), (''modelId'', JStr m)]
   | CompactionEntry c \<Rightarrow> [(''summary'', JStr (ceSummary c)), (''firstKeptEntryId'', JStr (ceFirstKeptEntryId c)),
       (''tokensBefore'', JNum (ceTokensBefore c))] @ optField ''details'' id (ceDetails c)
       @ propField ''fromHook'' JBool (ceFromHook c)
   | BranchSummaryEntry b \<Rightarrow> [(''fromId'', JStr (bseFromId b)), (''summary'', JStr (bseSummary b))]
       @ optField ''details'' id (bseDetails b) @ propField ''fromHook'' JBool (bseFromHook b)
   | CustomEntry t d \<Rightarrow> (''customType'', JStr t) # optField ''data'' id d
   | CustomMessageEntry c \<Rightarrow> [(''customType'', JStr (cmeCustomType c)), (''content'', userContentToJson (cmeContent c))]
       @ optField ''details'' id (cmeDetails c) @ [(''display'', JBool (cmeDisplay c))]
   | LabelEntry t l \<Rightarrow> [(''targetId'', JStr t), (''label'', case l of None \<Rightarrow> JUndefined | Some s \<Rightarrow> JStr s)]
   | SessionInfoEntry n \<Rightarrow> optField ''name'' JStr n
   | LeafEntry t \<Rightarrow> [(''targetId'', nullable t)])"

definition entryToJson :: "entry \<Rightarrow> json" where
  "entryToJson e = JObj ([(''type'', JStr (entryType e)), (''id'', JStr (eId e)), (''parentId'', nullable (eParent e)),
     (''timestamp'', JStr (eTimestamp e))] @ optField ''transactionId'' JStr (eTx e) @ entryKindToJson (eKind e))"

end
