(* ===== verification/EntryTransaction.thy ===== *)
theory EntryTransaction
  imports SessionTypes
begin

section \<open>Transactions of session entries\<close>

text \<open>
  \<open>packages/agent/harness/session/entry-transaction.ts\<close>.  Entries that carry one transaction id
  become visible together or not at all: the group has to be a parent chain whose last but one
  entry is a manifest that lists the other members and their SHA-256.  The hash of Node's crypto
  package is the parameter \<open>sha\<close>, from the hashed text to the digest in hexadecimal.

  The code tells entries of one group apart by object identity.  A group is validated only when
  none of its identifiers is repeated in the file, so equality of values is the same there.
  Values with accessors, symbols, holes or cycles, which \<open>readOwnValue\<close> and \<open>readArrayValues\<close> also
  reject, have no counterpart in \<open>json\<close>.
\<close>

definition SessionTransactionManifestCustomType :: string where
  "SessionTransactionManifestCustomType = ''session_tx_manifest''"

datatype tx_error_code = InvalidJson | InvalidTransaction

datatype tx_error = TxError (errCode: tx_error_code) (errMessage: string)

record txManifestData =
  mdTransactionId :: string
  mdOrderedMemberEntryIds :: "string list"
  mdUserEntryId :: string
  mdMembersSha256 :: string

record committedTransaction =
  ctTransactionId :: string
  ctManifest :: entry
  ctPhysicalEntries :: "entry list"
  ctMembers :: "entry list"
  ctUserEntryId :: string

record txDiagnostic =
  dgMessage :: string
  dgTransactionId :: "string option"

record committedEntriesResult =
  crEntries :: "entry list"
  crDiagnostics :: "txDiagnostic list"
  crCommittedIds :: "string list"
  crCommitted :: "(string \<times> committedTransaction) list"

subsection \<open>Canonical JSON\<close>

definition invalidJson :: "string \<Rightarrow> tx_error + 'a" where
  "invalidJson m = Inl (TxError InvalidJson m)"

definition invalidTransaction :: "string \<Rightarrow> tx_error + 'a" where
  "invalidTransaction m = Inl (TxError InvalidTransaction m)"

definition readOwnValue :: "json \<Rightarrow> string \<Rightarrow> tx_error + json" where
  "readOwnValue v k = (case jsonField v k of
     None \<Rightarrow> invalidJson (''JSON object field '' @ k @ '' must be a data property'')
   | Some x \<Rightarrow> Inr x)"

definition readArrayValues :: "json \<Rightarrow> string \<Rightarrow> tx_error + json list" where
  "readArrayValues v field = (case v of JArr xs \<Rightarrow> Inr xs | _ \<Rightarrow> invalidJson (field @ '' must be an array''))"

fun copyJsonValue :: "json \<Rightarrow> tx_error + json" where
  "copyJsonValue JNull = Inr JNull"
| "copyJsonValue (JStr s) = Inr (JStr s)"
| "copyJsonValue (JBool b) = Inr (JBool b)"
| "copyJsonValue (JNum n) = Inr (JNum n)"
| "copyJsonValue (JDecimal d) = Inr (JDecimal d)"
| "copyJsonValue JNonFinite = invalidJson ''JSON numbers must be finite''"
| "copyJsonValue JUndefined = invalidJson ''Value is not JSON serializable''"
| "copyJsonValue (JArr xs) = andThen (mapE id (map copyJsonValue xs)) (\<lambda>ys. Inr (JArr ys))"
| "copyJsonValue (JObj kvs) =
    andThen (mapE (\<lambda>(k, r). andThen r (\<lambda>v. Inr (k, v)))
               (sort_key fst (map (\<lambda>(k, v). (k, copyJsonValue v)) kvs)))
      (\<lambda>result. Inr (JObj (propertyOrder result)))"

definition canonicalJson :: "json \<Rightarrow> tx_error + string" where
  "canonicalJson v = andThen (copyJsonValue v) (\<lambda>c. Inr (case jsonStringify c of None \<Rightarrow> [] | Some s \<Rightarrow> s))"

definition sha256CanonicalJson :: "(string \<Rightarrow> string) \<Rightarrow> json \<Rightarrow> tx_error + string" where
  "sha256CanonicalJson sha v = andThen (canonicalJson v) (\<lambda>s. Inr (sha s))"

subsection \<open>Reading an entry\<close>

definition requiredString :: "json \<Rightarrow> string \<Rightarrow> tx_error + string" where
  "requiredString v field = (case v of
     JStr s \<Rightarrow> if s = [] then invalidTransaction (field @ '' must be a non-empty string'') else Inr s
   | _ \<Rightarrow> invalidTransaction (field @ '' must be a non-empty string''))"

definition transactionIdForEntry :: "entry \<Rightarrow> tx_error + string option" where
  "transactionIdForEntry e = (case eTx e of
     None \<Rightarrow> Inr None
   | Some t \<Rightarrow> andThen (requiredString (JStr t) ''transactionId'') (\<lambda>t. Inr (Some t)))"

definition entryId :: "entry \<Rightarrow> tx_error + string" where
  "entryId e = requiredString (JStr (eId e)) ''entry ID''"

definition parentId :: "entry \<Rightarrow> tx_error + string option" where
  "parentId e = Inr (eParent e)"

definition isUserEntry :: "entry \<Rightarrow> bool" where
  "isUserEntry e = (case eKind e of MessageEntry m \<Rightarrow> messageRole m = ''user'' | _ \<Rightarrow> False)"

definition manifestData :: "entry \<Rightarrow> tx_error + txManifestData option" where
  "manifestData e = (case eKind e of
     CustomEntry customType dataField \<Rightarrow>
       if customType \<noteq> SessionTransactionManifestCustomType then Inr None
       else andThen (readOwnValue (JObj (optField ''data'' id dataField)) ''data'') (\<lambda>data.
         if \<not> isJsonRecord data then invalidTransaction ''Transaction manifest data must be an object''
         else andThen (readOwnValue data ''schemaVersion'') (\<lambda>version.
         if version \<noteq> JNum 1 then invalidTransaction ''Transaction manifest schemaVersion must be 1''
         else andThen (andThen (readOwnValue data ''transactionId'') (\<lambda>v. requiredString v ''manifest transactionId'')) (\<lambda>transactionId.
         andThen (andThen (readOwnValue data ''userEntryId'') (\<lambda>v. requiredString v ''manifest userEntryId'')) (\<lambda>userEntryId.
         andThen (andThen (readOwnValue data ''membersSha256'') (\<lambda>v. requiredString v ''manifest membersSha256'')) (\<lambda>membersSha256.
         andThen (andThen (readOwnValue data ''orderedMemberEntryIds'') (\<lambda>v. readArrayValues v ''manifest orderedMemberEntryIds'')) (\<lambda>ordered.
         if ordered = [] then invalidTransaction ''manifest orderedMemberEntryIds must be a non-empty array''
         else andThen (mapE (\<lambda>v. requiredString v ''manifest member entry ID'') ordered) (\<lambda>ids.
         Inr (Some \<lparr>mdTransactionId = transactionId, mdOrderedMemberEntryIds = ids,
                    mdUserEntryId = userEntryId, mdMembersSha256 = membersSha256\<rparr>))))))))
   | _ \<Rightarrow> Inr None)"

text \<open>The data object as it is stored in the manifest entry.\<close>

definition manifestDataToJson :: "txManifestData \<Rightarrow> json" where
  "manifestDataToJson d = JObj [(''schemaVersion'', JNum 1), (''transactionId'', JStr (mdTransactionId d)),
     (''orderedMemberEntryIds'', JArr (map JStr (mdOrderedMemberEntryIds d))),
     (''userEntryId'', JStr (mdUserEntryId d)), (''membersSha256'', JStr (mdMembersSha256 d))]"

definition membersDigest :: "(string \<Rightarrow> string) \<Rightarrow> entry list \<Rightarrow> tx_error + string" where
  "membersDigest sha members = sha256CanonicalJson sha (JArr (map entryToJson members))"

definition createTransactionManifestData :: "(string \<Rightarrow> string) \<Rightarrow> string \<Rightarrow> entry list \<Rightarrow> tx_error + txManifestData" where
  "createTransactionManifestData sha transactionId members =
    (if members = [] then invalidTransaction ''Transaction must contain a user member''
     else andThen (mapE (\<lambda>m. andThen (transactionIdForEntry m) (\<lambda>t.
              if t \<noteq> Some transactionId
              then invalidTransaction ''Transaction member IDs must match the manifest transaction ID'' else Inr ())) members) (\<lambda>_.
     let user = last members
     in if \<not> isUserEntry user then invalidTransaction ''Transaction user member must be last''
     else andThen (mapE entryId members) (\<lambda>ids. andThen (entryId user) (\<lambda>userId.
          andThen (membersDigest sha members) (\<lambda>digest.
          Inr \<lparr>mdTransactionId = transactionId, mdOrderedMemberEntryIds = ids,
               mdUserEntryId = userId, mdMembersSha256 = digest\<rparr>)))))"

subsection \<open>Validating a group\<close>

text \<open>The \<open>try\<close> of \<open>validateGroup\<close>: a thrown error becomes the issue with its message.\<close>

definition issueOf :: "tx_error + 'a \<Rightarrow> string + 'a" where
  "issueOf r = (case r of Inl e \<Rightarrow> Inl (errMessage e) | Inr a \<Rightarrow> Inr a)"

primrec checkChain :: "entry \<Rightarrow> entry list \<Rightarrow> string + unit" where
  "checkChain previous [] = Inr ()"
| "checkChain previous (e # es) = andThen (issueOf (parentId e)) (\<lambda>parent.
     andThen (issueOf (entryId previous)) (\<lambda>prev.
     if parent \<noteq> Some prev then Inl ''transaction entries must form one physical ancestor chain''
     else checkChain e es))"

definition hasManifestData :: "entry \<Rightarrow> tx_error + bool" where
  "hasManifestData e = andThen (manifestData e) (\<lambda>d. Inr (case d of None \<Rightarrow> False | Some _ \<Rightarrow> True))"

definition validateGroup :: "(string \<Rightarrow> string) \<Rightarrow> string \<Rightarrow> entry list \<Rightarrow> string + committedTransaction" where
  "validateGroup sha transactionId grp =
    andThen (issueOf (filterE hasManifestData grp)) (\<lambda>manifests.
    if length manifests \<noteq> 1 then Inl ''transaction must have exactly one manifest''
    else let manifest = hd manifests
    in andThen (issueOf (manifestData manifest)) (\<lambda>found. let data = the found in
    if mdTransactionId data \<noteq> transactionId then Inl ''manifest transactionId does not match entry transactionId''
    else let manifestIndex = the (indexOf grp manifest) in
    if int manifestIndex \<noteq> int (length grp) - 2 then Inl ''manifest must precede the final user member''
    else let members = filter (\<lambda>e. e \<noteq> manifest) grp in
    andThen (issueOf (mapE entryId members)) (\<lambda>actualIds.
    andThen (issueOf (mapE entryId grp)) (\<lambda>physicalEntryIds.
    if length (remdups physicalEntryIds) \<noteq> length grp then Inl ''transaction entry IDs must be unique''
    else if actualIds \<noteq> mdOrderedMemberEntryIds data
    then Inl ''manifest ordered member IDs do not match transaction entries''
    else andThen (if members = [] \<or> \<not> isUserEntry (last members) then Inr False
                  else andThen (issueOf (entryId (last members))) (\<lambda>u. Inr (u = mdUserEntryId data))) (\<lambda>userLast.
    if \<not> userLast then Inl ''manifest user member must be the final user entry''
    else andThen (issueOf (membersDigest sha members)) (\<lambda>digest.
    if mdMembersSha256 data \<noteq> digest then Inl ''manifest member digest does not match transaction entries''
    else andThen (issueOf (parentId (hd grp))) (\<lambda>firstParent.
    if (case firstParent of None \<Rightarrow> False | Some p \<Rightarrow> p \<in> set physicalEntryIds)
    then Inl ''first transaction entry parent must be outside its group''
    else andThen (checkChain (hd grp) (tl grp)) (\<lambda>_.
    Inr \<lparr>ctTransactionId = transactionId, ctManifest = manifest, ctPhysicalEntries = grp,
         ctMembers = members, ctUserEntryId = mdUserEntryId data\<rparr>))))))))"

subsection \<open>The committed entries of a file\<close>

text \<open>The first pass: how often each identifier occurs, and the entries without one.\<close>

definition countEntryIds :: "entry list \<Rightarrow> (string \<times> nat) list \<times> txDiagnostic list" where
  "countEntryIds entries = foldl (\<lambda>(counts, diags) e. case entryId e of
       Inl err \<Rightarrow> (counts, diags @ [\<lparr>dgMessage = errMessage err, dgTransactionId = None\<rparr>])
     | Inr i \<Rightarrow> (alistSet i ((case map_of counts i of None \<Rightarrow> 0 | Some n \<Rightarrow> n) + 1) counts, diags)) ([], []) entries"

definition duplicateEntryIds :: "entry list \<Rightarrow> string list" where
  "duplicateEntryIds entries = map fst (filter (\<lambda>(i, n). n > 1) (fst (countEntryIds entries)))"

text \<open>The second pass: the groups, in the order of their first entries.\<close>

definition collectGroups :: "entry list \<Rightarrow> (string \<times> entry list) list \<times> txDiagnostic list" where
  "collectGroups entries = foldl (\<lambda>(groups, diags) e. case transactionIdForEntry e of
       Inl err \<Rightarrow> (groups, diags @ [\<lparr>dgMessage = errMessage err, dgTransactionId = None\<rparr>])
     | Inr None \<Rightarrow> (groups, diags)
     | Inr (Some t) \<Rightarrow> (alistSet t ((case map_of groups t of None \<Rightarrow> [] | Some g \<Rightarrow> g) @ [e]) groups, diags)) ([], []) entries"

definition unusableEntry :: "string list \<Rightarrow> entry \<Rightarrow> bool" where
  "unusableEntry duplicates e = (case entryId e of Inl _ \<Rightarrow> True | Inr i \<Rightarrow> i \<in> set duplicates)"

definition commitGroups :: "(string \<Rightarrow> string) \<Rightarrow> string list \<Rightarrow> (string \<times> entry list) list
    \<Rightarrow> (string \<times> committedTransaction) list \<times> txDiagnostic list" where
  "commitGroups sha duplicates groups = foldl (\<lambda>(committed, diags) (t, grp).
     if list_ex (unusableEntry duplicates) grp then (committed, diags)
     else case validateGroup sha t grp of
       Inr tx \<Rightarrow> (committed @ [(t, tx)], diags)
     | Inl issue \<Rightarrow> (committed, diags @ [\<lparr>dgMessage = issue, dgTransactionId = Some t\<rparr>])) ([], []) groups"

definition visibleEntry :: "string list \<Rightarrow> string list \<Rightarrow> entry \<Rightarrow> bool" where
  "visibleEntry duplicates committedIds e =
    (\<not> unusableEntry duplicates e \<and> (case transactionIdForEntry e of
       Inl _ \<Rightarrow> False | Inr None \<Rightarrow> True | Inr (Some t) \<Rightarrow> t \<in> set committedIds))"

definition filterCommittedTransactionEntries :: "(string \<Rightarrow> string) \<Rightarrow> entry list \<Rightarrow> committedEntriesResult" where
  "filterCommittedTransactionEntries sha entries =
    (let (_, idDiagnostics) = countEntryIds entries;
         duplicates = duplicateEntryIds entries;
         duplicateDiagnostics = map (\<lambda>i. \<lparr>dgMessage = ''duplicate session entry ID '' @ i, dgTransactionId = None\<rparr>) duplicates;
         (groups, groupDiagnostics) = collectGroups entries;
         (committed, commitDiagnostics) = commitGroups sha duplicates groups
     in \<lparr>crEntries = filter (visibleEntry duplicates (map fst committed)) entries,
         crDiagnostics = idDiagnostics @ duplicateDiagnostics @ groupDiagnostics @ commitDiagnostics,
         crCommittedIds = map fst committed, crCommitted = committed\<rparr>)"

subsection \<open>Appending and forking\<close>

text \<open>The loop of \<open>validateSessionEntriesForAppend\<close>; the catch clause rethrows with one error code.\<close>

definition rethrowInvalid :: "tx_error + 'a \<Rightarrow> tx_error + 'a" where
  "rethrowInvalid r = (case r of Inl e \<Rightarrow> invalidTransaction (errMessage e) | Inr a \<Rightarrow> Inr a)"

definition checkAppendEntry :: "(string \<Rightarrow> bool) \<Rightarrow> (string \<Rightarrow> bool) \<Rightarrow> string list \<Rightarrow> entry \<Rightarrow> tx_error + string" where
  "checkAppendEntry hasId hasTx batchIds e = rethrowInvalid (
     andThen (entryId e) (\<lambda>i.
     if hasId i \<or> i \<in> set batchIds then invalidTransaction (''duplicate session entry ID '' @ i)
     else andThen (parentId e) (\<lambda>parent.
     if (case parent of None \<Rightarrow> False | Some p \<Rightarrow> \<not> hasId p \<and> p \<notin> set batchIds)
     then invalidTransaction (''entry parentId '' @ the parent @ '' not found'')
     else andThen (transactionIdForEntry e) (\<lambda>t.
     if (case t of None \<Rightarrow> False | Some t \<Rightarrow> hasTx t)
     then invalidTransaction (''duplicate session transaction ID '' @ the t)
     else Inr i))))"

primrec checkAppendBatch :: "(string \<Rightarrow> bool) \<Rightarrow> (string \<Rightarrow> bool) \<Rightarrow> string list \<Rightarrow> entry list \<Rightarrow> tx_error + unit" where
  "checkAppendBatch hasId hasTx batchIds [] = Inr ()"
| "checkAppendBatch hasId hasTx batchIds (e # es) =
    andThen (checkAppendEntry hasId hasTx batchIds e) (\<lambda>i. checkAppendBatch hasId hasTx (batchIds @ [i]) es)"

definition validateSessionEntriesForAppend :: "(string \<Rightarrow> string) \<Rightarrow> (string \<Rightarrow> bool) \<Rightarrow> (string \<Rightarrow> bool) \<Rightarrow> entry list \<Rightarrow> tx_error + unit" where
  "validateSessionEntriesForAppend sha hasId hasTx batch =
    andThen (checkAppendBatch hasId hasTx [] batch) (\<lambda>_.
    let result = filterCommittedTransactionEntries sha batch
    in if crDiagnostics result \<noteq> [] then invalidTransaction (dgMessage (hd (crDiagnostics result)))
    else if crEntries result \<noteq> batch then invalidTransaction ''session entries did not form complete transactions''
    else Inr ())"

datatype fork_position = ForkBefore | ForkAt

definition getTransactionForkBoundary :: "(string \<Rightarrow> string) \<Rightarrow> entry list \<Rightarrow> string \<Rightarrow> fork_position \<Rightarrow> string option" where
  "getTransactionForkBoundary sha entries entryIdToFork position =
    (let result = filterCommittedTransactionEntries sha entries
     in case find (\<lambda>e. entryId e = Inr entryIdToFork) (crEntries result) of
       None \<Rightarrow> None
     | Some target \<Rightarrow> (case transactionIdForEntry target of
         Inl _ \<Rightarrow> None
       | Inr tx \<Rightarrow>
         if position = ForkAt then (case entryId target of Inl _ \<Rightarrow> None | Inr i \<Rightarrow> Some i)
         else (case tx of
             None \<Rightarrow> eParent target
           | Some t \<Rightarrow> (case map_of (crCommitted result) t of
               None \<Rightarrow> None
             | Some transaction \<Rightarrow> eParent (hd (ctPhysicalEntries transaction))))))"

subsection \<open>What the passes compute\<close>

definition groupOf :: "entry list \<Rightarrow> string \<Rightarrow> entry list" where
  "groupOf es t = filter (\<lambda>e. eTx e = Some t) es"

definition occurrences :: "entry list \<Rightarrow> string \<Rightarrow> nat" where
  "occurrences es i = length (filter (\<lambda>e. eId e = i) es)"

text \<open>An entry the filter can use: it has an identifier that no other entry of the file has.\<close>

definition usable :: "entry list \<Rightarrow> entry \<Rightarrow> bool" where
  "usable es e \<longleftrightarrow> eId e \<noteq> [] \<and> occurrences es (eId e) \<le> 1"

definition committedIn :: "(string \<Rightarrow> string) \<Rightarrow> entry list \<Rightarrow> string \<Rightarrow> committedTransaction option" where
  "committedIn sha es t =
    (if t \<noteq> [] \<and> groupOf es t \<noteq> [] \<and> list_all (usable es) (groupOf es t)
     then (case validateGroup sha t (groupOf es t) of Inl _ \<Rightarrow> None | Inr tx \<Rightarrow> Some tx) else None)"

definition visibleIn :: "(string \<Rightarrow> string) \<Rightarrow> entry list \<Rightarrow> entry \<Rightarrow> bool" where
  "visibleIn sha es e \<longleftrightarrow>
    usable es e \<and> (case eTx e of None \<Rightarrow> True | Some t \<Rightarrow> committedIn sha es t \<noteq> None)"

lemma entryId_eq: "entryId e = (if eId e = [] then invalidTransaction ''entry ID must be a non-empty string'' else Inr (eId e))"
  by (simp add: entryId_def requiredString_def)

lemma entryId_Inr [simp]: "entryId e = Inr i \<longleftrightarrow> i = eId e \<and> eId e \<noteq> []"
  by (auto simp: entryId_eq invalidTransaction_def)

lemma entryId_ok: "eId e \<noteq> [] \<Longrightarrow> entryId e = Inr (eId e)"
  by simp

lemma transactionIdForEntry_Inr:
  "transactionIdForEntry e = Inr t \<longleftrightarrow> t = eTx e \<and> eTx e \<noteq> Some []"
  by (auto simp: transactionIdForEntry_def requiredString_def invalidTransaction_def split: option.split)

lemma transactionIdForEntry_ok [simp]: "eTx e \<noteq> Some [] \<Longrightarrow> transactionIdForEntry e = Inr (eTx e)"
  by (simp add: transactionIdForEntry_Inr)

lemma transactionIdForEntry_cases:
  "eTx e = Some [] \<Longrightarrow> \<exists>err. transactionIdForEntry e = Inl err"
  by (simp add: transactionIdForEntry_def requiredString_def invalidTransaction_def)

lemma countEntryIds_snoc: "countEntryIds (es @ [e]) = (if eId e = []
    then (fst (countEntryIds es), snd (countEntryIds es) @ [\<lparr>dgMessage = ''entry ID must be a non-empty string'', dgTransactionId = None\<rparr>])
    else (alistSet (eId e) ((case map_of (fst (countEntryIds es)) (eId e) of None \<Rightarrow> 0 | Some n \<Rightarrow> n) + 1) (fst (countEntryIds es)),
          snd (countEntryIds es)))"
  by (simp add: countEntryIds_def entryId_eq invalidTransaction_def split: prod.split)

lemma occurrences_snoc: "occurrences (es @ [e]) i = occurrences es i + (if eId e = i then 1 else 0)"
  by (simp add: occurrences_def)

lemma countEntryIds_spec:
  "distinct (map fst (fst (countEntryIds es)))
   \<and> map_of (fst (countEntryIds es)) i = (if i = [] \<or> occurrences es i = 0 then None else Some (occurrences es i))
   \<and> (snd (countEntryIds es) = [] \<longleftrightarrow> (\<forall>e \<in> set es. eId e \<noteq> []))"
  by (induction es rule: rev_induct)
    (auto simp: countEntryIds_snoc occurrences_snoc distinct_alistSet countEntryIds_def [of "[]"]
      occurrences_def [of "[]"] simp del: map_of_eq_Some_iff)

lemma set_duplicateEntryIds: "set (duplicateEntryIds es) = {i. i \<noteq> [] \<and> occurrences es i > 1}"
proof -
  have "(i, n) \<in> set (fst (countEntryIds es)) \<longleftrightarrow> map_of (fst (countEntryIds es)) i = Some n" for i n
    using countEntryIds_spec by (metis map_of_eq_Some_iff)
  then show ?thesis
    using countEntryIds_spec [of es] by (force simp: duplicateEntryIds_def image_iff split: if_splits)
qed

lemma unusableEntry_eq [simp]: "unusableEntry (duplicateEntryIds es) e \<longleftrightarrow> \<not> usable es e"
  by (auto simp: unusableEntry_def entryId_eq invalidTransaction_def usable_def set_duplicateEntryIds)

lemma collectGroups_snoc: "collectGroups (es @ [e]) = (case transactionIdForEntry e of
     Inl err \<Rightarrow> (fst (collectGroups es), snd (collectGroups es) @ [\<lparr>dgMessage = errMessage err, dgTransactionId = None\<rparr>])
   | Inr None \<Rightarrow> collectGroups es
   | Inr (Some t) \<Rightarrow> (alistSet t ((case map_of (fst (collectGroups es)) t of None \<Rightarrow> [] | Some g \<Rightarrow> g) @ [e])
       (fst (collectGroups es)), snd (collectGroups es)))"
  by (simp add: collectGroups_def case_prod_beta prod_eq_iff split: sum.split option.split)

lemma groupOf_snoc: "groupOf (es @ [e]) t = groupOf es t @ (if eTx e = Some t then [e] else [])"
  by (simp add: groupOf_def)

lemma collectGroups_spec:
  "distinct (map fst (fst (collectGroups es)))
   \<and> map_of (fst (collectGroups es)) t = (if t = [] \<or> groupOf es t = [] then None else Some (groupOf es t))
   \<and> (snd (collectGroups es) = [] \<longleftrightarrow> (\<forall>e \<in> set es. eTx e \<noteq> Some []))"
proof (induction es arbitrary: t rule: rev_induct)
  case Nil
  show ?case by (simp add: collectGroups_def groupOf_def)
next
  case (snoc e es)
  show ?case
  proof (cases "eTx e = Some []")
    case True
    then obtain err where "transactionIdForEntry e = Inl err" using transactionIdForEntry_cases by blast
    with True snoc.IH show ?thesis by (auto simp: collectGroups_snoc groupOf_snoc)
  next
    case False
    with snoc.IH show ?thesis
      by (cases "eTx e") (auto simp: collectGroups_snoc groupOf_snoc distinct_alistSet)
  qed
qed

definition commitOne :: "(string \<Rightarrow> string) \<Rightarrow> string list \<Rightarrow> string \<times> entry list \<Rightarrow> (string \<times> committedTransaction) option" where
  "commitOne sha dups tg = (if list_ex (unusableEntry dups) (snd tg) then None
     else case validateGroup sha (fst tg) (snd tg) of Inl _ \<Rightarrow> None | Inr tx \<Rightarrow> Some (fst tg, tx))"

lemma commitGroups_snoc: "commitGroups sha dups (gs @ [tg]) =
   (fst (commitGroups sha dups gs) @ (case commitOne sha dups tg of None \<Rightarrow> [] | Some c \<Rightarrow> [c]),
    snd (commitGroups sha dups gs) @ (if list_ex (unusableEntry dups) (snd tg) then []
      else case validateGroup sha (fst tg) (snd tg) of
        Inl issue \<Rightarrow> [\<lparr>dgMessage = issue, dgTransactionId = Some (fst tg)\<rparr>] | Inr _ \<Rightarrow> []))"
  by (simp add: commitGroups_def commitOne_def case_prod_beta prod_eq_iff split: sum.split)

lemma commitGroups_spec:
  "fst (commitGroups sha dups gs) = List.map_filter (commitOne sha dups) gs
   \<and> (snd (commitGroups sha dups gs) = [] \<longleftrightarrow> (\<forall>tg \<in> set gs. list_ex (unusableEntry dups) (snd tg)
         \<or> (\<exists>tx. validateGroup sha (fst tg) (snd tg) = Inr tx)))"
proof (induction gs rule: rev_induct)
  case Nil
  show ?case by (simp add: commitGroups_def List.map_filter_def)
next
  case (snoc tg gs)
  then show ?case
    by (auto simp: commitGroups_snoc List.map_filter_def split: option.splits sum.splits)
qed

lemma commitOne_fst: "commitOne sha dups tg = Some c \<Longrightarrow> fst c = fst tg"
  by (auto simp: commitOne_def split: if_splits sum.splits)

lemma map_filter_commitOne_None: "map_of gs t = None \<Longrightarrow> map_of (List.map_filter (commitOne sha dups) gs) t = None"
  by (induction gs) (auto simp: map_filter_simps dest: commitOne_fst split: if_splits option.splits)

lemma map_of_commitGroups:
  assumes "distinct (map fst gs)"
  shows "map_of (List.map_filter (commitOne sha dups) gs) t
    = (case map_of gs t of None \<Rightarrow> None | Some g \<Rightarrow> map_option snd (commitOne sha dups (t, g)))"
  using assms
proof (induction gs)
  case (Cons tg gs)
  then have "map_of gs (fst tg) = None" by (simp add: map_of_eq_None_iff)
  moreover from this have "map_of (List.map_filter (commitOne sha dups) gs) (fst tg) = None"
    by (rule map_filter_commitOne_None)
  ultimately show ?case using Cons
    by (cases "commitOne sha dups tg") (auto simp: map_filter_simps dest: commitOne_fst)
qed (simp add: List.map_filter_def)

text \<open>The filter refines its specification.\<close>

lemma map_of_crCommitted: "map_of (crCommitted (filterCommittedTransactionEntries sha es)) t = committedIn sha es t"
proof -
  have "map_of (crCommitted (filterCommittedTransactionEntries sha es)) t
      = map_of (fst (commitGroups sha (duplicateEntryIds es) (fst (collectGroups es)))) t"
    by (simp add: filterCommittedTransactionEntries_def case_prod_beta Let_def)
  then show ?thesis
    using collectGroups_spec [of es t] conjunct1 [OF commitGroups_spec]
    by (auto simp: map_of_commitGroups commitOne_def committedIn_def list_ex_iff list_all_iff split: sum.split)
qed

lemma crCommittedIds_eq: "crCommittedIds (filterCommittedTransactionEntries sha es)
    = map fst (crCommitted (filterCommittedTransactionEntries sha es))"
  by (simp add: filterCommittedTransactionEntries_def case_prod_beta Let_def)

lemma in_crCommittedIds: "t \<in> set (crCommittedIds (filterCommittedTransactionEntries sha es)) \<longleftrightarrow> committedIn sha es t \<noteq> None"
proof -
  have "t \<in> fst ` set ps \<longleftrightarrow> map_of ps t \<noteq> None" for ps :: "(string \<times> committedTransaction) list"
    by (metis map_of_eq_None_iff)
  then show ?thesis by (simp only: crCommittedIds_eq set_map map_of_crCommitted)
qed

lemma committedIn_nonempty: "committedIn sha es t = Some tx \<Longrightarrow> t \<noteq> []"
  by (simp add: committedIn_def split: if_splits)

lemma crEntries_eq: "crEntries (filterCommittedTransactionEntries sha es) = filter (visibleIn sha es) es"
proof -
  let ?r = "filterCommittedTransactionEntries sha es"
  have "crEntries ?r = filter (visibleEntry (duplicateEntryIds es) (crCommittedIds ?r)) es"
    by (simp add: filterCommittedTransactionEntries_def case_prod_beta Let_def)
  moreover have "visibleEntry (duplicateEntryIds es) (crCommittedIds ?r) = visibleIn sha es"
  proof (rule ext)
    fix e
    show "visibleEntry (duplicateEntryIds es) (crCommittedIds ?r) e = visibleIn sha es e"
    proof (cases "eTx e = Some []")
    case True
    then obtain err where "transactionIdForEntry e = Inl err" using transactionIdForEntry_cases by blast
    then show ?thesis using True committedIn_nonempty
      by (fastforce simp: visibleEntry_def visibleIn_def)
  next
    case False
    then show ?thesis
      by (cases "eTx e") (simp_all add: visibleEntry_def visibleIn_def in_crCommittedIds)
    qed
  qed
  ultimately show ?thesis by simp
qed

lemma crDiagnostics_eq: "crDiagnostics (filterCommittedTransactionEntries sha es) =
    snd (countEntryIds es)
    @ map (\<lambda>i. \<lparr>dgMessage = ''duplicate session entry ID '' @ i, dgTransactionId = None\<rparr>) (duplicateEntryIds es)
    @ snd (collectGroups es) @ snd (commitGroups sha (duplicateEntryIds es) (fst (collectGroups es)))"
  by (simp add: filterCommittedTransactionEntries_def case_prod_beta Let_def)

lemma pass_diagnostics:
  "snd (countEntryIds es) = [] \<longleftrightarrow> (\<forall>e \<in> set es. eId e \<noteq> [])"
  "snd (collectGroups es) = [] \<longleftrightarrow> (\<forall>e \<in> set es. eTx e \<noteq> Some [])"
  "snd (commitGroups sha dups gs) = [] \<longleftrightarrow> (\<forall>tg \<in> set gs. list_ex (unusableEntry dups) (snd tg)
         \<or> (\<exists>tx. validateGroup sha (fst tg) (snd tg) = Inr tx))"
  using countEntryIds_spec [of es] collectGroups_spec [of es] commitGroups_spec [of sha dups gs] by blast+

lemma occurrences_pos: "occurrences es i > 0 \<Longrightarrow> \<exists>e \<in> set es. eId e = i"
  by (auto simp: occurrences_def filter_empty_conv)

lemma duplicateEntryIds_Nil: "duplicateEntryIds es = [] \<longleftrightarrow> (\<forall>e \<in> set es. eId e \<noteq> [] \<longrightarrow> occurrences es (eId e) \<le> 1)"
proof -
  have "duplicateEntryIds es = [] \<longleftrightarrow> (\<forall>i. i \<noteq> [] \<longrightarrow> occurrences es i \<le> 1)"
    unfolding set_empty [symmetric] set_duplicateEntryIds by (auto simp: not_less)
  also have "\<dots> \<longleftrightarrow> (\<forall>e \<in> set es. eId e \<noteq> [] \<longrightarrow> occurrences es (eId e) \<le> 1)"
    using occurrences_pos [of es] by (metis le_0_eq less_one not_gr_zero nat_le_linear)
  finally show ?thesis .
qed

lemma crDiagnostics_empty: "crDiagnostics (filterCommittedTransactionEntries sha es) = [] \<longleftrightarrow>
    (\<forall>e \<in> set es. usable es e \<and> eTx e \<noteq> Some []
      \<and> (\<forall>t. eTx e = Some t \<longrightarrow> committedIn sha es t \<noteq> None))"
  (is "?L \<longleftrightarrow> ?R")
proof -
  note dup = duplicateEntryIds_Nil
  let ?gs = "fst (collectGroups es)"
  have mem: "(t, g) \<in> set ?gs \<longleftrightarrow> t \<noteq> [] \<and> groupOf es t \<noteq> [] \<and> g = groupOf es t" for t g
    using collectGroups_spec [of es t] by (auto simp: map_of_eq_Some_iff [symmetric] split: if_splits)
  have L: "?L \<longleftrightarrow> (\<forall>e \<in> set es. eId e \<noteq> []) \<and> duplicateEntryIds es = [] \<and> (\<forall>e \<in> set es. eTx e \<noteq> Some [])
      \<and> (\<forall>tg \<in> set ?gs. list_ex (unusableEntry (duplicateEntryIds es)) (snd tg)
         \<or> (\<exists>tx. validateGroup sha (fst tg) (snd tg) = Inr tx))"
    unfolding crDiagnostics_eq append_is_Nil_conv map_is_Nil_conv pass_diagnostics by blast
  show ?thesis
  proof
    assume ?L
    with L have ok: "\<forall>e \<in> set es. usable es e \<and> eTx e \<noteq> Some []" unfolding dup by (auto simp: usable_def)
    have "committedIn sha es t \<noteq> None" if "e \<in> set es" "eTx e = Some t" for e t
    proof -
      have t: "t \<noteq> []" "groupOf es t \<noteq> []" using that ok by (auto simp: groupOf_def filter_empty_conv)
      moreover have all: "\<forall>x \<in> set (groupOf es t). usable es x" using ok by (auto simp: groupOf_def)
      have "(t, groupOf es t) \<in> set ?gs" using t by (simp add: mem)
      with \<open>?L\<close> L have "list_ex (unusableEntry (duplicateEntryIds es)) (groupOf es t)
          \<or> (\<exists>tx. validateGroup sha t (groupOf es t) = Inr tx)"
        by (metis fst_conv snd_conv)
      with all have "\<exists>tx. validateGroup sha t (groupOf es t) = Inr tx" by (simp add: list_ex_iff)
      ultimately show ?thesis using all by (auto simp: committedIn_def list_all_iff)
    qed
    with ok show ?R by blast
  next
    assume R: ?R
    have "list_ex (unusableEntry (duplicateEntryIds es)) g \<or> (\<exists>tx. validateGroup sha t g = Inr tx)"
      if "(t, g) \<in> set ?gs" for t g
    proof -
      have g: "g = groupOf es t" "g \<noteq> []" using that by (auto simp: mem)
      then obtain e where "e \<in> set es" "eTx e = Some t" by (auto simp: groupOf_def filter_empty_conv)
      with R have "committedIn sha es t \<noteq> None" by blast
      then show ?thesis using g by (auto simp: committedIn_def split: if_splits sum.splits)
    qed
    then show ?L using R unfolding L dup by (auto simp: usable_def)
  qed
qed

subsection \<open>What a valid group is\<close>

primrec chained :: "entry list \<Rightarrow> bool" where
  "chained [] \<longleftrightarrow> True"
| "chained (e # es) \<longleftrightarrow> (case es of [] \<Rightarrow> True | f # _ \<Rightarrow> eParent f = Some (eId e)) \<and> chained es"

definition outside :: "string option \<Rightarrow> entry list \<Rightarrow> bool" where
  "outside p g \<longleftrightarrow> (\<forall>e \<in> set g. p \<noteq> Some (eId e))"

text \<open>Members \<open>us @ [u]\<close> with the manifest \<open>m\<close> of data \<open>d\<close> before the user entry \<open>u\<close>.\<close>

definition wellFormedGroup :: "(string \<Rightarrow> string) \<Rightarrow> string \<Rightarrow> entry list \<Rightarrow> entry \<Rightarrow> entry \<Rightarrow> txManifestData \<Rightarrow> bool" where
  "wellFormedGroup sha t us m u d \<longleftrightarrow>
     manifestData m = Inr (Some d) \<and> (\<forall>e \<in> set us. manifestData e = Inr None) \<and> isUserEntry u
     \<and> mdTransactionId d = t \<and> mdOrderedMemberEntryIds d = map eId (us @ [u]) \<and> mdUserEntryId d = eId u
     \<and> membersDigest sha (us @ [u]) = Inr (mdMembersSha256 d)
     \<and> distinct (map eId (us @ [m, u])) \<and> (\<forall>e \<in> set (us @ [m, u]). eId e \<noteq> [])
     \<and> chained (us @ [m, u]) \<and> outside (eParent (hd (us @ [m, u]))) (us @ [m, u])"

definition committedOf :: "string \<Rightarrow> entry list \<Rightarrow> entry \<Rightarrow> entry \<Rightarrow> committedTransaction" where
  "committedOf t us m u = \<lparr>ctTransactionId = t, ctManifest = m, ctPhysicalEntries = us @ [m, u],
     ctMembers = us @ [u], ctUserEntryId = eId u\<rparr>"

lemma issueOf_Inr [simp]: "issueOf r = Inr a \<longleftrightarrow> r = Inr a"
  by (cases r) (simp_all add: issueOf_def)

lemma mapE_entryId [simp]: "mapE entryId es = Inr ids \<longleftrightarrow> ids = map eId es \<and> (\<forall>e \<in> set es. eId e \<noteq> [])"
  by (induction es arbitrary: ids) auto

lemma user_not_manifest: "isUserEntry e \<Longrightarrow> manifestData e = Inr None"
  by (auto simp: isUserEntry_def manifestData_def split: entry_kind.splits)

lemma checkChain_Inr: "\<forall>e \<in> set (p # es). eId e \<noteq> [] \<Longrightarrow> checkChain p es = Inr u \<longleftrightarrow> chained (p # es)"
  by (induction es arbitrary: p) (auto simp: parentId_def)

text \<open>
  The first checks find the manifest: exactly one, last but one, so the group is \<open>us @ [m, u]\<close>.
\<close>

abbreviation manifestsOf :: "entry list \<Rightarrow> entry list" where
  "manifestsOf g \<equiv> filter (\<lambda>e. \<exists>d. manifestData e = Inr (Some d)) g"

lemma manifests_Inr [simp]: "filterE hasManifestData g = Inr ms \<longleftrightarrow>
    ms = manifestsOf g \<and> (\<forall>e \<in> set g. \<exists>d. manifestData e = Inr d)"
proof -
  have "(\<lambda>e. hasManifestData e = Inr True) = (\<lambda>e. \<exists>d. manifestData e = Inr (Some d))"
    by (rule ext) (auto simp: hasManifestData_def split: option.splits)
  moreover have "(\<exists>b. hasManifestData e = Inr b) \<longleftrightarrow> (\<exists>d. manifestData e = Inr d)" for e
    by (simp add: hasManifestData_def)
  ultimately show ?thesis by (simp add: filterE_Inr)
qed

lemma group_shape:
  assumes "manifestsOf g = [m]" "\<forall>e \<in> set g. \<exists>d. manifestData e = Inr d"
    and "int (the (indexOf g m)) = int (length g) - 2"
  obtains us u where "g = us @ [m, u]" "\<forall>e \<in> set us. manifestData e = Inr None" "manifestData u = Inr None" "u \<noteq> m"
proof -
  from filter_eq_singletonD [OF assms(1)] obtain us vs
    where g: "g = us @ m # vs" "\<exists>d. manifestData m = Inr (Some d)"
      "\<forall>x \<in> set us \<union> set vs. \<not> (\<exists>d. manifestData x = Inr (Some d))" by metis
  have none: "manifestData x = Inr None" if "x \<in> set us \<union> set vs" for x
    using that g assms(2) by (metis UnE in_set_conv_decomp not_Some_eq set_append UnCI list.set_intros(2))
  have "indexOf g m = Some (length us)"
    using g by (subst g(1), subst findIndex_append_notin) (auto simp del: findIndex_None)
  with assms(3) g have "length vs = 1" by simp
  then obtain u where "vs = [u]" by (metis One_nat_def length_0_conv length_Suc_conv)
  with g none show thesis by (intro that [of us u]) auto
qed

text \<open>\<open>validateGroup\<close> accepts exactly when all its checks pass.\<close>

definition groupChecks :: "(string \<Rightarrow> string) \<Rightarrow> string \<Rightarrow> entry list \<Rightarrow> entry \<Rightarrow> txManifestData \<Rightarrow> bool" where
  "groupChecks sha t g m d \<longleftrightarrow>
     (let members = filter (\<lambda>e. e \<noteq> m) g in
      manifestsOf g = [m] \<and> (\<forall>e \<in> set g. \<exists>d. manifestData e = Inr d)
      \<and> manifestData m = Inr (Some d) \<and> mdTransactionId d = t \<and> int (the (indexOf g m)) = int (length g) - 2
      \<and> (\<forall>e \<in> set g. eId e \<noteq> []) \<and> distinct (map eId g) \<and> map eId members = mdOrderedMemberEntryIds d
      \<and> members \<noteq> [] \<and> isUserEntry (last members) \<and> eId (last members) = mdUserEntryId d
      \<and> membersDigest sha members = Inr (mdMembersSha256 d) \<and> outside (eParent (hd g)) g
      \<and> checkChain (hd g) (tl g) = Inr ())"

lemma remdups_length_distinct: "length (remdups (map f xs)) = length xs \<longleftrightarrow> distinct (map f xs)"
  by (metis length_map length_remdups_eq remdups_id_iff_distinct)

lemma userLast_Inr: "(if members = [] \<or> \<not> isUserEntry (last members) then Inr False
      else andThen (issueOf (entryId (last members))) (\<lambda>u. Inr (u = x))) = Inr True
    \<longleftrightarrow> members \<noteq> [] \<and> isUserEntry (last members) \<and> eId (last members) = x \<and> eId (last members) \<noteq> []"
  by auto

lemma outside_eq: "\<not> (case p of None \<Rightarrow> False | Some x \<Rightarrow> x \<in> set (map eId g)) \<longleftrightarrow> outside p g"
  by (auto simp: outside_def split: option.split)

lemma validateGroup_Inr: "validateGroup sha t g = Inr tx \<longleftrightarrow>
    (\<exists>m d. groupChecks sha t g m d \<and> tx = \<lparr>ctTransactionId = t, ctManifest = m, ctPhysicalEntries = g,
        ctMembers = filter (\<lambda>e. e \<noteq> m) g, ctUserEntryId = mdUserEntryId d\<rparr>)"
proof (cases "\<exists>m. manifestsOf g = [m] \<and> (\<forall>e \<in> set g. \<exists>d. manifestData e = Inr d)")
  case False
  then have "\<not> groupChecks sha t g m d" for m d by (auto simp: groupChecks_def Let_def)
  moreover have "validateGroup sha t g \<noteq> Inr tx"
    using False by (simp add: validateGroup_def length_Suc_conv) blast
  ultimately show ?thesis by blast
next
  case True
  then obtain m where ms: "manifestsOf g = [m]"
    and ok: "\<forall>e \<in> set g. \<exists>d. manifestData e = Inr d" by blast
  from ms have "m \<in> set (manifestsOf g)" by simp
  then obtain d where d: "manifestData m = Inr (Some d)" by auto
  have found: "filterE hasManifestData g = Inr [m]" using ms ok by simp
  have "groupChecks sha t g m' d' \<Longrightarrow> m' = m \<and> d' = d" for m' d'
    using ms d by (simp add: groupChecks_def Let_def)
  then have "(\<exists>m d. groupChecks sha t g m d \<and> P m d) \<longleftrightarrow> groupChecks sha t g m d \<and> P m d" for P
    by blast
  note rhs = this
  have lastIn: "filter (\<lambda>e. e \<noteq> m) g \<noteq> [] \<longrightarrow> last (filter (\<lambda>e. e \<noteq> m) g) \<in> set g"
    using last_in_set by fastforce
  show ?thesis unfolding rhs
    by (simp add: validateGroup_def found d Let_def userLast_Inr remdups_length_distinct outside_eq
        parentId_def groupChecks_def ms ok del: set_map) (use lastIn in blast)
qed

lemma wellFormedGroup_shape:
  assumes "manifestData m = Inr (Some d)" "\<forall>e \<in> set us. manifestData e = Inr None" "isUserEntry u"
    and "distinct (map eId (us @ [m, u]))"
  shows "manifestsOf (us @ [m, u]) = [m]" "filter (\<lambda>e. e \<noteq> m) (us @ [m, u]) = us @ [u]"
    "int (the (indexOf (us @ [m, u]) m)) = int (length (us @ [m, u])) - 2"
proof -
  have nu: "manifestData u = Inr None" using assms(3) by (rule user_not_manifest)
  have um: "u \<noteq> m" using nu assms(1) by auto
  have us: "\<forall>e \<in> set us. e \<noteq> m" using assms(1,2) by auto
  show "manifestsOf (us @ [m, u]) = [m]" using assms(1,2) nu by (auto simp: filter_empty_conv)
  show "filter (\<lambda>e. e \<noteq> m) (us @ [m, u]) = us @ [u]" using us um by (auto simp: filter_id_conv)
  have "indexOf (us @ [m, u]) m = Some (length us)"
    using us by (subst findIndex_append_notin) (auto simp del: findIndex_None)
  then show "int (the (indexOf (us @ [m, u]) m)) = int (length (us @ [m, u])) - 2" by simp
qed

lemma validateGroup_intro:
  assumes "wellFormedGroup sha t us m u d"
  shows "validateGroup sha t (us @ [m, u]) = Inr (committedOf t us m u)"
proof -
  let ?g = "us @ [m, u]"
  note wf = assms [unfolded wellFormedGroup_def]
  have shape: "manifestsOf ?g = [m]" "filter (\<lambda>e. e \<noteq> m) ?g = us @ [u]"
    "int (the (indexOf ?g m)) = int (length ?g) - 2"
    using wellFormedGroup_shape [of m d us u] wf by blast+
  have "\<forall>e \<in> set ?g. \<exists>d. manifestData e = Inr d" using wf user_not_manifest by auto
  moreover have "checkChain (hd ?g) (tl ?g) = Inr ()"
    using checkChain_Inr [of "hd ?g" "tl ?g" "()"] wf by simp
  ultimately have "groupChecks sha t ?g m d"
    unfolding groupChecks_def Let_def shape(1,2) using wf shape(3) by simp
  then show ?thesis unfolding validateGroup_Inr
    by (intro exI [of _ m] exI [of _ d]) (use wf shape(2) in \<open>simp add: committedOf_def\<close>)
qed

lemma validateGroup_dest:
  assumes "validateGroup sha t g = Inr tx"
  shows "\<exists>us m u d. g = us @ [m, u] \<and> wellFormedGroup sha t us m u d \<and> tx = committedOf t us m u"
proof -
  from assms obtain m d where c: "groupChecks sha t g m d"
    and tx: "tx = \<lparr>ctTransactionId = t, ctManifest = m, ctPhysicalEntries = g,
        ctMembers = filter (\<lambda>e. e \<noteq> m) g, ctUserEntryId = mdUserEntryId d\<rparr>"
    unfolding validateGroup_Inr by blast
  note c = c [unfolded groupChecks_def Let_def]
  obtain us u where g: "g = us @ [m, u]" "\<forall>e \<in> set us. manifestData e = Inr None" "manifestData u = Inr None" "u \<noteq> m"
    using group_shape [of g m] c by blast
  have mem: "filter (\<lambda>e. e \<noteq> m) g = us @ [u]" using g c by (auto simp: filter_id_conv)
  have "chained g"
    using checkChain_Inr [of "hd g" "tl g" "()"] c g(1) by simp
  moreover have "mdOrderedMemberEntryIds d = map eId (us @ [u])" using c unfolding mem by metis
  ultimately have "wellFormedGroup sha t us m u d"
    using c g(2) unfolding mem wellFormedGroup_def g(1) [symmetric] by simp
  then show ?thesis using g(1) tx mem c by (auto simp: committedOf_def)
qed

subsection \<open>Clean files\<close>

text \<open>A file about which the filter has nothing to report; it then drops nothing.\<close>

definition clean :: "(string \<Rightarrow> string) \<Rightarrow> entry list \<Rightarrow> bool" where
  "clean sha es \<longleftrightarrow> crDiagnostics (filterCommittedTransactionEntries sha es) = []"

lemma clean_iff: "clean sha es \<longleftrightarrow>
    (\<forall>e \<in> set es. usable es e \<and> eTx e \<noteq> Some [] \<and> (\<forall>t. eTx e = Some t \<longrightarrow> committedIn sha es t \<noteq> None))"
  unfolding clean_def by (rule crDiagnostics_empty)

lemma clean_visible: "clean sha es \<longleftrightarrow> (\<forall>e \<in> set es. visibleIn sha es e)"
  unfolding clean_iff visibleIn_def
  by (auto split: option.splits dest: committedIn_nonempty)

lemma clean_entries: "clean sha es \<Longrightarrow> crEntries (filterCommittedTransactionEntries sha es) = es"
  by (simp add: crEntries_eq clean_visible)

lemma occurrences_Cons: "occurrences (e # es) i = (if eId e = i then Suc (occurrences es i) else occurrences es i)"
  by (simp add: occurrences_def)

lemma occurrences_0: "i \<notin> eId ` set es \<Longrightarrow> occurrences es i = 0"
  by (auto simp: occurrences_def filter_empty_conv)

lemma distinct_occurrences: "distinct (map eId es) \<longleftrightarrow> (\<forall>e \<in> set es. occurrences es (eId e) \<le> 1)"
proof (induction es)
  case (Cons e es)
  show ?case
  proof (cases "eId e \<in> eId ` set es")
    case True
    then have "occurrences es (eId e) \<noteq> 0" by (force simp: occurrences_def filter_empty_conv)
    with True show ?thesis by (auto simp: occurrences_Cons)
  next
    case False
    then have "occurrences (e # es) (eId e) = 1" by (simp add: occurrences_Cons occurrences_0)
    moreover have "occurrences (e # es) (eId x) = occurrences es (eId x)" if "x \<in> set es" for x
      using False that by (auto simp: occurrences_Cons)
    ultimately show ?thesis using False Cons.IH by simp
  qed
qed simp

lemma clean_distinct: "clean sha es \<Longrightarrow> distinct (map eId es) \<and> (\<forall>e \<in> set es. eId e \<noteq> [])"
  by (auto simp: clean_iff usable_def distinct_occurrences)

lemma occurrences_filter: "occurrences (filter p es) i \<le> occurrences es i"
  by (induction es) (auto simp: occurrences_def)

lemma groupOf_visible:
  "groupOf (filter (visibleIn sha es) es) t = (if committedIn sha es t = None then [] else groupOf es t)"
proof (cases "committedIn sha es t")
  case None
  then show ?thesis by (auto simp: groupOf_def visibleIn_def filter_empty_conv)
next
  case (Some tx)
  then have "\<forall>e \<in> set (groupOf es t). usable es e" by (auto simp: committedIn_def list_all_iff split: if_splits)
  then have "filter (\<lambda>e. visibleIn sha es e \<and> eTx e = Some t) es = filter (\<lambda>e. eTx e = Some t) es"
    using Some by (auto simp: groupOf_def visibleIn_def intro: filter_cong)
  then show ?thesis using Some by (simp add: groupOf_def filter_filter)
qed

lemma committedIn_visible: "committedIn sha (filter (visibleIn sha es) es) t = committedIn sha es t"
proof (cases "committedIn sha es t")
  case None
  then show ?thesis by (simp add: committedIn_def groupOf_visible)
next
  case (Some tx)
  let ?vs = "filter (visibleIn sha es) es"
  have "groupOf ?vs t = groupOf es t" using Some by (simp add: groupOf_visible)
  moreover have "usable es e \<Longrightarrow> usable ?vs e" for e
    using occurrences_filter [of "visibleIn sha es" es "eId e"] by (simp add: usable_def)
  ultimately show ?thesis using Some
    by (auto simp: committedIn_def list_all_iff split: if_splits)
qed

lemma clean_filter: "clean sha (filter (visibleIn sha es) es)"
  using occurrences_filter [of "visibleIn sha es" es]
  by (auto simp: clean_visible visibleIn_def committedIn_visible usable_def intro: le_trans split: option.splits)

text \<open>Two clean files that share neither identifiers nor transactions make a clean file.\<close>

lemma groupOf_append: "groupOf (es @ bs) t = groupOf es t @ groupOf bs t"
  by (simp add: groupOf_def)

lemma occurrences_append: "occurrences (es @ bs) i = occurrences es i + occurrences bs i"
  by (simp add: occurrences_def)

lemma usable_append:
  assumes "eId ` set es \<inter> eId ` set bs = {}"
  shows "e \<in> set es \<Longrightarrow> usable (es @ bs) e = usable es e"
    and "e \<in> set bs \<Longrightarrow> usable (es @ bs) e = usable bs e"
proof -
  { assume "e \<in> set es"
    then have "occurrences bs (eId e) = 0" using assms by (intro occurrences_0) blast
    then show "usable (es @ bs) e = usable es e" by (simp add: usable_def occurrences_append) }
  { assume "e \<in> set bs"
    then have "occurrences es (eId e) = 0" using assms by (intro occurrences_0) blast
    then show "usable (es @ bs) e = usable bs e" by (simp add: usable_def occurrences_append) }
qed

lemma committedIn_append:
  assumes "eId ` set es \<inter> eId ` set bs = {}" "eTx ` set es \<inter> eTx ` set bs \<subseteq> {None}"
  shows "committedIn sha es t \<noteq> None \<Longrightarrow> committedIn sha (es @ bs) t = committedIn sha es t"
    and "committedIn sha bs t \<noteq> None \<Longrightarrow> committedIn sha (es @ bs) t = committedIn sha bs t"
proof -
  note use1 = usable_append(1) [OF assms(1)] and use2 = usable_append(2) [OF assms(1)]
  { assume "committedIn sha es t \<noteq> None"
    then have "groupOf es t \<noteq> []" by (auto simp: committedIn_def split: if_splits)
    then have "groupOf bs t = []" using assms(2) by (force simp: groupOf_def filter_empty_conv)
    then show "committedIn sha (es @ bs) t = committedIn sha es t"
      using use1 by (auto simp: committedIn_def groupOf_append list_all_iff groupOf_def) }
  { assume "committedIn sha bs t \<noteq> None"
    then have "groupOf bs t \<noteq> []" by (auto simp: committedIn_def split: if_splits)
    then have "groupOf es t = []" using assms(2) by (force simp: groupOf_def filter_empty_conv)
    then show "committedIn sha (es @ bs) t = committedIn sha bs t"
      using use2 by (auto simp: committedIn_def groupOf_append list_all_iff groupOf_def) }
qed

lemma clean_append:
  assumes "clean sha es" "clean sha bs"
    and "eId ` set es \<inter> eId ` set bs = {}" "eTx ` set es \<inter> eTx ` set bs \<subseteq> {None}"
  shows "clean sha (es @ bs)"
  unfolding clean_visible
proof
  fix e assume e: "e \<in> set (es @ bs)"
  have "usable (es @ bs) e"
    using e assms(1,2) usable_append [OF assms(3)] by (auto simp: clean_iff)
  moreover have "committedIn sha (es @ bs) t \<noteq> None" if "eTx e = Some t" for t
  proof -
    have "committedIn sha es t \<noteq> None \<or> committedIn sha bs t \<noteq> None"
      using e that assms(1,2) unfolding clean_iff by auto
    then show ?thesis using committedIn_append [OF assms(3,4), of sha t] by metis
  qed
  ultimately show "visibleIn sha (es @ bs) e" by (simp add: visibleIn_def split: option.split)
qed

lemma clean_Nil [simp]: "clean sha []"
  by (simp add: clean_iff)

lemma committedIn_dest:
  assumes "committedIn sha es t = Some tx"
  shows "\<exists>us m u d. groupOf es t = us @ [m, u] \<and> wellFormedGroup sha t us m u d \<and> tx = committedOf t us m u"
  using assms validateGroup_dest by (auto simp: committedIn_def split: if_splits sum.splits)

subsection \<open>Properties of the filter\<close>

text \<open>
  C1: a transaction is visible as a whole or not at all.  If the filter commits the transaction
  \<open>t\<close>, its visible entries are all the file's entries of \<open>t\<close>, and they are the members with a
  valid manifest before the final user entry: listed in order, digest and parent chain intact;
  otherwise no entry of \<open>t\<close> is visible.
\<close>

theorem transaction_all_or_nothing:
  "let r = filterCommittedTransactionEntries sha es
   in if t \<in> set (crCommittedIds r)
      then groupOf (crEntries r) t = groupOf es t
           \<and> (\<exists>us m u d. groupOf es t = us @ [m, u] \<and> wellFormedGroup sha t us m u d
                \<and> map_of (crCommitted r) t = Some (committedOf t us m u))
      else groupOf (crEntries r) t = [] \<and> map_of (crCommitted r) t = None"
proof (cases "committedIn sha es t")
  case None
  then show ?thesis
    by (simp add: in_crCommittedIds crEntries_eq groupOf_visible map_of_crCommitted)
next
  case (Some tx)
  from committedIn_dest [OF this] Some show ?thesis
    by (auto simp: in_crCommittedIds crEntries_eq groupOf_visible map_of_crCommitted)
qed

text \<open>
  Filtering is idempotent: the visible entries have nothing to report, all stay visible, and
  the same transactions are committed.  So a session that is loaded, written out and loaded again
  shows the same entries.
\<close>

theorem filter_idempotent:
  "let r = filterCommittedTransactionEntries sha es; r' = filterCommittedTransactionEntries sha (crEntries r)
   in crEntries r' = crEntries r \<and> crDiagnostics r' = [] \<and> map_of (crCommitted r') = map_of (crCommitted r)"
proof -
  have "clean sha (filter (visibleIn sha es) es)" by (rule clean_filter)
  then show ?thesis using clean_entries [of sha "filter (visibleIn sha es) es"]
    by (auto simp: Let_def crEntries_eq [of sha es] clean_def map_of_crCommitted committedIn_visible intro!: ext)
qed

lemma visible_ids: "distinct (map eId (crEntries (filterCommittedTransactionEntries sha es)))
    \<and> (\<forall>e \<in> set (crEntries (filterCommittedTransactionEntries sha es)). eId e \<noteq> [])"
  unfolding crEntries_eq by (rule clean_distinct [OF clean_filter])

lemma manifestData_toJson:
  assumes "eKind m = CustomEntry SessionTransactionManifestCustomType (Some (manifestDataToJson d))"
    and "mdTransactionId d \<noteq> []" "mdUserEntryId d \<noteq> []" "mdMembersSha256 d \<noteq> []"
    and "mdOrderedMemberEntryIds d \<noteq> []" "\<forall>i \<in> set (mdOrderedMemberEntryIds d). i \<noteq> []"
  shows "manifestData m = Inr (Some d)"
proof -
  have "mapE (\<lambda>v. requiredString v ''manifest member entry ID'') (map JStr is) = Inr is"
    if "\<forall>i \<in> set is. i \<noteq> []" for "is"
    using that by (induction "is") (auto simp: requiredString_def)
  from this [OF assms(6)] show ?thesis
    using assms by (simp add: manifestData_def readOwnValue_def manifestDataToJson_def requiredString_def readArrayValues_def)
qed

lemma createTransactionManifestData_Inr:
  assumes "createTransactionManifestData sha t members = Inr d"
  shows "members \<noteq> [] \<and> isUserEntry (last members) \<and> t \<noteq> [] \<and> (\<forall>e \<in> set members. eTx e = Some t \<and> eId e \<noteq> [])
    \<and> mdTransactionId d = t \<and> mdOrderedMemberEntryIds d = map eId members \<and> mdUserEntryId d = eId (last members)
    \<and> membersDigest sha members = Inr (mdMembersSha256 d)"
proof -
  have "\<forall>e \<in> set ms. eTx e = Some t \<and> t \<noteq> []"
    if "mapE (\<lambda>m. andThen (transactionIdForEntry m) (\<lambda>x.
          if x \<noteq> Some t then invalidTransaction msg else Inr ())) ms = Inr us" for ms us msg
    using that by (induction ms arbitrary: us) (auto simp: transactionIdForEntry_Inr invalidTransaction_def split: if_splits)
  then show ?thesis using assms
    by (fastforce simp: createTransactionManifestData_def Let_def invalidTransaction_def split: if_splits)
qed

text \<open>
  C13: what \<open>createTransactionManifestData\<close> writes is what the filter accepts.  Take members whose
  manifest data it returns, put a manifest entry with that data before the final user entry, with
  the entries forming one parent chain that starts outside of them: the filter reports nothing,
  drops nothing and commits exactly this transaction.  (The digest of Node's hash is never empty.)
\<close>

theorem created_transaction_commits:
  assumes "createTransactionManifestData sha t (us @ [u]) = Inr d"
    and "eKind m = CustomEntry SessionTransactionManifestCustomType (Some (manifestDataToJson d))"
    and "eTx m = Some t" "eId m \<noteq> []" "\<forall>e \<in> set us. manifestData e = Inr None"
    and "distinct (map eId (us @ [m, u]))" "chained (us @ [m, u])"
    and "outside (eParent (hd (us @ [m, u]))) (us @ [m, u])" and "\<And>s. sha s \<noteq> []"
  shows "let r = filterCommittedTransactionEntries sha (us @ [m, u])
    in crEntries r = us @ [m, u] \<and> crDiagnostics r = [] \<and> map_of (crCommitted r) = [t \<mapsto> committedOf t us m u]"
proof -
  let ?g = "us @ [m, u]"
  note c = createTransactionManifestData_Inr [OF assms(1)]
  have sha: "mdMembersSha256 d \<noteq> []"
    using c assms(9) by (auto simp: membersDigest_def sha256CanonicalJson_def)
  have md: "manifestData m = Inr (Some d)"
    by (rule manifestData_toJson [OF assms(2)]) (use c sha in auto)
  have wf: "wellFormedGroup sha t us m u d"
    using c md assms(4-8) by (auto simp: wellFormedGroup_def)
  have grp: "groupOf ?g x = (if x = t then ?g else [])" for x
    using c assms(3) by (auto simp: groupOf_def filter_id_conv filter_empty_conv)
  have use: "\<forall>e \<in> set ?g. usable ?g e"
    using assms(4,6) c distinct_occurrences [of ?g] unfolding usable_def by auto
  have com: "committedIn sha ?g x = (if x = t then Some (committedOf t us m u) else None)" for x
    using use validateGroup_intro [OF wf] c by (auto simp: committedIn_def grp list_all_iff)
  have "clean sha ?g" using use com c assms(3) by (auto simp: clean_iff)
  then show ?thesis using clean_entries
    by (auto simp: Let_def clean_def map_of_crCommitted com intro!: ext)
qed

text \<open>A two-member transaction: a model change, the manifest and the user's message.\<close>

definition sampleUser :: "string \<Rightarrow> string \<Rightarrow> string option \<Rightarrow> entry" where
  "sampleUser i p t = \<lparr>eId = i, eParent = Some p, eTimestamp = ''2026-01-01T00:00:00.000Z'', eTx = t,
     eKind = MessageEntry (UserMsg \<lparr>umContent = ContentText ''hi'', umTimestamp = Some 0\<rparr>)\<rparr>"

definition sampleModel :: "string \<Rightarrow> string option \<Rightarrow> string option \<Rightarrow> entry" where
  "sampleModel i p t = \<lparr>eId = i, eParent = p, eTimestamp = ''2026-01-01T00:00:00.000Z'', eTx = t,
     eKind = ModelChangeEntry ''openai'' ''gpt''\<rparr>"

definition sampleManifestData :: txManifestData where
  "sampleManifestData = \<lparr>mdTransactionId = ''t1'', mdOrderedMemberEntryIds = [''a'', ''c''],
     mdUserEntryId = ''c'', mdMembersSha256 = ''00''\<rparr>"

definition sampleManifest :: entry where
  "sampleManifest = \<lparr>eId = ''b'', eParent = Some ''a'', eTimestamp = ''2026-01-01T00:00:00.000Z'', eTx = Some ''t1'',
     eKind = CustomEntry SessionTransactionManifestCustomType (Some (manifestDataToJson sampleManifestData))\<rparr>"

definition sampleGroup :: "entry list" where
  "sampleGroup = [sampleModel ''a'' None (Some ''t1'')] @ [sampleManifest, sampleUser ''c'' ''b'' (Some ''t1'')]"

theorem created_transaction_commits_witness:
  "crEntries (filterCommittedTransactionEntries (\<lambda>_. ''00'') sampleGroup) = sampleGroup"
  unfolding sampleGroup_def
  by (rule created_transaction_commits [where d = sampleManifestData and t = "''t1''",
        unfolded Let_def, THEN conjunct1]) (code_simp | simp)+

subsection \<open>Properties of append validation and fork boundaries\<close>

text \<open>Every parent is an existing entry or an earlier one of the batch.\<close>

primrec parentsResolved :: "(string \<Rightarrow> bool) \<Rightarrow> entry list \<Rightarrow> bool" where
  "parentsResolved hasId [] \<longleftrightarrow> True"
| "parentsResolved hasId (e # es) \<longleftrightarrow> (case eParent e of None \<Rightarrow> True | Some p \<Rightarrow> hasId p)
     \<and> parentsResolved (\<lambda>i. hasId i \<or> i = eId e) es"

definition freshTx :: "(string \<Rightarrow> bool) \<Rightarrow> entry \<Rightarrow> bool" where
  "freshTx hasTx e \<longleftrightarrow> eTx e \<noteq> Some [] \<and> (case eTx e of None \<Rightarrow> True | Some t \<Rightarrow> \<not> hasTx t)"

lemma rethrowInvalid_Inr [simp]: "rethrowInvalid r = Inr a \<longleftrightarrow> r = Inr a"
  by (cases r) (simp_all add: rethrowInvalid_def invalidTransaction_def)

lemma checkAppendEntry_Inr: "checkAppendEntry hasId hasTx ids e = Inr i \<longleftrightarrow>
    i = eId e \<and> eId e \<noteq> [] \<and> \<not> hasId (eId e) \<and> eId e \<notin> set ids
    \<and> (case eParent e of None \<Rightarrow> True | Some p \<Rightarrow> hasId p \<or> p \<in> set ids) \<and> freshTx hasTx e"
  by (auto simp: checkAppendEntry_def parentId_def invalidTransaction_def transactionIdForEntry_Inr freshTx_def
      split: option.splits if_splits)

lemma checkAppendBatch_Inr: "checkAppendBatch hasId hasTx ids es = Inr u \<longleftrightarrow>
    distinct (map eId es) \<and> parentsResolved (\<lambda>i. hasId i \<or> i \<in> set ids) es
    \<and> (\<forall>e \<in> set es. eId e \<noteq> [] \<and> \<not> hasId (eId e) \<and> eId e \<notin> set ids \<and> freshTx hasTx e)"
proof (induction es arbitrary: ids)
  case (Cons e es)
  have "(\<lambda>i. hasId i \<or> i \<in> set (ids @ [eId e])) = (\<lambda>i. (hasId i \<or> i \<in> set ids) \<or> i = eId e)" by auto
  then show ?case using Cons.IH [of "ids @ [eId e]"]
    by (auto simp: checkAppendEntry_Inr image_iff split: option.splits)
qed simp

lemma validateAppend_Inr: "validateSessionEntriesForAppend sha hasId hasTx es = Inr u \<longleftrightarrow>
    clean sha es \<and> parentsResolved hasId es \<and> (\<forall>e \<in> set es. \<not> hasId (eId e) \<and> freshTx hasTx e)"
proof -
  have "validateSessionEntriesForAppend sha hasId hasTx es = Inr u \<longleftrightarrow>
      checkAppendBatch hasId hasTx [] es = Inr u \<and> clean sha es \<and> crEntries (filterCommittedTransactionEntries sha es) = es"
    by (auto simp: validateSessionEntriesForAppend_def Let_def clean_def invalidTransaction_def split: if_splits)
  then show ?thesis using clean_entries [of sha es] clean_distinct [of sha es]
    by (auto simp: checkAppendBatch_Inr)
qed

text \<open>
  C17: a batch passes the append check exactly when it is complete on its own: the filter has
  nothing to report about it, each parent is an existing entry or an earlier one of the batch, and
  no identifier and no transaction is already in the session.  Each refusal has the code
  \<open>invalid_transaction\<close>.
\<close>

theorem append_validation_exact:
  "case validateSessionEntriesForAppend sha hasId hasTx es of
     Inr u \<Rightarrow> crDiagnostics (filterCommittedTransactionEntries sha es) = [] \<and> parentsResolved hasId es
       \<and> list_all (\<lambda>e. \<not> hasId (eId e) \<and> freshTx hasTx e) es
   | Inl err \<Rightarrow> errCode err = InvalidTransaction
       \<and> \<not> (crDiagnostics (filterCommittedTransactionEntries sha es) = [] \<and> parentsResolved hasId es
            \<and> list_all (\<lambda>e. \<not> hasId (eId e) \<and> freshTx hasTx e) es)"
proof (cases "validateSessionEntriesForAppend sha hasId hasTx es")
  case (Inr u)
  then show ?thesis using validateAppend_Inr [of sha hasId hasTx es u] by (simp add: clean_def list_all_iff)
next
  case (Inl err)
  then have "\<not> (clean sha es \<and> parentsResolved hasId es \<and> (\<forall>e \<in> set es. \<not> hasId (eId e) \<and> freshTx hasTx e))"
    using validateAppend_Inr [of sha hasId hasTx es "()"] by auto
  moreover have entry: "errCode err = InvalidTransaction" if "checkAppendEntry hasId hasTx ids e = Inl err" for ids e
    using that by (auto simp: checkAppendEntry_def rethrowInvalid_def invalidTransaction_def split: sum.splits)
  have "errCode err = InvalidTransaction" if "checkAppendBatch hasId hasTx ids bs = Inl err" for ids bs
    using that by (induction bs arbitrary: ids) (auto simp: andThen_def entry split: sum.splits)
  then have "errCode err = InvalidTransaction"
    using Inl by (auto simp: validateSessionEntriesForAppend_def andThen_def Let_def invalidTransaction_def
        split: sum.splits if_splits)
  ultimately show ?thesis using Inl by (simp add: clean_def list_all_iff)
qed

lemma find_Some_set: "find p xs = Some x \<Longrightarrow> x \<in> set xs \<and> p x"
  by (induction xs) (auto split: if_splits)


end
