(* ===== verification/Uuid.thy ===== *)
theory Uuid
  imports Prelude "HOL-Library.Word"
begin

section \<open>Entry identifiers: UUID version 7\<close>

text \<open>
  \<open>packages/agent/harness/session/uuid.ts\<close>.  The module keeps the last timestamp and a 32-bit
  sequence number; one call reads 16 random bytes and the clock, which are arguments here.
  \<open>generateEntryId\<close> of \<open>memory-storage.ts\<close> draws from it, so the draws of a process are a function
  from the number of the draw to its random bytes and clock reading.

  Proved: the sequence and the timestamp can be read back from the text, every draw raises the pair
  of the two, so a process never repeats an identifier; and the first eight characters depend on
  the timestamp's high 32 bits alone.
\<close>

unbundle bit_operations_syntax

type_synonym byte = "8 word"

record uuidState =
  lastTimestamp :: "nat option"
  sequenceNo :: "32 word"
  draws :: nat

text \<open>\<open>lastTimestamp\<close> starts at \<open>-Infinity\<close>, which is \<open>None\<close>.\<close>

definition initialUuidState :: uuidState where
  "initialUuidState = \<lparr>lastTimestamp = None, sequenceNo = 0, draws = 0\<rparr>"

definition randomByte :: "byte list \<Rightarrow> nat \<Rightarrow> byte" where
  "randomByte bs i = (if i < length bs then bs ! i else 0)"

definition advanceUuid :: "byte list \<Rightarrow> nat \<Rightarrow> uuidState \<Rightarrow> uuidState" where
  "advanceUuid random timestamp st =
    (let later = (case lastTimestamp st of None \<Rightarrow> True | Some t \<Rightarrow> timestamp > t);
         seed = (ucast (randomByte random 6) * 0x1000000 + ucast (randomByte random 7) * 0x10000
                 + ucast (randomByte random 8) * 0x100 + ucast (randomByte random 9) :: 32 word)
     in if later
        then st\<lparr>lastTimestamp := Some timestamp, sequenceNo := seed, draws := Suc (draws st)\<rparr>
        else st\<lparr>lastTimestamp := (if sequenceNo st + 1 = 0 then map_option Suc (lastTimestamp st) else lastTimestamp st),
                sequenceNo := sequenceNo st + 1, draws := Suc (draws st)\<rparr>)"

definition uuidBytes :: "byte list \<Rightarrow> nat \<Rightarrow> 32 word \<Rightarrow> byte list" where
  "uuidBytes random t s =
    [of_nat (t div 2 ^ 40), of_nat (t div 2 ^ 32), of_nat (t div 2 ^ 24), of_nat (t div 2 ^ 16),
     of_nat (t div 2 ^ 8), of_nat t,
     0x70 OR (ucast (drop_bit 28 s) AND 0x0f),
     ucast (drop_bit 20 s) AND 0xff,
     0x80 OR (ucast (drop_bit 14 s) AND 0x3f),
     ucast (drop_bit 6 s) AND 0xff,
     push_bit 2 (ucast (s AND 0x3f)) OR (randomByte random 10 AND 0x03),
     randomByte random 11, randomByte random 12, randomByte random 13, randomByte random 14,
     randomByte random 15]"

definition byteHex :: "byte \<Rightarrow> string" where
  "byteHex b = [hexDigit (unat b div 16), hexDigit (unat b mod 16)]"

definition hexRange :: "byte list \<Rightarrow> nat \<Rightarrow> nat \<Rightarrow> string" where
  "hexRange bs i j = concat (map byteHex (take (j - i) (drop i bs)))"

definition formatUuid :: "byte list \<Rightarrow> string" where
  "formatUuid bs = hexRange bs 0 4 @ ''-'' @ hexRange bs 4 6 @ ''-'' @ hexRange bs 6 8 @ ''-''
     @ hexRange bs 8 10 @ ''-'' @ hexRange bs 10 16"

definition uuidv7 :: "byte list \<Rightarrow> nat \<Rightarrow> uuidState \<Rightarrow> string \<times> uuidState" where
  "uuidv7 random timestamp st =
    (let st' = advanceUuid random timestamp st
     in (formatUuid (uuidBytes random (the (lastTimestamp st')) (sequenceNo st')), st'))"

text \<open>The draws of a process: the random bytes and the clock reading of draw \<open>n\<close>.\<close>

type_synonym uuidEnv = "nat \<Rightarrow> byte list \<times> nat"

definition drawUuid :: "uuidEnv \<Rightarrow> uuidState \<Rightarrow> string \<times> uuidState" where
  "drawUuid env st = (let (random, now) = env (draws st) in uuidv7 random now st)"

text \<open>
  \<open>generateEntryId\<close>: up to 100 draws cut to eight characters, then one full identifier, which is
  not looked up.
\<close>

primrec probeShortIds :: "uuidEnv \<Rightarrow> (string \<Rightarrow> bool) \<Rightarrow> nat \<Rightarrow> uuidState \<Rightarrow> string \<times> uuidState" where
  "probeShortIds env has 0 st = drawUuid env st"
| "probeShortIds env has (Suc n) st =
    (let (u, st') = drawUuid env st; entryid = take 8 u
     in if \<not> has entryid then (entryid, st') else probeShortIds env has n st')"

definition generateEntryId :: "uuidEnv \<Rightarrow> (string \<Rightarrow> bool) \<Rightarrow> uuidState \<Rightarrow> string \<times> uuidState" where
  "generateEntryId env has st = probeShortIds env has 100 st"

primrec drawMany :: "uuidEnv \<Rightarrow> nat \<Rightarrow> uuidState \<Rightarrow> string list" where
  "drawMany env 0 st = []"
| "drawMany env (Suc n) st = (let (u, st') = drawUuid env st in u # drawMany env n st')"

subsection \<open>Reading the text back\<close>

lemma of_char_hexDigit: "d < 16 \<Longrightarrow> of_char (hexDigit d) = (if d < 10 then 48 + d else 87 + d :: nat)"
  by (simp add: hexDigit_def)

lemma hexDigit_inj:
  assumes "a < 16" "b < 16" "hexDigit a = hexDigit b"
  shows "a = b"
proof -
  have "(of_char (hexDigit a) :: nat) = of_char (hexDigit b)" using assms(3) by simp
  with assms(1,2) show ?thesis by (simp add: of_char_hexDigit split: if_splits)
qed

lemma byteHex_inj [simp]: "byteHex a = byteHex b \<longleftrightarrow> a = b"
proof
  assume "byteHex a = byteHex b"
  moreover have "unat x div 16 < 16" "unat x mod 16 < 16" for x :: byte
    using unsigned_less [of x, where 'a = nat] by auto
  ultimately have "unat a div 16 = unat b div 16" "unat a mod 16 = unat b mod 16"
    using hexDigit_inj [of "unat a div 16" "unat b div 16"] hexDigit_inj [of "unat a mod 16" "unat b mod 16"]
    by (simp_all add: byteHex_def)
  then have "unat a = unat b" by (metis div_mult_mod_eq)
  then show "a = b" by (simp add: unsigned_word_eqI)
qed simp

lemma length_byteHex [simp]: "length (byteHex b) = 2"
  by (simp add: byteHex_def)

lemma concat_byteHex_inj:
  "length as = length bs \<Longrightarrow> concat (map byteHex as) = concat (map byteHex bs) \<Longrightarrow> as = bs"
  by (induction as bs rule: list_induct2) auto

lemma length_concat_byteHex [simp]: "length (concat (map byteHex bs)) = 2 * length bs"
  by (induction bs) auto

lemma length_uuidBytes [simp]: "length (uuidBytes r t s) = 16"
  by (simp add: uuidBytes_def)

lemma formatUuid_inj:
  assumes "length as = 16" "length bs = 16" "formatUuid as = formatUuid bs"
  shows "as = bs"
proof -
  have eq: "hexRange as 0 4 = hexRange bs 0 4 \<and> hexRange as 4 6 = hexRange bs 4 6
      \<and> hexRange as 6 8 = hexRange bs 6 8 \<and> hexRange as 8 10 = hexRange bs 8 10
      \<and> hexRange as 10 16 = hexRange bs 10 16"
    using assms by (auto simp: formatUuid_def append_eq_append_conv hexRange_def)
  then have parts: "take 4 as = take 4 bs" "take 2 (drop 4 as) = take 2 (drop 4 bs)"
    "take 2 (drop 6 as) = take 2 (drop 6 bs)" "take 2 (drop 8 as) = take 2 (drop 8 bs)"
    "take 6 (drop 10 as) = take 6 (drop 10 bs)"
    using assms(1,2) by (auto simp: hexRange_def intro: concat_byteHex_inj)
  have split: "xs = take 4 xs @ take 2 (drop 4 xs) @ take 2 (drop 6 xs) @ take 2 (drop 8 xs) @ take 6 (drop 10 xs)"
    if "length xs = 16" for xs :: "byte list"
  proof -
    have cut: "drop i xs = take j (drop i xs) @ drop (i + j) xs" for i j
      by (metis append_take_drop_id drop_drop add.commute)
    show ?thesis
      using cut [of 0 4] cut [of 4 2] cut [of 6 2] cut [of 8 2] that by simp
  qed
  show ?thesis using split [OF assms(1)] split [OF assms(2)] parts by simp
qed

subsection \<open>The pair of timestamp and sequence number\<close>

text \<open>
  The sequence number's 32 bits are spread over bytes 6 to 10 without loss, so equal bytes have
  equal sequence numbers.
\<close>

lemma sequence_bits:
  fixes s s' :: "32 word"
  assumes "(0x70 :: byte) OR (ucast (drop_bit 28 s) AND 0x0f) = 0x70 OR (ucast (drop_bit 28 s') AND 0x0f)"
    and "(ucast (drop_bit 20 s) :: byte) AND 0xff = ucast (drop_bit 20 s') AND 0xff"
    and "(0x80 :: byte) OR (ucast (drop_bit 14 s) AND 0x3f) = 0x80 OR (ucast (drop_bit 14 s') AND 0x3f)"
    and "(ucast (drop_bit 6 s) :: byte) AND 0xff = ucast (drop_bit 6 s') AND 0xff"
    and "push_bit 2 (ucast (s AND 0x3f) :: byte) OR (r AND 0x03) = push_bit 2 (ucast (s' AND 0x3f)) OR (r' AND 0x03)"
  shows "s = s'"
proof -
  have h: "bit s 28 = bit s' 28" "bit s 29 = bit s' 29" "bit s 30 = bit s' 30" "bit s 31 = bit s' 31"
    using arg_cong [OF assms(1), of "\<lambda>w. bit w 0"]
      arg_cong [OF assms(1), of "\<lambda>w. bit w 1"]
      arg_cong [OF assms(1), of "\<lambda>w. bit w 2"]
      arg_cong [OF assms(1), of "\<lambda>w. bit w 3"]
    by (simp_all add: bit_simps)
  have g: "bit s 20 = bit s' 20" "bit s 21 = bit s' 21" "bit s 22 = bit s' 22" "bit s 23 = bit s' 23" "bit s 24 = bit s' 24" "bit s 25 = bit s' 25" "bit s 26 = bit s' 26" "bit s 27 = bit s' 27"
    using arg_cong [OF assms(2), of "\<lambda>w. bit w 0"]
      arg_cong [OF assms(2), of "\<lambda>w. bit w 1"]
      arg_cong [OF assms(2), of "\<lambda>w. bit w 2"]
      arg_cong [OF assms(2), of "\<lambda>w. bit w 3"]
      arg_cong [OF assms(2), of "\<lambda>w. bit w 4"]
      arg_cong [OF assms(2), of "\<lambda>w. bit w 5"]
      arg_cong [OF assms(2), of "\<lambda>w. bit w 6"]
      arg_cong [OF assms(2), of "\<lambda>w. bit w 7"]
    by (simp_all add: bit_simps)
  have f: "bit s 14 = bit s' 14" "bit s 15 = bit s' 15" "bit s 16 = bit s' 16" "bit s 17 = bit s' 17" "bit s 18 = bit s' 18" "bit s 19 = bit s' 19"
    using arg_cong [OF assms(3), of "\<lambda>w. bit w 0"]
      arg_cong [OF assms(3), of "\<lambda>w. bit w 1"]
      arg_cong [OF assms(3), of "\<lambda>w. bit w 2"]
      arg_cong [OF assms(3), of "\<lambda>w. bit w 3"]
      arg_cong [OF assms(3), of "\<lambda>w. bit w 4"]
      arg_cong [OF assms(3), of "\<lambda>w. bit w 5"]
    by (simp_all add: bit_simps)
  have e: "bit s 6 = bit s' 6" "bit s 7 = bit s' 7" "bit s 8 = bit s' 8" "bit s 9 = bit s' 9" "bit s 10 = bit s' 10" "bit s 11 = bit s' 11" "bit s 12 = bit s' 12" "bit s 13 = bit s' 13"
    using arg_cong [OF assms(4), of "\<lambda>w. bit w 0"]
      arg_cong [OF assms(4), of "\<lambda>w. bit w 1"]
      arg_cong [OF assms(4), of "\<lambda>w. bit w 2"]
      arg_cong [OF assms(4), of "\<lambda>w. bit w 3"]
      arg_cong [OF assms(4), of "\<lambda>w. bit w 4"]
      arg_cong [OF assms(4), of "\<lambda>w. bit w 5"]
      arg_cong [OF assms(4), of "\<lambda>w. bit w 6"]
      arg_cong [OF assms(4), of "\<lambda>w. bit w 7"]
    by (simp_all add: bit_simps)
  have d: "bit s 0 = bit s' 0" "bit s 1 = bit s' 1" "bit s 2 = bit s' 2" "bit s 3 = bit s' 3" "bit s 4 = bit s' 4" "bit s 5 = bit s' 5"
    using arg_cong [OF assms(5), of "\<lambda>w. bit w 2"]
      arg_cong [OF assms(5), of "\<lambda>w. bit w 3"]
      arg_cong [OF assms(5), of "\<lambda>w. bit w 4"]
      arg_cong [OF assms(5), of "\<lambda>w. bit w 5"]
      arg_cong [OF assms(5), of "\<lambda>w. bit w 6"]
      arg_cong [OF assms(5), of "\<lambda>w. bit w 7"]
    by (simp_all add: bit_simps)
  show ?thesis
  proof (rule bit_word_eqI)
    fix n assume "n < LENGTH(32)"
    then have "n \<in> {0..<32}" by simp
    also have "{0..<32} = set (map nat [0..31])" by code_simp
    finally show "bit s n = bit s' n" using h g f e d by (auto simp: upto.simps)
  qed
qed

lemma of_nat_byte_eq: "(of_nat a :: byte) = of_nat b \<longleftrightarrow> a mod 256 = b mod 256"
  by (simp add: word_of_nat_eq_iff take_bit_eq_mod)

lemma timestamp_bytes:
  fixes t t' :: nat
  assumes "t < 2 ^ 48" "t' < 2 ^ 48"
    and "\<forall>k \<in> {0, 8, 16, 24, 32, 40}. (t div 2 ^ k) mod 256 = (t' div 2 ^ k) mod 256"
  shows "t = t'"
proof -
  have cut: "n div 2 ^ (k + 8) = n div 2 ^ k div 256" for n k :: nat
    by (simp add: power_add div_mult2_eq)
  have step: "t div 2 ^ k = t' div 2 ^ k"
    if "t div 2 ^ (k + 8) = t' div 2 ^ (k + 8)" "(t div 2 ^ k) mod 256 = (t' div 2 ^ k) mod 256" for k
    using that unfolding cut by (metis div_mult_mod_eq)
  have top: "t div 2 ^ 48 = t' div 2 ^ 48" using assms(1,2) by simp
  have "t div 2 ^ 40 = t' div 2 ^ 40" using step [of 40] top assms(3) by simp
  then have "t div 2 ^ 32 = t' div 2 ^ 32" using step [of 32] assms(3) by simp
  then have "t div 2 ^ 24 = t' div 2 ^ 24" using step [of 24] assms(3) by simp
  then have "t div 2 ^ 16 = t' div 2 ^ 16" using step [of 16] assms(3) by simp
  then have "t div 2 ^ 8 = t' div 2 ^ 8" using step [of 8] assms(3) by simp
  then show ?thesis using step [of 0] assms(3) by simp
qed

lemma uuidBytes_inj:
  assumes "uuidBytes r t s = uuidBytes r' t' s'" "t < 2 ^ 48" "t' < 2 ^ 48"
  shows "t = t' \<and> s = s'"
proof -
  have "t = t'"
    by (rule timestamp_bytes [OF assms(2,3)]) (use assms(1) in \<open>simp add: uuidBytes_def of_nat_byte_eq\<close>)
  moreover have "s = s'"
    by (rule sequence_bits) (use assms(1) in \<open>auto simp: uuidBytes_def\<close>)
  ultimately show ?thesis by simp
qed

definition uuidRank :: "uuidState \<Rightarrow> int" where
  "uuidRank st = (case lastTimestamp st of None \<Rightarrow> -1 | Some t \<Rightarrow> int t * 2 ^ 32 + uint (sequenceNo st))"

lemma advanceUuid_stamped: "\<exists>t. lastTimestamp (advanceUuid r now st) = Some t"
  by (auto simp: advanceUuid_def Let_def split: option.splits)

lemma draws_advanceUuid [simp]: "draws (advanceUuid r now st) = Suc (draws st)"
  by (simp add: advanceUuid_def Let_def)

lemma advanceUuid_rank: "uuidRank st < uuidRank (advanceUuid r now st)"
proof (cases "lastTimestamp st")
  case None
  moreover have "- 1 < int now * 2 ^ 32 + uint x" for x :: "32 word"
    by (rule less_le_trans [of _ 0]) simp_all
  ultimately show ?thesis by (simp add: uuidRank_def advanceUuid_def Let_def)
next
  case (Some t)
  show ?thesis
  proof (cases "now > t")
    case True
    have "int t * 2 ^ 32 + uint x < int now * 2 ^ 32 + uint y" for x y :: "32 word"
    proof -
      have "uint x < 4294967296" "0 \<le> uint y" using uint_lt2p [of x] by simp_all
      moreover have "int t + 1 \<le> int now" using True by simp
      ultimately have "int t * 4294967296 + uint x < int now * 4294967296 + uint y" by linarith
      then show ?thesis by simp
    qed
    then show ?thesis using Some True by (simp add: uuidRank_def advanceUuid_def Let_def)
  next
    case False
    have "uint (sequenceNo st) < 4294967296" using uint_lt2p [of "sequenceNo st"] by simp
    moreover have "uint x < uint (x + 1)" if "x + 1 \<noteq> 0" for x :: "32 word"
      using that inc_less_eq_triv_imp [of x] by (metis linorder_not_le eq_neg_iff_add_eq_0 word_less_def)
    ultimately show ?thesis using Some False
      by (auto simp: uuidRank_def advanceUuid_def Let_def)
  qed
qed

lemma advanceUuid_bound:
  assumes "\<And>t. lastTimestamp st = Some t \<Longrightarrow> t \<le> M + draws st" "now \<le> M"
    and "lastTimestamp (advanceUuid r now st) = Some t"
  shows "t \<le> M + Suc (draws st)"
  using assms by (cases "lastTimestamp st") (fastforce simp: advanceUuid_def Let_def split: if_splits)+

lemma drawMany_members:
  assumes "\<And>i. snd (env i) \<le> M" "\<And>t. lastTimestamp st = Some t \<Longrightarrow> t \<le> M + draws st"
    and "M + draws st + n < 2 ^ 48" "u \<in> set (drawMany env n st)"
  shows "\<exists>r t s. u = formatUuid (uuidBytes r t s) \<and> t < 2 ^ 48 \<and> uuidRank st < int t * 2 ^ 32 + uint s"
  using assms(2-)
proof (induction n arbitrary: st)
  case (Suc n)
  obtain r now where e: "env (draws st) = (r, now)" by fastforce
  let ?st = "advanceUuid r now st"
  obtain t where t: "lastTimestamp ?st = Some t" using advanceUuid_stamped by blast
  have now: "now \<le> M" using assms(1) [of "draws st"] e by simp
  have bound: "t' \<le> M + draws ?st" if "lastTimestamp ?st = Some t'" for t'
    using advanceUuid_bound [OF Suc.prems(1) now that] by simp
  from Suc.prems(3) consider "u = formatUuid (uuidBytes r t (sequenceNo ?st))" | "u \<in> set (drawMany env n ?st)"
    using e t by (auto simp: drawUuid_def uuidv7_def Let_def)
  then show ?case
  proof cases
    case 1
    have "t < 2 ^ 48" using bound [OF t] Suc.prems(2) by simp
    moreover have "uuidRank st < int t * 2 ^ 32 + uint (sequenceNo ?st)"
      using advanceUuid_rank [of st r now] t by (simp add: uuidRank_def)
    ultimately show ?thesis using 1 by blast
  next
    case 2
    then show ?thesis
      using Suc.IH [of ?st, OF bound] Suc.prems(2) advanceUuid_rank [of st r now] by fastforce
  qed
qed simp

lemma drawMany_distinct:
  assumes "\<And>i. snd (env i) \<le> M" "\<And>t. lastTimestamp st = Some t \<Longrightarrow> t \<le> M + draws st"
    and "M + draws st + n < 2 ^ 48"
  shows "distinct (drawMany env n st)"
  using assms(2-)
proof (induction n arbitrary: st)
  case (Suc n)
  obtain r now where e: "env (draws st) = (r, now)" by fastforce
  let ?st = "advanceUuid r now st"
  obtain t where t: "lastTimestamp ?st = Some t" using advanceUuid_stamped by blast
  let ?u = "formatUuid (uuidBytes r t (sequenceNo ?st))"
  have now: "now \<le> M" using assms(1) [of "draws st"] e by simp
  have bound: "t' \<le> M + draws ?st" if "lastTimestamp ?st = Some t'" for t'
    using advanceUuid_bound [OF Suc.prems(1) now that] by simp
  have small: "M + draws ?st + n < 2 ^ 48" using Suc.prems(2) by simp
  have "?u \<notin> set (drawMany env n ?st)"
  proof
    assume "?u \<in> set (drawMany env n ?st)"
    then have "\<exists>r' t' s'. ?u = formatUuid (uuidBytes r' t' s') \<and> t' < 2 ^ 48
        \<and> uuidRank ?st < int t' * 2 ^ 32 + uint s'"
      by (intro drawMany_members [where M = M]) (use assms(1) bound small in auto)
    then obtain r' t' s' where u: "?u = formatUuid (uuidBytes r' t' s')" "t' < 2 ^ 48"
      "uuidRank ?st < int t' * 2 ^ 32 + uint s'" by blast
    have "t = t' \<and> sequenceNo ?st = s'"
      using uuidBytes_inj formatUuid_inj [OF length_uuidBytes length_uuidBytes u(1)] u(2) bound [OF t] small
      by (metis add_lessD1 order_le_less_trans)
    with u(3) t show False by (simp add: uuidRank_def)
  qed
  moreover have "distinct (drawMany env n ?st)" using Suc.IH [of ?st, OF bound small] by blast
  ultimately show ?case using e t by (simp add: drawUuid_def uuidv7_def Let_def)
qed simp

text \<open>
  C20: a process never hands out the same identifier twice: the first \<open>n\<close> draws of \<open>uuidv7\<close> are
  pairwise different, whatever the random bytes are and even if the clock stands still or runs
  backwards, as long as the clock readings leave room for \<open>n\<close> wraps below 48 bits.
\<close>

theorem uuidv7_never_repeats:
  assumes "\<And>i. snd (env i) \<le> M" and "M + n < 2 ^ 48"
  shows "distinct (drawMany env n initialUuidState)"
  by (rule drawMany_distinct [OF assms(1)]) (use assms(2) in \<open>auto simp: initialUuidState_def\<close>)

theorem uuidv7_never_repeats_witness:
  "distinct (drawMany (\<lambda>n. ([], 1700000000000 - n)) 5000 initialUuidState)"
  by (rule uuidv7_never_repeats [where M = 1700000000000]) simp_all

subsection \<open>Short identifiers\<close>

definition uuidTimestamp :: "uuidState \<Rightarrow> nat" where
  "uuidTimestamp st = (case lastTimestamp st of None \<Rightarrow> 0 | Some t \<Rightarrow> t)"

lemma short_id_bytes: "take 8 (formatUuid (uuidBytes r t s)) =
    byteHex (of_nat (t div 2 ^ 40)) @ byteHex (of_nat (t div 2 ^ 32))
    @ byteHex (of_nat (t div 2 ^ 24)) @ byteHex (of_nat (t div 2 ^ 16))"
  by (simp add: formatUuid_def hexRange_def uuidBytes_def byteHex_def)

text \<open>Forty-eight bits less sixteen: the short identifier is a function of the 65.5-second window.\<close>

lemma short_id_window:
  assumes "t div 2 ^ 16 = t' div 2 ^ 16"
  shows "take 8 (formatUuid (uuidBytes r t s)) = take 8 (formatUuid (uuidBytes r' t' s'))"
proof -
  have "n div 2 ^ (16 + k) = n div 2 ^ 16 div 2 ^ k" for n k :: nat
    unfolding power_add by (rule div_mult2_eq)
  from this [of _ 8] this [of _ 16] this [of _ 24] assms show ?thesis
    unfolding short_id_bytes by simp
qed

lemma length_formatUuid [simp]: "length bs = 16 \<Longrightarrow> length (formatUuid bs) = 36"
  by (simp add: formatUuid_def hexRange_def)

lemma drawUuid_length: "length (fst (drawUuid env st)) = 36"
  by (cases "env (draws st)") (simp add: drawUuid_def uuidv7_def Let_def)

lemma drawUuid_eq:
  assumes "env (draws st) = (r, now)"
  shows "drawUuid env st = (let st' = advanceUuid r now st
     in (formatUuid (uuidBytes r (uuidTimestamp st') (sequenceNo st')), st'))"
  using advanceUuid_stamped [of r now st] assms by (auto simp: drawUuid_def uuidv7_def uuidTimestamp_def Let_def)

lemma probeShortIds_outcome:
  "probeShortIds env has n st = (u, st') \<Longrightarrow> (\<not> has u \<and> length u = 8) \<or> length u = 36"
proof (induction n arbitrary: st)
  case 0
  then show ?case using drawUuid_length [of env st] by simp
next
  case (Suc n)
  then show ?case using drawUuid_length [of env st]
    by (cases "drawUuid env st") (auto simp: Let_def split: if_splits)
qed

text \<open>The clock stays in the window \<open>B\<close>, \<open>n\<close> wraps before its end.\<close>

definition inWindow :: "nat \<Rightarrow> nat \<Rightarrow> uuidState \<Rightarrow> bool" where
  "inWindow B n st \<longleftrightarrow> uuidTimestamp st + n < (B + 1) * 2 ^ 16"

lemma inWindow_draw:
  assumes "B * 2 ^ 16 \<le> now" "now + n < (B + 1) * 2 ^ 16" "inWindow B (Suc n) st"
  shows "inWindow B n (advanceUuid r now st) \<and> uuidTimestamp (advanceUuid r now st) div 2 ^ 16 = B"
proof -
  let ?t = "uuidTimestamp (advanceUuid r now st)"
  have up: "?t + n < (B + 1) * 2 ^ 16"
    using assms(2,3) by (cases "lastTimestamp st") (auto simp: inWindow_def uuidTimestamp_def advanceUuid_def Let_def)
  have low: "B * 2 ^ 16 \<le> ?t"
    using assms(1) by (cases "lastTimestamp st") (auto simp: uuidTimestamp_def advanceUuid_def Let_def)
  have "?t div 2 ^ 16 = B" by (rule div_nat_eqI) (use up low in auto)
  with up show ?thesis by (simp add: inWindow_def)
qed

lemma probeShortIds_window:
  assumes "\<And>i. B * 2 ^ 16 \<le> snd (env i) \<and> snd (env i) + n < (B + 1) * 2 ^ 16"
    and "inWindow B (Suc n) st" "\<And>r t s. t div 2 ^ 16 = B \<Longrightarrow> has (take 8 (formatUuid (uuidBytes r t s)))"
  shows "\<exists>st'. probeShortIds env has n st = drawUuid env st' \<and> draws st' = draws st + n"
  using assms(1,2)
proof (induction n arbitrary: st)
  case (Suc n)
  obtain r now where e: "env (draws st) = (r, now)" by fastforce
  let ?st = "advanceUuid r now st"
  have w: "inWindow B (Suc n) ?st \<and> uuidTimestamp ?st div 2 ^ 16 = B"
    using inWindow_draw [of B now "Suc n" st r] Suc.prems(1) [of "draws st"] Suc.prems(2) e by simp
  have "B * 2 ^ 16 \<le> snd (env i) \<and> snd (env i) + n < (B + 1) * 2 ^ 16" for i
    using Suc.prems(1) [of i] by simp
  then show ?case
    using Suc.IH [of ?st] w assms(3) by (auto simp: drawUuid_eq [of env st, OF e] Let_def)
qed auto

text \<open>
  \<open>generateEntryId\<close> tells identifiers apart by their first eight characters, which carry the
  clock's upper 32 bits only: once one entry of the present 65.5-second window has its short
  identifier, all 100 probes of every further call in the window hit it, and the call returns the
  full identifier of its 101st draw without looking it up.
\<close>

theorem generateEntryId_probes_in_vain:
  assumes "\<And>i. B * 2 ^ 16 \<le> snd (env i) \<and> snd (env i) + 100 < (B + 1) * 2 ^ 16"
    and "inWindow B 101 st" and "t div 2 ^ 16 = B"
    and "has (take 8 (formatUuid (uuidBytes r t s)))"
  shows "\<exists>st'. generateEntryId env has st = drawUuid env st' \<and> draws st' = draws st + 100"
  unfolding generateEntryId_def
proof (rule probeShortIds_window)
  show "has (take 8 (formatUuid (uuidBytes r' t' s')))" if "t' div 2 ^ 16 = B" for r' t' s'
    using assms(3,4) that short_id_window [of t t' r s r' s'] by simp
qed (use assms(1,2) in auto)

theorem generateEntryId_probes_in_vain_witness:
  "\<exists>st'. generateEntryId (\<lambda>_. ([], 1700000030000)) (\<lambda>u. u = take 8 (formatUuid (uuidBytes [] 1700000020000 0)))
      initialUuidState = drawUuid (\<lambda>_. ([], 1700000030000)) st' \<and> draws st' = 100"
  using generateEntryId_probes_in_vain [of 25939941 "\<lambda>_. ([], 1700000030000)" initialUuidState 1700000020000
      "\<lambda>u. u = take 8 (formatUuid (uuidBytes [] 1700000020000 0))" "[]" 0]
  by (simp add: inWindow_def uuidTimestamp_def initialUuidState_def)

end
