(* ===== verification/SessionStorage.thy ===== *)
theory SessionStorage
  imports EntryTransaction Uuid
begin

section \<open>Session storage\<close>

text \<open>
  The interface \<open>SessionStorage\<close> of \<open>packages/agent/harness/types.ts\<close> as a record of operations, and
  \<open>packages/agent/harness/session/memory-storage.ts\<close>, which implements it.  The entries form a tree
  by their parents; the leaf is the entry the next one is appended below.

  The generator state of \<open>uuid.ts\<close>, a module variable there, is a field of the state.  The appends of
  one storage run one after the other (\<open>appendTail\<close>), so \<open>appendEntries\<close> is one step.
  \<open>getPathToRoot\<close> follows parents in a loop without bound: it is a partial function, with \<open>None\<close> for
  a call that does not return.

  The locale \<open>session_storage\<close> states what the callers of the interface rely on; the in-memory
  storage is proved to be an interpretation.
\<close>

subsection \<open>Errors and the interface\<close>

datatype session_error_code =
  NotFound | InvalidSession | InvalidEntry | StaleLeaf | InvalidForkTarget | StorageFailure | UnknownError

datatype storage_error = SessionError session_error_code string | TransactionError tx_error

text \<open>\<open>SessionAppendOptions\<close>: no own property \<open>expectedLeafId\<close>, or one with the given value.\<close>

datatype expected_leaf = NoExpectation | ExpectLeaf "string option" | ExpectUndefined

record 's storageOps =
  opGetLeafId :: "('s, storage_error, string option) action"
  opSetLeafId :: "string \<Rightarrow> string option \<Rightarrow> ('s, storage_error, unit) action"
  opCreateEntryId :: "('s, storage_error, string) action"
  opAppendEntries :: "entry list \<Rightarrow> expected_leaf \<Rightarrow> ('s, storage_error, unit) action"
  opGetEntry :: "string \<Rightarrow> 's \<Rightarrow> entry option"
  opFindEntries :: "string \<Rightarrow> 's \<Rightarrow> entry list"
  opGetLabel :: "string \<Rightarrow> 's \<Rightarrow> string option"
  opGetPathToRoot :: "string option \<Rightarrow> 's \<Rightarrow> (storage_error + entry list) option"
  opGetEntries :: "'s \<Rightarrow> entry list"

definition showNullable :: "string option \<Rightarrow> string" where
  "showNullable s = (case s of None \<Rightarrow> ''null'' | Some x \<Rightarrow> x)"

definition assertExpectedSessionLeaf :: "expected_leaf \<Rightarrow> string option \<Rightarrow> storage_error + unit" where
  "assertExpectedSessionLeaf options currentLeafId = (case options of
     NoExpectation \<Rightarrow> Inr ()
   | ExpectLeaf l \<Rightarrow> if l = currentLeafId then Inr ()
       else Inl (SessionError StaleLeaf (''Session leaf changed before append: expected '' @ showNullable l
                 @ '', found '' @ showNullable currentLeafId))
   | ExpectUndefined \<Rightarrow> Inl (SessionError StaleLeaf (''Session leaf changed before append: expected undefined, found ''
                 @ showNullable currentLeafId)))"

subsection \<open>The in-memory storage\<close>

record memoryStorage =
  msEntries :: "entry list"
  msById :: "string \<Rightarrow> entry option"
  msEntryIds :: "string set"
  msTransactionIds :: "string set"
  msLabelsById :: "string \<Rightarrow> string option"
  msLeafId :: "string option"
  msUuid :: uuidState

definition updateLabelCache :: "(string \<Rightarrow> string option) \<Rightarrow> entry \<Rightarrow> string \<Rightarrow> string option" where
  "updateLabelCache labelsById e = (case eKind e of
     LabelEntry targetId label \<Rightarrow>
       (let trimmed = (case label of None \<Rightarrow> [] | Some l \<Rightarrow> trim l)
        in if trimmed \<noteq> [] then labelsById(targetId \<mapsto> trimmed) else labelsById(targetId := None))
   | _ \<Rightarrow> labelsById)"

definition buildLabelsById :: "entry list \<Rightarrow> string \<Rightarrow> string option" where
  "buildLabelsById entries = foldl updateLabelCache (\<lambda>_. None) entries"

definition leafIdAfterEntry :: "entry \<Rightarrow> string option" where
  "leafIdAfterEntry e = (case eKind e of LeafEntry targetId \<Rightarrow> targetId | _ \<Rightarrow> Some (eId e))"

definition buildTransactionIds :: "entry list \<Rightarrow> string set" where
  "buildTransactionIds entries = set (concat (map (\<lambda>e. case eTx e of None \<Rightarrow> [] | Some t \<Rightarrow> [t]) entries))"

definition addById :: "(string \<Rightarrow> entry option) \<Rightarrow> entry list \<Rightarrow> string \<Rightarrow> entry option" where
  "addById byId entries = foldl (\<lambda>m e. m(eId e \<mapsto> e)) byId entries"

definition createMemoryStorage :: "(string \<Rightarrow> string) \<Rightarrow> entry list \<Rightarrow> uuidState \<Rightarrow> storage_error + memoryStorage" where
  "createMemoryStorage sha initial uuid =
    (let entries = crEntries (filterCommittedTransactionEntries sha initial);
         byId = addById (\<lambda>_. None) entries;
         leafId = foldl (\<lambda>_ e. leafIdAfterEntry e) None entries
     in if (case leafId of None \<Rightarrow> False | Some l \<Rightarrow> byId l = None)
        then Inl (SessionError InvalidSession (''Entry '' @ the leafId @ '' not found''))
        else Inr \<lparr>msEntries = entries, msById = byId, msEntryIds = eId ` set entries,
                  msTransactionIds = buildTransactionIds entries, msLabelsById = buildLabelsById entries,
                  msLeafId = leafId, msUuid = uuid\<rparr>)"

definition memGetLeafId :: "(memoryStorage, storage_error, string option) action" where
  "memGetLeafId st = (if (case msLeafId st of None \<Rightarrow> False | Some l \<Rightarrow> msById st l = None)
     then (Inl (SessionError InvalidSession (''Entry '' @ the (msLeafId st) @ '' not found'')), st)
     else (Inr (msLeafId st), st))"

definition appendEntriesNow :: "(string \<Rightarrow> string) \<Rightarrow> entry list \<Rightarrow> expected_leaf \<Rightarrow> memoryStorage \<Rightarrow> storage_error + memoryStorage" where
  "appendEntriesNow sha entries options st =
    andThen (assertExpectedSessionLeaf options (msLeafId st)) (\<lambda>_.
    andThen (case validateSessionEntriesForAppend sha (\<lambda>i. i \<in> msEntryIds st) (\<lambda>t. t \<in> msTransactionIds st) entries of
               Inl e \<Rightarrow> Inl (TransactionError e) | Inr u \<Rightarrow> Inr u) (\<lambda>_.
    Inr (st\<lparr>msEntries := msEntries st @ entries,
            msById := addById (msById st) entries,
            msEntryIds := msEntryIds st \<union> eId ` set entries,
            msTransactionIds := msTransactionIds st \<union> buildTransactionIds entries,
            msLabelsById := foldl updateLabelCache (msLabelsById st) entries,
            msLeafId := (if entries \<noteq> [] then leafIdAfterEntry (last entries) else msLeafId st)\<rparr>)))"

definition memAppendEntries :: "(string \<Rightarrow> string) \<Rightarrow> entry list \<Rightarrow> expected_leaf \<Rightarrow> (memoryStorage, storage_error, unit) action" where
  "memAppendEntries sha entries options st = (case appendEntriesNow sha entries options st of
     Inl e \<Rightarrow> (Inl e, st) | Inr st' \<Rightarrow> (Inr (), st'))"

definition memCreateEntryId :: "uuidEnv \<Rightarrow> (memoryStorage, storage_error, string) action" where
  "memCreateEntryId env st = (let (i, uuid) = generateEntryId env (\<lambda>i. msById st i \<noteq> None) (msUuid st)
     in (Inr i, st\<lparr>msUuid := uuid\<rparr>))"

definition memSetLeafId :: "(string \<Rightarrow> string) \<Rightarrow> uuidEnv \<Rightarrow> string \<Rightarrow> string option \<Rightarrow> (memoryStorage, storage_error, unit) action" where
  "memSetLeafId sha env now leafId st =
    (if (case leafId of None \<Rightarrow> False | Some l \<Rightarrow> msById st l = None)
     then (Inl (SessionError NotFound (''Entry '' @ the leafId @ '' not found'')), st)
     else bindS (memCreateEntryId env) (\<lambda>i. memAppendEntries sha
       [\<lparr>eId = i, eParent = msLeafId st, eTimestamp = now, eTx = None, eKind = LeafEntry leafId\<rparr>] NoExpectation) st)"

text \<open>The \<open>while\<close> loop of \<open>getPathToRoot\<close>: the path so far, whose first entry is the current one.\<close>

partial_function (option) walkToRoot :: "(string \<Rightarrow> entry option) \<Rightarrow> entry \<Rightarrow> entry list \<Rightarrow> (storage_error + entry list) option" where
  "walkToRoot byId current path = (case eParent current of
     None \<Rightarrow> Some (Inr (current # path))
   | Some p \<Rightarrow> if p = [] then Some (Inr (current # path))
       else (case byId p of
         None \<Rightarrow> Some (Inl (SessionError InvalidSession (''Entry '' @ p @ '' not found'')))
       | Some parent \<Rightarrow> walkToRoot byId parent (current # path)))"

declare walkToRoot.simps [code]

definition memGetPathToRoot :: "string option \<Rightarrow> memoryStorage \<Rightarrow> (storage_error + entry list) option" where
  "memGetPathToRoot leafId st = (case leafId of
     None \<Rightarrow> Some (Inr [])
   | Some l \<Rightarrow> (case msById st l of
       None \<Rightarrow> Some (Inl (SessionError NotFound (''Entry '' @ l @ '' not found'')))
     | Some current \<Rightarrow> walkToRoot (msById st) current []))"

definition memoryOps :: "(string \<Rightarrow> string) \<Rightarrow> uuidEnv \<Rightarrow> memoryStorage storageOps" where
  "memoryOps sha env = \<lparr>opGetLeafId = memGetLeafId, opSetLeafId = memSetLeafId sha env,
     opCreateEntryId = memCreateEntryId env, opAppendEntries = memAppendEntries sha,
     opGetEntry = (\<lambda>i st. msById st i),
     opFindEntries = (\<lambda>type st. filter (\<lambda>e. entryType e = type) (msEntries st)),
     opGetLabel = (\<lambda>i st. msLabelsById st i), opGetPathToRoot = memGetPathToRoot, opGetEntries = msEntries\<rparr>"

subsection \<open>The tree of a file\<close>

text \<open>The path to an entry, read off the newest entries first.\<close>

primrec pathRev :: "entry list \<Rightarrow> string \<Rightarrow> entry list" where
  "pathRev [] i = []"
| "pathRev (e # older) i =
    (if eId e = i then (case eParent e of None \<Rightarrow> [e] | Some p \<Rightarrow> pathRev older p @ [e]) else pathRev older i)"

definition pathIn :: "entry list \<Rightarrow> string \<Rightarrow> entry list" where
  "pathIn es i = pathRev (rev es) i"

definition leafOf :: "entry list \<Rightarrow> string option" where
  "leafOf es = (if es = [] then None else leafIdAfterEntry (last es))"

definition leafValid :: "entry list \<Rightarrow> bool" where
  "leafValid es \<longleftrightarrow> (case leafOf es of None \<Rightarrow> True | Some i \<Rightarrow> i \<in> eId ` set es)"

definition branchOf :: "entry list \<Rightarrow> entry list" where
  "branchOf es = (case leafOf es of None \<Rightarrow> [] | Some i \<Rightarrow> pathIn es i)"

text \<open>A file every storage keeps: nothing to report, and every parent earlier in the file.\<close>

definition wellFormedFile :: "(string \<Rightarrow> string) \<Rightarrow> entry list \<Rightarrow> bool" where
  "wellFormedFile sha es \<longleftrightarrow> clean sha es \<and> parentsResolved (\<lambda>_. False) es"

lemma pathIn_snoc [simp]: "pathIn (es @ [e]) i =
    (if eId e = i then (case eParent e of None \<Rightarrow> [e] | Some p \<Rightarrow> pathIn es p @ [e]) else pathIn es i)"
  by (simp add: pathIn_def split: option.split)

lemma leafOf_snoc [simp]: "leafOf (es @ [e]) = leafIdAfterEntry e"
  by (simp add: leafOf_def)

lemma foldl_leaf: "foldl (\<lambda>_ e. leafIdAfterEntry e) l es = (if es = [] then l else leafIdAfterEntry (last es))"
  by (induction es rule: rev_induct) auto

lemma parentsResolved_append: "parentsResolved h (es @ bs) \<longleftrightarrow>
    parentsResolved h es \<and> parentsResolved (\<lambda>i. h i \<or> i \<in> eId ` set es) bs"
proof (induction es arbitrary: h)
  case (Cons e es)
  have "(\<lambda>i. (h i \<or> i = eId e) \<or> i \<in> eId ` set es) = (\<lambda>i. h i \<or> i \<in> eId ` set (e # es))" by auto
  then show ?case using Cons.IH [of "\<lambda>i. h i \<or> i = eId e"] by simp
qed simp

lemma wellFormedFile_append:
  assumes "wellFormedFile sha es" "clean sha bs" "parentsResolved (\<lambda>i. i \<in> eId ` set es) bs"
    and "eId ` set es \<inter> eId ` set bs = {}" "eTx ` set es \<inter> eTx ` set bs \<subseteq> {None}"
  shows "wellFormedFile sha (es @ bs)"
  using assms by (simp add: wellFormedFile_def clean_append parentsResolved_append)

lemma pathIn_stable: "i \<in> eId ` set es \<Longrightarrow> eId ` set es \<inter> eId ` set bs = {} \<Longrightarrow> pathIn (es @ bs) i = pathIn es i"
proof (induction bs rule: rev_induct)
  case (snoc b bs)
  then have "eId b \<noteq> i" by auto
  with snoc show ?case by (simp flip: append_assoc)
qed simp

lemma pathIn_last: "i \<in> eId ` set es \<Longrightarrow> pathIn es i \<noteq> [] \<and> eId (last (pathIn es i)) = i"
  by (induction es arbitrary: i rule: rev_induct) (auto split: option.split)

lemma pathIn_subset: "set (pathIn es i) \<subseteq> set es"
  by (induction es arbitrary: i rule: rev_induct) (auto simp: pathIn_def [of "[]"] split: option.splits)

subsection \<open>What callers rely on\<close>

text \<open>
  \<open>inv\<close> is the provider's invariant, kept by each operation.  A branch is the path to the leaf;
  appending a batch adds it to the end of the file.
\<close>

locale session_storage =
  fixes ops :: "'s storageOps" and sha :: "string \<Rightarrow> string" and inv :: "'s \<Rightarrow> bool"
  assumes inv_file: "inv s \<Longrightarrow> wellFormedFile sha (opGetEntries ops s)"
    and getLeafId: "inv s \<Longrightarrow> leafValid (opGetEntries ops s) \<Longrightarrow> opGetLeafId ops s = (Inr (leafOf (opGetEntries ops s)), s)"
    and getEntry: "inv s \<Longrightarrow> opGetEntry ops i s = find (\<lambda>e. eId e = i) (opGetEntries ops s)"
    and getPath: "inv s \<Longrightarrow> i \<in> eId ` set (opGetEntries ops s)
        \<Longrightarrow> opGetPathToRoot ops (Some i) s = Some (Inr (pathIn (opGetEntries ops s) i))"
    and getPath_None: "opGetPathToRoot ops None s = Some (Inr [])"
    and createEntryId: "inv s \<Longrightarrow> \<exists>i s'. opCreateEntryId ops s = (Inr i, s') \<and> inv s' \<and> opGetEntries ops s' = opGetEntries ops s"
    and append_ok: "inv s \<Longrightarrow> opAppendEntries ops es x s = (Inr (), s')
        \<Longrightarrow> inv s' \<and> opGetEntries ops s' = opGetEntries ops s @ es"
    and append_err: "inv s \<Longrightarrow> opAppendEntries ops es x s = (Inl err, s') \<Longrightarrow> inv s' \<and> opGetEntries ops s' = opGetEntries ops s"
    and setLeaf: "inv s \<Longrightarrow> leafValid (opGetEntries ops s) \<Longrightarrow> opSetLeafId ops now l s = (Inr (), s')
        \<Longrightarrow> inv s' \<and> leafOf (opGetEntries ops s') = l \<and> leafValid (opGetEntries ops s')
          \<and> (\<exists>e. opGetEntries ops s' = opGetEntries ops s @ [e] \<and> eTx e = None)"
    and setLeaf_any: "inv s \<Longrightarrow> opSetLeafId ops now l s = (Inr (), s')
        \<Longrightarrow> inv s' \<and> (\<exists>e. opGetEntries ops s' = opGetEntries ops s @ [e])"
    and setLeaf_err: "inv s \<Longrightarrow> opSetLeafId ops now l s = (Inl err, s') \<Longrightarrow> inv s' \<and> opGetEntries ops s' = opGetEntries ops s"
begin

definition entriesOf :: "'s \<Rightarrow> entry list" where
  "entriesOf s = opGetEntries ops s"

lemma leaf_path:
  assumes "inv s" "leafValid (entriesOf s)"
  shows "opGetPathToRoot ops (leafOf (entriesOf s)) s = Some (Inr (branchOf (entriesOf s)))"
  using assms getPath [of s] getPath_None [of s]
  by (auto simp: branchOf_def leafValid_def entriesOf_def split: option.splits)

lemma append_keeps_ids:
  assumes "inv s" "opAppendEntries ops es x s = (Inr (), s')"
  shows "distinct (map eId (entriesOf s @ es))"
proof -
  have "wellFormedFile sha (opGetEntries ops s @ es)" using append_ok [OF assms] inv_file [of s'] by metis
  then show ?thesis using clean_distinct unfolding wellFormedFile_def entriesOf_def by blast
qed

lemma appended_entry_extends_branch:
  assumes "inv s" "opAppendEntries ops [e] x s = (Inr (), s')"
    and "\<forall>t. eKind e \<noteq> LeafEntry t" and "eParent e = leafOf (entriesOf s)"
  shows "branchOf (entriesOf s') = branchOf (entriesOf s) @ [e] \<and> leafOf (entriesOf s') = Some (eId e)
    \<and> leafValid (entriesOf s')"
proof -
  have new: "entriesOf s' = entriesOf s @ [e]" using append_ok [OF assms(1,2)] by (simp add: entriesOf_def)
  moreover have "leafIdAfterEntry e = Some (eId e)"
    using assms(3) by (auto simp: leafIdAfterEntry_def split: entry_kind.split)
  ultimately show ?thesis using assms(4)
    by (auto simp: branchOf_def leafValid_def split: option.split)
qed

end

text \<open>A storage that cannot fail: a fresh entry below the leaf is always appended.\<close>

locale reliable_storage = session_storage +
  assumes append_fresh: "inv s \<Longrightarrow> eId e \<noteq> [] \<Longrightarrow> eId e \<notin> eId ` set (opGetEntries ops s) \<Longrightarrow> eTx e = None
        \<Longrightarrow> (case eParent e of None \<Rightarrow> True | Some p \<Rightarrow> p \<in> eId ` set (opGetEntries ops s))
        \<Longrightarrow> \<exists>s'. opAppendEntries ops [e] NoExpectation s = (Inr (), s')"
begin

lemma fresh_entry_extends_branch:
  assumes "inv s" "leafValid (entriesOf s)" "eId e \<noteq> []" "eId e \<notin> eId ` set (entriesOf s)" "eTx e = None"
    and "\<forall>t. eKind e \<noteq> LeafEntry t" "eParent e = leafOf (entriesOf s)"
  shows "\<exists>s'. opAppendEntries ops [e] NoExpectation s = (Inr (), s') \<and> branchOf (entriesOf s') = branchOf (entriesOf s) @ [e]"
proof -
  have "case eParent e of None \<Rightarrow> True | Some p \<Rightarrow> p \<in> eId ` set (opGetEntries ops s)"
    using assms(2,7) by (simp add: leafValid_def entriesOf_def)
  then obtain s' where "opAppendEntries ops [e] NoExpectation s = (Inr (), s')"
    using append_fresh [OF assms(1,3) _ assms(5)] assms(4) unfolding entriesOf_def by blast
  with appended_entry_extends_branch [OF assms(1) this assms(6,7)] show ?thesis by blast
qed

end

subsection \<open>The in-memory storage keeps its caches\<close>

text \<open>
  Every cache of the storage is the function of the entries that the constructor computes: the
  index, the two identifier sets, the labels and the leaf.
\<close>

definition memInv :: "(string \<Rightarrow> string) \<Rightarrow> memoryStorage \<Rightarrow> bool" where
  "memInv sha st \<longleftrightarrow> wellFormedFile sha (msEntries st)
     \<and> msById st = addById (\<lambda>_. None) (msEntries st) \<and> msEntryIds st = eId ` set (msEntries st)
     \<and> msTransactionIds st = buildTransactionIds (msEntries st)
     \<and> msLabelsById st = buildLabelsById (msEntries st) \<and> msLeafId st = leafOf (msEntries st)"

lemma addById_append: "addById m (es @ bs) = addById (addById m es) bs"
  by (simp add: addById_def)

lemma buildTransactionIds_append: "buildTransactionIds (es @ bs) = buildTransactionIds es \<union> buildTransactionIds bs"
  by (simp add: buildTransactionIds_def)

lemma in_buildTransactionIds: "t \<in> buildTransactionIds es \<longleftrightarrow> Some t \<in> eTx ` set es"
  by (induction es) (auto simp: buildTransactionIds_def split: option.splits)

lemma addById_find: "distinct (map eId es) \<Longrightarrow> addById (\<lambda>_. None) es i = find (\<lambda>e. eId e = i) es"
proof (induction es rule: rev_induct)
  case (snoc e es)
  then have "find (\<lambda>x. eId x = eId e) es = None" by (simp add: find_key_None)
  with snoc show ?case by (auto simp: addById_def find_append split: option.split)
qed (simp add: addById_def)

lemma wellFormedFile_distinct: "wellFormedFile sha es \<Longrightarrow> distinct (map eId es)"
  using clean_distinct by (auto simp: wellFormedFile_def)

lemma memInv_byId: "memInv sha st \<Longrightarrow> msById st i = find (\<lambda>e. eId e = i) (msEntries st)"
  by (metis addById_find wellFormedFile_distinct memInv_def)

lemma memInv_has: "memInv sha st \<Longrightarrow> msById st i = None \<longleftrightarrow> i \<notin> eId ` set (msEntries st)"
  by (simp add: memInv_byId find_key_None)

lemma appendEntriesNow_Inr:
  assumes "memInv sha st"
  shows "appendEntriesNow sha es x st = Inr st' \<longleftrightarrow>
    assertExpectedSessionLeaf x (msLeafId st) = Inr ()
    \<and> clean sha es \<and> parentsResolved (\<lambda>i. i \<in> eId ` set (msEntries st)) es
    \<and> (\<forall>e \<in> set es. eId e \<notin> eId ` set (msEntries st) \<and> freshTx (\<lambda>t. t \<in> msTransactionIds st) e)
    \<and> st' = st\<lparr>msEntries := msEntries st @ es, msById := addById (msById st) es,
            msEntryIds := msEntryIds st \<union> eId ` set es,
            msTransactionIds := msTransactionIds st \<union> buildTransactionIds es,
            msLabelsById := foldl updateLabelCache (msLabelsById st) es,
            msLeafId := (if es \<noteq> [] then leafIdAfterEntry (last es) else msLeafId st)\<rparr>"
proof -
  have ids: "msEntryIds st = eId ` set (msEntries st)" using assms by (simp add: memInv_def)
  have "(case r of Inl e \<Rightarrow> Inl (TransactionError e) | Inr u \<Rightarrow> Inr u) = Inr u \<longleftrightarrow> r = Inr u"
    for r :: "tx_error + unit" and u by (cases r) auto
  note unwrap = this
  show ?thesis unfolding appendEntriesNow_def andThen_eq_Inr unwrap validateAppend_Inr ids by auto
qed

lemma memInv_append:
  assumes "memInv sha st" "appendEntriesNow sha es x st = Inr st'"
  shows "memInv sha st' \<and> msEntries st' = msEntries st @ es"
proof -
  note ok = assms(2) [unfolded appendEntriesNow_Inr [OF assms(1)]]
  have tx: "eTx ` set (msEntries st) \<inter> eTx ` set es \<subseteq> {None}"
  proof
    fix t assume t: "t \<in> eTx ` set (msEntries st) \<inter> eTx ` set es"
    show "t \<in> {None}"
    proof (cases t)
      case (Some x)
      then have "x \<in> msTransactionIds st" using t assms(1) by (simp add: memInv_def in_buildTransactionIds)
      moreover obtain e where "e \<in> set es" "eTx e = Some x" using t Some by auto
      ultimately show ?thesis using ok by (auto simp: freshTx_def)
    qed simp
  qed
  have "\<forall>e \<in> set es. eId e \<notin> eId ` set (msEntries st)" using ok by simp
  then have disj: "eId ` set (msEntries st) \<inter> eId ` set es = {}" by (rule image_disjoint)
  have "wellFormedFile sha (msEntries st)" using assms(1) by (simp add: memInv_def)
  moreover have "clean sha es" "parentsResolved (\<lambda>i. i \<in> eId ` set (msEntries st)) es" using ok by blast+
  ultimately have "wellFormedFile sha (msEntries st @ es)" by (rule wellFormedFile_append [OF _ _ _ disj tx])
  moreover have "(if es \<noteq> [] then leafIdAfterEntry (last es) else leafOf (msEntries st)) = leafOf (msEntries st @ es)"
    by (simp add: leafOf_def)
  moreover have "st' = st\<lparr>msEntries := msEntries st @ es, msById := addById (msById st) es,
            msEntryIds := msEntryIds st \<union> eId ` set es,
            msTransactionIds := msTransactionIds st \<union> buildTransactionIds es,
            msLabelsById := foldl updateLabelCache (msLabelsById st) es,
            msLeafId := (if es \<noteq> [] then leafIdAfterEntry (last es) else msLeafId st)\<rparr>"
    using ok by blast
  ultimately show ?thesis using assms(1)
    by (simp add: memInv_def addById_append buildTransactionIds_append buildLabelsById_def image_Un leafOf_def)
qed

lemma memInv_uuid [simp]: "memInv sha (st\<lparr>msUuid := u\<rparr>) = memInv sha st"
  by (simp add: memInv_def)

subsection \<open>The path loop returns\<close>

lemma parentsResolved_nth:
  "parentsResolved h es \<Longrightarrow> n < length es \<Longrightarrow> eParent (es ! n) = Some p \<Longrightarrow> h p \<or> (\<exists>m < n. eId (es ! m) = p)"
proof (induction es arbitrary: h n)
  case (Cons e es)
  show ?case
  proof (cases n)
    case (Suc k)
    with Cons.IH [of "\<lambda>i. h i \<or> i = eId e" k] Cons.prems show ?thesis
      by (metis Suc_less_eq length_Cons nth_Cons_0 nth_Cons_Suc parentsResolved.simps(2) zero_less_Suc)
  qed (use Cons.prems in auto)
qed simp

lemma pathIn_unfold:
  assumes "wellFormedFile sha es" "e \<in> set es"
  shows "pathIn es (eId e) = (case eParent e of None \<Rightarrow> [e] | Some p \<Rightarrow> pathIn es p @ [e])"
proof -
  from assms(2) obtain xs ys where es: "es = xs @ e # ys" by (meson split_list)
  have d: "distinct (map eId es)" using assms(1) by (rule wellFormedFile_distinct)
  have "pathIn es (eId e) = pathIn (xs @ [e]) (eId e)"
    using d pathIn_stable [of "eId e" "xs @ [e]" ys] by (auto simp: es)
  moreover have "pathIn es p = pathIn xs p" if "eParent e = Some p" for p
  proof -
    have "p \<in> eId ` set xs"
      using assms(1) that by (simp add: es wellFormedFile_def parentsResolved_append)
    moreover have "eId ` set xs \<inter> eId ` set (e # ys) = {}"
      using d unfolding es map_append distinct_append set_map by blast
    ultimately show ?thesis using pathIn_stable [of p xs "e # ys"] by (simp add: es)
  qed
  ultimately show ?thesis by (auto split: option.split)
qed

lemma walkToRoot_path:
  assumes "wellFormedFile sha es" "n < length es"
  shows "walkToRoot (\<lambda>i. find (\<lambda>e. eId e = i) es) (es ! n) path = Some (Inr (pathIn es (eId (es ! n)) @ path))"
  using assms(2)
proof (induction n arbitrary: path rule: less_induct)
  case (less n)
  let ?e = "es ! n"
  have d: "distinct (map eId es)" using assms(1) by (rule wellFormedFile_distinct)
  note unfold = pathIn_unfold [OF assms(1), of ?e]
  show ?case
  proof (cases "eParent ?e")
    case None
    then show ?thesis using less.prems unfold by (subst walkToRoot.simps) simp
  next
    case (Some p)
    then obtain m where m: "m < n" "eId (es ! m) = p"
      using parentsResolved_nth [of "\<lambda>_. False" es n p] assms(1) less.prems by (auto simp: wellFormedFile_def)
    then have "m < length es" using less.prems by simp
    then have "find (\<lambda>e. eId e = p) es = Some (es ! m)" "p \<noteq> []"
      using find_key_distinct [OF d, of "es ! m"] m clean_distinct assms(1) by (auto simp: wellFormedFile_def)
    then show ?thesis using Some less.IH [of m "?e # path"] m less.prems unfold
      by (subst walkToRoot.simps) simp
  qed
qed

lemma memGetPathToRoot_path:
  assumes "memInv sha st" "i \<in> eId ` set (msEntries st)"
  shows "memGetPathToRoot (Some i) st = Some (Inr (pathIn (msEntries st) i))"
proof -
  from assms(2) obtain n where n: "n < length (msEntries st)" "eId (msEntries st ! n) = i"
    by (auto simp: in_set_conv_nth)
  have wf: "wellFormedFile sha (msEntries st)" using assms(1) by (simp add: memInv_def)
  have byId: "msById st = (\<lambda>i. find (\<lambda>e. eId e = i) (msEntries st))"
    using memInv_byId [OF assms(1)] by auto
  have "find (\<lambda>e. eId e = i) (msEntries st) = Some (msEntries st ! n)"
    using find_key_distinct [OF wellFormedFile_distinct [OF wf], of "msEntries st ! n"] n by simp
  then show ?thesis using walkToRoot_path [OF wf n(1), of "[]"] n(2)
    by (simp add: memGetPathToRoot_def byId)
qed

lemma memAppend_Inr: "memAppendEntries sha es x st = (Inr u, st') \<longleftrightarrow> appendEntriesNow sha es x st = Inr st'"
  by (auto simp: memAppendEntries_def split: sum.split)

lemma memAppend_Inl: "memAppendEntries sha es x st = (Inl err, st') \<longleftrightarrow> appendEntriesNow sha es x st = Inl err \<and> st' = st"
  by (auto simp: memAppendEntries_def split: sum.split)

lemma occurrences_single: "occurrences [e] i = (if eId e = i then 1 else 0)"
  by (simp add: occurrences_def)

lemma clean_single: "eId e \<noteq> [] \<Longrightarrow> eTx e = None \<Longrightarrow> clean sha [e]"
  by (simp add: clean_iff usable_def occurrences_single)

lemma memAppend_fresh:
  assumes "memInv sha st" "eId e \<noteq> []" "eId e \<notin> eId ` set (msEntries st)" "eTx e = None"
    and "case eParent e of None \<Rightarrow> True | Some p \<Rightarrow> p \<in> eId ` set (msEntries st)"
  shows "\<exists>st'. memAppendEntries sha [e] NoExpectation st = (Inr (), st')"
  unfolding memAppend_Inr appendEntriesNow_Inr [OF assms(1)]
  using assms(2-) by (simp add: clean_single assertExpectedSessionLeaf_def freshTx_def split: option.splits)

lemma memSetLeaf_Inr:
  assumes "memInv sha st" "memSetLeafId sha env now l st = (Inr (), st')"
  shows "memInv sha st' \<and> leafOf (msEntries st') = l \<and> leafValid (msEntries st')
    \<and> (\<exists>e. msEntries st' = msEntries st @ [e] \<and> eTx e = None)"
proof -
  obtain i u where i: "memCreateEntryId env st = (Inr i, st\<lparr>msUuid := u\<rparr>)"
    by (cases "generateEntryId env (\<lambda>i. msById st i \<noteq> None) (msUuid st)") (simp add: memCreateEntryId_def)
  let ?e = "\<lparr>eId = i, eParent = msLeafId st, eTimestamp = now, eTx = None, eKind = LeafEntry l\<rparr>"
  have known: "case l of None \<Rightarrow> True | Some x \<Rightarrow> x \<in> eId ` set (msEntries st)"
    using assms(2) memInv_has [OF assms(1)] by (auto simp: memSetLeafId_def split: option.splits if_splits)
  have "memAppendEntries sha [?e] NoExpectation (st\<lparr>msUuid := u\<rparr>) = (Inr (), st')"
    using assms(2) i by (auto simp: memSetLeafId_def split: if_splits)
  then have "memInv sha st' \<and> msEntries st' = msEntries st @ [?e]"
    using memInv_append [of sha "st\<lparr>msUuid := u\<rparr>" "[?e]" NoExpectation st'] assms(1)
    unfolding memAppend_Inr by simp
  then show ?thesis using known
    by (auto simp: leafValid_def leafIdAfterEntry_def split: option.splits)
qed

lemma memSetLeaf_Inl:
  assumes "memInv sha st" "memSetLeafId sha env now l st = (Inl err, st')"
  shows "memInv sha st' \<and> msEntries st' = msEntries st"
proof -
  obtain i u where "memCreateEntryId env st = (Inr i, st\<lparr>msUuid := u\<rparr>)"
    by (cases "generateEntryId env (\<lambda>i. msById st i \<noteq> None) (msUuid st)") (simp add: memCreateEntryId_def)
  then show ?thesis using assms by (auto simp: memSetLeafId_def memAppend_Inl split: if_splits)
qed

interpretation mem: session_storage "memoryOps sha env" sha "memInv sha" for sha env
proof (unfold_locales, goal_cases)
  case (1 st)
  then show ?case by (simp add: memoryOps_def memInv_def)
next
  case (2 st)
  then show ?case using memInv_has [OF 2(1)]
    by (auto simp: memoryOps_def memGetLeafId_def leafValid_def memInv_def split: option.splits)
next
  case (3 st i)
  then show ?case by (simp add: memoryOps_def memInv_byId)
next
  case (4 st i)
  then show ?case by (simp add: memoryOps_def memGetPathToRoot_path)
next
  case (5 st)
  show ?case by (simp add: memoryOps_def memGetPathToRoot_def)
next
  case (6 st)
  then show ?case
    by (cases "generateEntryId env (\<lambda>i. msById st i \<noteq> None) (msUuid st)") (simp add: memoryOps_def memCreateEntryId_def)
next
  case (7 st es x st')
  then show ?case using memInv_append [of sha st es x st'] by (simp add: memoryOps_def memAppend_Inr)
next
  case (8 st es x err st')
  then show ?case by (simp add: memoryOps_def memAppend_Inl)
next
  case (9 st now l st')
  then show ?case using memSetLeaf_Inr [of sha st env now l st'] by (simp add: memoryOps_def)
next
  case (10 st now l st')
  then show ?case using memSetLeaf_Inr [of sha st env now l st'] by (auto simp: memoryOps_def)
next
  case (11 st now l err st')
  then show ?case using memSetLeaf_Inl [of sha st env now l err st'] by (simp add: memoryOps_def)
qed

interpretation mem: reliable_storage "memoryOps sha env" sha "memInv sha" for sha env
proof (unfold_locales, goal_cases)
  case (1 st e)
  then show ?case using memAppend_fresh [of sha st e] by (cases "eParent e") (simp_all add: memoryOps_def)
qed

subsection \<open>Properties of the in-memory storage\<close>

text \<open>
  C9: \<open>appendEntries\<close> is atomic and keeps the invariant: a successful call adds the batch to the end
  of the file, a refused one leaves the state as it was, and in both cases the index, the two
  identifier sets, the label map and the leaf are those of the entries, whose parents all precede
  them.
\<close>

theorem append_keeps_invariant:
  assumes "memInv sha st" "memAppendEntries sha es x st = (r, st')"
  shows "memInv sha st' \<and> (case r of Inr _ \<Rightarrow> msEntries st' = msEntries st @ es | Inl _ \<Rightarrow> st' = st)"
  using assms memInv_append [of sha st es x st']
  by (cases r) (auto simp: memAppend_Inr memAppend_Inl)

definition emptyStorage :: memoryStorage where
  "emptyStorage = \<lparr>msEntries = [], msById = (\<lambda>_. None), msEntryIds = {}, msTransactionIds = {},
     msLabelsById = (\<lambda>_. None), msLeafId = None, msUuid = initialUuidState\<rparr>"

lemma memInv_empty: "memInv sha emptyStorage"
  by (simp add: memInv_def emptyStorage_def wellFormedFile_def addById_def buildTransactionIds_def
      buildLabelsById_def leafOf_def)

theorem append_keeps_invariant_witness:
  "memInv (\<lambda>_. ''00'') (snd (memAppendEntries (\<lambda>_. ''00'') [sampleModel ''a'' None None] NoExpectation emptyStorage))"
  using append_keeps_invariant [OF memInv_empty, of "\<lambda>_. ''00''" "[sampleModel ''a'' None None]" NoExpectation]
  by (metis prod.collapse)

text \<open>
  A storage whose leaf exists is rebuilt exactly by the constructor from its entries: reading
  the entries back loses neither entries nor labels nor the position in the tree.
\<close>

theorem reload_restores_state:
  assumes "memInv sha st" "leafValid (msEntries st)"
  shows "createMemoryStorage sha (msEntries st) (msUuid st) = Inr st"
proof -
  have es: "crEntries (filterCommittedTransactionEntries sha (msEntries st)) = msEntries st"
    using assms(1) clean_entries by (auto simp: memInv_def wellFormedFile_def)
  have leaf: "(case msLeafId st of None \<Rightarrow> False | Some l \<Rightarrow> msById st l = None) = False"
    using assms memInv_has [OF assms(1)] by (auto simp: memInv_def leafValid_def split: option.splits)
  have "addById (\<lambda>_. None) (msEntries st) = msById st" "eId ` set (msEntries st) = msEntryIds st"
    "buildTransactionIds (msEntries st) = msTransactionIds st" "buildLabelsById (msEntries st) = msLabelsById st"
    "foldl (\<lambda>_ e. leafIdAfterEntry e) None (msEntries st) = msLeafId st"
    using assms(1) by (simp_all add: memInv_def foldl_leaf leafOf_def)
  note caches = this
  show ?thesis unfolding createMemoryStorage_def Let_def es caches by (simp add: leaf)
qed

theorem reload_restores_state_witness:
  "createMemoryStorage (\<lambda>_. ''00'') [] initialUuidState = Inr emptyStorage"
  using reload_restores_state [OF memInv_empty, of "\<lambda>_. ''00''"]
  by (simp add: emptyStorage_def leafValid_def leafOf_def)

lemma pathIn_Nil [simp]: "pathIn [] i = []"
  by (simp add: pathIn_def)

lemma chained_snoc: "chained (es @ [e]) \<longleftrightarrow> chained es \<and> (es \<noteq> [] \<longrightarrow> eParent e = Some (eId (last es)))"
proof (induction es)
  case (Cons a es)
  then show ?case by (cases es) auto
qed simp

lemma pathIn_chain:
  assumes "parentsResolved (\<lambda>_. False) es" "i \<in> eId ` set es"
  shows "chained (pathIn es i) \<and> eParent (hd (pathIn es i)) = None"
  using assms
proof (induction es arbitrary: i rule: rev_induct)
  case (snoc e es)
  have res: "parentsResolved (\<lambda>_. False) es" using snoc.prems by (simp add: parentsResolved_append)
  show ?case
  proof (cases "eId e = i")
    case True
    show ?thesis
    proof (cases "eParent e")
      case (Some p)
      then have p: "p \<in> eId ` set es" using snoc.prems by (simp add: parentsResolved_append)
      then show ?thesis using snoc.IH [OF res p] pathIn_last [OF p] True Some
        by (simp add: chained_snoc)
    qed (use True in simp)
  next
    case False
    then show ?thesis using snoc.IH [OF res] snoc.prems by auto
  qed
qed simp

lemma pathIn_distinct: "distinct (map eId es) \<Longrightarrow> distinct (map eId (pathIn es i))"
proof (induction es arbitrary: i rule: rev_induct)
  case (snoc e es)
  then have "eId e \<notin> eId ` set (pathIn es p)" for p using pathIn_subset [of es p] by auto
  with snoc show ?case by (auto split: option.split)
qed simp

text \<open>
  C15: for every entry of a storage \<open>getPathToRoot\<close> returns: the result is a chain of distinct entries
  of the storage, from an entry without parent to the entry asked for, each the parent of the next.
\<close>

theorem path_to_root_returns:
  assumes "memInv sha st" "i \<in> eId ` set (msEntries st)"
  shows "\<exists>path. memGetPathToRoot (Some i) st = Some (Inr path) \<and> path \<noteq> [] \<and> eId (last path) = i
    \<and> eParent (hd path) = None \<and> chained path \<and> distinct (map eId path) \<and> set path \<subseteq> set (msEntries st)"
proof -
  have "wellFormedFile sha (msEntries st)" using assms(1) by (simp add: memInv_def)
  then show ?thesis
    using memGetPathToRoot_path [OF assms] pathIn_last [OF assms(2)] pathIn_chain [OF _ assms(2)]
      pathIn_subset [of "msEntries st" i] pathIn_distinct [of "msEntries st" i] wellFormedFile_distinct
    by (auto simp: wellFormedFile_def)
qed

definition twoEntries :: memoryStorage where
  "twoEntries = snd (memAppendEntries (\<lambda>_. ''00'')
     [sampleModel ''a'' None None, sampleUser ''b'' ''a'' None] NoExpectation emptyStorage)"

lemma twoEntries_append:
  "memAppendEntries (\<lambda>_. ''00'') [sampleModel ''a'' None None, sampleUser ''b'' ''a'' None] NoExpectation emptyStorage
    = (Inr (), twoEntries)"
proof -
  have "fst (memAppendEntries (\<lambda>_. ''00'') [sampleModel ''a'' None None, sampleUser ''b'' ''a'' None] NoExpectation emptyStorage)
    = Inr ()" by code_simp
  then show ?thesis by (metis twoEntries_def prod.collapse)
qed

theorem path_to_root_returns_witness:
  "\<exists>path. memGetPathToRoot (Some ''b'') twoEntries = Some (Inr path) \<and> eId (last path) = ''b'' \<and> chained path"
proof -
  have "memInv (\<lambda>_. ''00'') twoEntries" "msEntries twoEntries = [sampleModel ''a'' None None, sampleUser ''b'' ''a'' None]"
    using memInv_append [OF memInv_empty] twoEntries_append by (auto simp: memAppend_Inr emptyStorage_def)
  then show ?thesis using path_to_root_returns [of "\<lambda>_. ''00''" twoEntries "''b''"]
    by (auto simp: sampleUser_def)
qed

text \<open>
  C21: neither the constructor nor \<open>getPathToRoot\<close> looks for cycles: the constructor accepts a file
  whose only entry names itself as its parent, makes it the leaf, and the path to the leaf is never
  returned.
\<close>

lemma walkToRoot_self:
  assumes "eParent e = Some (eId e)" "eId e \<noteq> []" "byId (eId e) = Some e"
  shows "walkToRoot byId e path = None"
proof -
  have "\<not> (eParent c = Some (eId c) \<and> eId c \<noteq> [] \<and> byId (eId c) = Some c)"
    if "walkToRoot byId c p = Some y" for byId c p y
    using that by (rule walkToRoot.raw_induct [rotated]) (auto split: option.splits if_splits)
  then show ?thesis using assms by (metis not_Some_eq)
qed

theorem cyclic_file_never_answers:
  assumes "eId e \<noteq> []" "eParent e = Some (eId e)" "eTx e = None" "leafIdAfterEntry e = Some (eId e)"
  shows "case createMemoryStorage sha [e] uuid of
      Inl err \<Rightarrow> False
    | Inr st \<Rightarrow> memGetLeafId st = (Inr (Some (eId e)), st) \<and> memGetPathToRoot (Some (eId e)) st = None"
  using assms clean_entries [OF clean_single [OF assms(1,3), of sha]]
  by (simp add: createMemoryStorage_def Let_def memGetLeafId_def memGetPathToRoot_def addById_def walkToRoot_self)

theorem cyclic_file_never_answers_witness:
  "case createMemoryStorage (\<lambda>_. ''00'') [sampleModel ''a'' (Some ''a'') None] initialUuidState of
     Inl err \<Rightarrow> False | Inr st \<Rightarrow> memGetPathToRoot (Some ''a'') st = None"
  using cyclic_file_never_answers [of "sampleModel ''a'' (Some ''a'') None" "\<lambda>_. ''00''" initialUuidState]
  by (auto simp: sampleModel_def leafIdAfterEntry_def split: sum.splits)

text \<open>
  Two writers that expect the same leaf do not both succeed: after an append whose last entry is
  not a leaf entry, every append that still expects the old leaf is refused as stale and changes
  nothing.
\<close>

theorem stale_leaf_refused:
  assumes "memInv sha st" "leafValid (msEntries st)" "memAppendEntries sha es (ExpectLeaf l) st = (Inr (), st')"
    and "es \<noteq> []" "leafIdAfterEntry (last es) = Some (eId (last es))"
  shows "\<exists>msg. memAppendEntries sha fs (ExpectLeaf l) st' = (Inl (SessionError StaleLeaf msg), st')"
proof -
  note ok = assms(3) [unfolded memAppend_Inr appendEntriesNow_Inr [OF assms(1)]]
  have l: "l = msLeafId st" using ok by (auto simp: assertExpectedSessionLeaf_def split: if_splits)
  have leaf: "msLeafId st' = Some (eId (last es))" using ok assms(4,5) by simp
  have "eId (last es) \<notin> eId ` set (msEntries st)" using ok assms(4) by simp
  then have "l \<noteq> msLeafId st'" using assms(1,2) l leaf by (auto simp: memInv_def leafValid_def)
  then show ?thesis by (simp add: memAppendEntries_def appendEntriesNow_def assertExpectedSessionLeaf_def)
qed

lemma twoEntries_append_null:
  "memAppendEntries (\<lambda>_. ''00'') [sampleModel ''a'' None None, sampleUser ''b'' ''a'' None] (ExpectLeaf None) emptyStorage
    = (Inr (), twoEntries)"
  using twoEntries_append
  by (simp add: memAppendEntries_def appendEntriesNow_def assertExpectedSessionLeaf_def emptyStorage_def)

theorem stale_leaf_refused_witness:
  "\<exists>msg. memAppendEntries (\<lambda>_. ''00'') [sampleModel ''c'' None None] (ExpectLeaf None) twoEntries
     = (Inl (SessionError StaleLeaf msg), twoEntries)"
  by (rule stale_leaf_refused [OF memInv_empty _ twoEntries_append_null]) code_simp+

end
