(* ===== verification/Messages.thy ===== *)
theory Messages
  imports SessionTypes
begin

section \<open>Harness messages\<close>

text \<open>
  \<open>packages/agent/harness/messages.ts\<close>: the messages a session keeps beside those of the model, and
  \<open>convertToLlm\<close>, which turns a transcript into what the provider is sent.
\<close>

definition COMPACTION_SUMMARY_PREFIX :: string where
  "COMPACTION_SUMMARY_PREFIX = ''The conversation history before this point was compacted into the following summary:

<summary>
''"

definition COMPACTION_SUMMARY_SUFFIX :: string where
  "COMPACTION_SUMMARY_SUFFIX = ''
</summary>''"

definition BRANCH_SUMMARY_PREFIX :: string where
  "BRANCH_SUMMARY_PREFIX = ''The following is a summary of a branch that this conversation came back from:

<summary>
''"

definition BRANCH_SUMMARY_SUFFIX :: string where
  "BRANCH_SUMMARY_SUFFIX = ''</summary>''"

definition backticks :: string where
  "backticks = [CHR 0x60, CHR 0x60, CHR 0x60]"

definition bashExecutionToText :: "bashExecutionMessage \<Rightarrow> string" where
  "bashExecutionToText msg =
    (let text = ''Ran '' @ [CHR 0x60] @ beCommand msg @ [CHR 0x60] @ nl;
         text = text @ (if beOutput msg \<noteq> [] then backticks @ nl @ beOutput msg @ nl @ backticks else ''(no output)'');
         text = text @ (if beCancelled msg then nl @ nl @ ''(command cancelled)''
                        else case beExitCode msg of
                            None \<Rightarrow> []
                          | Some n \<Rightarrow> if n \<noteq> 0 then nl @ nl @ ''Command exited with code '' @ intToString n else []);
         fullPath = (case beFullOutputPath msg of None \<Rightarrow> [] | Some p \<Rightarrow> p)
     in if beTruncated msg \<and> fullPath \<noteq> [] then text @ nl @ nl @ ''[Output truncated. Full output: '' @ fullPath @ '']''
        else text)"

definition createBranchSummaryMessage :: "string \<Rightarrow> string \<Rightarrow> string \<Rightarrow> agent_message" where
  "createBranchSummaryMessage summary fromId timestamp =
    BranchSummaryMsg \<lparr>bsmSummary = summary, bsmFromId = fromId, bsmTimestamp = isoMillis timestamp\<rparr>"

definition createCompactionSummaryMessage :: "string \<Rightarrow> int \<Rightarrow> string \<Rightarrow> agent_message" where
  "createCompactionSummaryMessage summary tokensBefore timestamp =
    CompactionSummaryMsg \<lparr>csmSummary = summary, csmTokensBefore = tokensBefore, csmTimestamp = isoMillis timestamp\<rparr>"

text \<open>The object literal always has the property \<open>details\<close>.\<close>

definition createCustomMessage :: "string \<Rightarrow> user_content \<Rightarrow> bool \<Rightarrow> json option \<Rightarrow> string \<Rightarrow> agent_message" where
  "createCustomMessage customType content display details timestamp =
    CustomMsg \<lparr>cmCustomType = customType, cmContent = content, cmDisplay = display,
      cmDetails = Some (case details of None \<Rightarrow> JUndefined | Some d \<Rightarrow> d), cmTimestamp = isoMillis timestamp\<rparr>"

definition plainUser :: "content_part list \<Rightarrow> jsTime \<Rightarrow> agent_message" where
  "plainUser parts timestamp = UserMsg \<lparr>umContent = ContentParts parts, umTimestamp = timestamp\<rparr>"

definition toLlm :: "agent_message \<Rightarrow> agent_message option" where
  "toLlm m = (case m of
     BashExecutionMsg b \<Rightarrow> if beExcludeFromContext b = Some True then None
       else Some (plainUser [TextContent (bashExecutionToText b) None] (beTimestamp b))
   | CustomMsg c \<Rightarrow> Some (plainUser (case cmContent c of ContentText t \<Rightarrow> [TextContent t None] | ContentParts ps \<Rightarrow> ps) (cmTimestamp c))
   | BranchSummaryMsg b \<Rightarrow> Some (plainUser [TextContent (BRANCH_SUMMARY_PREFIX @ bsmSummary b @ BRANCH_SUMMARY_SUFFIX) None] (bsmTimestamp b))
   | CompactionSummaryMsg c \<Rightarrow> Some (plainUser [TextContent (COMPACTION_SUMMARY_PREFIX @ csmSummary c @ COMPACTION_SUMMARY_SUFFIX) None] (csmTimestamp c))
   | UserMsg _ \<Rightarrow> Some m
   | AssistantMsg _ \<Rightarrow> Some m
   | ToolResultMsg _ \<Rightarrow> Some m)"

definition convertToLlm :: "agent_message list \<Rightarrow> agent_message list" where
  "convertToLlm messages = List.map_filter toLlm messages"

text \<open>What a provider accepts: user, assistant and tool-result messages.\<close>

definition llmMessage :: "agent_message \<Rightarrow> bool" where
  "llmMessage m \<longleftrightarrow> messageRole m \<in> {''user'', ''assistant'', ''toolResult''}"

lemma toLlm_llm: "toLlm m = Some m' \<Longrightarrow> llmMessage m'"
  by (cases m) (auto simp: toLlm_def plainUser_def llmMessage_def messageRole_def split: if_splits)

lemma toLlm_id: "llmMessage m \<Longrightarrow> toLlm m = Some m"
  by (cases m) (auto simp: toLlm_def llmMessage_def messageRole_def)

definition hiddenFromLlm :: "agent_message \<Rightarrow> bool" where
  "hiddenFromLlm m = (case m of BashExecutionMsg b \<Rightarrow> beExcludeFromContext b = Some True | _ \<Rightarrow> False)"

lemma toLlm_None: "toLlm m = None \<longleftrightarrow> hiddenFromLlm m"
  by (cases m) (auto simp: toLlm_def hiddenFromLlm_def)

lemma convertToLlm_append: "convertToLlm (xs @ ys) = convertToLlm xs @ convertToLlm ys"
  by (simp add: convertToLlm_def List.map_filter_def)

text \<open>
  \<open>convertToLlm\<close> sends the provider only user, assistant and tool-result messages, one for each
  message of the transcript in order, except shell executions excluded from the context; those
  three kinds pass through unchanged, so converting twice is converting once.
\<close>

theorem convertToLlm_complete:
  "list_all llmMessage (convertToLlm ms)
   \<and> list_all2 (\<lambda>m m'. toLlm m = Some m') (filter (\<lambda>m. \<not> hiddenFromLlm m) ms) (convertToLlm ms)
   \<and> convertToLlm (filter llmMessage ms) = filter llmMessage ms
   \<and> convertToLlm (convertToLlm ms) = convertToLlm ms"
proof -
  have out: "list_all llmMessage (convertToLlm ms)" for ms
    by (induction ms) (auto simp: convertToLlm_def dest: toLlm_llm split: option.split)
  have id: "convertToLlm ms = ms" if "list_all llmMessage ms" for ms
    using that by (induction ms) (auto simp: convertToLlm_def toLlm_id)
  have two: "list_all2 (\<lambda>m m'. toLlm m = Some m') (filter (\<lambda>m. \<not> hiddenFromLlm m) ms) (convertToLlm ms)" for ms
  proof (induction ms)
    case (Cons m ms)
    then show ?case using toLlm_None [of m] by (cases "toLlm m") (auto simp: convertToLlm_def)
  qed (simp add: convertToLlm_def)
  have "list_all llmMessage (filter llmMessage ms)" by (simp add: list_all_iff)
  then show ?thesis using out two id by blast
qed

end
