(* ===== verification/Session.thy ===== *)
theory Session
  imports SessionStorage Messages
begin

section \<open>Sessions\<close>

text \<open>
  \<open>packages/agent/harness/session/session.ts\<close> and \<open>repo-utils.ts\<close>: the operations of a session over
  any storage (a record of operations), the context a branch stands for, and the entries a fork
  copies.  \<open>now\<close> is the text of \<open>new Date().toISOString()\<close>.
\<close>

subsection \<open>The context of a branch\<close>

record sessionContext =
  scMessages :: "agent_message list"
  scMessageEntryIds :: "string list"
  scThinkingLevel :: string
  scModel :: "(string \<times> string) option"

text \<open>The first loop: the settings and the last compaction.\<close>

record contextScan =
  csThinkingLevel :: string
  csModel :: "(string \<times> string) option"
  csCompaction :: "(entry \<times> compactionData) option"

definition scanEntry :: "contextScan \<Rightarrow> entry \<Rightarrow> contextScan" where
  "scanEntry s e = (case eKind e of
     ThinkingLevelChangeEntry level \<Rightarrow> s\<lparr>csThinkingLevel := level\<rparr>
   | ModelChangeEntry provider modelId \<Rightarrow> s\<lparr>csModel := Some (provider, modelId)\<rparr>
   | MessageEntry (AssistantMsg a) \<Rightarrow> s\<lparr>csModel := Some (amProvider a, amModel a)\<rparr>
   | CompactionEntry c \<Rightarrow> s\<lparr>csCompaction := Some (e, c)\<rparr>
   | _ \<Rightarrow> s)"

definition scanStart :: contextScan where
  "scanStart = \<lparr>csThinkingLevel = ''off'', csModel = None, csCompaction = None\<rparr>"

text \<open>\<open>appendMessage\<close>: what one entry adds to the messages and to their entry ids.\<close>

definition entryMessage :: "entry \<Rightarrow> (agent_message \<times> string) list" where
  "entryMessage e = (case eKind e of
     MessageEntry m \<Rightarrow> [(m, eId e)]
   | CustomMessageEntry c \<Rightarrow> [(createCustomMessage (cmeCustomType c) (cmeContent c) (cmeDisplay c) (cmeDetails c) (eTimestamp e), eId e)]
   | BranchSummaryEntry b \<Rightarrow>
       if bseSummary b \<noteq> [] then [(createBranchSummaryMessage (bseSummary b) (bseFromId b) (eTimestamp e), eId e)] else []
   | _ \<Rightarrow> [])"

text \<open>The loop before the compaction: entries are kept from \<open>firstKeptEntryId\<close> on.\<close>

definition keptEntries :: "string \<Rightarrow> entry list \<Rightarrow> entry list" where
  "keptEntries firstKept es = dropWhile (\<lambda>e. eId e \<noteq> firstKept) es"

definition contextPairs :: "entry list \<Rightarrow> (entry \<times> compactionData) option \<Rightarrow> (agent_message \<times> string) list" where
  "contextPairs path compaction = (case compaction of
     None \<Rightarrow> concat (map entryMessage path)
   | Some (ce, c) \<Rightarrow>
       (let idx = the (findIndex (\<lambda>e. entryType e = ''compaction'' \<and> eId e = eId ce) path)
        in (createCompactionSummaryMessage (ceSummary c) (ceTokensBefore c) (eTimestamp ce), eId ce)
           # concat (map entryMessage (keptEntries (ceFirstKeptEntryId c) (take idx path)))
           @ concat (map entryMessage (drop (idx + 1) path))))"

definition buildSessionContext :: "(string \<Rightarrow> string) \<Rightarrow> entry list \<Rightarrow> sessionContext" where
  "buildSessionContext sha pathEntries =
    (let path = crEntries (filterCommittedTransactionEntries sha pathEntries);
         scan = foldl scanEntry scanStart path;
         pairs = contextPairs path (csCompaction scan)
     in \<lparr>scMessages = map fst pairs, scMessageEntryIds = map snd pairs,
         scThinkingLevel = csThinkingLevel scan, scModel = csModel scan\<rparr>)"

subsection \<open>Operations of a session\<close>

definition getBranch :: "'s storageOps \<Rightarrow> string option \<Rightarrow> 's \<Rightarrow> (storage_error + entry list) option" where
  "getBranch ops fromId st = (case fromId of
     Some i \<Rightarrow> opGetPathToRoot ops (Some i) st
   | None \<Rightarrow> (case opGetLeafId ops st of (Inl e, _) \<Rightarrow> Some (Inl e) | (Inr leafId, st') \<Rightarrow> opGetPathToRoot ops leafId st'))"

definition buildContext :: "(string \<Rightarrow> string) \<Rightarrow> 's storageOps \<Rightarrow> 's \<Rightarrow> (storage_error + sessionContext) option" where
  "buildContext sha ops st = (case getBranch ops None st of
     None \<Rightarrow> None
   | Some r \<Rightarrow> Some (andThen r (\<lambda>path. Inr (buildSessionContext sha path))))"

definition getSessionName :: "'s storageOps \<Rightarrow> 's \<Rightarrow> string option" where
  "getSessionName ops st = (let entries = opFindEntries ops ''session_info'' st
     in if entries = [] then None
        else (case eKind (last entries) of
            SessionInfoEntry (Some n) \<Rightarrow> if trim n = [] then None else Some (trim n)
          | _ \<Rightarrow> None))"

definition appendTypedEntry :: "'s storageOps \<Rightarrow> entry \<Rightarrow> ('s, storage_error, string) action" where
  "appendTypedEntry ops e = bindS (opAppendEntries ops [e] NoExpectation) (\<lambda>_. retS (eId e))"

text \<open>The object literal of the append operations: a new id below the present leaf.\<close>

definition appendBelowLeaf :: "'s storageOps \<Rightarrow> string \<Rightarrow> entry_kind \<Rightarrow> ('s, storage_error, string) action" where
  "appendBelowLeaf ops now kind = bindS (opCreateEntryId ops) (\<lambda>i. bindS (opGetLeafId ops) (\<lambda>leaf.
     appendTypedEntry ops \<lparr>eId = i, eParent = leaf, eTimestamp = now, eTx = None, eKind = kind\<rparr>))"

definition appendMessage :: "'s storageOps \<Rightarrow> string \<Rightarrow> agent_message \<Rightarrow> ('s, storage_error, string) action" where
  "appendMessage ops now message = appendBelowLeaf ops now (MessageEntry message)"

definition appendThinkingLevelChange :: "'s storageOps \<Rightarrow> string \<Rightarrow> string \<Rightarrow> ('s, storage_error, string) action" where
  "appendThinkingLevelChange ops now level = appendBelowLeaf ops now (ThinkingLevelChangeEntry level)"

definition appendModelChange :: "'s storageOps \<Rightarrow> string \<Rightarrow> string \<Rightarrow> string \<Rightarrow> ('s, storage_error, string) action" where
  "appendModelChange ops now provider modelId = appendBelowLeaf ops now (ModelChangeEntry provider modelId)"

definition appendCompaction :: "'s storageOps \<Rightarrow> string \<Rightarrow> string \<Rightarrow> string \<Rightarrow> int \<Rightarrow> json option \<Rightarrow> bool option \<Rightarrow> ('s, storage_error, string) action" where
  "appendCompaction ops now summary firstKeptEntryId tokensBefore details fromHook =
    appendBelowLeaf ops now (CompactionEntry \<lparr>ceSummary = summary, ceFirstKeptEntryId = firstKeptEntryId,
      ceTokensBefore = tokensBefore, ceDetails = Some (case details of None \<Rightarrow> JUndefined | Some d \<Rightarrow> d),
      ceFromHook = Some fromHook\<rparr>)"

definition appendCustomEntry :: "'s storageOps \<Rightarrow> string \<Rightarrow> string \<Rightarrow> json option \<Rightarrow> ('s, storage_error, string) action" where
  "appendCustomEntry ops now customType data =
    appendBelowLeaf ops now (CustomEntry customType (Some (case data of None \<Rightarrow> JUndefined | Some d \<Rightarrow> d)))"

definition appendCustomMessageEntry :: "'s storageOps \<Rightarrow> string \<Rightarrow> string \<Rightarrow> user_content \<Rightarrow> bool \<Rightarrow> json option \<Rightarrow> ('s, storage_error, string) action" where
  "appendCustomMessageEntry ops now customType content display details =
    appendBelowLeaf ops now (CustomMessageEntry \<lparr>cmeCustomType = customType, cmeContent = content,
      cmeDetails = Some (case details of None \<Rightarrow> JUndefined | Some d \<Rightarrow> d), cmeDisplay = display\<rparr>)"

definition appendLabel :: "'s storageOps \<Rightarrow> string \<Rightarrow> string \<Rightarrow> string option \<Rightarrow> ('s, storage_error, string) action" where
  "appendLabel ops now targetId label st =
    (if opGetEntry ops targetId st = None
     then throwS (SessionError NotFound (''Entry '' @ targetId @ '' not found'')) st
     else appendBelowLeaf ops now (LabelEntry targetId label) st)"

definition appendSessionName :: "'s storageOps \<Rightarrow> string \<Rightarrow> string \<Rightarrow> ('s, storage_error, string) action" where
  "appendSessionName ops now name = appendBelowLeaf ops now (SessionInfoEntry (Some (trim name)))"

record moveSummary =
  mvSummary :: string
  mvDetails :: "json option"
  mvFromHook :: "bool option"

definition moveTo :: "'s storageOps \<Rightarrow> string \<Rightarrow> string option \<Rightarrow> moveSummary option \<Rightarrow> ('s, storage_error, string option) action" where
  "moveTo ops now target summary st =
    (if (case target of None \<Rightarrow> False | Some i \<Rightarrow> opGetEntry ops i st = None)
     then throwS (SessionError NotFound (''Entry '' @ the target @ '' not found'')) st
     else bindS (opSetLeafId ops now target) (\<lambda>_. case summary of
         None \<Rightarrow> retS None
       | Some s \<Rightarrow> bindS (opCreateEntryId ops) (\<lambda>i. bindS (appendTypedEntry ops
           \<lparr>eId = i, eParent = target, eTimestamp = now, eTx = None,
            eKind = BranchSummaryEntry \<lparr>bseFromId = (case target of None \<Rightarrow> ''root'' | Some e \<Rightarrow> e),
              bseSummary = mvSummary s, bseDetails = Some (case mvDetails s of None \<Rightarrow> JUndefined | Some d \<Rightarrow> d),
              bseFromHook = Some (mvFromHook s)\<rparr>\<rparr>) (\<lambda>j. retS (Some j)))) st)"

subsection \<open>Forks\<close>

definition getEntriesToFork :: "(string \<Rightarrow> string) \<Rightarrow> 's storageOps \<Rightarrow> string option \<Rightarrow> fork_position option \<Rightarrow> 's
    \<Rightarrow> (storage_error + entry list) option" where
  "getEntriesToFork sha ops forkId position st =
    (let entries = opGetEntries ops st; i = (case forkId of None \<Rightarrow> [] | Some x \<Rightarrow> x)
     in if i = [] then Some (Inr entries)
     else case find (\<lambda>e. eId e = i) entries of
       None \<Rightarrow> Some (Inl (SessionError InvalidForkTarget (''Entry '' @ i @ '' not found'')))
     | Some target \<Rightarrow>
         (let position = (case position of None \<Rightarrow> ForkBefore | Some p \<Rightarrow> p)
          in if position = ForkBefore \<and> \<not> isUserEntry target
             then Some (Inl (SessionError InvalidForkTarget (''Entry '' @ i @ '' is not a user message'')))
             else let effectiveLeafId = getTransactionForkBoundary sha entries (eId target) position
             in if effectiveLeafId = None \<and> position = ForkAt
                then Some (Inl (SessionError InvalidForkTarget (''Entry '' @ i @ '' is not a committed session entry'')))
                else opGetPathToRoot ops effectiveLeafId st))"

definition appendCommittedEntryGroups :: "(string \<Rightarrow> string) \<Rightarrow> 's storageOps \<Rightarrow> entry list \<Rightarrow> ('s, storage_error, unit) action" where
  "appendCommittedEntryGroups sha ops entries =
    (let committed = filterCommittedTransactionEntries sha entries
     in if crEntries committed = [] then retS () else opAppendEntries ops (crEntries committed) NoExpectation)"

subsection \<open>Sessions over any storage\<close>

text \<open>An operation appends one entry below the leaf, or throws and leaves the file as it was.\<close>

definition appended :: "'s storageOps \<Rightarrow> 's \<Rightarrow> entry_kind \<Rightarrow> (storage_error + string) \<times> 's \<Rightarrow> bool" where
  "appended ops s kind res \<longleftrightarrow> (case res of
     (Inr i, s') \<Rightarrow> \<exists>e. eId e = i \<and> eKind e = kind \<and> eTx e = None \<and> eParent e = leafOf (opGetEntries ops s)
         \<and> opGetEntries ops s' = opGetEntries ops s @ [e]
   | (Inl _, s') \<Rightarrow> opGetEntries ops s' = opGetEntries ops s)"

context session_storage
begin

lemma appendTypedEntry_outcome:
  assumes "inv s"
  shows "case appendTypedEntry ops e s of
     (Inr i, s') \<Rightarrow> i = eId e \<and> inv s' \<and> opGetEntries ops s' = opGetEntries ops s @ [e]
   | (Inl _, s') \<Rightarrow> inv s' \<and> opGetEntries ops s' = opGetEntries ops s"
proof (cases "opAppendEntries ops [e] NoExpectation s")
  case (Pair r s')
  then show ?thesis using append_ok [OF assms, of "[e]" NoExpectation s'] append_err [OF assms, of "[e]" NoExpectation _ s']
    by (cases r) (auto simp: appendTypedEntry_def)
qed

lemma appendBelowLeaf_outcome:
  assumes "inv s" "leafValid (opGetEntries ops s)"
  shows "inv (snd (appendBelowLeaf ops now kind s)) \<and> appended ops s kind (appendBelowLeaf ops now kind s)"
proof -
  from createEntryId [OF assms(1)] obtain i s1 where c: "opCreateEntryId ops s = (Inr i, s1)" "inv s1"
    "opGetEntries ops s1 = opGetEntries ops s" by blast
  have g: "opGetLeafId ops s1 = (Inr (leafOf (opGetEntries ops s)), s1)"
    using getLeafId [OF c(2)] assms(2) c(3) by simp
  define e where "e = \<lparr>eId = i, eParent = leafOf (opGetEntries ops s), eTimestamp = now, eTx = None, eKind = kind\<rparr>"
  have run: "appendBelowLeaf ops now kind s = appendTypedEntry ops e s1"
    using c(1) g by (simp add: appendBelowLeaf_def e_def)
  show ?thesis
    using appendTypedEntry_outcome [OF c(2), of e] c(2,3) unfolding run
    by (auto simp: appended_def e_def intro!: exI [of _ e] split: prod.splits sum.splits)
qed

lemma appendBelowLeaf_branch:
  assumes "inv s" "leafValid (opGetEntries ops s)" "\<forall>t. kind \<noteq> LeafEntry t"
    and "appendBelowLeaf ops now kind s = (Inr i, s')"
  shows "\<exists>e. eId e = i \<and> eKind e = kind \<and> eTx e = None \<and> inv s' \<and> leafValid (opGetEntries ops s')
    \<and> branchOf (opGetEntries ops s') = branchOf (opGetEntries ops s) @ [e]
    \<and> opGetEntries ops s' = opGetEntries ops s @ [e]"
proof -
  have out: "inv s'" "appended ops s kind (Inr i, s')"
    using appendBelowLeaf_outcome [OF assms(1,2), of now kind] assms(4) by simp_all
  then obtain e where e: "eId e = i" "eKind e = kind" "eTx e = None" "eParent e = leafOf (opGetEntries ops s)"
    "opGetEntries ops s' = opGetEntries ops s @ [e]" by (auto simp: appended_def)
  have leaf: "leafIdAfterEntry e = Some (eId e)"
    using assms(3) e(2) by (auto simp: leafIdAfterEntry_def split: entry_kind.split)
  have "branchOf (opGetEntries ops s') = branchOf (opGetEntries ops s) @ [e]"
    using leaf e(4,5) by (auto simp: branchOf_def split: option.split)
  moreover have "leafValid (opGetEntries ops s')" using leaf e(5) by (simp add: leafValid_def)
  ultimately show ?thesis using e out(1) by blast
qed

lemma getBranch_leaf:
  assumes "inv s" "leafValid (opGetEntries ops s)"
  shows "getBranch ops None s = Some (Inr (branchOf (opGetEntries ops s)))"
  using leaf_path [OF assms(1)] assms(2) getLeafId [OF assms] by (simp add: getBranch_def entriesOf_def)

lemma buildContext_leaf:
  assumes "inv s" "leafValid (opGetEntries ops s)"
  shows "buildContext sha ops s = Some (Inr (buildSessionContext sha (branchOf (opGetEntries ops s))))"
  using getBranch_leaf [OF assms] by (simp add: buildContext_def)

lemma moveTo_plain:
  assumes "inv s" "leafValid (opGetEntries ops s)" "moveTo ops now target None s = (Inr r, s')"
  shows "inv s' \<and> r = None \<and> leafValid (opGetEntries ops s') \<and> leafOf (opGetEntries ops s') = target
    \<and> (\<exists>e. opGetEntries ops s' = opGetEntries ops s @ [e])"
proof -
  obtain q s1 where q: "opSetLeafId ops now target s = (q, s1)" by fastforce
  then have "q = Inr ()" "s1 = s'" "r = None" using assms(3)
    by (cases q; auto simp: moveTo_def split: if_splits)+
  then show ?thesis using setLeaf [OF assms(1,2), of now target s'] q by auto
qed

lemma moveTo_keeps:
  assumes "inv s"
  shows "inv (snd (moveTo ops now target summary s))
    \<and> (\<exists>ls. opGetEntries ops (snd (moveTo ops now target summary s)) = opGetEntries ops s @ ls)"
proof -
  define ext where "ext x \<longleftrightarrow> inv x \<and> (\<exists>ls. opGetEntries ops x = opGetEntries ops s @ ls)" for x
  obtain q s1 where q: "opSetLeafId ops now target s = (q, s1)" by fastforce
  have s1: "ext s1"
    using q setLeaf_any [OF assms, of now target s1] setLeaf_err [OF assms, of now target _ s1]
    by (cases q) (fastforce simp: ext_def)+
  then obtain i s2 where c: "opCreateEntryId ops s1 = (Inr i, s2)" "ext s2"
    using createEntryId [of s1] by (auto simp: ext_def)
  then have inv2: "inv s2" by (simp add: ext_def)
  have tail: "ext (snd (bindS (appendTypedEntry ops e) (\<lambda>j. retS (Some j)) s2))" for e
    using appendTypedEntry_outcome [OF inv2, of e] c(2) by (auto simp: ext_def bindS_def split: prod.splits sum.splits)
  have "ext s" using assms by (simp add: ext_def)
  then have "ext (snd (moveTo ops now target summary s))"
    using s1 c(1) q tail by (cases q) (auto simp: moveTo_def split: option.splits)
  then show ?thesis by (simp add: ext_def)
qed

lemma moveTo_summary:
  assumes "inv s" "leafValid (opGetEntries ops s)" "moveTo ops now target (Some sm) s = (Inr r, s')"
  shows "\<exists>e l. r = Some (eId e) \<and> eParent e = target \<and> inv s' \<and> opGetEntries ops s' = opGetEntries ops s @ [l, e]
    \<and> leafOf (opGetEntries ops s') = Some (eId e)
    \<and> (\<exists>d h. eKind e = BranchSummaryEntry \<lparr>bseFromId = (case target of None \<Rightarrow> ''root'' | Some i \<Rightarrow> i),
           bseSummary = mvSummary sm, bseDetails = d, bseFromHook = h\<rparr>)"
proof -
  obtain q s1 where q: "opSetLeafId ops now target s = (q, s1)" by fastforce
  then have q': "q = Inr ()" using assms(3) by (cases q) (auto simp: moveTo_def split: if_splits)
  have s1: "inv s1" "\<exists>l. opGetEntries ops s1 = opGetEntries ops s @ [l]"
    using setLeaf [OF assms(1,2), of now target s1] q q' by auto
  from createEntryId [OF s1(1)] obtain i s2 where c: "opCreateEntryId ops s1 = (Inr i, s2)" "inv s2"
    "opGetEntries ops s2 = opGetEntries ops s1" by blast
  define e where "e = \<lparr>eId = i, eParent = target, eTimestamp = now, eTx = None,
            eKind = BranchSummaryEntry \<lparr>bseFromId = (case target of None \<Rightarrow> ''root'' | Some e \<Rightarrow> e),
              bseSummary = mvSummary sm, bseDetails = Some (case mvDetails sm of None \<Rightarrow> JUndefined | Some d \<Rightarrow> d),
              bseFromHook = Some (mvFromHook sm)\<rparr>\<rparr>"
  have "bindS (appendTypedEntry ops e) (\<lambda>j. retS (Some j)) s2 = (Inr r, s')"
    using assms(3) q q' c(1) by (auto simp: moveTo_def e_def split: if_splits)
  then have "r = Some (eId e)" "inv s'" "opGetEntries ops s' = opGetEntries ops s2 @ [e]"
    using appendTypedEntry_outcome [OF c(2), of e] by (auto simp: bindS_def split: prod.splits sum.splits)
  moreover obtain l where "opGetEntries ops s1 = opGetEntries ops s @ [l]" using s1(2) by blast
  ultimately have "r = Some (eId e) \<and> eParent e = target \<and> inv s' \<and> opGetEntries ops s' = opGetEntries ops s @ [l, e]
    \<and> leafOf (opGetEntries ops s') = Some (eId e)"
    using c(3) by (simp add: e_def leafIdAfterEntry_def leafOf_def)
  then show ?thesis by (auto simp: e_def)
qed

end

subsection \<open>How the context grows\<close>

lemma visibleIn_append_plain:
  assumes "eTx e = None" "eId e \<noteq> []" "eId e \<notin> eId ` set es"
  shows "filter (visibleIn sha (es @ [e])) (es @ [e]) = filter (visibleIn sha es) es @ [e]"
proof -
  have disj: "eId ` set es \<inter> eId ` set [e] = {}" using assms(3) by simp
  have grp: "groupOf (es @ [e]) t = groupOf es t" for t using assms(1) by (simp add: groupOf_def)
  have use: "usable (es @ [e]) x = usable es x" if "x \<in> set es" for x
    by (rule usable_append(1) [OF disj that])
  then have "list_all (usable (es @ [e])) (groupOf es t) = list_all (usable es) (groupOf es t)" for t
    by (auto simp: list_all_iff groupOf_def)
  then have com: "committedIn sha (es @ [e]) t = committedIn sha es t" for t
    by (simp add: committedIn_def grp)
  have "visibleIn sha (es @ [e]) x = visibleIn sha es x" if "x \<in> set es" for x
    using use [OF that] com by (simp add: visibleIn_def split: option.split)
  then have "filter (visibleIn sha (es @ [e])) es = filter (visibleIn sha es) es" by (auto intro: filter_cong)
  moreover have "visibleIn sha (es @ [e]) e"
    using assms by (simp add: visibleIn_def usable_def occurrences_append occurrences_single occurrences_0)
  ultimately show ?thesis by simp
qed

lemma crEntries_append_plain:
  assumes "eTx e = None" "eId e \<noteq> []" "eId e \<notin> eId ` set es"
  shows "crEntries (filterCommittedTransactionEntries sha (es @ [e])) = crEntries (filterCommittedTransactionEntries sha es) @ [e]"
  unfolding crEntries_eq by (rule visibleIn_append_plain [OF assms])

lemma scan_compaction:
  "csCompaction (foldl scanEntry scanStart es) = Some (ce, c) \<Longrightarrow> ce \<in> set es \<and> eKind ce = CompactionEntry c"
  by (induction es rule: rev_induct)
    (auto simp: scanEntry_def scanStart_def split: entry_kind.splits agent_message.splits)

lemma scan_compaction_other: "\<forall>c. eKind e \<noteq> CompactionEntry c \<Longrightarrow> csCompaction (scanEntry s e) = csCompaction s"
  by (auto simp: scanEntry_def split: entry_kind.split agent_message.split)

lemma findIndex_append_Some: "findIndex p xs = Some i \<Longrightarrow> findIndex p (xs @ ys) = Some i"
  by (induction xs arbitrary: i) (auto split: if_splits)

lemma contextPairs_append:
  assumes "\<And>ce c. cmp = Some (ce, c) \<Longrightarrow> ce \<in> set es \<and> eKind ce = CompactionEntry c"
  shows "contextPairs (es @ [e]) cmp = contextPairs es cmp @ entryMessage e"
proof (cases cmp)
  case (Some p)
  obtain ce c where p: "p = (ce, c)" by fastforce
  let ?q = "\<lambda>e. entryType e = ''compaction'' \<and> eId e = eId ce"
  have "ce \<in> set es" "?q ce" using assms [of ce c] Some p by (auto simp: entryType_def)
  then obtain i where i: "findIndex ?q es = Some i" by (cases "findIndex ?q es") auto
  then have "i < length es" by (rule findIndex_bound)
  then show ?thesis using Some p i findIndex_append_Some [OF i, of "[e]"]
    by (simp add: contextPairs_def Let_def)
qed (simp add: contextPairs_def)

lemma buildSessionContext_append:
  assumes "eTx e = None" "eId e \<noteq> []" "eId e \<notin> eId ` set path" "\<forall>c. eKind e \<noteq> CompactionEntry c"
  shows "scMessages (buildSessionContext sha (path @ [e])) = scMessages (buildSessionContext sha path) @ map fst (entryMessage e)
    \<and> scMessageEntryIds (buildSessionContext sha (path @ [e])) = scMessageEntryIds (buildSessionContext sha path) @ map snd (entryMessage e)"
proof -
  let ?vs = "crEntries (filterCommittedTransactionEntries sha path)"
  have "contextPairs (?vs @ [e]) (csCompaction (foldl scanEntry scanStart (?vs @ [e])))
      = contextPairs ?vs (csCompaction (foldl scanEntry scanStart ?vs)) @ entryMessage e"
    using contextPairs_append [OF scan_compaction] by (simp add: scan_compaction_other [OF assms(4)])
  then show ?thesis
    by (simp add: buildSessionContext_def Let_def crEntries_append_plain [OF assms(1-3)])
qed

lemma contextPairs_last_compaction:
  assumes "eId ce \<notin> eId ` set es" "eKind ce = CompactionEntry c"
  shows "contextPairs (es @ [ce]) (Some (ce, c)) =
    (createCompactionSummaryMessage (ceSummary c) (ceTokensBefore c) (eTimestamp ce), eId ce)
    # concat (map entryMessage (keptEntries (ceFirstKeptEntryId c) es))"
proof -
  let ?q = "\<lambda>e. entryType e = ''compaction'' \<and> eId e = eId ce"
  have "findIndex ?q (es @ [ce]) = map_option ((+) (length es)) (findIndex ?q [ce])"
    using assms(1) by (intro findIndex_append_notin) (metis image_eqI)
  then have "findIndex ?q (es @ [ce]) = Some (length es)" using assms(2) by (simp add: entryType_def)
  then show ?thesis by (simp add: contextPairs_def Let_def)
qed

subsection \<open>Properties of sessions on the in-memory storage\<close>

text \<open>
  C11: a message that a session appends is the last of the context from then on: when
  \<open>appendMessage\<close> succeeds on a storage whose leaf exists, the branch is the old branch and the new
  entry, and \<open>buildContext\<close> gives the old messages, entry ids and the new message; when it throws,
  the file is as before.
\<close>

theorem appendMessage_extends_context:
  assumes "memInv sha st" "leafValid (msEntries st)" "appendMessage (memoryOps sha env) now m st = (r, st')"
  shows "\<exists>c. buildContext sha (memoryOps sha env) st = Some (Inr c) \<and> memInv sha st' \<and>
    (case r of
       Inl _ \<Rightarrow> msEntries st' = msEntries st
     | Inr i \<Rightarrow> (\<exists>e. branchOf (msEntries st') = branchOf (msEntries st) @ [e] \<and> eKind e = MessageEntry m)
         \<and> (\<exists>c'. buildContext sha (memoryOps sha env) st' = Some (Inr c')
              \<and> scMessages c' = scMessages c @ [m] \<and> scMessageEntryIds c' = scMessageEntryIds c @ [i]))"
proof -
  let ?ops = "memoryOps sha env"
  have es: "opGetEntries ?ops s = msEntries s" for s by (simp add: memoryOps_def)
  note ctx = mem.buildContext_leaf [of sha _ env, unfolded es]
  show ?thesis
  proof (cases r)
    case (Inl err)
    have "memInv sha st' \<and> msEntries st' = msEntries st"
      using mem.appendBelowLeaf_outcome [of sha st env now "MessageEntry m"] assms Inl
      by (simp add: appendMessage_def appended_def es)
    then show ?thesis using Inl ctx [OF assms(1,2)] by simp
  next
    case (Inr i)
    obtain e where e: "eId e = i" "eKind e = MessageEntry m" "eTx e = None" "memInv sha st'" "leafValid (msEntries st')"
      "branchOf (msEntries st') = branchOf (msEntries st) @ [e]" "msEntries st' = msEntries st @ [e]"
      using mem.appendBelowLeaf_branch [of sha st env "MessageEntry m" now i st', unfolded es] assms Inr
      by (auto simp: appendMessage_def)
    have "wellFormedFile sha (msEntries st')" using e(4) by (simp add: memInv_def)
    then have "eId e \<noteq> []" "eId e \<notin> eId ` set (msEntries st)"
      using e(7) clean_distinct [of sha "msEntries st'"] by (auto simp: wellFormedFile_def)
    moreover have "set (branchOf (msEntries st)) \<subseteq> set (msEntries st)"
      using pathIn_subset by (auto simp: branchOf_def split: option.split)
    ultimately have "scMessages (buildSessionContext sha (branchOf (msEntries st'))) = scMessages (buildSessionContext sha (branchOf (msEntries st))) @ [m]
      \<and> scMessageEntryIds (buildSessionContext sha (branchOf (msEntries st'))) = scMessageEntryIds (buildSessionContext sha (branchOf (msEntries st))) @ [i]"
      using buildSessionContext_append [of e "branchOf (msEntries st)" sha] e by (auto simp: entryMessage_def)
    then show ?thesis using Inr ctx [OF assms(1,2)] ctx [OF e(4,5)] e by auto
  qed
qed

theorem appendMessage_extends_context_witness:
  "\<exists>c. buildContext (\<lambda>_. ''00'') (memoryOps (\<lambda>_. ''00'') (\<lambda>_. ([], 0))) emptyStorage = Some (Inr c)"
proof -
  obtain r st' where run: "appendMessage (memoryOps (\<lambda>_. ''00'') (\<lambda>_. ([], 0))) ''now''
      (UserMsg \<lparr>umContent = ContentText ''hi'', umTimestamp = Some 0\<rparr>) emptyStorage = (r, st')" by fastforce
  have "leafValid (msEntries emptyStorage)" by (simp add: emptyStorage_def leafValid_def leafOf_def)
  from appendMessage_extends_context [OF memInv_empty this run] show ?thesis by blast
qed

lemma context_without_compaction:
  assumes none: "list_all (\<lambda>e. entryType e \<noteq> ''compaction'') path"
  shows "scMessages (buildSessionContext sha path)
    = map fst (concat (map entryMessage (crEntries (filterCommittedTransactionEntries sha path))))"
proof -
  let ?vs = "crEntries (filterCommittedTransactionEntries sha path)"
  have "csCompaction (foldl scanEntry scanStart ?vs) = None"
  proof (cases "csCompaction (foldl scanEntry scanStart ?vs)")
    case (Some p)
    obtain x d where "p = (x, d)" by fastforce
    with Some scan_compaction have "x \<in> set ?vs" "eKind x = CompactionEntry d" by blast+
    then have "entryType x = ''compaction''" "x \<in> set path" by (simp_all add: entryType_def crEntries_eq)
    then show ?thesis using none by (auto simp: list_all_iff)
  qed simp
  then show ?thesis by (simp add: buildSessionContext_def Let_def contextPairs_def)
qed

text \<open>
  C16: a compaction replaces exactly what lies before its first kept entry.  If the committed path is
  \<open>pre @ kept @ post\<close> and a compaction entry naming \<open>kept\<close> is appended, the context is the summary
  followed by the messages of \<open>kept @ post\<close>, while without it a path that has no compaction gives
  the messages of \<open>pre @ kept @ post\<close>.
\<close>

theorem compaction_replaces_prefix:
  assumes "crEntries (filterCommittedTransactionEntries sha path) = pre @ kept # post"
    and "eKind ce = CompactionEntry c" "eTx ce = None" "eId ce \<noteq> []" "eId ce \<notin> eId ` set path"
    and "ceFirstKeptEntryId c = eId kept"
  shows "scMessages (buildSessionContext sha (path @ [ce]))
      = createCompactionSummaryMessage (ceSummary c) (ceTokensBefore c) (eTimestamp ce)
        # map fst (concat (map entryMessage (kept # post)))
    \<and> (list_all (\<lambda>e. entryType e \<noteq> ''compaction'') path \<longrightarrow>
      scMessages (buildSessionContext sha path) = map fst (concat (map entryMessage (pre @ kept # post))))"
proof -
  let ?vs = "crEntries (filterCommittedTransactionEntries sha path)"
  note vs = assms(1)
  have new: "eId ce \<notin> eId ` set ?vs" using assms(5) by (auto simp: crEntries_eq)
  have scan: "csCompaction (foldl scanEntry scanStart (?vs @ [ce])) = Some (ce, c)"
    using assms(2) by (simp add: scanEntry_def)
  have kept: "keptEntries (ceFirstKeptEntryId c) ?vs = kept # post"
  proof -
    have "distinct (map eId ?vs)" using visible_ids by blast
    then have "\<forall>e \<in> set pre. eId e \<noteq> eId kept" unfolding vs by (metis distinct_map_before)
    then show ?thesis using assms(6) unfolding vs keptEntries_def by (simp add: dropWhile_append3)
  qed
  have "scMessages (buildSessionContext sha (path @ [ce])) = map fst (contextPairs (?vs @ [ce]) (Some (ce, c)))"
    unfolding buildSessionContext_def Let_def crEntries_append_plain [OF assms(3-5)] scan by simp
  then have "scMessages (buildSessionContext sha (path @ [ce]))
      = createCompactionSummaryMessage (ceSummary c) (ceTokensBefore c) (eTimestamp ce)
        # map fst (concat (map entryMessage (kept # post)))"
    unfolding contextPairs_last_compaction [OF new assms(2)] kept by simp
  then show ?thesis using context_without_compaction [of path sha] vs by simp
qed

definition sampleCompactionData :: compactionData where
  "sampleCompactionData = \<lparr>ceSummary = ''s'', ceFirstKeptEntryId = ''b'', ceTokensBefore = 9,
     ceDetails = None, ceFromHook = None\<rparr>"

definition sampleCompaction :: entry where
  "sampleCompaction = \<lparr>eId = ''k'', eParent = Some ''b'', eTimestamp = ''2026-01-01T00:00:00.000Z'', eTx = None,
     eKind = CompactionEntry sampleCompactionData\<rparr>"

theorem compaction_replaces_prefix_witness:
  "scMessages (buildSessionContext (\<lambda>_. ''00'') ([sampleModel ''a'' None None, sampleUser ''b'' ''a'' None] @ [sampleCompaction]))
    = createCompactionSummaryMessage ''s'' 9 (eTimestamp sampleCompaction)
      # map fst (concat (map entryMessage [sampleUser ''b'' ''a'' None]))"
proof -
  have vis: "crEntries (filterCommittedTransactionEntries (\<lambda>_. ''00'') [sampleModel ''a'' None None, sampleUser ''b'' ''a'' None])
      = [sampleModel ''a'' None None] @ sampleUser ''b'' ''a'' None # []" by code_simp
  have "eKind sampleCompaction = CompactionEntry sampleCompactionData" by (simp add: sampleCompaction_def)
  from compaction_replaces_prefix [OF vis this] show ?thesis
    by (simp add: sampleCompaction_def sampleCompactionData_def sampleModel_def sampleUser_def)
qed

text \<open>
  \<open>moveTo\<close> keeps every entry, whether it throws or not.  When it succeeds without a summary, the
  leaf is the target and one leaf entry is appended; with one it appends the leaf entry and a
  branch summary below the target, which becomes the leaf and remembers the target, or \<open>root\<close>, as the
  place the branch came back from.
\<close>

theorem moveTo_keeps_entries:
  assumes "memInv sha st" "leafValid (msEntries st)"
    and "moveTo (memoryOps sha env) now target summary st = (r, st')"
  shows "memInv sha st' \<and> (\<exists>ls. msEntries st' = msEntries st @ ls) \<and> (case r of
      Inl _ \<Rightarrow> True
    | Inr i \<Rightarrow> (case summary of
        None \<Rightarrow> leafOf (msEntries st') = target \<and> (\<exists>l. msEntries st' = msEntries st @ [l])
      | Some sm \<Rightarrow> (\<exists>l e b. msEntries st' = msEntries st @ [l, e] \<and> leafOf (msEntries st') = Some (eId e)
          \<and> i = Some (eId e) \<and> eParent e = target \<and> eKind e = BranchSummaryEntry b \<and> bseSummary b = mvSummary sm
          \<and> bseFromId b = (case target of None \<Rightarrow> ''root'' | Some t \<Rightarrow> t))))"
proof -
  have es: "opGetEntries (memoryOps sha env) s = msEntries s" for s by (simp add: memoryOps_def)
  have keeps: "memInv sha st' \<and> (\<exists>ls. msEntries st' = msEntries st @ ls)"
    using mem.moveTo_keeps [of sha st env now target summary, unfolded es] assms by simp
  show ?thesis
  proof (cases r)
    case (Inr i)
    show ?thesis
    proof (cases summary)
      case None
      then show ?thesis using mem.moveTo_plain [of sha st env now target i st', unfolded es] assms Inr keeps by simp
    next
      case (Some sm)
      then show ?thesis using mem.moveTo_summary [of sha st env now target sm i st', unfolded es] assms Inr keeps by fastforce
    qed
  qed (use keeps in simp)
qed

theorem moveTo_keeps_entries_witness:
  "\<exists>st' r. moveTo (memoryOps (\<lambda>_. ''00'') (\<lambda>_. ([], 0))) ''now'' None None emptyStorage = (r, st') \<and> memInv (\<lambda>_. ''00'') st'"
proof -
  obtain r st' where run: "moveTo (memoryOps (\<lambda>_. ''00'') (\<lambda>_. ([], 0))) ''now'' None None emptyStorage = (r, st')"
    by fastforce
  have "leafValid (msEntries emptyStorage)" by (simp add: emptyStorage_def leafValid_def leafOf_def)
  from moveTo_keeps_entries [OF memInv_empty this run] run show ?thesis by blast
qed

lemma chained_resolved:
  "chained es \<Longrightarrow> (case es of [] \<Rightarrow> True | e # _ \<Rightarrow> case eParent e of None \<Rightarrow> True | Some p \<Rightarrow> h p) \<Longrightarrow> parentsResolved h es"
proof (induction es arbitrary: h)
  case (Cons e es)
  have "parentsResolved (\<lambda>i. h i \<or> i = eId e) es"
    by (rule Cons.IH) (use Cons.prems in \<open>auto split: list.splits option.splits\<close>)
  then show ?case using Cons.prems by simp
qed simp

lemma getEntriesToFork_cases:
  "getEntriesToFork sha ops i pos st = Some (Inr path)
    \<Longrightarrow> path = opGetEntries ops st \<or> (\<exists>l. opGetPathToRoot ops l st = Some (Inr path))"
  unfolding getEntriesToFork_def Let_def
  by (split if_split_asm option.split_asm, simp)+ (rule disjI2, rule exI, assumption)+

lemma forked_path_resolved:
  assumes "memInv sha st" "getEntriesToFork sha (memoryOps sha env) i pos st = Some (Inr path)"
  shows "parentsResolved (\<lambda>_. False) path"
proof -
  have wf: "parentsResolved (\<lambda>_. False) (msEntries st)" using assms(1) by (simp add: memInv_def wellFormedFile_def)
  consider "path = msEntries st" | l where "memGetPathToRoot l st = Some (Inr path)"
    using getEntriesToFork_cases [OF assms(2)] by (auto simp: memoryOps_def)
  then show ?thesis
  proof cases
    case (2 l)
    show ?thesis
    proof (cases l)
      case (Some x)
      have x: "x \<in> eId ` set (msEntries st)"
        using 2 Some memInv_has [OF assms(1), of x] by (auto simp: memGetPathToRoot_def split: option.splits)
      then have "path = pathIn (msEntries st) x" using memGetPathToRoot_path [OF assms(1)] 2 Some by simp
      then show ?thesis using pathIn_chain [OF wf x] pathIn_last [OF x]
        by (intro chained_resolved) (auto split: list.split)
    qed (use 2 in \<open>simp add: memGetPathToRoot_def\<close>)
  qed (use wf in simp)
qed

text \<open>
  C19: a fork copies the branch: when the entries that \<open>getEntriesToFork\<close> selects hold their
  transactions complete, \<open>appendCommittedEntryGroups\<close> writes exactly them, in order, to the new empty
  storage.
\<close>

theorem fork_copies_branch:
  assumes "memInv sha st" "getEntriesToFork sha (memoryOps sha env) i pos st = Some (Inr path)"
    and "crDiagnostics (filterCommittedTransactionEntries sha path) = []"
  shows "\<exists>st'. appendCommittedEntryGroups sha (memoryOps sha env') path emptyStorage = (Inr (), st')
    \<and> memInv sha st' \<and> msEntries st' = path"
proof -
  have clean: "clean sha path" using assms(3) by (simp add: clean_def)
  have es: "crEntries (filterCommittedTransactionEntries sha path) = path" using clean by (rule clean_entries)
  show ?thesis
  proof (cases "path = []")
    case True
    then show ?thesis using es memInv_empty by (simp add: appendCommittedEntryGroups_def emptyStorage_def)
  next
    case False
    have "\<forall>e \<in> set path. freshTx (\<lambda>t. t \<in> msTransactionIds emptyStorage) e"
      using clean by (auto simp: clean_iff freshTx_def emptyStorage_def split: option.split)
    then obtain st' where "appendEntriesNow sha path NoExpectation emptyStorage = Inr st'"
      using appendEntriesNow_Inr [OF memInv_empty, of sha path NoExpectation] clean forked_path_resolved [OF assms(1,2)]
      by (simp add: emptyStorage_def assertExpectedSessionLeaf_def)
    then show ?thesis using memInv_append [OF memInv_empty, of sha path NoExpectation st'] False es
      by (auto simp: appendCommittedEntryGroups_def memoryOps_def memAppend_Inr emptyStorage_def)
  qed
qed

theorem fork_copies_branch_witness:
  "\<exists>st'. appendCommittedEntryGroups (\<lambda>_. ''00'') (memoryOps (\<lambda>_. ''00'') (\<lambda>_. ([], 0)))
     [sampleModel ''a'' None None, sampleUser ''b'' ''a'' None] emptyStorage = (Inr (), st')"
proof -
  have inv: "memInv (\<lambda>_. ''00'') twoEntries"
    using memInv_append [OF memInv_empty] twoEntries_append by (auto simp: memAppend_Inr)
  have "getEntriesToFork (\<lambda>_. ''00'') (memoryOps (\<lambda>_. ''00'') (\<lambda>_. ([], 0))) None None twoEntries
      = Some (Inr [sampleModel ''a'' None None, sampleUser ''b'' ''a'' None])" by code_simp
  moreover have "crDiagnostics (filterCommittedTransactionEntries (\<lambda>_. ''00'')
      [sampleModel ''a'' None None, sampleUser ''b'' ''a'' None]) = []" by code_simp
  ultimately show ?thesis using fork_copies_branch [OF inv] by blast
qed

text \<open>
  The hypothesis on complete transactions is needed: nothing keeps a branch from starting in the
  middle of a transaction, and such a branch cannot be forked.  Below the first member of a committed
  transaction a message can be appended; forking at it selects that member and the message, the
  member is dropped because its transaction is incomplete, and the new session refuses the message
  because its parent is missing.
\<close>

definition midTransaction :: memoryStorage where
  "midTransaction = snd (memAppendEntries (\<lambda>_. ''00'') [sampleUser ''d'' ''a'' None] NoExpectation
     (snd (memAppendEntries (\<lambda>_. ''00'') sampleGroup NoExpectation emptyStorage)))"

theorem fork_inside_transaction_refused:
  "map eId (msEntries midTransaction) = [''a'', ''b'', ''c'', ''d'']
   \<and> (case getEntriesToFork (\<lambda>_. ''00'') (memoryOps (\<lambda>_. ''00'') (\<lambda>_. ([], 0))) (Some ''d'') (Some ForkAt) midTransaction of
        Some (Inr path) \<Rightarrow> map eId path = [''a'', ''d'']
          \<and> fst (appendCommittedEntryGroups (\<lambda>_. ''00'') (memoryOps (\<lambda>_. ''00'') (\<lambda>_. ([], 0))) path emptyStorage)
             = Inl (TransactionError (TxError InvalidTransaction ''entry parentId a not found''))
      | _ \<Rightarrow> False)"
  by code_simp

end
