(* ===== verification/Compaction.thy ===== *)
theory Compaction
  imports Session
begin

section \<open>Compaction of a session\<close>

text \<open>
  \<open>packages/agent/harness/compaction/utils.ts\<close> and \<open>compaction.ts\<close>: file operations of a range of
  messages, the text a range is summarised from, token estimates, the choice of the cut point and
  the preparation and run of a compaction.  The model call \<open>completeSimple\<close> of the provider package
  is the parameter \<open>complete\<close>, from a request to the assistant message it ends with.

  Token counts are natural numbers; the settings and the provider's usage are integers.  A missing
  index (the source's \<open>-1\<close>) is \<open>None\<close>.
\<close>

subsection \<open>File operations\<close>

record fileOperations =
  foRead :: "string list"
  foWritten :: "string list"
  foEdited :: "string list"

definition createFileOps :: fileOperations where
  "createFileOps = \<lparr>foRead = [], foWritten = [], foEdited = []\<rparr>"

definition toolCallPath :: "toolCall \<Rightarrow> string option" where
  "toolCallPath c = (case jsonField (tcArguments c) ''path'' of
     Some (JStr p) \<Rightarrow> if p = [] then None else Some p
   | _ \<Rightarrow> None)"

definition addToolCall :: "fileOperations \<Rightarrow> assistant_block \<Rightarrow> fileOperations" where
  "addToolCall ops b = (case b of
     ToolCallBlock c \<Rightarrow> (case toolCallPath c of
         None \<Rightarrow> ops
       | Some path \<Rightarrow>
           if tcName c = ''read'' then ops\<lparr>foRead := setAdd path (foRead ops)\<rparr>
           else if tcName c = ''write'' then ops\<lparr>foWritten := setAdd path (foWritten ops)\<rparr>
           else if tcName c = ''edit'' then ops\<lparr>foEdited := setAdd path (foEdited ops)\<rparr>
           else ops)
   | _ \<Rightarrow> ops)"

definition extractFileOpsFromMessage :: "fileOperations \<Rightarrow> agent_message \<Rightarrow> fileOperations" where
  "extractFileOpsFromMessage ops m = (case m of
     AssistantMsg a \<Rightarrow> foldl addToolCall ops (amContent a)
   | _ \<Rightarrow> ops)"

record fileLists =
  readFiles :: "string list"
  modifiedFiles :: "string list"

definition computeFileLists :: "fileOperations \<Rightarrow> fileLists" where
  "computeFileLists ops =
    (let modified = foldl (\<lambda>s f. setAdd f s) [] (foEdited ops @ foWritten ops)
     in \<lparr>readFiles = sort (filter (\<lambda>f. f \<notin> set modified) (foRead ops)), modifiedFiles = sort modified\<rparr>)"

definition formatFileOperations :: "string list \<Rightarrow> string list \<Rightarrow> string" where
  "formatFileOperations reads modified =
    (let sections = (if reads \<noteq> [] then [''<read-files>'' @ nl @ joinWith nl reads @ nl @ ''</read-files>''] else [])
           @ (if modified \<noteq> [] then [''<modified-files>'' @ nl @ joinWith nl modified @ nl @ ''</modified-files>''] else [])
     in if sections = [] then [] else nl @ nl @ joinWith (nl @ nl) sections)"

subsection \<open>The text of a conversation\<close>

definition TOOL_RESULT_MAX_CHARS :: nat where
  "TOOL_RESULT_MAX_CHARS = 2000"

definition safeJsonStringify :: "json \<Rightarrow> string" where
  "safeJsonStringify v = (case jsonStringify v of None \<Rightarrow> ''undefined'' | Some s \<Rightarrow> s)"

definition truncateForSummary :: "string \<Rightarrow> nat \<Rightarrow> string" where
  "truncateForSummary text maxChars =
    (if length text \<le> maxChars then text
     else take maxChars text @ nl @ nl @ ''[... '' @ natToString (length text - maxChars) @ '' more characters truncated]'')"

definition textParts :: "content_part list \<Rightarrow> string" where
  "textParts ps = concat (List.map_filter (\<lambda>p. case p of TextContent t _ \<Rightarrow> Some t | _ \<Rightarrow> None) ps)"

definition toolCallText :: "toolCall \<Rightarrow> string" where
  "toolCallText c = tcName c @ ''('' @ joinWith '', '' (case tcArguments c of
      JObj kvs \<Rightarrow> map (\<lambda>(k, v). k @ ''='' @ safeJsonStringify v) kvs | _ \<Rightarrow> []) @ '')''"

definition serializeMessage :: "agent_message \<Rightarrow> string list" where
  "serializeMessage m = (case m of
     UserMsg u \<Rightarrow>
       (let content = (case umContent u of ContentText s \<Rightarrow> s | ContentParts ps \<Rightarrow> textParts ps)
        in if content \<noteq> [] then [''[User]: '' @ content] else [])
   | AssistantMsg a \<Rightarrow>
       (let texts = List.map_filter (\<lambda>b. case b of TextBlock t _ \<Rightarrow> Some t | _ \<Rightarrow> None) (amContent a);
            thinkings = List.map_filter (\<lambda>b. case b of ThinkingBlock t _ _ \<Rightarrow> Some t | _ \<Rightarrow> None) (amContent a);
            calls = List.map_filter (\<lambda>b. case b of ToolCallBlock c \<Rightarrow> Some (toolCallText c) | _ \<Rightarrow> None) (amContent a)
        in (if thinkings \<noteq> [] then [''[Assistant thinking]: '' @ joinWith nl thinkings] else [])
         @ (if texts \<noteq> [] then [''[Assistant]: '' @ joinWith nl texts] else [])
         @ (if calls \<noteq> [] then [''[Assistant tool calls]: '' @ joinWith ''; '' calls] else []))
   | ToolResultMsg t \<Rightarrow>
       (let content = textParts (trContent t)
        in if content \<noteq> [] then [''[Tool result]: '' @ truncateForSummary content TOOL_RESULT_MAX_CHARS] else [])
   | _ \<Rightarrow> [])"

definition serializeConversation :: "agent_message list \<Rightarrow> string" where
  "serializeConversation messages = joinWith (nl @ nl) (concat (map serializeMessage messages))"

subsection \<open>Token estimates\<close>

record compactionSettings =
  csEnabled :: bool
  csReserveTokens :: int
  csKeepRecentTokens :: int

definition DEFAULT_COMPACTION_SETTINGS :: compactionSettings where
  "DEFAULT_COMPACTION_SETTINGS = \<lparr>csEnabled = True, csReserveTokens = 16384, csKeepRecentTokens = 20000\<rparr>"

definition calculateContextTokens :: "usage \<Rightarrow> int" where
  "calculateContextTokens u =
    (if uTotalTokens u \<noteq> 0 then uTotalTokens u else uInput u + uOutput u + uCacheRead u + uCacheWrite u)"

definition getAssistantUsage :: "agent_message \<Rightarrow> usage option" where
  "getAssistantUsage m = (case m of
     AssistantMsg a \<Rightarrow> if amStopReason a \<noteq> StopAborted \<and> amStopReason a \<noteq> StopError then amUsage a else None
   | _ \<Rightarrow> None)"

primrec lastUsage :: "agent_message list \<Rightarrow> usage option" where
  "lastUsage [] = None"
| "lastUsage (m # ms) = (case getAssistantUsage m of Some u \<Rightarrow> Some u | None \<Rightarrow> lastUsage ms)"

definition getLastAssistantUsage :: "entry list \<Rightarrow> usage option" where
  "getLastAssistantUsage entries =
    lastUsage (rev (List.map_filter (\<lambda>e. case eKind e of MessageEntry m \<Rightarrow> Some m | _ \<Rightarrow> None) entries))"

record contextUsageEstimate =
  cuTokens :: int
  cuUsageTokens :: int
  cuTrailingTokens :: int
  cuLastUsageIndex :: "nat option"

definition getLastAssistantUsageInfo :: "agent_message list \<Rightarrow> (usage \<times> nat) option" where
  "getLastAssistantUsageInfo ms = (case findIndex (\<lambda>m. getAssistantUsage m \<noteq> None) (rev ms) of
     None \<Rightarrow> None
   | Some i \<Rightarrow> Some (the (getAssistantUsage (rev ms ! i)), length ms - 1 - i))"

definition partChars :: "bool \<Rightarrow> content_part \<Rightarrow> nat" where
  "partChars countImages p = (case p of TextContent t _ \<Rightarrow> length t | ImageContent _ _ \<Rightarrow> if countImages then 4800 else 0)"

definition contentChars :: "bool \<Rightarrow> user_content \<Rightarrow> nat" where
  "contentChars countImages c = (case c of ContentText s \<Rightarrow> length s
     | ContentParts ps \<Rightarrow> sum_list (map (partChars countImages) ps))"

definition blockChars :: "assistant_block \<Rightarrow> nat" where
  "blockChars b = (case b of TextBlock t _ \<Rightarrow> length t | ThinkingBlock t _ _ \<Rightarrow> length t
     | ToolCallBlock c \<Rightarrow> length (tcName c) + length (safeJsonStringify (tcArguments c)))"

text \<open>\<open>Math.ceil(chars / 4)\<close>; images count in tool results and custom messages only.\<close>

definition estimateTokens :: "agent_message \<Rightarrow> nat" where
  "estimateTokens m =
    (let chars = (case m of
        UserMsg u \<Rightarrow> contentChars False (umContent u)
      | AssistantMsg a \<Rightarrow> sum_list (map blockChars (amContent a))
      | CustomMsg c \<Rightarrow> contentChars True (cmContent c)
      | ToolResultMsg t \<Rightarrow> contentChars True (ContentParts (trContent t))
      | BashExecutionMsg b \<Rightarrow> length (beCommand b) + length (beOutput b)
      | BranchSummaryMsg b \<Rightarrow> length (bsmSummary b)
      | CompactionSummaryMsg c \<Rightarrow> length (csmSummary c))
     in (chars + 3) div 4)"

definition estimateContextTokens :: "agent_message list \<Rightarrow> contextUsageEstimate" where
  "estimateContextTokens ms = (case getLastAssistantUsageInfo ms of
     None \<Rightarrow> (let estimated = int (sum_list (map estimateTokens ms))
       in \<lparr>cuTokens = estimated, cuUsageTokens = 0, cuTrailingTokens = estimated, cuLastUsageIndex = None\<rparr>)
   | Some (u, i) \<Rightarrow>
       (let usageTokens = calculateContextTokens u; trailing = int (sum_list (map estimateTokens (drop (i + 1) ms)))
        in \<lparr>cuTokens = usageTokens + trailing, cuUsageTokens = usageTokens, cuTrailingTokens = trailing,
            cuLastUsageIndex = Some i\<rparr>))"

definition shouldCompact :: "int \<Rightarrow> int \<Rightarrow> compactionSettings \<Rightarrow> bool" where
  "shouldCompact contextTokens contextWindow settings =
    (csEnabled settings \<and> contextTokens > contextWindow - csReserveTokens settings)"

subsection \<open>The cut point\<close>

definition isCutPoint :: "entry \<Rightarrow> bool" where
  "isCutPoint e = (case eKind e of
     MessageEntry m \<Rightarrow> (case m of ToolResultMsg _ \<Rightarrow> False | _ \<Rightarrow> True)
   | BranchSummaryEntry _ \<Rightarrow> True
   | CustomMessageEntry _ \<Rightarrow> True
   | _ \<Rightarrow> False)"

definition findValidCutPoints :: "entry list \<Rightarrow> nat \<Rightarrow> nat \<Rightarrow> nat list" where
  "findValidCutPoints entries startIndex endIndex = filter (\<lambda>i. isCutPoint (entries ! i)) [startIndex..<endIndex]"

definition startsTurn :: "entry \<Rightarrow> bool" where
  "startsTurn e = (case eKind e of
     BranchSummaryEntry _ \<Rightarrow> True
   | CustomMessageEntry _ \<Rightarrow> True
   | MessageEntry m \<Rightarrow> (case m of UserMsg _ \<Rightarrow> True | BashExecutionMsg _ \<Rightarrow> True | _ \<Rightarrow> False)
   | _ \<Rightarrow> False)"

definition findTurnStartIndex :: "entry list \<Rightarrow> nat \<Rightarrow> nat \<Rightarrow> nat option" where
  "findTurnStartIndex entries entryIndex startIndex =
    find (\<lambda>i. startsTurn (entries ! i)) (rev [startIndex..<Suc entryIndex])"

record cutPointResult =
  cpFirstKeptEntryIndex :: nat
  cpTurnStartIndex :: "nat option"
  cpIsSplitTurn :: bool

text \<open>The first loop: the index at which the tokens counted from the end reach the budget.\<close>

primrec budgetIndex :: "entry list \<Rightarrow> int \<Rightarrow> nat list \<Rightarrow> nat \<Rightarrow> nat option" where
  "budgetIndex entries keep [] acc = None"
| "budgetIndex entries keep (i # is) acc = (case eKind (entries ! i) of
     MessageEntry m \<Rightarrow> (let acc' = acc + estimateTokens m
       in if int acc' \<ge> keep then Some i else budgetIndex entries keep is acc')
   | _ \<Rightarrow> budgetIndex entries keep is acc)"

text \<open>The second loop: back over entries that are neither messages nor compactions.\<close>

fun retreatCut :: "entry list \<Rightarrow> nat \<Rightarrow> nat \<Rightarrow> nat" where
  "retreatCut entries startIndex 0 = 0"
| "retreatCut entries startIndex (Suc c) =
    (if Suc c > startIndex then
       (case eKind (entries ! c) of
          CompactionEntry _ \<Rightarrow> Suc c
        | MessageEntry _ \<Rightarrow> Suc c
        | _ \<Rightarrow> retreatCut entries startIndex c)
     else Suc c)"

definition isUserMessage :: "entry \<Rightarrow> bool" where
  "isUserMessage e = (case eKind e of MessageEntry (UserMsg _) \<Rightarrow> True | _ \<Rightarrow> False)"

definition findCutPoint :: "entry list \<Rightarrow> nat \<Rightarrow> nat \<Rightarrow> int \<Rightarrow> cutPointResult" where
  "findCutPoint entries startIndex endIndex keepRecentTokens =
    (let cutPoints = findValidCutPoints entries startIndex endIndex
     in if cutPoints = []
        then \<lparr>cpFirstKeptEntryIndex = startIndex, cpTurnStartIndex = None, cpIsSplitTurn = False\<rparr>
        else let chosen = (case budgetIndex entries keepRecentTokens (rev [startIndex..<endIndex]) 0 of
                     None \<Rightarrow> hd cutPoints
                   | Some i \<Rightarrow> (case find (\<lambda>c. c \<ge> i) cutPoints of None \<Rightarrow> hd cutPoints | Some c \<Rightarrow> c));
                 cut = retreatCut entries startIndex chosen;
                 turnStart = (if isUserMessage (entries ! cut) then None else findTurnStartIndex entries cut startIndex)
             in \<lparr>cpFirstKeptEntryIndex = cut, cpTurnStartIndex = turnStart,
                 cpIsSplitTurn = (\<not> isUserMessage (entries ! cut) \<and> turnStart \<noteq> None)\<rparr>)"

subsection \<open>Preparing a compaction\<close>

definition getMessageFromEntry :: "entry \<Rightarrow> agent_message option" where
  "getMessageFromEntry e = (case eKind e of
     MessageEntry m \<Rightarrow> Some m
   | CustomMessageEntry c \<Rightarrow> Some (createCustomMessage (cmeCustomType c) (cmeContent c) (cmeDisplay c) (cmeDetails c) (eTimestamp e))
   | BranchSummaryEntry b \<Rightarrow> Some (createBranchSummaryMessage (bseSummary b) (bseFromId b) (eTimestamp e))
   | CompactionEntry c \<Rightarrow> Some (createCompactionSummaryMessage (ceSummary c) (ceTokensBefore c) (eTimestamp e))
   | _ \<Rightarrow> None)"

definition getMessageFromEntryForCompaction :: "entry \<Rightarrow> agent_message option" where
  "getMessageFromEntryForCompaction e = (case eKind e of CompactionEntry _ \<Rightarrow> None | _ \<Rightarrow> getMessageFromEntry e)"

definition detailList :: "json \<Rightarrow> string \<Rightarrow> string list" where
  "detailList details field = (case jsonField details field of
     Some (JArr xs) \<Rightarrow> List.map_filter (\<lambda>x. case x of JStr s \<Rightarrow> Some s | _ \<Rightarrow> None) xs
   | _ \<Rightarrow> [])"

definition addDetails :: "fileOperations \<Rightarrow> json option \<Rightarrow> bool jsProp \<Rightarrow> fileOperations" where
  "addDetails ops details fromHook = (case details of
     None \<Rightarrow> ops
   | Some d \<Rightarrow> if fromHook = Some (Some True) then ops
       else ops\<lparr>foRead := foldl (\<lambda>s f. setAdd f s) (foRead ops) (detailList d ''readFiles''),
                foEdited := foldl (\<lambda>s f. setAdd f s) (foEdited ops) (detailList d ''modifiedFiles'')\<rparr>)"

definition extractFileOperations :: "agent_message list \<Rightarrow> compactionData option \<Rightarrow> fileOperations" where
  "extractFileOperations messages prevCompaction =
    foldl extractFileOpsFromMessage
      (case prevCompaction of None \<Rightarrow> createFileOps | Some c \<Rightarrow> addDetails createFileOps (ceDetails c) (ceFromHook c)) messages"

datatype compaction_error_code = CompactionAborted | SummarizationFailed | CompactionInvalidSession
datatype compaction_error = CompactionError compaction_error_code string

record compactionPreparation =
  prFirstKeptEntryId :: string
  prMessagesToSummarize :: "agent_message list"
  prTurnPrefixMessages :: "agent_message list"
  prIsSplitTurn :: bool
  prTokensBefore :: int
  prPreviousSummary :: "string option"
  prFileOps :: fileOperations
  prSettings :: compactionSettings

definition isCompaction :: "entry \<Rightarrow> bool" where
  "isCompaction e = (case eKind e of CompactionEntry _ \<Rightarrow> True | _ \<Rightarrow> False)"

definition compactionOf :: "entry \<Rightarrow> compactionData option" where
  "compactionOf e = (case eKind e of CompactionEntry c \<Rightarrow> Some c | _ \<Rightarrow> None)"

definition prevCompactionIndex :: "entry list \<Rightarrow> nat option" where
  "prevCompactionIndex path = find (\<lambda>i. isCompaction (path ! i)) (rev [0..<length path])"

definition boundaryStart :: "entry list \<Rightarrow> nat" where
  "boundaryStart path = (case prevCompactionIndex path of
     None \<Rightarrow> 0
   | Some i \<Rightarrow> (case findIndex (\<lambda>e. eId e = ceFirstKeptEntryId (the (compactionOf (path ! i)))) path of
       Some k \<Rightarrow> k | None \<Rightarrow> i + 1))"

definition messagesBetween :: "entry list \<Rightarrow> nat \<Rightarrow> nat \<Rightarrow> agent_message list" where
  "messagesBetween path a b = List.map_filter (\<lambda>i. getMessageFromEntryForCompaction (path ! i)) [a..<b]"

definition prepareCompaction :: "(string \<Rightarrow> string) \<Rightarrow> entry list \<Rightarrow> compactionSettings
    \<Rightarrow> compaction_error + compactionPreparation option" where
  "prepareCompaction sha path settings =
    (if path = [] \<or> isCompaction (last path) then Inr None
     else let previous = (case prevCompactionIndex path of None \<Rightarrow> None | Some i \<Rightarrow> compactionOf (path ! i));
              start = boundaryStart path;
              tokensBefore = cuTokens (estimateContextTokens (scMessages (buildSessionContext sha path)));
              cut = findCutPoint path start (length path) (csKeepRecentTokens settings);
              firstKept = path ! cpFirstKeptEntryIndex cut
     in if eId firstKept = []
        then Inl (CompactionError CompactionInvalidSession ''First kept entry has no UUID - session may need migration'')
        else let historyEnd = (if cpIsSplitTurn cut then the (cpTurnStartIndex cut) else cpFirstKeptEntryIndex cut);
                 toSummarize = messagesBetween path start historyEnd;
                 turnPrefix = (if cpIsSplitTurn cut
                   then messagesBetween path (the (cpTurnStartIndex cut)) (cpFirstKeptEntryIndex cut) else [])
        in Inr (Some \<lparr>prFirstKeptEntryId = eId firstKept, prMessagesToSummarize = toSummarize,
             prTurnPrefixMessages = turnPrefix, prIsSplitTurn = cpIsSplitTurn cut, prTokensBefore = tokensBefore,
             prPreviousSummary = map_option ceSummary previous,
             prFileOps = foldl extractFileOpsFromMessage (extractFileOperations toSummarize previous) turnPrefix,
             prSettings = settings\<rparr>))"

subsection \<open>Running a compaction\<close>

definition SUMMARIZATION_SYSTEM_PROMPT :: string where
  \<open>SUMMARIZATION_SYSTEM_PROMPT = ''You are a context summarization assistant. Your task is to read a conversation between a user and an AI coding assistant, then produce a structured summary following the exact format specified.

Do NOT continue the conversation. Do NOT respond to any questions in the conversation. ONLY output the structured summary.''\<close>

definition SUMMARIZATION_PROMPT :: string where
  \<open>SUMMARIZATION_PROMPT = ''The messages above are a conversation to summarize. Create a structured context checkpoint summary that another LLM will use to continue the work.

Use this EXACT format:

## Goal
[What is the user trying to accomplish? Can be multiple items if the session covers different tasks.]

## Constraints & Preferences
- [Any constraints, preferences, or requirements mentioned by user]
- [Or "(none)" if none were mentioned]

## Progress
### Done
- [x] [Completed tasks/changes]

### In Progress
- [ ] [Current work]

### Blocked
- [Issues preventing progress, if any]

## Key Decisions
- **[Decision]**: [Brief rationale]

## Next Steps
1. [Ordered list of what should happen next]

## Critical Context
- [Any data, examples, or references needed to continue]
- [Or "(none)" if not applicable]

Keep each section concise. Preserve exact file paths, function names, and error messages.''\<close>

definition UPDATE_SUMMARIZATION_PROMPT :: string where
  \<open>UPDATE_SUMMARIZATION_PROMPT = ''The messages above are NEW conversation messages to incorporate into the existing summary provided in <previous-summary> tags.

Update the existing structured summary with new information. RULES:
- PRESERVE all existing information from the previous summary
- ADD new progress, decisions, and context from the new messages
- UPDATE the Progress section: move items from "In Progress" to "Done" when completed
- UPDATE "Next Steps" based on what was accomplished
- PRESERVE exact file paths, function names, and error messages
- If something is no longer relevant, you may remove it

Use this EXACT format:

## Goal
[Preserve existing goals, add new ones if the task expanded]

## Constraints & Preferences
- [Preserve existing, add new ones discovered]

## Progress
### Done
- [x] [Include previously done items AND newly completed items]

### In Progress
- [ ] [Current work - update based on progress]

### Blocked
- [Current blockers - remove if resolved]

## Key Decisions
- **[Decision]**: [Brief rationale] (preserve all previous, add new)

## Next Steps
1. [Update based on current state]

## Critical Context
- [Preserve important context, add new if needed]

Keep each section concise. Preserve exact file paths, function names, and error messages.''\<close>

definition TURN_PREFIX_SUMMARIZATION_PROMPT :: string where
  \<open>TURN_PREFIX_SUMMARIZATION_PROMPT = ''This is the PREFIX of a turn that was too large to keep. The SUFFIX (recent work) is retained.

Summarize the prefix to provide context for the retained suffix:

## Original Request
[What did the user ask for in this turn?]

## Early Progress
- [Key decisions and work done in the prefix]

## Context for Suffix
- [Information needed to understand the retained recent work]

Be concise. Focus on what's needed to understand the kept suffix.''\<close>


text \<open>What \<open>completeSimple\<close> is given; no \<open>reasoning\<close> option is \<open>None\<close>.\<close>

record completionRequest =
  rqSystemPrompt :: string
  rqPrompt :: string
  rqMaxTokens :: int
  rqReasoning :: "string option"

record modelInfo =
  miMaxTokens :: int
  miContextWindow :: int
  miReasoning :: bool

type_synonym completion = "completionRequest \<Rightarrow> assistantMessage"

definition completionLimit :: "int \<Rightarrow> modelInfo \<Rightarrow> int" where
  "completionLimit budget model = (if miMaxTokens model > 0 then min budget (miMaxTokens model) else budget)"

definition reasoningOption :: "modelInfo \<Rightarrow> string option \<Rightarrow> string option" where
  "reasoningOption model thinkingLevel = (case thinkingLevel of
     None \<Rightarrow> None
   | Some l \<Rightarrow> if miReasoning model \<and> l \<noteq> [] \<and> l \<noteq> ''off'' then Some l else None)"

definition orElse :: "string option \<Rightarrow> string \<Rightarrow> string" where
  "orElse s d = (case s of None \<Rightarrow> d | Some x \<Rightarrow> if x = [] then d else x)"

definition responseText :: "assistantMessage \<Rightarrow> string" where
  "responseText a = joinWith nl (List.map_filter (\<lambda>b. case b of TextBlock t _ \<Rightarrow> Some t | _ \<Rightarrow> None) (amContent a))"

definition generateSummary :: "completion \<Rightarrow> agent_message list \<Rightarrow> modelInfo \<Rightarrow> int \<Rightarrow> string option \<Rightarrow> string option
    \<Rightarrow> string option \<Rightarrow> compaction_error + string" where
  "generateSummary complete messages model reserveTokens customInstructions previousSummary thinkingLevel =
    (let previous = (case previousSummary of None \<Rightarrow> [] | Some s \<Rightarrow> s);
         custom = (case customInstructions of None \<Rightarrow> [] | Some s \<Rightarrow> s);
         basePrompt = (if previous \<noteq> [] then UPDATE_SUMMARIZATION_PROMPT else SUMMARIZATION_PROMPT);
         basePrompt = (if custom \<noteq> [] then basePrompt @ nl @ nl @ ''Additional focus: '' @ custom else basePrompt);
         conversationText = serializeConversation (convertToLlm messages);
         promptText = ''<conversation>'' @ nl @ conversationText @ nl @ ''</conversation>'' @ nl @ nl;
         promptText = promptText @ (if previous \<noteq> [] then ''<previous-summary>'' @ nl @ previous @ nl @ ''</previous-summary>'' @ nl @ nl else []);
         response = complete \<lparr>rqSystemPrompt = SUMMARIZATION_SYSTEM_PROMPT, rqPrompt = promptText @ basePrompt,
             rqMaxTokens = completionLimit (4 * reserveTokens div 5) model, rqReasoning = reasoningOption model thinkingLevel\<rparr>
     in if amStopReason response = StopAborted
        then Inl (CompactionError CompactionAborted (orElse (amErrorMessage response) ''Summarization aborted''))
        else if amStopReason response = StopError
        then Inl (CompactionError SummarizationFailed (''Summarization failed: '' @ orElse (amErrorMessage response) ''Unknown error''))
        else Inr (responseText response))"

definition generateTurnPrefixSummary :: "completion \<Rightarrow> agent_message list \<Rightarrow> modelInfo \<Rightarrow> int \<Rightarrow> string option
    \<Rightarrow> compaction_error + string" where
  "generateTurnPrefixSummary complete messages model reserveTokens thinkingLevel =
    (let conversationText = serializeConversation (convertToLlm messages);
         promptText = ''<conversation>'' @ nl @ conversationText @ nl @ ''</conversation>'' @ nl @ nl @ TURN_PREFIX_SUMMARIZATION_PROMPT;
         response = complete \<lparr>rqSystemPrompt = SUMMARIZATION_SYSTEM_PROMPT, rqPrompt = promptText,
             rqMaxTokens = completionLimit (reserveTokens div 2) model, rqReasoning = reasoningOption model thinkingLevel\<rparr>
     in if amStopReason response = StopAborted
        then Inl (CompactionError CompactionAborted (orElse (amErrorMessage response) ''Turn prefix summarization aborted''))
        else if amStopReason response = StopError
        then Inl (CompactionError SummarizationFailed (''Turn prefix summarization failed: '' @ orElse (amErrorMessage response) ''Unknown error''))
        else Inr (responseText response))"

record compactionResult =
  crsSummary :: string
  crsFirstKeptEntryId :: string
  crsTokensBefore :: int
  crsDetails :: fileLists

definition compact :: "completion \<Rightarrow> compactionPreparation \<Rightarrow> modelInfo \<Rightarrow> string option \<Rightarrow> string option
    \<Rightarrow> compaction_error + compactionResult" where
  "compact complete prep model customInstructions thinkingLevel =
    (if prFirstKeptEntryId prep = []
     then Inl (CompactionError CompactionInvalidSession ''First kept entry has no UUID - session may need migration'')
     else let reserve = csReserveTokens (prSettings prep);
              history = generateSummary complete (prMessagesToSummarize prep) model reserve customInstructions
                (prPreviousSummary prep) thinkingLevel
     in andThen (if prIsSplitTurn prep \<and> prTurnPrefixMessages prep \<noteq> []
            then andThen (if prMessagesToSummarize prep \<noteq> [] then history else Inr ''No prior history.'') (\<lambda>h.
                 andThen (generateTurnPrefixSummary complete (prTurnPrefixMessages prep) model reserve thinkingLevel) (\<lambda>t.
                 Inr (h @ nl @ nl @ ''---'' @ nl @ nl @ ''**Turn Context (split turn):**'' @ nl @ nl @ t)))
            else history) (\<lambda>summary.
        let lists = computeFileLists (prFileOps prep)
        in Inr \<lparr>crsSummary = summary @ formatFileOperations (readFiles lists) (modifiedFiles lists),
             crsFirstKeptEntryId = prFirstKeptEntryId prep, crsTokensBefore = prTokensBefore prep, crsDetails = lists\<rparr>))"

subsection \<open>The cut point lies in the range\<close>

lemma retreatCut_le: "retreatCut es s c \<le> c"
  by (induction es s c rule: retreatCut.induct) (auto split: entry_kind.split)

lemma retreatCut_ge: "s \<le> c \<Longrightarrow> s \<le> retreatCut es s c"
  by (induction es s c rule: retreatCut.induct) (auto split: entry_kind.split)

definition messageOrCompaction :: "entry \<Rightarrow> bool" where
  "messageOrCompaction e = (case eKind e of MessageEntry _ \<Rightarrow> True | CompactionEntry _ \<Rightarrow> True | _ \<Rightarrow> False)"

lemma retreatCut_entry:
  "retreatCut es s c = c \<or> \<not> messageOrCompaction (es ! retreatCut es s c)"
  by (induction es s c rule: retreatCut.induct) (auto simp: messageOrCompaction_def split: entry_kind.split)

lemma retreatCut_stop:
  "s \<le> c \<Longrightarrow> retreatCut es s c = s \<or> messageOrCompaction (es ! (retreatCut es s c - 1))"
  by (induction es s c rule: retreatCut.induct) (auto simp: messageOrCompaction_def split: entry_kind.split)

lemma findValidCutPoints_set:
  "set (findValidCutPoints es s e) = {i. s \<le> i \<and> i < e \<and> isCutPoint (es ! i)}"
  by (auto simp: findValidCutPoints_def)

lemma find_mem: "find p xs = Some x \<Longrightarrow> x \<in> set xs \<and> p x"
  by (induction xs) (auto split: if_splits)

definition chosenCut :: "entry list \<Rightarrow> nat \<Rightarrow> nat \<Rightarrow> int \<Rightarrow> nat" where
  "chosenCut es s e keep = (case budgetIndex es keep (rev [s..<e]) 0 of
     None \<Rightarrow> hd (findValidCutPoints es s e)
   | Some i \<Rightarrow> (case find (\<lambda>c. c \<ge> i) (findValidCutPoints es s e) of
       None \<Rightarrow> hd (findValidCutPoints es s e) | Some c \<Rightarrow> c))"

lemma chosenCut_mem:
  "findValidCutPoints es s e \<noteq> [] \<Longrightarrow> chosenCut es s e keep \<in> set (findValidCutPoints es s e)"
  unfolding chosenCut_def by (auto split: option.split dest: find_mem)

lemma findCutPoint_eq:
  assumes "findValidCutPoints es s e \<noteq> []"
  shows "cpFirstKeptEntryIndex (findCutPoint es s e keep) = retreatCut es s (chosenCut es s e keep)"
  using assms by (simp add: findCutPoint_def chosenCut_def Let_def)

lemma findTurnStartIndex_Some:
  "findTurnStartIndex es i s = Some j \<Longrightarrow> s \<le> j \<and> j \<le> i \<and> startsTurn (es ! j)"
  unfolding findTurnStartIndex_def by (auto dest!: find_mem)

lemma findCutPoint_turn:
  assumes "cpIsSplitTurn (findCutPoint es s e keep)"
  shows "\<exists>j. cpTurnStartIndex (findCutPoint es s e keep) = Some j \<and> s \<le> j
    \<and> j \<le> cpFirstKeptEntryIndex (findCutPoint es s e keep) \<and> startsTurn (es ! j)"
  using assms by (auto simp: findCutPoint_def Let_def findTurnStartIndex_Some split: if_splits)

lemma findCutPoint_range:
  assumes "s < e"
  shows "s \<le> cpFirstKeptEntryIndex (findCutPoint es s e keep) \<and> cpFirstKeptEntryIndex (findCutPoint es s e keep) < e"
proof (cases "findValidCutPoints es s e = []")
  case True
  then show ?thesis using assms by (simp add: findCutPoint_def Let_def)
next
  case False
  then have "s \<le> chosenCut es s e keep" "chosenCut es s e keep < e"
    using chosenCut_mem [OF False, of keep] by (auto simp: findValidCutPoints_set)
  then show ?thesis unfolding findCutPoint_eq [OF False]
    using retreatCut_ge [of s "chosenCut es s e keep" es] retreatCut_le [of es s "chosenCut es s e keep"] by linarith
qed



subsection \<open>Nothing is lost\<close>

lemma messagesBetween_append:
  "a \<le> b \<Longrightarrow> b \<le> c \<Longrightarrow> messagesBetween path a b @ messagesBetween path b c = messagesBetween path a c"
proof -
  assume "a \<le> b" "b \<le> c"
  then have "[a..<c] = [a..<b] @ [b..<c]" using upt_add_eq_append [of a b "c - b"] by simp
  then show ?thesis by (simp add: messagesBetween_def List.map_filter_def)
qed

lemma prepareCompaction_range:
  assumes "prepareCompaction sha path settings = Inr (Some prep)"
  shows "\<exists>k. boundaryStart path \<le> k \<and> k < length path \<and> prFirstKeptEntryId prep = eId (path ! k)
    \<and> prMessagesToSummarize prep @ prTurnPrefixMessages prep = messagesBetween path (boundaryStart path) k"
proof -
  let ?s = "boundaryStart path"
  let ?r = "findCutPoint path ?s (length path) (csKeepRecentTokens settings)"
  let ?k = "cpFirstKeptEntryIndex ?r"
  have path: "path \<noteq> []" "\<not> isCompaction (last path)"
    and prep: "prFirstKeptEntryId prep = eId (path ! ?k)"
      "prMessagesToSummarize prep = messagesBetween path ?s (if cpIsSplitTurn ?r then the (cpTurnStartIndex ?r) else ?k)"
      "prTurnPrefixMessages prep = (if cpIsSplitTurn ?r then messagesBetween path (the (cpTurnStartIndex ?r)) ?k else [])"
    using assms by (auto simp: prepareCompaction_def Let_def split: if_splits)
  have s: "?s < length path"
  proof (cases "prevCompactionIndex path")
    case None
    then show ?thesis using path(1) by (simp add: boundaryStart_def)
  next
    case (Some i)
    then have i: "i < length path" "isCompaction (path ! i)"
      by (auto simp: prevCompactionIndex_def dest!: find_mem)
    then have "i \<noteq> length path - 1" using path by (auto simp: last_conv_nth)
    then have "i + 1 < length path" using i(1) by simp
    then show ?thesis using Some by (auto simp: boundaryStart_def dest: findIndex_bound split: option.split)
  qed
  have k: "?s \<le> ?k" "?k < length path"
    using findCutPoint_range [OF s, of path "csKeepRecentTokens settings"] by blast+
  have "prMessagesToSummarize prep @ prTurnPrefixMessages prep = messagesBetween path ?s ?k"
  proof (cases "cpIsSplitTurn ?r")
    case True
    then obtain j where "cpTurnStartIndex ?r = Some j" "?s \<le> j" "j \<le> ?k"
      using findCutPoint_turn [of path ?s "length path" "csKeepRecentTokens settings"] by blast
    then show ?thesis using True prep messagesBetween_append by simp
  qed (use prep in simp)
  then show ?thesis using k prep(1) by blast
qed

lemma prevCompactionIndex_snoc:
  "prevCompactionIndex (es @ [e]) = (if isCompaction e then Some (length es) else prevCompactionIndex es)"
proof -
  have "find (\<lambda>i. isCompaction ((es @ [e]) ! i)) (rev [0..<length es]) = find (\<lambda>i. isCompaction (es ! i)) (rev [0..<length es])"
    by (rule find_cong) (auto simp: nth_append)
  then show ?thesis by (simp add: prevCompactionIndex_def)
qed

lemma isCompaction_iff: "isCompaction e \<longleftrightarrow> (\<exists>c. eKind e = CompactionEntry c)"
  by (cases "eKind e") (auto simp: isCompaction_def)

lemma prevCompactionIndex_Some:
  "prevCompactionIndex es = Some i \<Longrightarrow> i < length es \<and> (\<exists>c. eKind (es ! i) = CompactionEntry c)"
  by (auto simp: prevCompactionIndex_def isCompaction_iff dest!: find_mem)

lemma scan_prevCompaction: "csCompaction (foldl scanEntry scanStart es) =
    map_option (\<lambda>i. (es ! i, the (compactionOf (es ! i)))) (prevCompactionIndex es)"
proof (induction es rule: rev_induct)
  case Nil
  show ?case by (simp add: scanStart_def prevCompactionIndex_def)
next
  case (snoc e es)
  show ?case
  proof (cases "eKind e")
    case (CompactionEntry c)
    then show ?thesis by (simp add: scanEntry_def prevCompactionIndex_snoc isCompaction_def compactionOf_def)
  qed (use snoc prevCompactionIndex_Some [of es] in
      \<open>auto simp: scan_compaction_other prevCompactionIndex_snoc isCompaction_def nth_append map_option_case split: option.split\<close>)
qed

abbreviation entryMessages :: "entry list \<Rightarrow> (agent_message \<times> string) list" where
  "entryMessages es \<equiv> concat (map entryMessage es)"

lemma entryMessage_compaction: "eKind e = CompactionEntry c \<Longrightarrow> entryMessage e = []"
  by (simp add: entryMessage_def)

lemma keptEntries_nth:
  assumes "distinct (map eId es)" "k < length es"
  shows "keptEntries (eId (es ! k)) es = drop k es"
proof -
  have "\<forall>x \<in> set (take k es). eId x \<noteq> eId (es ! k)"
    using assms distinct_map_before [of eId "take k es" "es ! k" "drop (Suc k) es"] id_take_nth_drop [OF assms(2)] by metis
  then have "dropWhile (\<lambda>e. eId e \<noteq> eId (es ! k)) (take k es @ es ! k # drop (Suc k) es) = es ! k # drop (Suc k) es"
    by (simp add: dropWhile_append3)
  then show ?thesis using assms(2) by (simp add: keptEntries_def Cons_nth_drop_Suc flip: id_take_nth_drop)
qed

lemma keptEntries_notin: "f \<notin> eId ` set es \<Longrightarrow> keptEntries f es = []"
  by (induction es) (auto simp: keptEntries_def)

text \<open>The context of a path, from the boundary of its last compaction on.\<close>

definition boundarySummary :: "entry list \<Rightarrow> agent_message list" where
  "boundarySummary path = (case prevCompactionIndex path of
     None \<Rightarrow> []
   | Some i \<Rightarrow> (let c = the (compactionOf (path ! i))
       in [createCompactionSummaryMessage (ceSummary c) (ceTokensBefore c) (eTimestamp (path ! i))]))"

lemma context_from_boundary:
  assumes "distinct (map eId path)" "\<And>i. prevCompactionIndex path = Some i \<Longrightarrow> boundaryStart path \<le> i + 1"
  shows "map fst (contextPairs path (csCompaction (foldl scanEntry scanStart path)))
    = boundarySummary path @ map fst (entryMessages (drop (boundaryStart path) path))"
proof (cases "prevCompactionIndex path")
  case None
  then show ?thesis by (simp add: scan_prevCompaction contextPairs_def boundarySummary_def boundaryStart_def)
next
  case (Some i)
  then obtain c where i: "i < length path" "eKind (path ! i) = CompactionEntry c" using prevCompactionIndex_Some by blast
  let ?q = "\<lambda>e. entryType e = ''compaction'' \<and> eId e = eId (path ! i)"
  have idx: "findIndex ?q path = Some i"
  proof (rule findIndex_unique [OF i(1)])
    show "?q (path ! i)" using i(2) by (simp add: entryType_def)
    show "j = i" if "j < length path" "?q (path ! j)" for j
      using that i(1) assms(1) by (metis distinct_conv_nth length_map nth_map)
  qed
  have split: "entryMessages (drop b path) = entryMessages (drop b (take i path)) @ entryMessages (drop (i + 1) path)"
    if "b \<le> i" for b
  proof -
    have "drop b path = drop b (take i path) @ path ! i # drop (i + 1) path"
      using that i(1) by (metis Suc_eq_plus1 append_take_drop_id Cons_nth_drop_Suc drop_append diff_is_0_eq' drop0 length_take min.absorb4)
    then show ?thesis using i(2) by (simp add: entryMessage_compaction)
  qed
  have kept: "entryMessages (keptEntries (ceFirstKeptEntryId c) (take i path)) @ entryMessages (drop (i + 1) path)
      = entryMessages (drop (boundaryStart path) path)"
  proof (cases "findIndex (\<lambda>e. eId e = ceFirstKeptEntryId c) path")
    case None
    then have "keptEntries (ceFirstKeptEntryId c) (take i path) = []"
      by (intro keptEntries_notin) (auto dest!: in_set_takeD)
    then show ?thesis using None Some i(2) by (simp add: boundaryStart_def compactionOf_def del: findIndex_None)
  next
    case (Some b)
    then have b: "boundaryStart path = b" "b < length path" "eId (path ! b) = ceFirstKeptEntryId c"
      using \<open>prevCompactionIndex path = Some i\<close> i(2) findIndex_Some [OF Some]
      by (auto simp: boundaryStart_def compactionOf_def)
    consider "b = i + 1" | "b = i" | "b < i" using assms(2) [OF \<open>prevCompactionIndex path = Some i\<close>] b(1) by linarith
    then show ?thesis
    proof cases
      case 3
      have "keptEntries (ceFirstKeptEntryId c) (take i path) = drop b (take i path)"
        using keptEntries_nth [of "take i path" b] assms(1) 3 i(1) b(3) by (simp add: distinct_take flip: take_map)
      then show ?thesis using split [of b] 3 b(1) by simp
    next
      case 2
      have "ceFirstKeptEntryId c \<notin> eId ` set (take i path)"
        using distinct_map_take [OF assms(1), of i b] 2 b by simp
      then show ?thesis using keptEntries_notin split [of i] 2 b(1) by simp
    next
      case 1
      have "ceFirstKeptEntryId c \<notin> eId ` set (take i path)"
        using distinct_map_take [OF assms(1), of i b] 1 b by simp
      then show ?thesis using keptEntries_notin 1 b(1) by simp
    qed
  qed
  then show ?thesis using Some i(2) idx
    by (simp add: scan_prevCompaction contextPairs_def boundarySummary_def compactionOf_def Let_def)
qed

lemma entryMessage_covered: "p \<in> set (entryMessage e) \<Longrightarrow> getMessageFromEntryForCompaction e = Some (fst p)"
  by (auto simp: entryMessage_def getMessageFromEntryForCompaction_def getMessageFromEntry_def
      split: entry_kind.splits if_splits)

lemma in_map_filter: "y \<in> set (List.map_filter f xs) \<longleftrightarrow> (\<exists>x \<in> set xs. f x = Some y)"
  by (induction xs) (auto split: option.split)

lemma range_covered:
  assumes "s \<le> k" "k \<le> length path"
  shows "set (map fst (entryMessages (take (k - s) (drop s path)))) \<subseteq> set (messagesBetween path s k)"
proof
  fix m assume "m \<in> set (map fst (entryMessages (take (k - s) (drop s path))))"
  then obtain e p where e: "e \<in> set (take (k - s) (drop s path))" "p \<in> set (entryMessage e)" "m = fst p" by auto
  then obtain j where j: "j < k - s" "s + j < length path" "e = path ! (s + j)"
    by (auto simp: in_set_conv_nth)
  have "getMessageFromEntryForCompaction (path ! (s + j)) = Some m" using entryMessage_covered e j by simp
  moreover have "s + j \<in> {s..<k}" using j(1) by simp
  ultimately show "m \<in> set (messagesBetween path s k)"
    by (auto simp: messagesBetween_def in_map_filter)
qed


definition sampleSettings :: compactionSettings where
  "sampleSettings = \<lparr>csEnabled = True, csReserveTokens = 10, csKeepRecentTokens = 1\<rparr>"


subsection \<open>Estimates and file lists\<close>

lemma lastUsageInfo_snoc: "getLastAssistantUsageInfo (ms @ [m]) = (case getAssistantUsage m of
    Some u \<Rightarrow> Some (u, length ms)
  | None \<Rightarrow> getLastAssistantUsageInfo ms)"
proof (cases "getAssistantUsage m")
  case None
  show ?thesis
  proof (cases "findIndex (\<lambda>m. getAssistantUsage m \<noteq> None) (rev ms)")
    case (Some i)
    then have "i < length ms" using findIndex_bound by fastforce
    then show ?thesis using None Some by (simp add: getLastAssistantUsageInfo_def)
  qed (use None in \<open>simp add: getLastAssistantUsageInfo_def del: findIndex_None\<close>)
qed (simp add: getLastAssistantUsageInfo_def)

lemma lastUsageInfo_bound: "getLastAssistantUsageInfo ms = Some (u, i) \<Longrightarrow> i < length ms"
  by (auto simp: getLastAssistantUsageInfo_def dest!: findIndex_bound split: option.splits)

text \<open>
  The context estimate is built up message by message: an assistant message that reports usage
  sets it to the reported total, whatever came before, and every other message adds its own estimate.
\<close>

theorem context_estimate_step:
  "cuTokens (estimateContextTokens (ms @ [m])) = (case getAssistantUsage m of
     Some u \<Rightarrow> calculateContextTokens u
   | None \<Rightarrow> cuTokens (estimateContextTokens ms) + int (estimateTokens m))
   \<and> cuTokens (estimateContextTokens []) = 0"
proof (cases "getAssistantUsage m")
  case None
  show ?thesis
  proof (cases "getLastAssistantUsageInfo ms")
    case (Some p)
    obtain u i where p: "p = (u, i)" by fastforce
    then have "i < length ms" using Some lastUsageInfo_bound by blast
    then show ?thesis using None Some p
      by (simp add: estimateContextTokens_def lastUsageInfo_snoc Let_def getLastAssistantUsageInfo_def [of "[]"])
  qed (use None in \<open>simp add: estimateContextTokens_def lastUsageInfo_snoc Let_def getLastAssistantUsageInfo_def [of "[]"]\<close>)
qed (simp add: estimateContextTokens_def lastUsageInfo_snoc Let_def getLastAssistantUsageInfo_def [of "[]"])

text \<open>
  The file lists of a summary are sorted, without repetitions and disjoint; a file is listed as
  modified when it was edited or written, and as read when it was only read.
\<close>

theorem file_lists_partition:
  assumes "distinct (foRead ops)"
  shows "let l = computeFileLists ops
    in sorted (readFiles l) \<and> distinct (readFiles l) \<and> sorted (modifiedFiles l) \<and> distinct (modifiedFiles l)
     \<and> set (modifiedFiles l) = set (foEdited ops) \<union> set (foWritten ops)
     \<and> set (readFiles l) = set (foRead ops) - set (modifiedFiles l)"
  using assms foldl_setAdd [of "[]" "foEdited ops @ foWritten ops"]
  by (auto simp: computeFileLists_def Let_def distinct_sort)

theorem file_lists_partition_witness:
  "readFiles (computeFileLists \<lparr>foRead = [''b'', ''a''], foWritten = [''b''], foEdited = []\<rparr>) = [''a'']"
proof -
  have "sorted (readFiles (computeFileLists \<lparr>foRead = [''b'', ''a''], foWritten = [''b''], foEdited = []\<rparr>))"
    using file_lists_partition [of "\<lparr>foRead = [''b'', ''a''], foWritten = [''b''], foEdited = []\<rparr>"] by (simp add: Let_def)
  moreover have "readFiles (computeFileLists \<lparr>foRead = [''b'', ''a''], foWritten = [''b''], foEdited = []\<rparr>) = [''a'']"
    by code_simp
  ultimately show ?thesis by blast
qed

text \<open>
  A run of \<open>compact\<close> that succeeds returns the preparation's first kept entry and token count, a
  summary that ends with the formatted file lists, and those lists as details; it fails only with an
  error of one of its two model calls or for a preparation without a first kept entry.
\<close>

theorem compact_outcome:
  "case compact complete prep model custom level of
     Inr r \<Rightarrow> crsFirstKeptEntryId r = prFirstKeptEntryId prep \<and> crsTokensBefore r = prTokensBefore prep
       \<and> crsDetails r = computeFileLists (prFileOps prep)
       \<and> (\<exists>text. crsSummary r = text @ formatFileOperations (readFiles (crsDetails r)) (modifiedFiles (crsDetails r)))
   | Inl e \<Rightarrow> (\<exists>msg. e = CompactionError CompactionInvalidSession msg) = (prFirstKeptEntryId prep = [])"
proof -
  have summary: "generateSummary complete ms model r ci ps lv \<noteq> Inl (CompactionError CompactionInvalidSession msg)" for ms r ci ps lv msg
    by (simp add: generateSummary_def Let_def)
  have "generateTurnPrefixSummary complete ms model r lv \<noteq> Inl (CompactionError CompactionInvalidSession msg)" for ms r lv msg
    by (simp add: generateTurnPrefixSummary_def Let_def)
  then show ?thesis using summary
    by (auto simp: compact_def Let_def andThen_def split: sum.splits if_splits)
qed

text \<open>
  The budget may be reached at a tool result with no valid cut point after it; then the first cut
  point is chosen and everything is kept, however large.
\<close>

definition sampleToolResult :: "string \<Rightarrow> string \<Rightarrow> nat \<Rightarrow> entry" where
  "sampleToolResult i p n = \<lparr>eId = i, eParent = Some p, eTimestamp = ''2026-01-01T00:00:00.000Z'', eTx = None,
     eKind = MessageEntry (ToolResultMsg \<lparr>trToolCallId = ''t'', trToolName = ''read'',
       trContent = [TextContent (replicate n CHR ''x'') None], trDetails = None, trIsError = False, trTimestamp = Some 0\<rparr>)\<rparr>"

lemma trailing_tool_result_keeps_everything:
  "cpFirstKeptEntryIndex (findCutPoint [sampleUser ''a'' ''r'' None, sampleUser ''b'' ''a'' None, sampleUser ''c'' ''b'' None,
     sampleToolResult ''d'' ''c'' 40] 0 4 5) = 0"
  by code_simp

end
