(* ===== verification/BranchSummary.thy ===== *)
theory BranchSummary
  imports Compaction
begin

section \<open>Summaries of abandoned branches\<close>

text \<open>
  \<open>packages/agent/harness/compaction/branch-summarization.ts\<close>: the entries between the old leaf and
  the common ancestor with the target, the messages of them that fit a token budget, and the summary
  of those messages.  The walk up the tree is a partial function, as in the session storage.
\<close>

subsection \<open>Collecting the entries\<close>

record collectEntriesResult =
  clEntries :: "entry list"
  clCommonAncestorId :: "string option"

partial_function (option) collectUp :: "(string \<Rightarrow> entry option) \<Rightarrow> string option \<Rightarrow> string option \<Rightarrow> entry list
    \<Rightarrow> (storage_error + entry list) option" where
  "collectUp getEntry common current acc = (case current of
     None \<Rightarrow> Some (Inr acc)
   | Some i \<Rightarrow> if i = [] \<or> common = Some i then Some (Inr acc)
       else (case getEntry i of
         None \<Rightarrow> Some (Inl (SessionError InvalidSession (''Entry '' @ i @ '' not found'')))
       | Some e \<Rightarrow> collectUp getEntry common (eParent e) (acc @ [e])))"

declare collectUp.simps [code]

definition commonAncestor :: "entry list \<Rightarrow> entry list \<Rightarrow> string option" where
  "commonAncestor oldPath targetPath = map_option eId (find (\<lambda>e. eId e \<in> set (map eId oldPath)) (rev targetPath))"

definition collectEntriesForBranchSummary :: "'s storageOps \<Rightarrow> string option \<Rightarrow> string \<Rightarrow> 's
    \<Rightarrow> (storage_error + collectEntriesResult) option" where
  "collectEntriesForBranchSummary ops oldLeafId targetId st =
    (if oldLeafId = None \<or> oldLeafId = Some [] then Some (Inr \<lparr>clEntries = [], clCommonAncestorId = None\<rparr>)
     else case getBranch ops oldLeafId st of
       None \<Rightarrow> None
     | Some (Inl e) \<Rightarrow> Some (Inl e)
     | Some (Inr oldPath) \<Rightarrow> (case getBranch ops (Some targetId) st of
         None \<Rightarrow> None
       | Some (Inl e) \<Rightarrow> Some (Inl e)
       | Some (Inr targetPath) \<Rightarrow>
           (let common = commonAncestor oldPath targetPath
            in case collectUp (\<lambda>i. opGetEntry ops i st) common oldLeafId [] of
              None \<Rightarrow> None
            | Some (Inl e) \<Rightarrow> Some (Inl e)
            | Some (Inr es) \<Rightarrow> Some (Inr \<lparr>clEntries = rev es, clCommonAncestorId = common\<rparr>))))"

subsection \<open>Messages within a budget\<close>

text \<open>Tool results are left out: their calls are in the assistant messages.\<close>

definition branchMessage :: "entry \<Rightarrow> agent_message option" where
  "branchMessage e = (case eKind e of
     MessageEntry m \<Rightarrow> (case m of ToolResultMsg _ \<Rightarrow> None | _ \<Rightarrow> Some m)
   | CustomMessageEntry c \<Rightarrow> Some (createCustomMessage (cmeCustomType c) (cmeContent c) (cmeDisplay c) (cmeDetails c) (eTimestamp e))
   | BranchSummaryEntry b \<Rightarrow> Some (createBranchSummaryMessage (bseSummary b) (bseFromId b) (eTimestamp e))
   | CompactionEntry c \<Rightarrow> Some (createCompactionSummaryMessage (ceSummary c) (ceTokensBefore c) (eTimestamp e))
   | _ \<Rightarrow> None)"

record branchPreparation =
  bpMessages :: "agent_message list"
  bpFileOps :: fileOperations
  bpTotalTokens :: int

definition isSummaryEntry :: "entry \<Rightarrow> bool" where
  "isSummaryEntry e = (case eKind e of CompactionEntry _ \<Rightarrow> True | BranchSummaryEntry _ \<Rightarrow> True | _ \<Rightarrow> False)"

definition branchDetails :: "fileOperations \<Rightarrow> entry \<Rightarrow> fileOperations" where
  "branchDetails ops e = (case eKind e of
     BranchSummaryEntry b \<Rightarrow> addDetails ops (bseDetails b) (bseFromHook b)
   | _ \<Rightarrow> ops)"

text \<open>The loop from the newest entry back; the first argument lists the entries newest first.\<close>

primrec selectMessages :: "entry list \<Rightarrow> int \<Rightarrow> branchPreparation \<Rightarrow> branchPreparation" where
  "selectMessages [] budget p = p"
| "selectMessages (e # older) budget p = (case branchMessage e of
     None \<Rightarrow> selectMessages older budget p
   | Some m \<Rightarrow>
       (let p' = p\<lparr>bpFileOps := extractFileOpsFromMessage (bpFileOps p) m\<rparr>;
            tokens = int (estimateTokens m);
            added = p'\<lparr>bpMessages := m # bpMessages p, bpTotalTokens := bpTotalTokens p + tokens\<rparr>
        in if budget > 0 \<and> bpTotalTokens p + tokens > budget
           then (if isSummaryEntry e \<and> 10 * bpTotalTokens p < 9 * budget then added else p')
           else selectMessages older budget added))"

definition prepareBranchEntries :: "entry list \<Rightarrow> int \<Rightarrow> branchPreparation" where
  "prepareBranchEntries entries tokenBudget = selectMessages (rev entries) tokenBudget
     \<lparr>bpMessages = [], bpFileOps = foldl branchDetails createFileOps entries, bpTotalTokens = 0\<rparr>"

subsection \<open>The summary\<close>

definition BRANCH_SUMMARY_PREAMBLE :: string where
  \<open>BRANCH_SUMMARY_PREAMBLE = ''The user explored a different conversation branch before returning here.
Summary of that exploration:

''\<close>

definition BRANCH_SUMMARY_PROMPT :: string where
  \<open>BRANCH_SUMMARY_PROMPT = ''Create a structured summary of this conversation branch for context when returning later.

Use this EXACT format:

## Goal
[What was the user trying to accomplish in this branch?]

## Constraints & Preferences
- [Any constraints, preferences, or requirements mentioned]
- [Or "(none)" if none were mentioned]

## Progress
### Done
- [x] [Completed tasks/changes]

### In Progress
- [ ] [Work that was started but not finished]

### Blocked
- [Issues preventing progress, if any]

## Key Decisions
- **[Decision]**: [Brief rationale]

## Next Steps
1. [What should happen next to continue this work]

Keep each section concise. Preserve exact file paths, function names, and error messages.''\<close>


datatype branch_error_code = BranchAborted | BranchSummarizationFailed
datatype branch_error = BranchSummaryError branch_error_code string

record branchSummaryResult =
  brSummary :: string
  brFiles :: fileLists

record branchOptions =
  boCustomInstructions :: "string option"
  boReplaceInstructions :: bool
  boReserveTokens :: "int option"

definition generateBranchSummary :: "completion \<Rightarrow> modelInfo \<Rightarrow> branchOptions \<Rightarrow> entry list \<Rightarrow> branch_error + branchSummaryResult" where
  "generateBranchSummary complete model options entries =
    (let reserveTokens = (case boReserveTokens options of None \<Rightarrow> 16384 | Some r \<Rightarrow> r);
         contextWindow = (if miContextWindow model = 0 then 128000 else miContextWindow model);
         prep = prepareBranchEntries entries (contextWindow - reserveTokens)
     in if bpMessages prep = []
        then Inr \<lparr>brSummary = ''No content to summarize'', brFiles = \<lparr>readFiles = [], modifiedFiles = []\<rparr>\<rparr>
        else let conversationText = serializeConversation (convertToLlm (bpMessages prep));
                 custom = (case boCustomInstructions options of None \<Rightarrow> [] | Some c \<Rightarrow> c);
                 instructions = (if boReplaceInstructions options \<and> custom \<noteq> [] then custom
                   else if custom \<noteq> [] then BRANCH_SUMMARY_PROMPT @ nl @ nl @ ''Additional focus: '' @ custom
                   else BRANCH_SUMMARY_PROMPT);
                 promptText = ''<conversation>'' @ nl @ conversationText @ nl @ ''</conversation>'' @ nl @ nl @ instructions;
                 response = complete \<lparr>rqSystemPrompt = SUMMARIZATION_SYSTEM_PROMPT, rqPrompt = promptText,
                   rqMaxTokens = 2048, rqReasoning = None\<rparr>
        in if amStopReason response = StopAborted
           then Inl (BranchSummaryError BranchAborted (orElse (amErrorMessage response) ''Branch summary aborted''))
           else if amStopReason response = StopError
           then Inl (BranchSummaryError BranchSummarizationFailed
             (''Branch summary failed: '' @ orElse (amErrorMessage response) ''Unknown error''))
           else let lists = computeFileLists (bpFileOps prep);
                    summary = BRANCH_SUMMARY_PREAMBLE @ responseText response @ formatFileOperations (readFiles lists) (modifiedFiles lists)
           in Inr \<lparr>brSummary = (if summary = [] then ''No summary generated'' else summary), brFiles = lists\<rparr>)"

subsection \<open>The selection\<close>

lemma selectMessages_step':
  assumes "branchMessage e = Some m"
  shows "selectMessages (e # older) budget p =
    (let p' = p\<lparr>bpFileOps := extractFileOpsFromMessage (bpFileOps p) m\<rparr>;
         added = p'\<lparr>bpMessages := m # bpMessages p, bpTotalTokens := bpTotalTokens p + int (estimateTokens m)\<rparr>
     in if budget > 0 \<and> bpTotalTokens p + int (estimateTokens m) > budget
        then (if isSummaryEntry e \<and> 10 * bpTotalTokens p < 9 * budget then added else p')
        else selectMessages older budget added)"
  using assms by (simp add: Let_def)

lemmas selectMessages_step = selectMessages_step' [unfolded Let_def]

lemma selectMessages_shape:
  "\<exists>kept. bpMessages (selectMessages es budget p) = kept @ bpMessages p
    \<and> (\<exists>n. kept = rev (take n (List.map_filter branchMessage es)))
    \<and> bpTotalTokens (selectMessages es budget p) = bpTotalTokens p + int (sum_list (map estimateTokens kept))"
proof (induction es arbitrary: p)
  case (Cons e es)
  show ?case
  proof (cases "branchMessage e")
    case (Some m)
    let ?p' = "p\<lparr>bpFileOps := extractFileOpsFromMessage (bpFileOps p) m\<rparr>"
    let ?added = "?p'\<lparr>bpMessages := m # bpMessages p, bpTotalTokens := bpTotalTokens p + int (estimateTokens m)\<rparr>"
    consider (stop) "selectMessages (e # es) budget p = ?p'" | (last) "selectMessages (e # es) budget p = ?added"
      | (more) "selectMessages (e # es) budget p = selectMessages es budget ?added"
      using selectMessages_step [OF Some] by metis
    then show ?thesis
    proof cases
      case stop
      then show ?thesis unfolding stop by (intro exI [of _ "[]"] conjI exI [of _ 0]) simp_all
    next
      case last
      then show ?thesis unfolding last using Some
        by (intro exI [of _ "[m]"] conjI exI [of _ 1]) simp_all
    next
      case more
      obtain kept n where k: "bpMessages (selectMessages es budget ?added) = kept @ bpMessages ?added"
        "kept = rev (take n (List.map_filter branchMessage es))"
        "bpTotalTokens (selectMessages es budget ?added) = bpTotalTokens ?added + int (sum_list (map estimateTokens kept))"
        using Cons.IH [of ?added] by blast
      show ?thesis unfolding more using Some k
        by (intro exI [of _ "kept @ [m]"] conjI exI [of _ "Suc n"]) simp_all
    qed
  qed (use Cons.IH in simp)
qed (intro exI [of _ "[]"] conjI exI [of _ 0]; simp)

lemma selectMessages_budget:
  assumes "budget > 0" "bpTotalTokens p \<le> budget"
  shows "bpTotalTokens (selectMessages es budget p) \<le> budget
    \<or> (\<exists>e m. e \<in> set es \<and> isSummaryEntry e \<and> branchMessage e = Some m
        \<and> 10 * (bpTotalTokens (selectMessages es budget p) - int (estimateTokens m)) < 9 * budget
        \<and> hd (bpMessages (selectMessages es budget p)) = m)"
  using assms(2)
proof (induction es arbitrary: p)
  case (Cons e es)
  show ?case
  proof (cases "branchMessage e")
    case (Some m)
    let ?p' = "p\<lparr>bpFileOps := extractFileOpsFromMessage (bpFileOps p) m\<rparr>"
    let ?added = "?p'\<lparr>bpMessages := m # bpMessages p, bpTotalTokens := bpTotalTokens p + int (estimateTokens m)\<rparr>"
    consider (stop) "selectMessages (e # es) budget p = ?p'"
      | (last) "selectMessages (e # es) budget p = ?added" "isSummaryEntry e" "10 * bpTotalTokens p < 9 * budget"
      | (more) "selectMessages (e # es) budget p = selectMessages es budget ?added" "bpTotalTokens ?added \<le> budget"
    proof (cases "bpTotalTokens p + int (estimateTokens m) > budget")
      case True
      then show thesis using selectMessages_step [OF Some, of es budget p] assms(1) stop last by (metis (no_types, lifting))
    next
      case False
      then have "selectMessages (e # es) budget p = selectMessages es budget ?added"
        using selectMessages_step [OF Some, of es budget p] by simp
      then show thesis using more False by simp
    qed
    then show ?thesis
    proof cases
      case stop
      then show ?thesis using Cons.prems by simp
    next
      case last
      then show ?thesis using Some by (intro disjI2 exI [of _ e] exI [of _ m]) simp
    next
      case more
      then show ?thesis using Cons.IH [OF more(2)] unfolding more(1) by auto
    qed
  qed (use Cons in auto)
qed simp


subsection \<open>The collected entries\<close>

lemma collectUp_path:
  assumes "wellFormedFile sha es" "n < length es"
    and "\<forall>e \<in> set pre. common \<noteq> Some (eId e)" "pathIn es (eId (es ! n)) = stem @ pre"
    and "stem = [] \<longrightarrow> common = None" "stem \<noteq> [] \<longrightarrow> common = Some (eId (last stem))"
  shows "collectUp (\<lambda>i. find (\<lambda>e. eId e = i) es) common (Some (eId (es ! n))) acc = Some (Inr (acc @ rev pre))"
  using assms(2-4)
proof (induction n arbitrary: acc pre rule: less_induct)
  case (less n)
  let ?e = "es ! n"
  have e: "?e \<in> set es" using less.prems(1) by simp
  have d: "distinct (map eId es)" and ne: "\<forall>e \<in> set es. eId e \<noteq> []"
    using assms(1) clean_distinct by (auto simp: wellFormedFile_def)
  note unfold = pathIn_unfold [OF assms(1) e]
  have last: "eId (last (pathIn es (eId ?e))) = eId ?e" "pathIn es (eId ?e) \<noteq> []" using pathIn_last [of "eId ?e" es] e by auto
  show ?case
  proof (cases "pre = []")
    case True
    then have "common = Some (eId ?e)" using less.prems(3) last assms(6) by auto
    then show ?thesis using True by (subst collectUp.simps) simp
  next
    case False
    then have "last pre = ?e" using unfold less.prems(3)
      by (metis (no_types, lifting) last_appendR last_snoc option.case_eq_if append_Nil)
    then obtain pre' where pre: "pre = pre' @ [?e]" using False by (metis append_butlast_last_id)
    then have neq: "common \<noteq> Some (eId ?e)" using less.prems(2) by simp
    have look: "find (\<lambda>x. eId x = eId ?e) es = Some ?e" using find_key_distinct [OF d e] .
    have step: "collectUp (\<lambda>i. find (\<lambda>e. eId e = i) es) common (Some (eId ?e)) acc
        = collectUp (\<lambda>i. find (\<lambda>e. eId e = i) es) common (eParent ?e) (acc @ [?e])"
      using neq ne e look by (subst collectUp.simps) simp
    show ?thesis
    proof (cases "eParent ?e")
      case None
      then have "stem = []" "pre' = []" using unfold less.prems(3) pre by auto
      then show ?thesis unfolding step None using pre by (subst collectUp.simps) simp
    next
      case (Some p)
      then obtain m where m: "m < n" "eId (es ! m) = p"
        using parentsResolved_nth [of "\<lambda>_. False" es n p] assms(1) less.prems(1) by (auto simp: wellFormedFile_def)
      have "pathIn es (eId (es ! m)) = stem @ pre'" using unfold Some less.prems(3) pre m(2) by simp
      then have "collectUp (\<lambda>i. find (\<lambda>e. eId e = i) es) common (Some (eId (es ! m))) (acc @ [?e])
          = Some (Inr ((acc @ [?e]) @ rev pre'))"
        using less.IH [of m pre' "acc @ [?e]"] m(1) less.prems(1,2) pre by simp
      then show ?thesis unfolding step Some using m(2) pre by simp
    qed
  qed
qed

lemma pathIn_prefix:
  assumes "wellFormedFile sha es" "x \<in> set (pathIn es i)"
  shows "\<exists>post. pathIn es i = pathIn es (eId x) @ post"
proof -
  have "distinct (map eId es)" using assms(1) by (rule wellFormedFile_distinct)
  then show ?thesis using assms(2)
  proof (induction es arbitrary: i rule: rev_induct)
    case (snoc e es)
    have IH: "\<exists>post. pathIn es j = pathIn es (eId x) @ post" if "x \<in> set (pathIn es j)" for j
      using snoc.IH [OF _ that] snoc.prems(1) by simp
    have older: "eId e \<noteq> eId x" if "x \<in> set es" using snoc.prems(1) that by auto
    show ?case
    proof (cases "eId e = i")
      case False
      then have x: "x \<in> set (pathIn es i)" using snoc.prems(2) by simp
      then have "x \<in> set es" using pathIn_subset by blast
      then show ?thesis using IH [OF x] False older by simp
    next
      case True
      show ?thesis
      proof (cases "x = e")
        case False
        then obtain p where p: "eParent e = Some p" "x \<in> set (pathIn es p)"
          using snoc.prems(2) True by (auto split: option.splits)
        then have "x \<in> set es" using pathIn_subset by blast
        then show ?thesis using IH [OF p(2)] p(1) True older by auto
      qed (use True in simp)
    qed
  qed simp
qed

text \<open>
  C23: the entries collected for a branch summary are exactly the part of the old branch that the
  target's branch does not share: both paths begin with the same stem, the old path is the stem and
  the collected entries in order, nothing else is shared, and the reported common ancestor is the
  stem's last entry, or none for an empty stem.
\<close>

theorem branch_entries_above_common_ancestor:
  assumes "memInv sha st" "old \<in> eId ` set (msEntries st)" "target \<in> eId ` set (msEntries st)"
  shows "\<exists>r stem rest. collectEntriesForBranchSummary (memoryOps sha env) (Some old) target st = Some (Inr r)
    \<and> memGetPathToRoot (Some old) st = Some (Inr (stem @ clEntries r))
    \<and> memGetPathToRoot (Some target) st = Some (Inr (stem @ rest))
    \<and> set (clEntries r) \<inter> set rest = {}
    \<and> clCommonAncestorId r = (if stem = [] then None else Some (eId (last stem)))"
proof -
  let ?es = "msEntries st" let ?old = "pathIn (msEntries st) old" let ?target = "pathIn (msEntries st) target"
  have wf: "wellFormedFile sha ?es" using assms(1) by (simp add: memInv_def)
  have d: "distinct (map eId ?es)" using wf by (rule wellFormedFile_distinct)
  have ne: "old \<noteq> []" using assms(2) wf clean_distinct by (auto simp: wellFormedFile_def)
  have paths: "getBranch (memoryOps sha env) (Some old) st = Some (Inr ?old)"
    "getBranch (memoryOps sha env) (Some target) st = Some (Inr ?target)"
    using memGetPathToRoot_path [OF assms(1)] assms(2,3) by (simp_all add: getBranch_def memoryOps_def)
  have entry: "opGetEntry (memoryOps sha env) i st = find (\<lambda>e. eId e = i) ?es" for i
    by (simp add: memoryOps_def memInv_byId [OF assms(1)])
  obtain n where n: "n < length ?es" "eId (?es ! n) = old" using assms(2) by (auto simp: in_set_conv_nth)
  have inj: "x = y" if "x \<in> set ?es" "y \<in> set ?es" "eId x = eId y" for x y
    using distinct_map_inj [OF d that] .
  have sub: "set ?old \<subseteq> set ?es" "set ?target \<subseteq> set ?es" using pathIn_subset by auto
  let ?common = "commonAncestor ?old ?target"
  obtain stem pre rest where split: "?old = stem @ pre" "?target = stem @ rest"
    "stem = [] \<longrightarrow> ?common = None" "stem \<noteq> [] \<longrightarrow> ?common = Some (eId (last stem))"
    "\<forall>e \<in> set pre. ?common \<noteq> Some (eId e)" "set pre \<inter> set rest = {}"
  proof (cases "find (\<lambda>e. eId e \<in> set (map eId ?old)) (rev ?target)")
    case None
    then have "\<forall>e \<in> set ?target. eId e \<notin> eId ` set ?old" by (auto simp: find_None_iff)
    then have "set ?old \<inter> set ?target = {}" by auto
    with None show thesis by (intro that [of "[]" ?old ?target]) (auto simp: commonAncestor_def)
  next
    case (Some x)
    then have x: "x \<in> set ?target" "eId x \<in> eId ` set ?old" using find_mem [OF Some] by simp_all
    from x(2) obtain y where y: "eId x = eId y" "y \<in> set ?old" by (rule imageE)
    have "x = y" by (rule inj) (use x(1) y sub in auto)
    then have xo: "x \<in> set ?old" using y(2) by simp
    obtain pre where pre: "?old = pathIn ?es (eId x) @ pre" using pathIn_prefix [OF wf xo] by blast
    obtain rest where rest: "?target = pathIn ?es (eId x) @ rest" using pathIn_prefix [OF wf x(1)] by blast
    have stem: "pathIn ?es (eId x) \<noteq> []" "eId (last (pathIn ?es (eId x))) = eId x"
      using pathIn_last [of "eId x" ?es] x(1) sub by auto
    have last: "last (pathIn ?es (eId x)) = x"
      using stem inj pathIn_subset x(1) sub(2) last_in_set by (metis subsetD)
    have "find (\<lambda>e. eId e \<in> set (map eId ?old)) (rev rest) = None"
    proof (rule ccontr)
      assume "find (\<lambda>e. eId e \<in> set (map eId ?old)) (rev rest) \<noteq> None"
      then obtain y where y: "find (\<lambda>e. eId e \<in> set (map eId ?old)) (rev rest) = Some y" by blast
      then have "find (\<lambda>e. eId e \<in> set (map eId ?old)) (rev ?target) = Some y" unfolding rest by (simp add: find_append)
      then have "y = x" using Some by simp
      moreover have "y \<in> set rest" using find_mem [OF y] by simp
      moreover have "distinct (map eId ?target)" using pathIn_distinct [OF d] .
      moreover have "x \<in> set (pathIn ?es (eId x))" using stem(1) last last_in_set by metis
      ultimately show False unfolding rest by (auto simp: distinct_map)
    qed
    then have "\<forall>e \<in> set rest. eId e \<notin> eId ` set ?old" by (auto simp: find_None_iff)
    then have "set pre \<inter> set rest = {}" using pre by auto
    moreover have "\<forall>e \<in> set pre. eId e \<noteq> eId x"
    proof
      fix e assume e: "e \<in> set pre"
      have dd: "distinct (map eId (pathIn ?es (eId x) @ pre))" using pathIn_distinct [OF d, of old] unfolding pre .
      have "eId x \<in> eId ` set (pathIn ?es (eId x))" using stem last by (metis image_eqI last_in_set)
      then show "eId e \<noteq> eId x" using e dd by (simp add: disjoint_iff) (metis image_eqI)
    qed
    ultimately show thesis using Some stem
      by (intro that [OF pre rest]) (auto simp: commonAncestor_def)
  qed
  have "collectUp (\<lambda>i. find (\<lambda>e. eId e = i) ?es) ?common (Some (eId (?es ! n))) [] = Some (Inr ([] @ rev pre))"
    using split n(2) by (intro collectUp_path [OF wf n(1), where stem = stem]) auto
  then have "collectEntriesForBranchSummary (memoryOps sha env) (Some old) target st
      = Some (Inr \<lparr>clEntries = pre, clCommonAncestorId = ?common\<rparr>)"
    using ne n(2) by (simp add: collectEntriesForBranchSummary_def paths entry Let_def)
  then show ?thesis using split memGetPathToRoot_path [OF assms(1)] assms(2,3)
    by (intro exI [of _ "\<lparr>clEntries = pre, clCommonAncestorId = ?common\<rparr>"] exI [of _ stem] exI [of _ rest]) auto
qed

theorem branch_entries_above_common_ancestor_witness:
  "\<exists>r. collectEntriesForBranchSummary (memoryOps (\<lambda>_. ''00'') (\<lambda>_. ([], 0))) (Some ''b'') ''a'' twoEntries = Some (Inr r)"
proof -
  have "memInv (\<lambda>_. ''00'') twoEntries" "msEntries twoEntries = [sampleModel ''a'' None None, sampleUser ''b'' ''a'' None]"
    using memInv_append [OF memInv_empty] twoEntries_append by (auto simp: memAppend_Inr emptyStorage_def)
  then show ?thesis
    using branch_entries_above_common_ancestor [of "\<lambda>_. ''00''" twoEntries "''b''" "''a''" "\<lambda>_. ([], 0)"]
    by (auto simp: sampleUser_def sampleModel_def)
qed

end
