(* ===== verification/AgentLoop.thy ===== *)
theory AgentLoop
  imports SessionTypes
begin

section \<open>The agent loop\<close>

text \<open>
  \<open>packages/agent/agent-loop.ts\<close>: a run of the agent, from the prompts to \<open>agent_end\<close>.  The loop
  streams assistant messages, executes their tool calls one by one or concurrently, polls the
  steering and follow-up queues and emits an event for every step.

  Everything the loop awaits is a parameter: the record \<open>loopHost\<close> holds the event sink, the model
  stream, the argument validator, the abort signal and the clock, \<open>loopConfig\<close> the callbacks of the
  run, \<open>agentTool\<close> the tools.  Each of them acts on an unknown world \<open>'w\<close> and may throw a text.  A model
  stream delivers finitely many events and its result.  An event sink fails by rejecting its promise.
  A run's state is the trace of the events offered to the sink, and the world.

  \<open>Promise.all\<close> over the prepared calls is a scheduler: each call is a task of three steps (execute,
  finalise, report), and \<open>hoPick\<close> chooses the task that steps next, so every interleaving of the
  steps of different calls is a value of \<open>hoPick\<close>.  The loop over turns may run for ever; \<open>runLoop\<close>
  takes the number of rounds it may make as fuel and fails with \<open>OutOfFuel\<close> beyond it.
\<close>

subsection \<open>Tools, context, configuration\<close>

datatype execution_mode = Sequential | Parallel

record toolResult =
  arContent :: "content_part list"
  arDetails :: "json option"
  arTerminate :: "bool option"

text \<open>A call to the outside: it may throw a text, and it changes the world.\<close>

type_synonym ('w, 'a) outside = "'w \<Rightarrow> (string + 'a) \<times> 'w"

record 'w agentTool =
  atName :: string
  atSchema :: json
  atPrepareArguments :: "(json \<Rightarrow> string + json) option"
  atExecute :: "string \<Rightarrow> json \<Rightarrow> 'w \<Rightarrow> (toolResult list \<times> (string + toolResult)) \<times> 'w"
  atExecutionMode :: "execution_mode option"

record 'w agentContext =
  acSystemPrompt :: string
  acMessages :: "agent_message list"
  acTools :: "'w agentTool list option"

record loopModel =
  lmId :: string
  lmProvider :: string
  lmSpec :: json

record beforeToolCallResult =
  brBlock :: "bool option"
  brReason :: "string option"

record afterToolCallResult =
  afContent :: "content_part list option"
  afDetails :: "json option"
  afIsError :: "bool option"
  afTerminate :: "bool option"

record 'w toolCallContext =
  tccAssistantMessage :: assistantMessage
  tccToolCall :: toolCall
  tccArgs :: json
  tccContext :: "'w agentContext"

record 'w finishedTurn =
  ftMessage :: assistantMessage
  ftToolResults :: "toolResultMessage list"
  ftContext :: "'w agentContext"
  ftNewMessages :: "agent_message list"

record 'w turnUpdate =
  tuContext :: "'w agentContext option"
  tuModel :: "loopModel option"
  tuThinkingLevel :: "string option"

record 'w loopConfig =
  cfModel :: loopModel
  cfReasoning :: "string option"
  cfApiKey :: "string option"
  cfStreamOptions :: json
  cfToolExecution :: "execution_mode option"
  cfBeforeUserMessage :: "(userMessage \<Rightarrow> ('w, unit) outside) option"
  cfConvertToLlm :: "agent_message list \<Rightarrow> ('w, agent_message list) outside"
  cfTransformContext :: "(agent_message list \<Rightarrow> ('w, agent_message list) outside) option"
  cfGetApiKey :: "(string \<Rightarrow> ('w, string option) outside) option"
  cfShouldStopAfterTurn :: "('w finishedTurn \<Rightarrow> ('w, bool) outside) option"
  cfPrepareNextTurn :: "('w finishedTurn \<Rightarrow> ('w, 'w turnUpdate option) outside) option"
  cfPrepareFollowUpTurn :: "('w, 'w turnUpdate option) outside option"
  cfGetSteeringMessages :: "('w, agent_message list) outside option"
  cfGetFollowUpMessages :: "('w, agent_message list) outside option"
  cfBeforeToolCall :: "('w toolCallContext \<Rightarrow> ('w, beforeToolCallResult option) outside) option"
  cfAfterToolCall :: "('w toolCallContext \<Rightarrow> toolResult \<Rightarrow> bool \<Rightarrow> ('w, afterToolCallResult option) outside) option"

subsection \<open>Events, host and run state\<close>

datatype delta_kind = TextStart | TextDelta | TextEnd | ThinkingStart | ThinkingDelta | ThinkingEnd
  | ToolcallStart | ToolcallDelta | ToolcallEnd

datatype stream_event =
    StreamStart assistantMessage
  | StreamDelta delta_kind json assistantMessage
  | StreamDone
  | StreamError

datatype agent_event =
    AgentStart
  | AgentEnd "agent_message list"
  | TurnStart
  | TurnEnd assistantMessage "toolResultMessage list"
  | MessageStart agent_message
  | MessageUpdate agent_message stream_event
  | MessageEnd agent_message
  | ToolExecutionStart string string json
  | ToolExecutionUpdate string string json toolResult
  | ToolExecutionEnd string string toolResult bool

record 'w llmContext =
  lcSystemPrompt :: string
  lcMessages :: "agent_message list"
  lcTools :: "'w agentTool list option"

record streamOptions =
  soReasoning :: "string option"
  soApiKey :: "string option"
  soRest :: json

record 'w loopHost =
  hoEmit :: "agent_event \<Rightarrow> ('w, unit) outside"
  hoStream :: "loopModel \<Rightarrow> 'w llmContext \<Rightarrow> streamOptions \<Rightarrow> ('w, stream_event list \<times> assistantMessage) outside"
  hoValidate :: "'w agentTool \<Rightarrow> toolCall \<Rightarrow> string + json"
  hoAborted :: "'w \<Rightarrow> bool"
  hoNow :: "'w \<Rightarrow> int \<times> 'w"
  hoPick :: "'w \<Rightarrow> nat \<times> 'w"

record 'w loopRun =
  lrTrace :: "agent_event list"
  lrWorld :: 'w

datatype loop_fault = Thrown string | OutOfFuel

type_synonym ('w, 'a) loop = "('w loopRun, loop_fault, 'a) action"

definition call :: "('w, 'a) outside \<Rightarrow> ('w, 'a) loop" where
  "call f s = (case f (lrWorld s) of
     (Inl e, w) \<Rightarrow> (Inl (Thrown e), s\<lparr>lrWorld := w\<rparr>)
   | (Inr a, w) \<Rightarrow> (Inr a, s\<lparr>lrWorld := w\<rparr>))"

definition onWorld :: "('w \<Rightarrow> 'a \<times> 'w) \<Rightarrow> ('w, 'a) loop" where
  "onWorld f s = (case f (lrWorld s) of (a, w) \<Rightarrow> (Inr a, s\<lparr>lrWorld := w\<rparr>))"

definition emit :: "'w loopHost \<Rightarrow> agent_event \<Rightarrow> ('w, unit) loop" where
  "emit host ev s = call (hoEmit host ev) (s\<lparr>lrTrace := lrTrace s @ [ev]\<rparr>)"

definition aborted :: "'w loopHost \<Rightarrow> ('w, bool) loop" where
  "aborted host = onWorld (\<lambda>w. (hoAborted host w, w))"

primrec each :: "('a \<Rightarrow> ('w, unit) loop) \<Rightarrow> 'a list \<Rightarrow> ('w, unit) loop" where
  "each f [] = retS ()"
| "each f (x # xs) = bindS (f x) (\<lambda>_. each f xs)"

subsection \<open>Streaming an assistant message\<close>

definition replaceLast :: "'a list \<Rightarrow> 'a \<Rightarrow> 'a list" where
  "replaceLast xs x = xs[length xs - 1 := x]"

definition pushMessage :: "'w agentContext \<Rightarrow> agent_message \<Rightarrow> 'w agentContext" where
  "pushMessage ctx m = ctx\<lparr>acMessages := acMessages ctx @ [m]\<rparr>"

definition finishStream :: "'w loopHost \<Rightarrow> 'w agentContext \<Rightarrow> bool \<Rightarrow> assistantMessage
    \<Rightarrow> ('w, assistantMessage \<times> 'w agentContext) loop" where
  "finishStream host ctx addedPartial final =
    (if addedPartial
     then bindS (emit host (MessageEnd (AssistantMsg final))) (\<lambda>_.
       retS (final, ctx\<lparr>acMessages := replaceLast (acMessages ctx) (AssistantMsg final)\<rparr>))
     else bindS (emit host (MessageStart (AssistantMsg final))) (\<lambda>_.
       bindS (emit host (MessageEnd (AssistantMsg final))) (\<lambda>_.
       retS (final, pushMessage ctx (AssistantMsg final)))))"

fun streamEvents :: "'w loopHost \<Rightarrow> 'w agentContext \<Rightarrow> bool \<Rightarrow> assistantMessage \<Rightarrow> stream_event list
    \<Rightarrow> ('w, assistantMessage \<times> 'w agentContext) loop" where
  "streamEvents host ctx addedPartial final [] = finishStream host ctx addedPartial final"
| "streamEvents host ctx addedPartial final (StreamStart partial # evs) =
    bindS (emit host (MessageStart (AssistantMsg partial))) (\<lambda>_.
      streamEvents host (pushMessage ctx (AssistantMsg partial)) True final evs)"
| "streamEvents host ctx addedPartial final (StreamDelta k payload partial # evs) =
    (if addedPartial
     then bindS (emit host (MessageUpdate (AssistantMsg partial) (StreamDelta k payload partial))) (\<lambda>_.
       streamEvents host (ctx\<lparr>acMessages := replaceLast (acMessages ctx) (AssistantMsg partial)\<rparr>) True final evs)
     else streamEvents host ctx addedPartial final evs)"
| "streamEvents host ctx addedPartial final (StreamDone # evs) = finishStream host ctx addedPartial final"
| "streamEvents host ctx addedPartial final (StreamError # evs) = finishStream host ctx addedPartial final"

definition orKey :: "string option \<Rightarrow> string option \<Rightarrow> string option" where
  "orKey key fallback = (case key of Some (c # cs) \<Rightarrow> Some (c # cs) | _ \<Rightarrow> fallback)"

definition streamAssistantResponse :: "'w loopHost \<Rightarrow> 'w loopConfig \<Rightarrow> 'w agentContext
    \<Rightarrow> ('w, assistantMessage \<times> 'w agentContext) loop" where
  "streamAssistantResponse host config context =
    bindS (case cfTransformContext config of None \<Rightarrow> retS (acMessages context)
           | Some transform \<Rightarrow> call (transform (acMessages context))) (\<lambda>messages.
    bindS (call (cfConvertToLlm config messages)) (\<lambda>llmMessages.
    bindS (case cfGetApiKey config of None \<Rightarrow> retS None
           | Some getKey \<Rightarrow> call (getKey (lmProvider (cfModel config)))) (\<lambda>key.
    bindS (call (hoStream host (cfModel config)
        \<lparr>lcSystemPrompt = acSystemPrompt context, lcMessages = llmMessages, lcTools = acTools context\<rparr>
        \<lparr>soReasoning = cfReasoning config, soApiKey = orKey key (cfApiKey config), soRest = cfStreamOptions config\<rparr>))
      (\<lambda>(evs, final). streamEvents host context False final evs))))"

subsection \<open>Tool calls\<close>

record 'w preparedToolCall =
  ptToolCall :: toolCall
  ptTool :: "'w agentTool"
  ptArgs :: json

datatype 'w preparation = Immediate toolResult bool | Ready "'w preparedToolCall"

record finalizedToolCall =
  fnToolCall :: toolCall
  fnResult :: toolResult
  fnIsError :: bool

definition createErrorToolResult :: "string \<Rightarrow> toolResult" where
  "createErrorToolResult message =
    \<lparr>arContent = [TextContent message None], arDetails = Some (JObj []), arTerminate = None\<rparr>"

definition shouldTerminateToolBatch :: "finalizedToolCall list \<Rightarrow> bool" where
  "shouldTerminateToolBatch finalizedCalls =
    (finalizedCalls \<noteq> [] \<and> list_all (\<lambda>f. arTerminate (fnResult f) = Some True) finalizedCalls)"

definition findTool :: "'w agentContext \<Rightarrow> string \<Rightarrow> 'w agentTool option" where
  "findTool context name =
    (case acTools context of None \<Rightarrow> None | Some tools \<Rightarrow> find (\<lambda>t. atName t = name) tools)"

definition prepareToolCallArguments :: "'w agentTool \<Rightarrow> toolCall \<Rightarrow> string + toolCall" where
  "prepareToolCallArguments tool tc = (case atPrepareArguments tool of
     None \<Rightarrow> Inr tc
   | Some prepare \<Rightarrow> andThen (prepare (tcArguments tc)) (\<lambda>args. Inr (tc\<lparr>tcArguments := args\<rparr>)))"

definition orReason :: "string option \<Rightarrow> string" where
  "orReason reason = (case reason of Some (c # cs) \<Rightarrow> c # cs | _ \<Rightarrow> ''Tool execution was blocked'')"

definition allowToolCall :: "'w loopHost \<Rightarrow> toolCall \<Rightarrow> 'w agentTool \<Rightarrow> json \<Rightarrow> beforeToolCallResult option \<Rightarrow> 'w
    \<Rightarrow> 'w preparation" where
  "allowToolCall host tc tool args hookResult w =
    (if hoAborted host w then Immediate (createErrorToolResult ''Operation aborted'') True
     else case hookResult of
       Some b \<Rightarrow> if brBlock b = Some True then Immediate (createErrorToolResult (orReason (brReason b))) True
                 else Ready \<lparr>ptToolCall = tc, ptTool = tool, ptArgs = args\<rparr>
     | None \<Rightarrow> Ready \<lparr>ptToolCall = tc, ptTool = tool, ptArgs = args\<rparr>)"

definition prepareToolCall :: "'w loopHost \<Rightarrow> 'w loopConfig \<Rightarrow> 'w agentContext \<Rightarrow> assistantMessage \<Rightarrow> toolCall
    \<Rightarrow> 'w \<Rightarrow> 'w preparation \<times> 'w" where
  "prepareToolCall host config context message tc w = (case findTool context (tcName tc) of
     None \<Rightarrow> (Immediate (createErrorToolResult (''Tool '' @ tcName tc @ '' not found'')) True, w)
   | Some tool \<Rightarrow>
       (case andThen (prepareToolCallArguments tool tc) (hoValidate host tool) of
         Inl e \<Rightarrow> (Immediate (createErrorToolResult e) True, w)
       | Inr args \<Rightarrow>
           (case cfBeforeToolCall config of
             None \<Rightarrow> (allowToolCall host tc tool args None w, w)
           | Some hook \<Rightarrow>
               (case hook \<lparr>tccAssistantMessage = message, tccToolCall = tc, tccArgs = args, tccContext = context\<rparr> w of
                 (Inl e, w') \<Rightarrow> (Immediate (createErrorToolResult e) True, w')
               | (Inr b, w') \<Rightarrow> (allowToolCall host tc tool args b w', w')))))"

text \<open>
  Every update is offered to the sink while the tool runs, whatever becomes of the earlier ones;
  \<open>Promise.all\<close> then fails with the first failure.
\<close>

primrec emitAll :: "'w loopHost \<Rightarrow> agent_event list \<Rightarrow> ('w, unit) loop" where
  "emitAll host [] = retS ()"
| "emitAll host (ev # evs) = (\<lambda>s. case emit host ev s of
     (Inr _, s') \<Rightarrow> emitAll host evs s'
   | (Inl e, s') \<Rightarrow> (Inl e, snd (emitAll host evs s')))"

definition executePreparedToolCall :: "'w loopHost \<Rightarrow> 'w preparedToolCall \<Rightarrow> ('w, toolResult \<times> bool) loop" where
  "executePreparedToolCall host prepared =
    bindS (onWorld (atExecute (ptTool prepared) (tcId (ptToolCall prepared)) (ptArgs prepared))) (\<lambda>(updates, outcome).
    bindS (emitAll host (map (ToolExecutionUpdate (tcId (ptToolCall prepared)) (tcName (ptToolCall prepared))
        (tcArguments (ptToolCall prepared))) updates)) (\<lambda>_.
    retS (case outcome of Inr result \<Rightarrow> (result, False) | Inl e \<Rightarrow> (createErrorToolResult e, True))))"

definition orDetails :: "json option \<Rightarrow> json option \<Rightarrow> json option" where
  "orDetails d fallback = (if d \<in> {None, Some JNull, Some JUndefined} then fallback else d)"

definition orOption :: "'a option \<Rightarrow> 'a option \<Rightarrow> 'a option" where
  "orOption a fallback = (case a of None \<Rightarrow> fallback | Some x \<Rightarrow> Some x)"

definition overrideResult :: "afterToolCallResult \<Rightarrow> toolResult \<Rightarrow> toolResult" where
  "overrideResult after result =
    \<lparr>arContent = the (orOption (afContent after) (Some (arContent result))),
     arDetails = orDetails (afDetails after) (arDetails result),
     arTerminate = orOption (afTerminate after) (arTerminate result)\<rparr>"

definition finalizeExecutedToolCall :: "'w loopConfig \<Rightarrow> 'w agentContext \<Rightarrow> assistantMessage \<Rightarrow> 'w preparedToolCall
    \<Rightarrow> toolResult \<times> bool \<Rightarrow> 'w \<Rightarrow> finalizedToolCall \<times> 'w" where
  "finalizeExecutedToolCall config context message prepared executed w = (case executed of (result, isError) \<Rightarrow>
     (case cfAfterToolCall config of
       None \<Rightarrow> (\<lparr>fnToolCall = ptToolCall prepared, fnResult = result, fnIsError = isError\<rparr>, w)
     | Some after \<Rightarrow>
         (case after \<lparr>tccAssistantMessage = message, tccToolCall = ptToolCall prepared, tccArgs = ptArgs prepared,
                      tccContext = context\<rparr> result isError w of
           (Inl e, w') \<Rightarrow>
             (\<lparr>fnToolCall = ptToolCall prepared, fnResult = createErrorToolResult e, fnIsError = True\<rparr>, w')
         | (Inr None, w') \<Rightarrow> (\<lparr>fnToolCall = ptToolCall prepared, fnResult = result, fnIsError = isError\<rparr>, w')
         | (Inr (Some a), w') \<Rightarrow>
             (\<lparr>fnToolCall = ptToolCall prepared, fnResult = overrideResult a result,
               fnIsError = the (orOption (afIsError a) (Some isError))\<rparr>, w'))))"

definition emitToolExecutionStart :: "'w loopHost \<Rightarrow> toolCall \<Rightarrow> ('w, unit) loop" where
  "emitToolExecutionStart host tc = emit host (ToolExecutionStart (tcId tc) (tcName tc) (tcArguments tc))"

definition emitToolExecutionEnd :: "'w loopHost \<Rightarrow> finalizedToolCall \<Rightarrow> ('w, unit) loop" where
  "emitToolExecutionEnd host f =
    emit host (ToolExecutionEnd (tcId (fnToolCall f)) (tcName (fnToolCall f)) (fnResult f) (fnIsError f))"

definition createToolResultMessage :: "finalizedToolCall \<Rightarrow> int \<Rightarrow> toolResultMessage" where
  "createToolResultMessage f now =
    \<lparr>trToolCallId = tcId (fnToolCall f), trToolName = tcName (fnToolCall f), trContent = arContent (fnResult f),
     trDetails = arDetails (fnResult f), trIsError = fnIsError f, trTimestamp = Some now\<rparr>"

definition emitToolResultMessage :: "'w loopHost \<Rightarrow> toolResultMessage \<Rightarrow> ('w, unit) loop" where
  "emitToolResultMessage host t =
    bindS (emit host (MessageStart (ToolResultMsg t))) (\<lambda>_. emit host (MessageEnd (ToolResultMsg t)))"

definition reportResult :: "'w loopHost \<Rightarrow> finalizedToolCall \<Rightarrow> ('w, toolResultMessage) loop" where
  "reportResult host f =
    bindS (onWorld (hoNow host)) (\<lambda>now. let t = createToolResultMessage f now in
    bindS (emitToolResultMessage host t) (\<lambda>_. retS t))"

subsection \<open>Batches of tool calls\<close>

definition settleToolCall :: "'w loopHost \<Rightarrow> 'w loopConfig \<Rightarrow> 'w agentContext \<Rightarrow> assistantMessage \<Rightarrow> toolCall
    \<Rightarrow> 'w preparation \<Rightarrow> ('w, finalizedToolCall) loop" where
  "settleToolCall host config context message tc preparation = (case preparation of
     Immediate result isError \<Rightarrow> retS \<lparr>fnToolCall = tc, fnResult = result, fnIsError = isError\<rparr>
   | Ready prepared \<Rightarrow> bindS (executePreparedToolCall host prepared) (\<lambda>executed.
       onWorld (finalizeExecutedToolCall config context message prepared executed)))"

primrec sequentialCalls :: "'w loopHost \<Rightarrow> 'w loopConfig \<Rightarrow> 'w agentContext \<Rightarrow> assistantMessage \<Rightarrow> toolCall list
    \<Rightarrow> ('w, (finalizedToolCall \<times> toolResultMessage) list) loop" where
  "sequentialCalls host config context message [] = retS []"
| "sequentialCalls host config context message (tc # tcs) =
    bindS (emitToolExecutionStart host tc) (\<lambda>_.
    bindS (onWorld (prepareToolCall host config context message tc)) (\<lambda>preparation.
    bindS (settleToolCall host config context message tc preparation) (\<lambda>finalized.
    bindS (emitToolExecutionEnd host finalized) (\<lambda>_.
    bindS (reportResult host finalized) (\<lambda>resultMessage.
    bindS (aborted host) (\<lambda>stop.
    if stop then retS [(finalized, resultMessage)]
    else bindS (sequentialCalls host config context message tcs) (\<lambda>rest.
      retS ((finalized, resultMessage) # rest))))))))"

definition executeToolCallsSequential :: "'w loopHost \<Rightarrow> 'w loopConfig \<Rightarrow> 'w agentContext \<Rightarrow> assistantMessage
    \<Rightarrow> toolCall list \<Rightarrow> ('w, toolResultMessage list \<times> bool) loop" where
  "executeToolCallsSequential host config context message toolCalls =
    bindS (sequentialCalls host config context message toolCalls) (\<lambda>calls.
      retS (map snd calls, shouldTerminateToolBatch (map fst calls)))"

text \<open>
  In a concurrent batch every call is first prepared, in order; a call answered at once is settled
  there, the others become tasks.
\<close>

datatype 'w task =
    Execute "'w preparedToolCall"
  | Finalize "'w preparedToolCall" "toolResult \<times> bool"
  | Report finalizedToolCall
  | Settled finalizedToolCall

primrec preparedTasks :: "'w loopHost \<Rightarrow> 'w loopConfig \<Rightarrow> 'w agentContext \<Rightarrow> assistantMessage \<Rightarrow> toolCall list
    \<Rightarrow> ('w, 'w task list) loop" where
  "preparedTasks host config context message [] = retS []"
| "preparedTasks host config context message (tc # tcs) =
    bindS (emitToolExecutionStart host tc) (\<lambda>_.
    bindS (onWorld (prepareToolCall host config context message tc)) (\<lambda>preparation.
    bindS (case preparation of
        Immediate result isError \<Rightarrow>
          (let finalized = \<lparr>fnToolCall = tc, fnResult = result, fnIsError = isError\<rparr> in
           bindS (emitToolExecutionEnd host finalized) (\<lambda>_. retS (Settled finalized)))
      | Ready prepared \<Rightarrow> retS (Execute prepared)) (\<lambda>t.
    bindS (aborted host) (\<lambda>stop.
    if stop then retS [t]
    else bindS (preparedTasks host config context message tcs) (\<lambda>ts. retS (t # ts))))))"

primrec stepsLeft :: "'w task \<Rightarrow> nat" where
  "stepsLeft (Execute _) = 3"
| "stepsLeft (Finalize _ _) = 2"
| "stepsLeft (Report _) = 1"
| "stepsLeft (Settled _) = 0"

primrec stepTask :: "'w loopHost \<Rightarrow> 'w loopConfig \<Rightarrow> 'w agentContext \<Rightarrow> assistantMessage \<Rightarrow> 'w task
    \<Rightarrow> ('w, 'w task) loop" where
  "stepTask host config context message (Execute prepared) =
    bindS (executePreparedToolCall host prepared) (\<lambda>executed. retS (Finalize prepared executed))"
| "stepTask host config context message (Finalize prepared executed) =
    bindS (onWorld (finalizeExecutedToolCall config context message prepared executed)) (\<lambda>f. retS (Report f))"
| "stepTask host config context message (Report f) = bindS (emitToolExecutionEnd host f) (\<lambda>_. retS (Settled f))"
| "stepTask host config context message (Settled f) = retS (Settled f)"

definition unsettled :: "'w task list \<Rightarrow> nat list" where
  "unsettled ts = filter (\<lambda>i. stepsLeft (ts ! i) > 0) [0..<length ts]"

primrec runTasks :: "'w loopHost \<Rightarrow> 'w loopConfig \<Rightarrow> 'w agentContext \<Rightarrow> assistantMessage \<Rightarrow> nat \<Rightarrow> 'w task list
    \<Rightarrow> ('w, 'w task list) loop" where
  "runTasks host config context message 0 ts = retS ts"
| "runTasks host config context message (Suc k) ts =
    bindS (onWorld (hoPick host)) (\<lambda>n. let i = unsettled ts ! (n mod length (unsettled ts)) in
    bindS (stepTask host config context message (ts ! i)) (\<lambda>t.
    runTasks host config context message k (ts[i := t])))"

primrec settledCall :: "'w task \<Rightarrow> finalizedToolCall option" where
  "settledCall (Execute _) = None"
| "settledCall (Finalize _ _) = None"
| "settledCall (Report _) = None"
| "settledCall (Settled f) = Some f"

primrec reportResults :: "'w loopHost \<Rightarrow> finalizedToolCall list \<Rightarrow> ('w, toolResultMessage list) loop" where
  "reportResults host [] = retS []"
| "reportResults host (f # fs) =
    bindS (reportResult host f) (\<lambda>t. bindS (reportResults host fs) (\<lambda>ts. retS (t # ts)))"

definition executeToolCallsParallel :: "'w loopHost \<Rightarrow> 'w loopConfig \<Rightarrow> 'w agentContext \<Rightarrow> assistantMessage
    \<Rightarrow> toolCall list \<Rightarrow> ('w, toolResultMessage list \<times> bool) loop" where
  "executeToolCallsParallel host config context message toolCalls =
    bindS (preparedTasks host config context message toolCalls) (\<lambda>tasks.
    bindS (runTasks host config context message (sum_list (map stepsLeft tasks)) tasks) (\<lambda>settled.
    let orderedFinalizedCalls = List.map_filter settledCall settled in
    bindS (reportResults host orderedFinalizedCalls) (\<lambda>messages.
    retS (messages, shouldTerminateToolBatch orderedFinalizedCalls))))"

definition toolCallsOf :: "assistantMessage \<Rightarrow> toolCall list" where
  "toolCallsOf message = List.map_filter (\<lambda>b. case b of ToolCallBlock tc \<Rightarrow> Some tc | _ \<Rightarrow> None) (amContent message)"

definition executeToolCalls :: "'w loopHost \<Rightarrow> 'w loopConfig \<Rightarrow> 'w agentContext \<Rightarrow> assistantMessage
    \<Rightarrow> ('w, toolResultMessage list \<times> bool) loop" where
  "executeToolCalls host config context message =
    (let toolCalls = toolCallsOf message;
         hasSequentialToolCall = list_ex (\<lambda>tc. case findTool context (tcName tc) of
           None \<Rightarrow> False | Some t \<Rightarrow> atExecutionMode t = Some Sequential) toolCalls
     in if cfToolExecution config = Some Sequential \<or> hasSequentialToolCall
        then executeToolCallsSequential host config context message toolCalls
        else executeToolCallsParallel host config context message toolCalls)"

subsection \<open>Turns and runs\<close>

record 'w loopState =
  lsContext :: "'w agentContext"
  lsConfig :: "'w loopConfig"
  lsNewMessages :: "agent_message list"
  lsPending :: "agent_message list"
  lsHasMoreToolCalls :: bool
  lsFirstTurn :: bool

definition applyTurnUpdate :: "'w turnUpdate option \<Rightarrow> 'w loopState \<Rightarrow> 'w loopState" where
  "applyTurnUpdate update st = (case update of
     None \<Rightarrow> st
   | Some u \<Rightarrow> st\<lparr>lsContext := the (orOption (tuContext u) (Some (lsContext st))),
       lsConfig := (lsConfig st)\<lparr>cfModel := the (orOption (tuModel u) (Some (cfModel (lsConfig st)))),
         cfReasoning := (case tuThinkingLevel u of
             None \<Rightarrow> cfReasoning (lsConfig st)
           | Some level \<Rightarrow> if level = ''off'' then None else Some level)\<rparr>\<rparr>)"

definition beforeUser :: "'w loopConfig \<Rightarrow> agent_message \<Rightarrow> ('w, unit) loop" where
  "beforeUser config m = (case (m, cfBeforeUserMessage config) of
     (UserMsg u, Some hook) \<Rightarrow> call (hook u)
   | _ \<Rightarrow> retS ())"

definition announce :: "'w loopHost \<Rightarrow> agent_message \<Rightarrow> ('w, unit) loop" where
  "announce host m = bindS (emit host (MessageStart m)) (\<lambda>_. emit host (MessageEnd m))"

definition poll :: "('w, agent_message list) outside option \<Rightarrow> ('w, agent_message list) loop" where
  "poll queue = (case queue of None \<Rightarrow> retS [] | Some get \<Rightarrow> call get)"

definition injectPending :: "'w loopHost \<Rightarrow> 'w loopState \<Rightarrow> ('w, 'w loopState) loop" where
  "injectPending host st =
    bindS (each (\<lambda>m. bindS (beforeUser (lsConfig st) m) (\<lambda>_. announce host m)) (lsPending st)) (\<lambda>_.
    retS (st\<lparr>lsContext := (lsContext st)\<lparr>acMessages := acMessages (lsContext st) @ lsPending st\<rparr>,
             lsNewMessages := lsNewMessages st @ lsPending st, lsPending := []\<rparr>))"

datatype 'w turn_outcome = Ended "agent_message list" | Goes "'w loopState"

definition pushAll :: "agent_message list \<Rightarrow> 'w loopState \<Rightarrow> 'w loopState" where
  "pushAll ms st = st\<lparr>lsContext := (lsContext st)\<lparr>acMessages := acMessages (lsContext st) @ ms\<rparr>,
     lsNewMessages := lsNewMessages st @ ms\<rparr>"

definition finishRun :: "'w loopHost \<Rightarrow> 'w loopState \<Rightarrow> ('w, 'w turn_outcome) loop" where
  "finishRun host st = bindS (emit host (AgentEnd (lsNewMessages st))) (\<lambda>_. retS (Ended (lsNewMessages st)))"

text \<open>The part of a turn that follows its tool calls.\<close>

definition finishTurn :: "'w loopHost \<Rightarrow> assistantMessage \<Rightarrow> toolResultMessage list \<Rightarrow> 'w loopState
    \<Rightarrow> ('w, 'w turn_outcome) loop" where
  "finishTurn host message toolResults st =
    bindS (emit host (TurnEnd message toolResults)) (\<lambda>_.
    bindS (case cfPrepareNextTurn (lsConfig st) of
        None \<Rightarrow> retS None
      | Some prepare \<Rightarrow> call (prepare \<lparr>ftMessage = message, ftToolResults = toolResults, ftContext = lsContext st,
          ftNewMessages = lsNewMessages st\<rparr>)) (\<lambda>update.
    let st' = applyTurnUpdate update st in
    bindS (case cfShouldStopAfterTurn (lsConfig st') of
        None \<Rightarrow> retS False
      | Some stops \<Rightarrow> call (stops \<lparr>ftMessage = message, ftToolResults = toolResults, ftContext = lsContext st',
          ftNewMessages = lsNewMessages st'\<rparr>)) (\<lambda>stop.
    if stop then finishRun host st'
    else bindS (poll (cfGetSteeringMessages (lsConfig st'))) (\<lambda>pending.
      retS (Goes (st'\<lparr>lsPending := pending\<rparr>))))))"

text \<open>The part of a turn that follows the streamed response.\<close>

definition settleTurn :: "'w loopHost \<Rightarrow> assistantMessage \<Rightarrow> 'w loopState \<Rightarrow> ('w, 'w turn_outcome) loop" where
  "settleTurn host message st =
    (if amStopReason message = StopError \<or> amStopReason message = StopAborted
     then bindS (emit host (TurnEnd message [])) (\<lambda>_. finishRun host st)
     else if toolCallsOf message = []
     then finishTurn host message [] (st\<lparr>lsHasMoreToolCalls := False\<rparr>)
     else bindS (executeToolCalls host (lsConfig st) (lsContext st) message) (\<lambda>(toolResults, stopsBatch).
       finishTurn host message toolResults
         (pushAll (map ToolResultMsg toolResults) (st\<lparr>lsHasMoreToolCalls := \<not> stopsBatch\<rparr>))))"

definition turn :: "'w loopHost \<Rightarrow> 'w loopState \<Rightarrow> ('w, 'w turn_outcome) loop" where
  "turn host st0 =
    bindS (if lsFirstTurn st0 then retS () else emit host TurnStart) (\<lambda>_.
    bindS (injectPending host (st0\<lparr>lsFirstTurn := False\<rparr>)) (\<lambda>st.
    bindS (streamAssistantResponse host (lsConfig st) (lsContext st)) (\<lambda>(message, context).
    settleTurn host message
      (st\<lparr>lsContext := context, lsNewMessages := lsNewMessages st @ [AssistantMsg message]\<rparr>))))"

definition turnDue :: "'w loopState \<Rightarrow> bool" where
  "turnDue st = (lsHasMoreToolCalls st \<or> lsPending st \<noteq> [])"

primrec innerLoop :: "'w loopHost \<Rightarrow> nat \<Rightarrow> 'w loopState \<Rightarrow> ('w, 'w turn_outcome) loop" where
  "innerLoop host 0 st = (if turnDue st then throwS OutOfFuel else retS (Goes st))"
| "innerLoop host (Suc n) st =
    (if turnDue st
     then bindS (turn host st) (\<lambda>outcome. case outcome of Ended ms \<Rightarrow> retS (Ended ms) | Goes st' \<Rightarrow> innerLoop host n st')
     else retS (Goes st))"

primrec outerLoop :: "'w loopHost \<Rightarrow> nat \<Rightarrow> nat \<Rightarrow> 'w loopState \<Rightarrow> ('w, 'w turn_outcome) loop" where
  "outerLoop host turns 0 st = throwS OutOfFuel"
| "outerLoop host turns (Suc n) st =
    bindS (innerLoop host turns (st\<lparr>lsHasMoreToolCalls := True\<rparr>)) (\<lambda>outcome. case outcome of
      Ended ms \<Rightarrow> retS (Ended ms)
    | Goes st' \<Rightarrow>
        bindS (poll (cfGetFollowUpMessages (lsConfig st'))) (\<lambda>followUpMessages.
        if followUpMessages = [] then finishRun host st'
        else bindS (case cfPrepareFollowUpTurn (lsConfig st') of None \<Rightarrow> retS None | Some prepare \<Rightarrow> call prepare) (\<lambda>update.
          outerLoop host turns n ((applyTurnUpdate update st')\<lparr>lsPending := followUpMessages\<rparr>))))"

definition runLoop :: "'w loopHost \<Rightarrow> nat \<Rightarrow> 'w loopConfig \<Rightarrow> 'w agentContext \<Rightarrow> agent_message list
    \<Rightarrow> ('w, agent_message list) loop" where
  "runLoop host fuel config context newMessages =
    bindS (poll (cfGetSteeringMessages config)) (\<lambda>pending.
    bindS (outerLoop host fuel fuel \<lparr>lsContext = context, lsConfig = config, lsNewMessages = newMessages,
        lsPending = pending, lsHasMoreToolCalls = True, lsFirstTurn = True\<rparr>) (\<lambda>outcome.
    case outcome of Ended ms \<Rightarrow> retS ms | Goes st \<Rightarrow> retS (lsNewMessages st)))"

definition runAgentLoop :: "'w loopHost \<Rightarrow> nat \<Rightarrow> 'w loopConfig \<Rightarrow> agent_message list \<Rightarrow> 'w agentContext
    \<Rightarrow> ('w, agent_message list) loop" where
  "runAgentLoop host fuel config prompts context =
    bindS (emit host AgentStart) (\<lambda>_.
    bindS (emit host TurnStart) (\<lambda>_.
    bindS (each (\<lambda>m. bindS (beforeUser config m) (\<lambda>_. announce host m)) prompts) (\<lambda>_.
    runLoop host fuel config (context\<lparr>acMessages := acMessages context @ prompts\<rparr>) prompts)))"

definition runAgentLoopContinue :: "'w loopHost \<Rightarrow> nat \<Rightarrow> 'w loopConfig \<Rightarrow> 'w agentContext
    \<Rightarrow> ('w, agent_message list) loop" where
  "runAgentLoopContinue host fuel config context =
    (if acMessages context = [] then throwS (Thrown ''Cannot continue: no messages in context'')
     else if messageRole (last (acMessages context)) = ''assistant''
     then throwS (Thrown ''Cannot continue from message role: assistant'')
     else bindS (emit host AgentStart) (\<lambda>_.
       bindS (emit host TurnStart) (\<lambda>_. runLoop host fuel config context [])))"

end
