(* ===== verification/AgentRuns.thy ===== *)
theory AgentRuns
  imports AgentLoop "HOL-Library.Multiset"
begin

section \<open>What a run of the agent loop emits\<close>

text \<open>
  Hoare-style rules for the actions of \<open>AgentLoop\<close>: \<open>emits m Q\<close> says that whenever \<open>m\<close> returns a
  value, the trace has grown by events that satisfy \<open>Q\<close> together with the value.  The rules are
  applied backwards, one per \<open>await\<close> of the code.  On top of them: the life cycle of a run, the
  results of a batch of tool calls under every interleaving, the containment of tool failures and
  the bound on the number of turns.
\<close>

subsection \<open>Rules\<close>

named_theorems emits_rules

definition emits :: "('w, 'a) loop \<Rightarrow> ('a \<Rightarrow> agent_event list \<Rightarrow> bool) \<Rightarrow> bool" where
  "emits m Q \<longleftrightarrow> (\<forall>s a s'. m s = (Inr a, s') \<longrightarrow> (\<exists>es. lrTrace s' = lrTrace s @ es \<and> Q a es))"

lemma emits_bind:
  assumes "emits m P" and "\<And>a es. P a es \<Longrightarrow> emits (f a) (\<lambda>b es'. Q b (es @ es'))"
  shows "emits (bindS m f) Q"
  unfolding emits_def
proof (intro allI impI)
  fix s b s'
  assume "bindS m f s = (Inr b, s')"
  then obtain a s1 where m: "m s = (Inr a, s1)" and f: "f a s1 = (Inr b, s')"
    by (cases "m s"; cases "fst (m s)") (auto simp: bindS_def)
  from assms(1) m obtain es where es: "lrTrace s1 = lrTrace s @ es" "P a es" unfolding emits_def by blast
  from assms(2) [OF es(2)] f obtain es' where "lrTrace s' = lrTrace s1 @ es'" "Q b (es @ es')"
    unfolding emits_def by blast
  with es(1) show "\<exists>es. lrTrace s' = lrTrace s @ es \<and> Q b es" by auto
qed

lemma emits_weaken: "emits m P \<Longrightarrow> (\<And>a es. P a es \<Longrightarrow> Q a es) \<Longrightarrow> emits m Q"
  unfolding emits_def by blast

lemma emits_conj: "emits m P \<Longrightarrow> emits m Q \<Longrightarrow> emits m (\<lambda>a es. P a es \<and> Q a es)"
  unfolding emits_def by (metis same_append_eq)

lemma emits_ret [emits_rules]: "Q a [] \<Longrightarrow> emits (retS a) Q"
  by (simp add: emits_def)

lemma emits_throw [emits_rules]: "emits (throwS e) Q"
  by (simp add: emits_def)

lemma emits_call: "(\<And>a w. fst (f w) = Inr a \<Longrightarrow> Q a []) \<Longrightarrow> emits (call f) Q"
  by (auto simp: emits_def call_def split: prod.splits sum.splits) (metis fst_conv)

lemma emits_onWorld: "(\<And>w. Q (fst (f w)) []) \<Longrightarrow> emits (onWorld f) Q"
  by (auto simp: emits_def onWorld_def split: prod.splits) (metis fst_conv)

lemma emits_emit [emits_rules]: "Q () [ev] \<Longrightarrow> emits (emit host ev) Q"
  by (auto simp: emits_def emit_def call_def split: prod.splits sum.splits)

lemma emits_bind_ret [emits_rules]: "emits (f a) Q \<Longrightarrow> emits (bindS (retS a) f) Q"
  by (rule emits_bind [where P = "\<lambda>b es. b = a \<and> es = []"]) (auto intro: emits_ret)

lemma emits_bind_emit [emits_rules]: "emits (f ()) (\<lambda>b es'. Q b (ev # es')) \<Longrightarrow> emits (bindS (emit host ev) f) Q"
  by (rule emits_bind [where P = "\<lambda>_ es. es = [ev]"]) (auto intro: emits_emit)

lemma emits_bind_call [emits_rules]:
  "(\<And>a w. fst (g w) = Inr a \<Longrightarrow> emits (f a) Q) \<Longrightarrow> emits (bindS (call g) f) Q"
  by (rule emits_bind [where P = "\<lambda>a es. es = [] \<and> (\<exists>w. fst (g w) = Inr a)"]) (auto intro: emits_call)

lemma emits_bind_onWorld [emits_rules]: "(\<And>w. emits (f (fst (g w))) Q) \<Longrightarrow> emits (bindS (onWorld g) f) Q"
  by (rule emits_bind [where P = "\<lambda>a es. es = [] \<and> (\<exists>w. a = fst (g w))"]) (auto intro: emits_onWorld)

lemma emits_if [emits_rules]: "(b \<Longrightarrow> emits m Q) \<Longrightarrow> (\<not> b \<Longrightarrow> emits n Q) \<Longrightarrow> emits (if b then m else n) Q"
  by simp

lemma emits_option [emits_rules]:
  "(x = None \<Longrightarrow> emits m Q) \<Longrightarrow> (\<And>a. x = Some a \<Longrightarrow> emits (n a) Q) \<Longrightarrow> emits (case x of None \<Rightarrow> m | Some a \<Rightarrow> n a) Q"
  by (cases x) auto

lemma emits_bind_if [emits_rules]:
  "(b \<Longrightarrow> emits (bindS m f) Q) \<Longrightarrow> (\<not> b \<Longrightarrow> emits (bindS n f) Q) \<Longrightarrow> emits (bindS (if b then m else n) f) Q"
  by simp

lemma emits_bind_option [emits_rules]:
  "(x = None \<Longrightarrow> emits (bindS m f) Q) \<Longrightarrow> (\<And>a. x = Some a \<Longrightarrow> emits (bindS (n a) f) Q)
   \<Longrightarrow> emits (bindS (case x of None \<Rightarrow> m | Some a \<Rightarrow> n a) f) Q"
  by (cases x) auto

lemma emits_pair [emits_rules]: "emits (f (fst p) (snd p)) Q \<Longrightarrow> emits (case p of (x, y) \<Rightarrow> f x y) Q"
  by (simp add: case_prod_beta)

lemma emits_let [emits_rules]: "emits (f a) Q \<Longrightarrow> emits (let x = a in f x) Q"
  by simp

subsection \<open>The life cycle of a run\<close>

text \<open>
  The order in which a listener sees the events.  A stream that reports \<open>start\<close> again reopens the
  message that is open.
\<close>

datatype phase = Idle | Between | InTurn | InMessage | Finished

fun advance :: "phase \<Rightarrow> agent_event \<Rightarrow> phase option" where
  "advance Idle AgentStart = Some Between"
| "advance Between TurnStart = Some InTurn"
| "advance Between (AgentEnd _) = Some Finished"
| "advance InTurn (MessageStart _) = Some InMessage"
| "advance InTurn (ToolExecutionStart _ _ _) = Some InTurn"
| "advance InTurn (ToolExecutionUpdate _ _ _ _) = Some InTurn"
| "advance InTurn (ToolExecutionEnd _ _ _ _) = Some InTurn"
| "advance InTurn (TurnEnd _ _) = Some Between"
| "advance InMessage (MessageStart _) = Some InMessage"
| "advance InMessage (MessageUpdate _ _) = Some InMessage"
| "advance InMessage (MessageEnd _) = Some InTurn"
| "advance _ _ = None"

primrec phases :: "phase \<Rightarrow> agent_event list \<Rightarrow> phase option" where
  "phases p [] = Some p"
| "phases p (ev # evs) = (case advance p ev of None \<Rightarrow> None | Some q \<Rightarrow> phases q evs)"

definition endedMessages :: "agent_event list \<Rightarrow> agent_message list" where
  "endedMessages evs = List.map_filter (\<lambda>ev. case ev of MessageEnd m \<Rightarrow> Some m | _ \<Rightarrow> None) evs"

lemma phases_append: "phases p (es @ fs) = Option.bind (phases p es) (\<lambda>q. phases q fs)"
  by (induction es arbitrary: p) (auto split: option.splits)

lemma endedMessages_simps [simp]:
  "endedMessages [] = []"
  "endedMessages (ev # evs) = (case ev of MessageEnd m \<Rightarrow> [m] | _ \<Rightarrow> []) @ endedMessages evs"
  "endedMessages (es @ fs) = endedMessages es @ endedMessages fs"
  by (simp_all add: endedMessages_def map_filter_simps List.map_filter_def split: agent_event.splits)

text \<open>Events inside a turn that end the messages \<open>ms\<close>.\<close>

definition turnPart :: "agent_message list \<Rightarrow> agent_event list \<Rightarrow> bool" where
  "turnPart ms es \<longleftrightarrow> phases InTurn es = Some InTurn \<and> endedMessages es = ms"

lemma turnPart_Nil [simp]: "turnPart ms [] \<longleftrightarrow> ms = []"
  by (auto simp: turnPart_def)

lemma turnPart_append: "turnPart ms es \<Longrightarrow> turnPart ns fs \<Longrightarrow> turnPart (ms @ ns) (es @ fs)"
  by (simp add: turnPart_def phases_append)

lemma turnPart_tool [simp]:
  "turnPart ms (ToolExecutionStart i n a # es) \<longleftrightarrow> turnPart ms es"
  "turnPart ms (ToolExecutionUpdate i n a r # es) \<longleftrightarrow> turnPart ms es"
  "turnPart ms (ToolExecutionEnd i n r b # es) \<longleftrightarrow> turnPart ms es"
  by (simp_all add: turnPart_def)

lemma turnPart_message [simp]:
  "turnPart ms (MessageStart m # MessageEnd m # es) \<longleftrightarrow> (\<exists>ns. ms = m # ns \<and> turnPart ns es)"
  by (auto simp: turnPart_def)

lemma turnPart_append_Nil: "turnPart [] es \<Longrightarrow> turnPart ms fs \<Longrightarrow> turnPart ms (es @ fs)"
  using turnPart_append [of "[]"] by simp

lemma emits_announce [emits_rules]:
  "emits (f ()) (\<lambda>b es'. Q b (MessageStart m # MessageEnd m # es')) \<Longrightarrow> emits (bindS (announce host m) f) Q"
  by (rule emits_bind [where P = "\<lambda>_ es. es = [MessageStart m, MessageEnd m]"])
    (auto simp: announce_def intro: emits_rules)

lemma emits_beforeUser [emits_rules]:
  "emits (f ()) Q \<Longrightarrow> emits (bindS (beforeUser config m) f) Q"
  by (rule emits_bind [where P = "\<lambda>_ es. es = []"])
    (auto simp: beforeUser_def intro: emits_ret emits_call split: agent_message.split option.split)

lemma emits_poll [emits_rules]: "(\<And>ms. emits (f ms) Q) \<Longrightarrow> emits (bindS (poll queue) f) Q"
  by (rule emits_bind [where P = "\<lambda>_ es. es = []"])
    (auto simp: poll_def intro: emits_ret emits_call split: option.split)

lemma emits_prompts:
  "emits (each (\<lambda>m. bindS (beforeUser config m) (\<lambda>_. announce host m)) ms) (\<lambda>_. turnPart ms)"
proof (induction ms)
  case Nil
  show ?case unfolding each.simps by (rule emits_ret) simp
next
  case (Cons m ms)
  have "emits (bindS (beforeUser config m) (\<lambda>_. announce host m)) (\<lambda>_ es. es = [MessageStart m, MessageEnd m])"
    by (intro emits_rules) (simp add: announce_def, intro emits_rules, simp)
  then show ?case unfolding each.simps
    by (rule emits_bind) (use Cons.IH in \<open>auto elim: emits_weaken\<close>)
qed

lemma emits_injectPending:
  "emits (injectPending host st) (\<lambda>st' es. turnPart (lsPending st) es
     \<and> lsNewMessages st' = lsNewMessages st @ lsPending st \<and> lsFirstTurn st' = lsFirstTurn st
     \<and> lsConfig st' = lsConfig st)"
  unfolding injectPending_def
  by (rule emits_bind [OF emits_prompts]) (auto intro: emits_ret)

lemma emits_finishStream:
  "emits (finishStream host ctx added final) (\<lambda>r es. fst r = final
     \<and> phases (if added then InMessage else InTurn) es = Some InTurn \<and> endedMessages es = [AssistantMsg final])"
  unfolding finishStream_def by (intro emits_rules) simp_all

lemma emits_streamEvents:
  "emits (streamEvents host ctx added final evs) (\<lambda>r es. fst r = final
     \<and> phases (if added then InMessage else InTurn) es = Some InTurn \<and> endedMessages es = [AssistantMsg final])"
proof (induction host ctx added final evs rule: streamEvents.induct)
  case (2 host ctx added final partial evs)
  then show ?case by (auto intro!: emits_bind_emit elim!: emits_weaken)
next
  case (3 host ctx added final k payload partial evs)
  show ?case
  proof (cases added)
    case True
    then show ?thesis using "3.IH"(1) by (auto intro!: emits_bind_emit elim!: emits_weaken)
  qed (use "3.IH"(2) in simp)
qed (simp_all only: streamEvents.simps emits_finishStream)

lemma emits_streamAssistantResponse:
  "emits (streamAssistantResponse host config context) (\<lambda>r. turnPart [AssistantMsg (fst r)])"
proof -
  have "emits (streamEvents host context False final evs) (\<lambda>r. turnPart [AssistantMsg (fst r)])" for final evs
    by (rule emits_weaken [OF emits_streamEvents]) (simp add: turnPart_def)
  then show ?thesis unfolding streamAssistantResponse_def by (intro emits_rules)
qed

subsection \<open>Tool calls and batches\<close>

text \<open>The calls whose execution was announced, and those whose execution was reported.\<close>

definition startedCalls :: "agent_event list \<Rightarrow> string list" where
  "startedCalls evs = List.map_filter (\<lambda>ev. case ev of ToolExecutionStart i _ _ \<Rightarrow> Some i | _ \<Rightarrow> None) evs"

definition endedCalls :: "agent_event list \<Rightarrow> string list" where
  "endedCalls evs = List.map_filter (\<lambda>ev. case ev of ToolExecutionEnd i _ _ _ \<Rightarrow> Some i | _ \<Rightarrow> None) evs"

lemma startedCalls_simps [simp]:
  "startedCalls [] = []"
  "startedCalls (ev # evs) = (case ev of ToolExecutionStart i _ _ \<Rightarrow> [i] | _ \<Rightarrow> []) @ startedCalls evs"
  "startedCalls (es @ fs) = startedCalls es @ startedCalls fs"
  by (simp_all add: startedCalls_def map_filter_simps List.map_filter_def split: agent_event.splits)

lemma endedCalls_simps [simp]:
  "endedCalls [] = []"
  "endedCalls (ev # evs) = (case ev of ToolExecutionEnd i _ _ _ \<Rightarrow> [i] | _ \<Rightarrow> []) @ endedCalls evs"
  "endedCalls (es @ fs) = endedCalls es @ endedCalls fs"
  by (simp_all add: endedCalls_def map_filter_simps List.map_filter_def split: agent_event.splits)

text \<open>Events of a batch that starts the calls \<open>is\<close>, ends the calls \<open>js\<close> and ends the messages \<open>ms\<close>.\<close>

definition batchPart :: "string list \<Rightarrow> string list \<Rightarrow> agent_message list \<Rightarrow> agent_event list \<Rightarrow> bool" where
  "batchPart is js ms es \<longleftrightarrow> turnPart ms es \<and> startedCalls es = is \<and> endedCalls es = js"

lemma batchPart_append:
  "batchPart is js ms es \<Longrightarrow> batchPart is' js' ms' fs \<Longrightarrow> batchPart (is @ is') (js @ js') (ms @ ms') (es @ fs)"
  by (simp add: batchPart_def turnPart_append)

lemma emits_emitAll_updates:
  "emits (emitAll host (map (ToolExecutionUpdate i n a) rs)) (\<lambda>_. batchPart [] [] [])"
proof (induction rs)
  case Nil
  show ?case unfolding list.map emitAll.simps by (rule emits_ret) (simp add: batchPart_def)
next
  case (Cons r rs)
  show ?case unfolding emits_def
  proof (intro allI impI)
    fix s u s'
    assume "emitAll host (map (ToolExecutionUpdate i n a) (r # rs)) s = (Inr u, s')"
    then obtain v s1 where one: "emit host (ToolExecutionUpdate i n a r) s = (Inr v, s1)"
      and rest: "emitAll host (map (ToolExecutionUpdate i n a) rs) s1 = (Inr u, s')"
      by (auto split: prod.splits sum.splits)
    have "lrTrace s1 = lrTrace s @ [ToolExecutionUpdate i n a r]"
      using emits_emit [of "\<lambda>_ es. es = [ToolExecutionUpdate i n a r]"] one unfolding emits_def by blast
    moreover obtain es where "lrTrace s' = lrTrace s1 @ es" "batchPart [] [] [] es"
      using Cons.IH rest unfolding emits_def by blast
    ultimately show "\<exists>es. lrTrace s' = lrTrace s @ es \<and> batchPart [] [] [] es"
      by (auto simp: batchPart_def)
  qed
qed

lemma emits_executePrepared: "emits (executePreparedToolCall host prepared) (\<lambda>_. batchPart [] [] [])"
  unfolding executePreparedToolCall_def
  by (intro emits_rules, rule emits_bind [OF emits_emitAll_updates]) (auto intro: emits_ret)

lemma finalized_toolCall:
  "fnToolCall (fst (finalizeExecutedToolCall config context message prepared executed w)) = ptToolCall prepared"
  by (simp add: finalizeExecutedToolCall_def case_prod_beta split: option.split sum.split)

lemma prepareToolCall_ready:
  "fst (prepareToolCall host config context message tc w) = Ready prepared \<Longrightarrow> ptToolCall prepared = tc"
  by (auto simp: prepareToolCall_def allowToolCall_def split: option.splits sum.splits prod.splits if_splits)

lemma emits_emitToolResultMessage [emits_rules]:
  "emits (f ()) (\<lambda>b es'. Q b (MessageStart (ToolResultMsg t) # MessageEnd (ToolResultMsg t) # es'))
   \<Longrightarrow> emits (bindS (emitToolResultMessage host t) f) Q"
  by (rule emits_bind [where P = "\<lambda>_ es. es = [MessageStart (ToolResultMsg t), MessageEnd (ToolResultMsg t)]"])
    (auto simp: emitToolResultMessage_def intro: emits_rules)

lemma emits_reportResult:
  "emits (reportResult host f) (\<lambda>t es. trToolCallId t = tcId (fnToolCall f) \<and> batchPart [] [] [ToolResultMsg t] es)"
  unfolding reportResult_def by (intro emits_rules) (simp add: batchPart_def createToolResultMessage_def)

text \<open>
  What a batch over the calls \<open>tcs\<close> reports: the calls it got to, each started once, reported once
  and answered by one message, in the order of the calls.
\<close>

definition answered :: "'w loopHost \<Rightarrow> toolCall list \<Rightarrow> toolResultMessage list \<Rightarrow> agent_event list \<Rightarrow> bool" where
  "answered host tcs results es \<longleftrightarrow>
    turnPart (map ToolResultMsg results) es
    \<and> map trToolCallId results = map tcId (take (length results) tcs)
    \<and> startedCalls es = map trToolCallId results
    \<and> mset (endedCalls es) = mset (startedCalls es)
    \<and> (length results = length tcs \<or> length results < length tcs \<and> (\<exists>w. hoAborted host w))"

lemma emits_bind_aborted [emits_rules]:
  "(\<And>stop. (stop \<Longrightarrow> \<exists>w. hoAborted host w) \<Longrightarrow> emits (f stop) Q) \<Longrightarrow> emits (bindS (aborted host) f) Q"
  unfolding aborted_def by (rule emits_bind_onWorld) auto

lemma emits_settleToolCall:
  assumes "\<And>p. preparation = Ready p \<Longrightarrow> ptToolCall p = tc"
  shows "emits (settleToolCall host config context message tc preparation)
    (\<lambda>f es. fnToolCall f = tc \<and> batchPart [] [] [] es)"
proof (cases preparation)
  case (Immediate result isError)
  then show ?thesis by (simp only: settleToolCall_def preparation.case) (rule emits_ret, simp add: batchPart_def)
next
  case (Ready p)
  show ?thesis unfolding settleToolCall_def Ready preparation.case
    by (rule emits_bind [OF emits_executePrepared])
      (auto intro!: emits_onWorld simp: finalized_toolCall assms [OF Ready])
qed

lemma emits_sequentialCalls:
  "emits (sequentialCalls host config context message tcs)
    (\<lambda>r es. answered host tcs (map snd r) es \<and> endedCalls es = startedCalls es)"
proof (induction tcs)
  case Nil
  show ?case unfolding sequentialCalls.simps by (rule emits_ret) (simp add: answered_def)
next
  case (Cons tc tcs)
  show ?case unfolding sequentialCalls.simps emitToolExecutionStart_def
    apply (intro emits_rules)
    apply (rule emits_bind [OF emits_settleToolCall])
     apply (erule prepareToolCall_ready)
    apply (unfold emitToolExecutionEnd_def)
    apply (intro emits_rules)
    apply (rule emits_bind [OF emits_reportResult])
    apply (rule emits_bind_aborted)
    apply (rule emits_if)
    subgoal for w f es t es' stop
      by (rule emits_ret)
        (use turnPart_append_Nil [of es _ "es'"] in \<open>auto simp: answered_def batchPart_def turnPart_append_Nil\<close>)
    subgoal for w f es t es' stop
      apply (rule emits_bind [OF Cons.IH])
      apply (rule emits_ret)
      using turnPart_append_Nil [of es] turnPart_append [of "[ToolResultMsg t]" es']
      by (auto simp: answered_def batchPart_def)
    done
qed

primrec taskCall :: "'w task \<Rightarrow> toolCall" where
  "taskCall (Execute p) = ptToolCall p"
| "taskCall (Finalize p _) = ptToolCall p"
| "taskCall (Report f) = fnToolCall f"
| "taskCall (Settled f) = fnToolCall f"

definition openCalls :: "'w task list \<Rightarrow> string multiset" where
  "openCalls ts = mset (map (tcId \<circ> taskCall) (filter (\<lambda>t. stepsLeft t > 0) ts))"

definition settledCalls :: "'w task list \<Rightarrow> string multiset" where
  "settledCalls ts = mset (map (tcId \<circ> taskCall) (filter (\<lambda>t. stepsLeft t = 0) ts))"

lemma open_settled: "openCalls ts + settledCalls ts = mset (map (tcId \<circ> taskCall) ts)"
  by (induction ts) (auto simp: openCalls_def settledCalls_def)

lemma openCalls_update:
  assumes "i < length ts"
  shows "openCalls (ts[i := t]) + (if stepsLeft (ts ! i) > 0 then {#tcId (taskCall (ts ! i))#} else {#})
    = openCalls ts + (if stepsLeft t > 0 then {#tcId (taskCall t)#} else {#})"
proof -
  have "openCalls ts = openCalls (take i ts @ ts ! i # drop (Suc i) ts)" using id_take_nth_drop [OF assms] by simp
  then show ?thesis using upd_conv_take_nth_drop [OF assms, of t] by (simp add: openCalls_def)
qed

lemma emits_preparedTasks:
  "emits (preparedTasks host config context message tcs) (\<lambda>ts es.
     map taskCall ts = take (length ts) tcs
     \<and> (length ts = length tcs \<or> length ts < length tcs \<and> (\<exists>w. hoAborted host w))
     \<and> turnPart [] es \<and> startedCalls es = map (tcId \<circ> taskCall) ts \<and> mset (endedCalls es) = settledCalls ts)"
proof (induction tcs)
  case Nil
  show ?case unfolding preparedTasks.simps by (rule emits_ret) (simp add: settledCalls_def)
next
  case (Cons tc tcs)
  have one: "emits (case preparation of
        Immediate result isError \<Rightarrow>
          (let finalized = \<lparr>fnToolCall = tc, fnResult = result, fnIsError = isError\<rparr> in
           bindS (emitToolExecutionEnd host finalized) (\<lambda>_. retS (Settled finalized)))
      | Ready prepared \<Rightarrow> retS (Execute prepared))
      (\<lambda>t es. taskCall t = tc \<and> turnPart [] es \<and> startedCalls es = [] \<and> mset (endedCalls es) = settledCalls [t])"
    if "\<And>p. preparation = Ready p \<Longrightarrow> ptToolCall p = tc" for preparation
    using that by (cases preparation)
      (auto intro!: emits_rules simp: settledCalls_def emitToolExecutionEnd_def simp del: retS_apply)
  show ?case unfolding preparedTasks.simps emitToolExecutionStart_def
    apply (intro emits_rules)
    apply (rule emits_bind [OF one])
     apply (erule prepareToolCall_ready)
    apply (rule emits_bind_aborted)
    apply (rule emits_if)
    subgoal by (rule emits_ret) auto
    subgoal for w t es stop
      apply (rule emits_bind [OF Cons.IH])
      apply (rule emits_ret)
      using turnPart_append_Nil [of es]
      by (auto simp: settledCalls_def)
    done
qed

lemma emits_stepTask:
  assumes "stepsLeft t > 0"
  shows "emits (stepTask host config context message t) (\<lambda>t' es. taskCall t' = taskCall t
     \<and> stepsLeft t' = stepsLeft t - 1 \<and> turnPart [] es \<and> startedCalls es = []
     \<and> mset (endedCalls es) = (if stepsLeft t' = 0 then {#tcId (taskCall t)#} else {#}))"
proof (cases t)
  case (Execute p)
  show ?thesis unfolding Execute stepTask.simps
    by (rule emits_bind [OF emits_executePrepared], rule emits_ret) (simp add: batchPart_def)
next
  case (Finalize p e)
  show ?thesis unfolding Finalize stepTask.simps
    by (intro emits_rules) (simp add: finalized_toolCall)
next
  case (Report f)
  show ?thesis unfolding Report stepTask.simps emitToolExecutionEnd_def by (intro emits_rules) simp
qed (use assms in simp)

lemma unsettled_nth:
  assumes "sum_list (map stepsLeft ts) = Suc k" and i_def: "i = unsettled ts ! (n mod length (unsettled ts))"
  shows "i < length ts \<and> stepsLeft (ts ! i) > 0"
proof -
  have "unsettled ts \<noteq> []"
  proof
    assume "unsettled ts = []"
    then have "stepsLeft (ts ! j) = 0" if "j < length ts" for j
      using that by (auto simp: unsettled_def filter_empty_conv)
    then have "sum_list (map stepsLeft ts) = 0" by (auto simp: in_set_conv_nth)
    with assms(1) show False by simp
  qed
  then have "i \<in> set (unsettled ts)" unfolding i_def by (intro nth_mem) simp
  then show ?thesis by (auto simp: unsettled_def)
qed

lemma emits_runTasks:
  fixes ts :: "'w task list"
  shows "sum_list (map stepsLeft ts) = k \<Longrightarrow>
   emits (runTasks host config context message k ts) (\<lambda>ts' es. map taskCall ts' = map taskCall ts
     \<and> (\<forall>t \<in> set ts'. stepsLeft t = 0) \<and> turnPart [] es \<and> startedCalls es = []
     \<and> mset (endedCalls es) = openCalls ts)"
proof (induction k arbitrary: ts)
  case 0
  then show ?case unfolding runTasks.simps
    by (intro emits_ret) (auto simp: openCalls_def filter_empty_conv)
next
  case (Suc k)
  show ?case unfolding runTasks.simps
  proof (intro emits_rules)
    fix w
    let ?i = "unsettled ts ! (fst (hoPick host w) mod length (unsettled ts))"
    have i: "?i < length ts" "stepsLeft (ts ! ?i) > 0" using unsettled_nth [OF Suc.prems refl] by simp_all
    show "emits (bindS (stepTask host config context message (ts ! ?i)) (\<lambda>t. runTasks host config context message k (ts[?i := t])))
      (\<lambda>ts' es. map taskCall ts' = map taskCall ts \<and> (\<forall>t \<in> set ts'. stepsLeft t = 0) \<and> turnPart [] es
        \<and> startedCalls es = [] \<and> mset (endedCalls es) = openCalls ts)"
    proof (rule emits_bind [OF emits_stepTask [OF i(2)]], elim conjE)
      fix t :: "'w task" and es
      assume t: "taskCall t = taskCall (ts ! ?i)" "stepsLeft t = stepsLeft (ts ! ?i) - 1" "turnPart [] es"
        "startedCalls es = []" "mset (endedCalls es) = (if stepsLeft t = 0 then {#tcId (taskCall (ts ! ?i))#} else {#})"
      have "sum_list (map stepsLeft (ts[?i := t])) = k"
        using Suc.prems i t(2) sum_list_update [of ?i "map stepsLeft ts" "stepsLeft t"]
          elem_le_sum_list [of ?i "map stepsLeft ts"] by (simp add: map_update)
      moreover have "map taskCall (ts[?i := t]) = map taskCall ts"
        using t(1) i(1) by (simp add: map_update list_update_same_conv)
      moreover have "mset (endedCalls es) + openCalls (ts[?i := t]) = openCalls ts"
        using openCalls_update [OF i(1), of t] i(2) t(1) t(5) by (auto split: if_splits)
      ultimately show "emits (runTasks host config context message k (ts[?i := t])) (\<lambda>ts' es'.
          map taskCall ts' = map taskCall ts \<and> (\<forall>t \<in> set ts'. stepsLeft t = 0) \<and> turnPart [] (es @ es')
          \<and> startedCalls (es @ es') = [] \<and> mset (endedCalls (es @ es')) = openCalls ts)"
        using Suc.IH [of "ts[?i := t]"] t(3,4) by (auto elim!: emits_weaken simp: turnPart_append_Nil)
    qed
  qed
qed

lemma settledCall_map:
  "\<forall>t \<in> set ts. stepsLeft t = 0 \<Longrightarrow>
   map fnToolCall (List.map_filter settledCall ts) = map taskCall ts \<and> length (List.map_filter settledCall ts) = length ts"
proof (induction ts)
  case (Cons t ts)
  then show ?case by (cases t) (auto simp: map_filter_simps)
qed (simp add: map_filter_simps)

lemma emits_reportResults:
  "emits (reportResults host fs) (\<lambda>ms es. map trToolCallId ms = map (tcId \<circ> fnToolCall) fs
     \<and> batchPart [] [] (map ToolResultMsg ms) es)"
proof (induction fs)
  case Nil
  show ?case unfolding reportResults.simps by (rule emits_ret) (simp add: batchPart_def)
next
  case (Cons f fs)
  show ?case unfolding reportResults.simps
    apply (rule emits_bind [OF emits_reportResult])
    apply (rule emits_bind [OF Cons.IH])
    apply (rule emits_ret)
    subgoal for t es ms es'
      using turnPart_append [of "[ToolResultMsg t]" es] by (auto simp: batchPart_def)
    done
qed

lemma emits_parallel:
  fixes host :: "'w loopHost"
  shows "emits (executeToolCallsParallel host config context message tcs) (\<lambda>r. answered host tcs (fst r))"
  unfolding executeToolCallsParallel_def
proof (rule emits_bind [OF emits_preparedTasks], elim conjE)
  fix ts :: "'w task list" and es
  assume ts: "map taskCall ts = take (length ts) tcs"
      "length ts = length tcs \<or> length ts < length tcs \<and> (\<exists>w. hoAborted host w)"
    and es: "turnPart [] es" "startedCalls es = map (tcId \<circ> taskCall) ts" "mset (endedCalls es) = settledCalls ts"
  show "emits (bindS (runTasks host config context message (sum_list (map stepsLeft ts)) ts) (\<lambda>settled.
      let orderedFinalizedCalls = List.map_filter settledCall settled in
      bindS (reportResults host orderedFinalizedCalls) (\<lambda>messages.
      retS (messages, shouldTerminateToolBatch orderedFinalizedCalls))))
      (\<lambda>b es'. answered host tcs (fst b) (es @ es'))"
    apply (rule emits_bind [OF emits_runTasks [OF refl]], elim conjE)
    apply (rule emits_let)
    apply (rule emits_bind [OF emits_reportResults])
    apply (rule emits_ret)
    subgoal premises p for ts' es' ms es''
    proof -
      have calls: "map (tcId \<circ> fnToolCall) (List.map_filter settledCall ts') = map tcId (take (length ts) tcs)"
        using settledCall_map [OF p(2)] p(1) ts(1) by (metis map_map)
      have len: "length ms = length ts"
        using p(6) settledCall_map [OF p(2)] p(1) by (metis length_map)
      have ids: "map (tcId \<circ> taskCall) ts = map tcId (take (length ts) tcs)" using ts(1) by (metis map_map)
      show ?thesis
        using p calls len ids es ts open_settled [of ts]
        by (auto simp: answered_def batchPart_def turnPart_append_Nil ac_simps)
    qed
    done
qed

lemma emits_sequential:
  "emits (executeToolCallsSequential host config context message tcs) (\<lambda>r. answered host tcs (fst r))"
  unfolding executeToolCallsSequential_def
  by (rule emits_bind [OF emits_sequentialCalls], rule emits_ret) simp

lemma emits_executeToolCalls:
  "emits (executeToolCalls host config context message) (\<lambda>r. answered host (toolCallsOf message) (fst r))"
  unfolding executeToolCalls_def Let_def using emits_sequential emits_parallel by (intro emits_if)

subsection \<open>Turns\<close>

text \<open>Where the loop is before a turn: the first turn has been opened by the caller.\<close>

definition startPhase :: "'w loopState \<Rightarrow> phase" where
  "startPhase st = (if lsFirstTurn st then InTurn else Between)"

primrec turnEvents :: "phase \<Rightarrow> agent_message list \<Rightarrow> 'w turn_outcome \<Rightarrow> agent_event list \<Rightarrow> bool" where
  "turnEvents p ms (Ended ns) es \<longleftrightarrow> phases p es = Some Finished \<and> ns = ms @ endedMessages es
     \<and> es \<noteq> [] \<and> last es = AgentEnd ns"
| "turnEvents p ms (Goes st) es \<longleftrightarrow> phases p es = Some Between \<and> lsNewMessages st = ms @ endedMessages es
     \<and> \<not> lsFirstTurn st"

lemma applyTurnUpdate_simps [simp]:
  "lsNewMessages (applyTurnUpdate update st) = lsNewMessages st"
  "lsFirstTurn (applyTurnUpdate update st) = lsFirstTurn st"
  "lsPending (applyTurnUpdate update st) = lsPending st"
  "lsHasMoreToolCalls (applyTurnUpdate update st) = lsHasMoreToolCalls st"
  "cfShouldStopAfterTurn (lsConfig (applyTurnUpdate update st)) = cfShouldStopAfterTurn (lsConfig st)"
  by (simp_all add: applyTurnUpdate_def split: option.split)

lemma pushAll_simps [simp]:
  "lsNewMessages (pushAll ms st) = lsNewMessages st @ ms"
  "lsFirstTurn (pushAll ms st) = lsFirstTurn st"
  "lsConfig (pushAll ms st) = lsConfig st"
  by (simp_all add: pushAll_def)

lemma emits_finishRun:
  "emits (finishRun host st) (\<lambda>r es. r = Ended (lsNewMessages st) \<and> es = [AgentEnd (lsNewMessages st)])"
  unfolding finishRun_def by (intro emits_rules) simp

text \<open>
  A turn that goes on was not stopped by \<open>shouldStopAfterTurn\<close>, which saw the messages the next
  turn starts from.
\<close>

definition notStopped :: "'w loopConfig \<Rightarrow> agent_message list \<Rightarrow> bool" where
  "notStopped config ms \<longleftrightarrow> (case cfShouldStopAfterTurn config of None \<Rightarrow> True
     | Some stops \<Rightarrow> \<exists>t w. ftNewMessages t = ms \<and> fst (stops t w) = Inr False)"

lemma notStopped_None: "cfShouldStopAfterTurn config = None \<Longrightarrow> notStopped config ms"
  by (simp add: notStopped_def)

lemma notStopped_Some:
  "cfShouldStopAfterTurn config = Some stops \<Longrightarrow> fst (stops t w) = Inr False \<Longrightarrow> ftNewMessages t = ms
   \<Longrightarrow> notStopped config ms"
  by (auto simp: notStopped_def)

text \<open>What the rest of a turn promises: its events, and that it went on because nothing stopped it.\<close>

definition turnSpec :: "phase \<Rightarrow> agent_message list \<Rightarrow> 'w loopConfig \<Rightarrow> 'w turn_outcome \<Rightarrow> agent_event list \<Rightarrow> bool" where
  "turnSpec p ms config r es \<longleftrightarrow> turnEvents p ms r es
    \<and> (\<forall>st'. r = Goes st' \<longrightarrow> notStopped config (lsNewMessages st')
        \<and> cfShouldStopAfterTurn (lsConfig st') = cfShouldStopAfterTurn config)"

lemma emits_finishTurn:
  assumes "\<not> lsFirstTurn st"
  shows "emits (finishTurn host message results st) (turnSpec InTurn (lsNewMessages st) (lsConfig st))"
proof -
  have finish: "emits (finishRun host (applyTurnUpdate u st))
      (\<lambda>r es. turnSpec InTurn (lsNewMessages st) (lsConfig st) r (TurnEnd message results # es))" for u
    by (rule emits_weaken [OF emits_finishRun]) (simp add: turnSpec_def)
  show ?thesis unfolding finishTurn_def
    by (intro emits_rules finish)
      (auto simp: assms turnSpec_def elim: notStopped_None notStopped_Some)
qed

lemma turnSpec_prepend:
  assumes "phases p es = Some q" and "turnSpec q (ms @ endedMessages es) config r fs"
  shows "turnSpec p ms config r (es @ fs)"
  using assms by (cases r) (auto simp: turnSpec_def phases_append)

lemma emits_settleTurn:
  assumes "\<not> lsFirstTurn st"
  shows "emits (settleTurn host message st) (turnSpec InTurn (lsNewMessages st) (lsConfig st))"
  unfolding settleTurn_def
proof (intro emits_rules)
  show "emits (finishRun host st) (\<lambda>r es. turnSpec InTurn (lsNewMessages st) (lsConfig st) r (TurnEnd message [] # es))"
    by (rule emits_weaken [OF emits_finishRun]) (simp add: turnSpec_def)
  show "emits (finishTurn host message [] (st\<lparr>lsHasMoreToolCalls := False\<rparr>)) (turnSpec InTurn (lsNewMessages st) (lsConfig st))"
    using emits_finishTurn [of "st\<lparr>lsHasMoreToolCalls := False\<rparr>" host message "[]"] assms by simp
  let ?st = "\<lambda>results stops. pushAll (map ToolResultMsg results) (st\<lparr>lsHasMoreToolCalls := \<not> stops\<rparr>)"
  show "emits (bindS (executeToolCalls host (lsConfig st) (lsContext st) message) (\<lambda>(toolResults, stopsBatch).
      finishTurn host message toolResults (?st toolResults stopsBatch))) (turnSpec InTurn (lsNewMessages st) (lsConfig st))"
  proof (rule emits_bind [OF emits_executeToolCalls])
    fix r :: "toolResultMessage list \<times> bool" and es
    assume "answered host (toolCallsOf message) (fst r) es"
    then have es: "phases InTurn es = Some InTurn" "endedMessages es = map ToolResultMsg (fst r)"
      by (simp_all add: answered_def turnPart_def)
    have "emits (finishTurn host message (fst r) (?st (fst r) (snd r)))
        (turnSpec InTurn (lsNewMessages st @ endedMessages es) (lsConfig st))"
      using emits_finishTurn [of "?st (fst r) (snd r)" host message "fst r"] assms es by simp
    then show "emits (case r of (toolResults, stopsBatch) \<Rightarrow> finishTurn host message toolResults (?st toolResults stopsBatch))
        (\<lambda>r' fs. turnSpec InTurn (lsNewMessages st) (lsConfig st) r' (es @ fs))"
      unfolding case_prod_beta by (rule emits_weaken) (rule turnSpec_prepend [OF es(1)])
  qed
qed

lemma emits_turn:
  fixes host :: "'w loopHost"
  shows "emits (turn host st0) (\<lambda>r es. turnSpec (startPhase st0) (lsNewMessages st0) (lsConfig st0) r es
    \<and> (\<forall>st'. r = Goes st' \<longrightarrow> length (lsNewMessages st0) < length (lsNewMessages st')))"
proof -
  have opened: "emits (if lsFirstTurn st0 then retS () else emit host TurnStart)
      (\<lambda>_ es. phases (startPhase st0) es = Some InTurn \<and> endedMessages es = [])"
    by (intro emits_rules) (simp_all add: startPhase_def)
  show ?thesis unfolding turn_def
  proof (rule emits_bind [OF opened], rule emits_bind [OF emits_injectPending],
      rule emits_bind [OF emits_streamAssistantResponse], elim conjE)
    fix es0 es1 es2 and st :: "'w loopState" and r :: "assistantMessage \<times> 'w agentContext"
    let ?st0 = "st0\<lparr>lsFirstTurn := False\<rparr>"
    assume es0: "phases (startPhase st0) es0 = Some InTurn" "endedMessages es0 = []"
      and es1: "turnPart (lsPending ?st0) es1"
      and st: "lsNewMessages st = lsNewMessages ?st0 @ lsPending ?st0"
        "lsFirstTurn st = lsFirstTurn ?st0" "lsConfig st = lsConfig ?st0"
      and es2: "turnPart [AssistantMsg (fst r)] es2"
    let ?st = "st\<lparr>lsContext := snd r, lsNewMessages := lsNewMessages st @ [AssistantMsg (fst r)]\<rparr>"
    let ?es = "es0 @ es1 @ es2"
    have pre: "phases (startPhase st0) ?es = Some InTurn"
        "lsNewMessages ?st = lsNewMessages st0 @ endedMessages ?es" "endedMessages ?es \<noteq> []"
      using es0 es1 es2 st by (simp_all add: turnPart_def phases_append)
    have "emits (settleTurn host (fst r) ?st)
        (turnSpec InTurn (lsNewMessages st0 @ endedMessages ?es) (lsConfig st0))"
      using emits_settleTurn [of ?st host "fst r"] pre(2) st(2,3) by simp
    then show "emits (case r of (message, context) \<Rightarrow> settleTurn host message
        (st\<lparr>lsContext := context, lsNewMessages := lsNewMessages st @ [AssistantMsg message]\<rparr>))
      (\<lambda>r fs. turnSpec (startPhase st0) (lsNewMessages st0) (lsConfig st0) r (es0 @ es1 @ es2 @ fs)
        \<and> (\<forall>st'. r = Goes st' \<longrightarrow> length (lsNewMessages st0) < length (lsNewMessages st')))"
      unfolding case_prod_beta
    proof (rule emits_weaken)
      fix r' fs
      assume "turnSpec InTurn (lsNewMessages st0 @ endedMessages ?es) (lsConfig st0) r' fs"
      from turnSpec_prepend [OF pre(1) this] pre(3)
      show "turnSpec (startPhase st0) (lsNewMessages st0) (lsConfig st0) r' (es0 @ es1 @ es2 @ fs)
        \<and> (\<forall>st'. r' = Goes st' \<longrightarrow> length (lsNewMessages st0) < length (lsNewMessages st'))"
        by (auto simp: turnSpec_def)
    qed
  qed
qed

lemma notStopped_cong:
  "cfShouldStopAfterTurn config = cfShouldStopAfterTurn config' \<Longrightarrow> notStopped config ms = notStopped config' ms"
  by (simp add: notStopped_def)

text \<open>What a number of turns promises.\<close>

definition turnsSpec :: "'w loopState \<Rightarrow> 'w turn_outcome \<Rightarrow> agent_event list \<Rightarrow> bool" where
  "turnsSpec st r es \<longleftrightarrow> (case r of
     Ended ms \<Rightarrow> turnEvents (startPhase st) (lsNewMessages st) r es
   | Goes st' \<Rightarrow> phases (startPhase st) es = Some (startPhase st') \<and> lsNewMessages st' = lsNewMessages st @ endedMessages es
       \<and> cfShouldStopAfterTurn (lsConfig st') = cfShouldStopAfterTurn (lsConfig st)
       \<and> (if turnDue st then \<not> lsFirstTurn st' \<and> notStopped (lsConfig st) (lsNewMessages st')
            \<and> length (lsNewMessages st) < length (lsNewMessages st') else st' = st))"

lemma turnsSpec_after_turn:
  assumes turn: "turnSpec (startPhase st) (lsNewMessages st) (lsConfig st) (Goes st1) es"
    and longer: "length (lsNewMessages st) < length (lsNewMessages st1)" and due: "turnDue st"
    and rest: "turnsSpec st1 r fs"
  shows "turnsSpec st r (es @ fs)"
proof (cases r)
  case (Ended ms)
  then show ?thesis using turn rest by (simp add: turnsSpec_def turnSpec_def phases_append startPhase_def)
next
  case (Goes st')
  have one: "phases (startPhase st) es = Some (startPhase st1)" "lsNewMessages st1 = lsNewMessages st @ endedMessages es"
      "\<not> lsFirstTurn st1" "notStopped (lsConfig st) (lsNewMessages st1)"
      "cfShouldStopAfterTurn (lsConfig st1) = cfShouldStopAfterTurn (lsConfig st)"
    using turn by (auto simp: turnSpec_def startPhase_def)
  have two: "phases (startPhase st1) fs = Some (startPhase st')" "lsNewMessages st' = lsNewMessages st1 @ endedMessages fs"
      "cfShouldStopAfterTurn (lsConfig st') = cfShouldStopAfterTurn (lsConfig st1)"
      "if turnDue st1 then \<not> lsFirstTurn st' \<and> notStopped (lsConfig st1) (lsNewMessages st')
         \<and> length (lsNewMessages st1) < length (lsNewMessages st') else st' = st1"
    using rest unfolding Goes turnsSpec_def turn_outcome.case by blast+
  have "\<not> lsFirstTurn st' \<and> notStopped (lsConfig st) (lsNewMessages st') \<and> length (lsNewMessages st) < length (lsNewMessages st')"
    using two(4) one(3,4) longer notStopped_cong [OF one(5)] by (cases "turnDue st1") simp_all
  moreover have "phases (startPhase st) (es @ fs) = Some (startPhase st')"
    using one(1) two(1) by (simp add: phases_append)
  ultimately show ?thesis using one(2,5) two(2,3) due Goes by (simp add: turnsSpec_def)
qed

lemma emits_innerLoop: "emits (innerLoop host n st) (turnsSpec st)"
proof (induction n arbitrary: st)
  case 0
  show ?case unfolding innerLoop.simps by (intro emits_rules) (simp add: turnsSpec_def)
next
  case (Suc n)
  show ?case unfolding innerLoop.simps
  proof (intro emits_if, rule emits_bind [OF emits_turn], elim conjE)
    fix r es
    assume due: "turnDue st" and turn: "turnSpec (startPhase st) (lsNewMessages st) (lsConfig st) r es"
      and longer: "\<forall>st'. r = Goes st' \<longrightarrow> length (lsNewMessages st) < length (lsNewMessages st')"
    show "emits (case r of Ended ms \<Rightarrow> retS (Ended ms) | Goes st' \<Rightarrow> innerLoop host n st') (\<lambda>r fs. turnsSpec st r (es @ fs))"
    proof (cases r)
      case (Ended ms)
      then show ?thesis using turn
        by (simp only: turn_outcome.case) (rule emits_ret, simp add: turnSpec_def turnsSpec_def)
    next
      case (Goes st1)
      show ?thesis unfolding Goes turn_outcome.case
        by (rule emits_weaken [OF Suc.IH], rule turnsSpec_after_turn [OF _ _ due]) (use turn longer Goes in auto)
    qed
  qed (intro emits_rules, simp add: turnsSpec_def)
qed

lemma emits_outerLoop:
  "emits (outerLoop host turns n st) (\<lambda>r es. case r of
     Ended ms \<Rightarrow> turnEvents (startPhase st) (lsNewMessages st) r es | Goes st' \<Rightarrow> False)"
proof (induction n arbitrary: st)
  case 0
  show ?case unfolding outerLoop.simps by (rule emits_throw)
next
  case (Suc n)
  let ?st = "st\<lparr>lsHasMoreToolCalls := True\<rparr>"
  show ?case unfolding outerLoop.simps
  proof (rule emits_bind [OF emits_innerLoop])
    fix r es
    assume inner: "turnsSpec ?st r es"
    show "emits (case r of Ended ms \<Rightarrow> retS (Ended ms) | Goes st' \<Rightarrow>
          bindS (poll (cfGetFollowUpMessages (lsConfig st'))) (\<lambda>followUpMessages.
          if followUpMessages = [] then finishRun host st'
          else bindS (case cfPrepareFollowUpTurn (lsConfig st') of None \<Rightarrow> retS None | Some prepare \<Rightarrow> call prepare) (\<lambda>update.
            outerLoop host turns n ((applyTurnUpdate update st')\<lparr>lsPending := followUpMessages\<rparr>))))
        (\<lambda>r fs. case r of Ended ms \<Rightarrow> turnEvents (startPhase st) (lsNewMessages st) r (es @ fs) | Goes st' \<Rightarrow> False)"
    proof (cases r)
      case (Ended ms)
      then show ?thesis using inner
        by (simp only: turn_outcome.case) (rule emits_ret, simp add: turnsSpec_def startPhase_def)
    next
      case (Goes st1)
      have st1: "phases (startPhase st) es = Some Between" "lsNewMessages st1 = lsNewMessages st @ endedMessages es"
          "\<not> lsFirstTurn st1"
        using inner Goes by (auto simp: turnsSpec_def startPhase_def turnDue_def)
      have "emits (finishRun host st1)
          (\<lambda>r fs. case r of Ended ms \<Rightarrow> turnEvents (startPhase st) (lsNewMessages st) r (es @ fs) | Goes st' \<Rightarrow> False)"
        by (rule emits_weaken [OF emits_finishRun]) (simp add: st1 phases_append)
      moreover have "emits (outerLoop host turns n ((applyTurnUpdate u st1)\<lparr>lsPending := ms\<rparr>))
          (\<lambda>r fs. case r of Ended ms \<Rightarrow> turnEvents (startPhase st) (lsNewMessages st) r (es @ fs) | Goes st' \<Rightarrow> False)" for u ms
        by (rule emits_weaken [OF Suc.IH])
          (auto simp: startPhase_def [of "lsPending_update f s" for f s] st1 phases_append split: turn_outcome.splits)
      ultimately show ?thesis unfolding Goes turn_outcome.case by (intro emits_rules)
    qed
  qed
qed

definition runEvents :: "agent_message list \<Rightarrow> agent_message list \<Rightarrow> agent_event list \<Rightarrow> bool" where
  "runEvents prompts ms es \<longleftrightarrow> phases Idle es = Some Finished \<and> last es = AgentEnd ms \<and> endedMessages es = ms
     \<and> take (length prompts) ms = prompts"

lemma emits_runLoop:
  "emits (runLoop host fuel config context new) (\<lambda>ms es. phases InTurn es = Some Finished \<and> es \<noteq> []
     \<and> last es = AgentEnd ms \<and> ms = new @ endedMessages es)"
  unfolding runLoop_def
  by (intro emits_rules, rule emits_bind [OF emits_outerLoop])
    (auto simp: startPhase_def intro!: emits_ret split: turn_outcome.splits)

lemma emits_runAgentLoop: "emits (runAgentLoop host fuel config prompts context) (runEvents prompts)"
  unfolding runAgentLoop_def
  apply (intro emits_rules)
  apply (rule emits_bind [OF emits_prompts])
  apply (rule emits_weaken [OF emits_runLoop])
  apply (auto simp: runEvents_def turnPart_def phases_append)
  done

lemma emits_runAgentLoopContinue: "emits (runAgentLoopContinue host fuel config context) (runEvents [])"
  unfolding runAgentLoopContinue_def
  by (intro emits_rules, rule emits_weaken [OF emits_runLoop]) (auto simp: runEvents_def)

subsection \<open>Faults\<close>

text \<open>\<open>raises m F\<close>: every fault of \<open>m\<close> satisfies \<open>F\<close>.\<close>

named_theorems raises_rules

definition raises :: "('w, 'a) loop \<Rightarrow> (loop_fault \<Rightarrow> bool) \<Rightarrow> bool" where
  "raises m F \<longleftrightarrow> (\<forall>s e s'. m s = (Inl e, s') \<longrightarrow> F e)"

definition sinkFaults :: "'w loopHost \<Rightarrow> (loop_fault \<Rightarrow> bool) \<Rightarrow> bool" where
  "sinkFaults host F \<longleftrightarrow> (\<forall>ev w e. fst (hoEmit host ev w) = Inl e \<longrightarrow> F (Thrown e))"

lemma raises_bind:
  assumes "raises m F" and "emits m P" and "\<And>a es. P a es \<Longrightarrow> raises (f a) F"
  shows "raises (bindS m f) F"
  unfolding raises_def
proof (intro allI impI)
  fix s e s'
  assume run: "bindS m f s = (Inl e, s')"
  obtain r s1 where m: "m s = (r, s1)" by fastforce
  show "F e"
  proof (cases r)
    case (Inl e')
    then show ?thesis using run m assms(1) by (auto simp: raises_def)
  next
    case (Inr a)
    with m assms(2) obtain es where "P a es" unfolding emits_def by blast
    with assms(3) have "raises (f a) F" by blast
    then show ?thesis using run m Inr unfolding raises_def by (simp; blast)
  qed
qed

lemma raises_bindI [raises_rules]:
  "raises m F \<Longrightarrow> (\<And>a. raises (f a) F) \<Longrightarrow> raises (bindS m f) F"
  unfolding raises_def bindS_def by (auto split: prod.splits sum.splits)

lemma raises_ret [raises_rules]: "raises (retS a) F"
  by (simp add: raises_def)

lemma raises_onWorld [raises_rules]: "raises (onWorld f) F"
  by (auto simp: raises_def onWorld_def split: prod.splits)

lemma raises_aborted [raises_rules]: "raises (aborted host) F"
  unfolding aborted_def by (rule raises_onWorld)

lemma raises_emit [raises_rules]: "sinkFaults host F \<Longrightarrow> raises (emit host ev) F"
  by (auto simp: raises_def sinkFaults_def emit_def call_def split: prod.splits sum.splits) (metis fst_conv)

lemma raises_call: "(\<And>e. F (Thrown e)) \<Longrightarrow> raises (call f) F"
  by (auto simp: raises_def call_def split: prod.splits sum.splits)

lemma raises_if [raises_rules]: "(b \<Longrightarrow> raises m F) \<Longrightarrow> (\<not> b \<Longrightarrow> raises n F) \<Longrightarrow> raises (if b then m else n) F"
  by simp

lemma raises_option [raises_rules]:
  "(x = None \<Longrightarrow> raises m F) \<Longrightarrow> (\<And>a. x = Some a \<Longrightarrow> raises (n a) F) \<Longrightarrow> raises (case x of None \<Rightarrow> m | Some a \<Rightarrow> n a) F"
  by (cases x) auto

lemma raises_pair [raises_rules]: "raises (f (fst p) (snd p)) F \<Longrightarrow> raises (case p of (x, y) \<Rightarrow> f x y) F"
  by (simp add: case_prod_beta)

lemma raises_let [raises_rules]: "raises (f a) F \<Longrightarrow> raises (let x = a in f x) F"
  by simp

lemma raises_emitAll: "sinkFaults host F \<Longrightarrow> raises (emitAll host evs) F"
proof (induction evs)
  case Nil
  show ?case unfolding emitAll.simps by (rule raises_ret)
next
  case (Cons ev evs)
  then show ?case using raises_emit [OF Cons.prems, of ev] unfolding raises_def
    by (auto split: prod.splits sum.splits; blast)
qed

lemma raises_executePrepared: "sinkFaults host F \<Longrightarrow> raises (executePreparedToolCall host prepared) F"
  unfolding executePreparedToolCall_def by (intro raises_rules raises_emitAll)

lemma raises_settleToolCall: "sinkFaults host F \<Longrightarrow> raises (settleToolCall host config context message tc p) F"
  unfolding settleToolCall_def
  by (cases p) (simp_all only: preparation.case, (intro raises_rules raises_executePrepared)+)

lemma raises_reportResult: "sinkFaults host F \<Longrightarrow> raises (reportResult host f) F"
  unfolding reportResult_def emitToolResultMessage_def by (intro raises_rules)

lemma raises_sequentialCalls:
  "sinkFaults host F \<Longrightarrow> raises (sequentialCalls host config context message tcs) F"
  by (induction tcs; unfold sequentialCalls.simps emitToolExecutionStart_def emitToolExecutionEnd_def;
      intro raises_rules raises_settleToolCall raises_reportResult; assumption)

lemma raises_preparedTasks:
  assumes "sinkFaults host F"
  shows "raises (preparedTasks host config context message tcs) F"
proof (induction tcs)
  case Nil
  show ?case unfolding preparedTasks.simps by (rule raises_ret)
next
  case (Cons tc tcs)
  have "raises (case p of
        Immediate result isError \<Rightarrow>
          (let finalized = \<lparr>fnToolCall = tc, fnResult = result, fnIsError = isError\<rparr> in
           bindS (emitToolExecutionEnd host finalized) (\<lambda>_. retS (Settled finalized)))
      | Ready prepared \<Rightarrow> retS (Execute prepared)) F" for p :: "'a preparation"
    by (cases p; simp only: preparation.case emitToolExecutionEnd_def; intro raises_rules assms)
  then show ?case unfolding preparedTasks.simps emitToolExecutionStart_def
    by (intro raises_rules assms Cons.IH)
qed

lemma raises_stepTask: "sinkFaults host F \<Longrightarrow> raises (stepTask host config context message t) F"
  by (cases t; simp only: stepTask.simps emitToolExecutionEnd_def; intro raises_rules raises_executePrepared)

lemma raises_runTasks: "sinkFaults host F \<Longrightarrow> raises (runTasks host config context message k ts) F"
  by (induction k arbitrary: ts; unfold runTasks.simps; intro raises_rules raises_stepTask; assumption)

lemma raises_reportResults: "sinkFaults host F \<Longrightarrow> raises (reportResults host fs) F"
  by (induction fs; unfold reportResults.simps; intro raises_rules raises_reportResult; assumption)

lemma raises_executeToolCalls: "sinkFaults host F \<Longrightarrow> raises (executeToolCalls host config context message) F"
  unfolding executeToolCalls_def executeToolCallsSequential_def executeToolCallsParallel_def
  by (intro raises_rules raises_sequentialCalls raises_preparedTasks raises_runTasks raises_reportResults)

text \<open>A turn never reports \<open>OutOfFuel\<close>: only the loops over turns count.\<close>

definition inTime :: "loop_fault \<Rightarrow> bool" where
  "inTime e \<longleftrightarrow> e \<noteq> OutOfFuel"

lemma inTime_sink: "sinkFaults host inTime"
  by (simp add: sinkFaults_def inTime_def)

lemma raises_callInTime [raises_rules]: "raises (call f) inTime"
  by (rule raises_call) (simp add: inTime_def)

lemma raises_throwInTime: "raises (throwS (Thrown e)) inTime"
  by (simp add: raises_def inTime_def)

lemma raises_poll [raises_rules]: "raises (poll queue) inTime"
  unfolding poll_def by (intro raises_rules)

lemma raises_beforeUser: "raises (beforeUser config m) inTime"
  unfolding beforeUser_def by (cases m; cases "cfBeforeUserMessage config"; simp; intro raises_rules)

lemma raises_prompts: "raises (each (\<lambda>m. bindS (beforeUser config m) (\<lambda>_. announce host m)) ms) inTime"
proof (induction ms)
  case Nil
  show ?case unfolding each.simps by (rule raises_ret)
next
  case (Cons m ms)
  show ?case unfolding each.simps announce_def
    by (intro raises_rules inTime_sink raises_beforeUser Cons.IH [unfolded announce_def])
qed

lemma raises_finishRun: "raises (finishRun host st) inTime"
  unfolding finishRun_def by (intro raises_rules inTime_sink)

lemma raises_finishTurn: "raises (finishTurn host message results st) inTime"
  unfolding finishTurn_def by (intro raises_rules inTime_sink raises_finishRun)

lemma raises_streamEvents: "raises (streamEvents host ctx added final evs) inTime"
proof (induction host ctx added final evs rule: streamEvents.induct)
  case (3 host ctx added final k payload partial evs)
  show ?case unfolding streamEvents.simps by (intro raises_rules inTime_sink) (fact "3.IH")+
qed (simp_all only: streamEvents.simps finishStream_def; intro raises_rules inTime_sink)+

lemma raises_turn: "raises (turn host st) inTime"
proof -
  have "raises (settleTurn host message st') inTime" for message st'
    unfolding settleTurn_def
    by (intro raises_rules inTime_sink raises_finishRun raises_finishTurn raises_executeToolCalls)
  then show ?thesis unfolding turn_def injectPending_def streamAssistantResponse_def
    by (intro raises_rules inTime_sink raises_prompts raises_streamEvents)
qed

lemma raises_innerLoop:
  assumes "cfShouldStopAfterTurn (lsConfig st) = Some stops"
    and limit: "\<And>t w b. limit \<le> length (ftNewMessages t) \<Longrightarrow> fst (stops t w) \<noteq> Inr False"
    and "limit - length (lsNewMessages st) < n"
  shows "raises (innerLoop host n st) inTime"
  using assms(1,3)
proof (induction n arbitrary: st)
  case (Suc n)
  show ?case unfolding innerLoop.simps
  proof (intro raises_if raises_ret, rule raises_bind [OF raises_turn emits_turn], elim conjE)
    fix r es
    assume turn: "turnSpec (startPhase st) (lsNewMessages st) (lsConfig st) r es"
      "\<forall>st'. r = Goes st' \<longrightarrow> length (lsNewMessages st) < length (lsNewMessages st')"
    show "raises (case r of Ended ms \<Rightarrow> retS (Ended ms) | Goes st' \<Rightarrow> innerLoop host n st') inTime"
    proof (cases r)
      case (Ended ms)
      then show ?thesis by (simp only: turn_outcome.case) (rule raises_ret)
    next
      case (Goes st1)
      have stop: "notStopped (lsConfig st) (lsNewMessages st1)"
        and config: "cfShouldStopAfterTurn (lsConfig st1) = Some stops"
        using turn Goes Suc.prems(1) by (auto simp: turnSpec_def)
      have "length (lsNewMessages st1) < limit"
        using stop limit Suc.prems(1) by (auto simp: notStopped_def not_le [symmetric])
      with turn(2) Goes Suc.prems(2) have "limit - length (lsNewMessages st1) < n" by auto
      from Suc.IH [OF config this] show ?thesis by (simp add: Goes)
    qed
  qed
qed simp

lemma raises_outerLoop:
  assumes "cfShouldStopAfterTurn (lsConfig st) = Some stops"
    and limit: "\<And>t w. limit \<le> length (ftNewMessages t) \<Longrightarrow> fst (stops t w) \<noteq> Inr False"
    and turns: "limit < turns" and "limit - length (lsNewMessages st) < n"
  shows "raises (outerLoop host turns n st) inTime"
  using assms(1,4)
proof (induction n arbitrary: st)
  case (Suc n)
  let ?st = "st\<lparr>lsHasMoreToolCalls := True\<rparr>"
  have "raises (innerLoop host turns ?st) inTime"
    using raises_innerLoop [of ?st stops limit turns host] Suc.prems(1) limit turns by simp
  then show ?case unfolding outerLoop.simps
  proof (rule raises_bind [OF _ emits_innerLoop])
    fix r es
    assume inner: "turnsSpec ?st r es"
    show "raises (case r of Ended ms \<Rightarrow> retS (Ended ms) | Goes st' \<Rightarrow>
          bindS (poll (cfGetFollowUpMessages (lsConfig st'))) (\<lambda>followUpMessages.
          if followUpMessages = [] then finishRun host st'
          else bindS (case cfPrepareFollowUpTurn (lsConfig st') of None \<Rightarrow> retS None | Some prepare \<Rightarrow> call prepare) (\<lambda>update.
            outerLoop host turns n ((applyTurnUpdate update st')\<lparr>lsPending := followUpMessages\<rparr>)))) inTime"
    proof (cases r)
      case (Ended ms)
      then show ?thesis by (simp only: turn_outcome.case) (rule raises_ret)
    next
      case (Goes st1)
      have stop: "notStopped (lsConfig st) (lsNewMessages st1)" and longer: "length (lsNewMessages st) < length (lsNewMessages st1)"
        and config: "cfShouldStopAfterTurn (lsConfig st1) = Some stops"
        using inner Goes Suc.prems(1) by (auto simp: turnsSpec_def turnDue_def)
      have "length (lsNewMessages st1) < limit"
        using stop limit Suc.prems(1) by (auto simp: notStopped_def not_le [symmetric])
      with longer Suc.prems(2) have "limit - length (lsNewMessages st1) < n" by auto
      then have "raises (outerLoop host turns n ((applyTurnUpdate u st1)\<lparr>lsPending := ms\<rparr>)) inTime" for u ms
        using Suc.IH [of "(applyTurnUpdate u st1)\<lparr>lsPending := ms\<rparr>"] config by simp
      then show ?thesis unfolding Goes turn_outcome.case by (intro raises_rules raises_finishRun)
    qed
  qed
qed simp

lemma raises_runLoop:
  assumes "cfShouldStopAfterTurn config = Some stops"
    and "\<And>t w. limit \<le> length (ftNewMessages t) \<Longrightarrow> fst (stops t w) \<noteq> Inr False" and "limit < fuel"
  shows "raises (runLoop host fuel config context new) inTime"
proof -
  have "raises (case r of Ended ms \<Rightarrow> retS ms | Goes st \<Rightarrow> retS (lsNewMessages st)) inTime" for r :: "'a turn_outcome"
    by (cases r) (simp_all only: turn_outcome.case raises_ret)
  then show ?thesis unfolding runLoop_def using assms
    by (intro raises_rules raises_outerLoop [where stops = stops and limit = limit]) auto
qed

subsection \<open>The properties of a run\<close>

definition sampleReply :: "assistant_block list \<Rightarrow> assistantMessage" where
  "sampleReply blocks = \<lparr>amContent = blocks, amApi = ''a'', amProvider = ''p'', amModel = ''m'', amResponseModel = None,
     amResponseId = None, amDiagnostics = None, amUsage = None, amStopReason = StopStop, amErrorMessage = None,
     amTimestamp = Some 0\<rparr>"

definition sampleCalls :: assistantMessage where
  "sampleCalls = sampleReply (map (\<lambda>i. ToolCallBlock \<lparr>tcId = i, tcName = ''t'', tcArguments = JNull, tcThoughtSignature = None\<rparr>)
     [''1'', ''2''])"

text \<open>
  A host whose world counts the model replies: the first asks for two calls, the second is plain.
  Its scheduler always steps the last open task; its tool fails.
\<close>

definition sampleHost :: "nat loopHost" where
  "sampleHost = \<lparr>hoEmit = (\<lambda>_ w. (Inr (), w)),
     hoStream = (\<lambda>_ _ _ w. (Inr (if w = 0 then ([StreamStart sampleCalls, StreamDone], sampleCalls)
        else ([StreamDone], sampleReply [])), Suc w)),
     hoValidate = (\<lambda>_ tc. Inr (tcArguments tc)), hoAborted = (\<lambda>_. False), hoNow = (\<lambda>w. (7, w)), hoPick = (\<lambda>w. (1, w))\<rparr>"

definition sampleConfig :: "nat loopConfig" where
  "sampleConfig = \<lparr>cfModel = \<lparr>lmId = ''m'', lmProvider = ''p'', lmSpec = JNull\<rparr>, cfReasoning = None, cfApiKey = None,
     cfStreamOptions = JNull, cfToolExecution = None, cfBeforeUserMessage = None, cfConvertToLlm = (\<lambda>ms w. (Inr ms, w)),
     cfTransformContext = None, cfGetApiKey = None,
     cfShouldStopAfterTurn = Some (\<lambda>t w. (Inr (4 \<le> length (ftNewMessages t)), w)), cfPrepareNextTurn = None,
     cfPrepareFollowUpTurn = None, cfGetSteeringMessages = None, cfGetFollowUpMessages = None,
     cfBeforeToolCall = None, cfAfterToolCall = None\<rparr>"

definition sampleContext :: "nat agentContext" where
  "sampleContext = \<lparr>acSystemPrompt = [], acMessages = [], acTools = Some [\<lparr>atName = ''t'', atSchema = JNull,
     atPrepareArguments = None, atExecute = (\<lambda>_ _ w. (([], Inl ''no''), w)), atExecutionMode = None\<rparr>]\<rparr>"

definition samplePrompt :: agent_message where
  "samplePrompt = UserMsg \<lparr>umContent = ContentText ''q'', umTimestamp = Some 0\<rparr>"

definition sampleStart :: "nat loopRun" where
  "sampleStart = \<lparr>lrTrace = [], lrWorld = 0\<rparr>"

text \<open>
  Evaluation of a concrete run: \<open>bindS_lazy\<close> keeps the simplifier out of the continuations until
  the action before them has been evaluated.
\<close>

lemma bindS_lazy: "bindS m f = bindS m f"
  by (rule refl)

lemmas runTasks_numeral = runTasks.simps(2) [where k = "pred_numeral v" for v, folded numeral_eq_Suc]

lemmas run_evaluation = Let_def runTasks_numeral bindS_def retS_def throwS_def call_def onWorld_def emit_def aborted_def each.simps
  finishStream_def streamEvents.simps pushMessage_def replaceLast_def orKey_def streamAssistantResponse_def
  findTool_def prepareToolCallArguments_def allowToolCall_def prepareToolCall_def emitAll.simps
  executePreparedToolCall_def finalizeExecutedToolCall_def emitToolExecutionStart_def emitToolExecutionEnd_def
  createToolResultMessage_def emitToolResultMessage_def reportResult_def createErrorToolResult_def
  preparedTasks.simps stepTask.simps unsettled_def runTasks.simps reportResults.simps executeToolCallsParallel_def
  toolCallsOf_def executeToolCalls_def shouldTerminateToolBatch_def map_filter_simps upt_rec
  beforeUser_def announce_def poll_def injectPending_def pushAll_def finishRun_def finishTurn_def settleTurn_def
  turn_def turnDue_def innerLoop.simps outerLoop.simps runLoop_def runAgentLoop_def applyTurnUpdate_def
  sampleHost_def sampleConfig_def sampleContext_def sampleStart_def sampleCalls_def sampleReply_def samplePrompt_def

lemma sampleCalls_return:
  "case fst (executeToolCalls sampleHost sampleConfig sampleContext sampleCalls sampleStart) of
     Inl _ \<Rightarrow> False | Inr r \<Rightarrow> length (fst r) = 2"
  by (simp add: run_evaluation del: bindS_Inr bindS_Inl cong: bindS_lazy)

lemma sampleRun_returns:
  "case fst (runAgentLoop sampleHost 1 sampleConfig [samplePrompt] sampleContext sampleStart) of
     Inl _ \<Rightarrow> False | Inr ms \<Rightarrow> length ms = 4"
  by (simp add: run_evaluation del: bindS_Inr bindS_Inl cong: bindS_lazy)

text \<open>
  C2: The life cycle of a run.  When a run returns, its events are \<open>agent_start\<close>, then complete
  turns, each with its messages opened, updated and closed one after the other and its tool events
  between messages, then \<open>agent_end\<close> with the messages the run returns; the messages whose end was
  reported are exactly the returned ones in order, and the prompts are the first of them.
\<close>

theorem agent_run_life_cycle:
  assumes "runAgentLoop host fuel config prompts context s = (Inr ms, s')"
  shows "\<exists>es. lrTrace s' = lrTrace s @ es \<and> phases Idle es = Some Finished \<and> last es = AgentEnd ms
    \<and> endedMessages es = ms \<and> take (length prompts) ms = prompts"
  using emits_runAgentLoop [of host fuel config prompts "context"] assms
  unfolding emits_def runEvents_def by blast

theorem agent_run_life_cycle_witness:
  "\<exists>ms (s' :: nat loopRun). length ms = 4 \<and> (\<exists>es. lrTrace s' = lrTrace sampleStart @ es \<and> phases Idle es = Some Finished
     \<and> last es = AgentEnd ms \<and> endedMessages es = ms \<and> take (length [samplePrompt]) ms = [samplePrompt])"
proof -
  obtain ms s' where "runAgentLoop sampleHost 1 sampleConfig [samplePrompt] sampleContext sampleStart = (Inr ms, s')"
    and "length ms = 4"
    using sampleRun_returns by (auto split: sum.splits) (metis prod.collapse)
  with agent_run_life_cycle [OF this(1)] show ?thesis by blast
qed

text \<open>
  C5: Tool calls are answered in order.  Whatever the tools, the hooks, the abort signal and the
  interleaving of concurrent executions, a batch that returns has started a prefix of the calls,
  each once and in order, reported the end of each of them exactly once, and answered them with one
  message each, in the order of the calls; it is the whole list unless the run was aborted.
\<close>

theorem tool_calls_answered_in_order:
  assumes "executeToolCalls host config context message s = (Inr (results, stops), s')"
  shows "\<exists>es. lrTrace s' = lrTrace s @ es
    \<and> map trToolCallId results = map tcId (take (length results) (toolCallsOf message))
    \<and> startedCalls es = map trToolCallId results \<and> mset (endedCalls es) = mset (startedCalls es)
    \<and> endedMessages es = map ToolResultMsg results
    \<and> (length results = length (toolCallsOf message) \<or> length results < length (toolCallsOf message) \<and> (\<exists>w. hoAborted host w))"
proof -
  have "emits (executeToolCalls host config context message) (\<lambda>r. answered host (toolCallsOf message) (fst r))"
    by (rule emits_executeToolCalls)
  with assms obtain es where "lrTrace s' = lrTrace s @ es" "answered host (toolCallsOf message) results es"
    unfolding emits_def by fastforce
  then show ?thesis by (auto simp: answered_def turnPart_def)
qed

theorem tool_calls_answered_in_order_witness:
  "\<exists>(results :: toolResultMessage list) (s' :: nat loopRun) es. length results = 2 \<and> lrTrace s' = lrTrace sampleStart @ es
    \<and> map trToolCallId results = [''1'', ''2''] \<and> mset (endedCalls es) = {#''1'', ''2''#}"
proof -
  obtain results stops s' where run: "executeToolCalls sampleHost sampleConfig sampleContext sampleCalls sampleStart
      = (Inr (results, stops), s')" and len: "length results = 2"
    using sampleCalls_return by (auto split: sum.splits) (metis prod.collapse)
  have ids: "map tcId (take 2 (toolCallsOf sampleCalls)) = [''1'', ''2'']" by code_simp
  obtain es where es: "lrTrace s' = lrTrace sampleStart @ es" "map trToolCallId results = [''1'', ''2'']"
    "mset (endedCalls es) = mset [''1'', ''2'']"
    using tool_calls_answered_in_order [OF run] unfolding len ids by metis
  show ?thesis
  proof (intro exI)
    show "length results = 2 \<and> lrTrace s' = lrTrace sampleStart @ es
      \<and> map trToolCallId results = [''1'', ''2''] \<and> mset (endedCalls es) = {#''1'', ''2''#}"
      using len es by simp
  qed
qed

text \<open>
  Tool failures are contained.  A missing tool, arguments that do not validate, a hook or a tool
  that throws never make a batch fail: it fails only with a failure of the event sink.
\<close>

theorem tool_failures_contained:
  "case fst (executeToolCalls host config context message s) of
     Inr _ \<Rightarrow> True
   | Inl fault \<Rightarrow> \<exists>ev w e. fst (hoEmit host ev w) = Inl e \<and> fault = Thrown e"
proof -
  let ?F = "\<lambda>fault. \<exists>ev w e. fst (hoEmit host ev w) = Inl e \<and> fault = Thrown e"
  have "raises (executeToolCalls host config context message) ?F"
    by (rule raises_executeToolCalls) (auto simp: sinkFaults_def)
  then show ?thesis
    unfolding raises_def
    by (cases "executeToolCalls host config context message s") (simp split: sum.split; blast)
qed



end
