(* ===== verification/JsonlStorage.thy ===== *)
theory JsonlStorage
  imports SessionStorage
begin

section \<open>The JSONL session file\<close>

text \<open>
  \<open>packages/agent/harness/session/jsonl-storage.ts\<close>: the storage that keeps a session in a file with
  one JSON text per line, a header first, and recovers the file from interrupted appends.

  The file system is a state with a script of faults: a call takes the next fault of the script, if
  any, and a failed write may have left any part of its text on the disk.  The text of an entry is the
  one \<open>JSON.stringify\<close> writes (\<open>jsonStringify\<close>); \<open>JSON.parse\<close> is the parameter \<open>parse\<close>, and the
  unchecked cast of a parsed value to an entry is the parameter \<open>entryOf\<close>.  What is relied on is that
  a value comes back as \<open>jsonTrip\<close> says: \<open>undefined\<close> properties are dropped, other undefined and
  non-finite values become \<open>null\<close>.

  The in-memory fields are those of the in-memory storage, whose code the class repeats; they are the
  field \<open>jsCache\<close>.  The storage is the second interpretation of \<open>session_storage\<close>.
\<close>

subsection \<open>The file system\<close>

record fileError =
  feNotFound :: bool
  feMessage :: string

text \<open>A fault leaves the file as it was, or with the first characters of the text written.\<close>

datatype fs_fault = NoFault | Refused fileError | Torn fileError nat

record sessionFile =
  sfContent :: "string option"
  sfFaults :: "fs_fault list"

definition nextFault :: "sessionFile \<Rightarrow> fs_fault" where
  "nextFault f = (case sfFaults f of [] \<Rightarrow> NoFault | x # _ \<Rightarrow> x)"

definition afterFault :: "sessionFile \<Rightarrow> sessionFile" where
  "afterFault f = f\<lparr>sfFaults := tl (sfFaults f)\<rparr>"

definition fsWriteFile :: "string \<Rightarrow> (sessionFile, fileError, unit) action" where
  "fsWriteFile content f = (case nextFault f of
     NoFault \<Rightarrow> (Inr (), (afterFault f)\<lparr>sfContent := Some content\<rparr>)
   | Refused e \<Rightarrow> (Inl e, afterFault f)
   | Torn e k \<Rightarrow> (Inl e, (afterFault f)\<lparr>sfContent := Some (take k content)\<rparr>))"

definition contentOf :: "sessionFile \<Rightarrow> string" where
  "contentOf f = (case sfContent f of None \<Rightarrow> [] | Some c \<Rightarrow> c)"

definition fsAppendFile :: "string \<Rightarrow> (sessionFile, fileError, unit) action" where
  "fsAppendFile content f = (case nextFault f of
     NoFault \<Rightarrow> (Inr (), (afterFault f)\<lparr>sfContent := Some (contentOf f @ content)\<rparr>)
   | Refused e \<Rightarrow> (Inl e, afterFault f)
   | Torn e k \<Rightarrow> (Inl e, (afterFault f)\<lparr>sfContent := Some (contentOf f @ take k content)\<rparr>))"

definition fsReadTextFile :: "(sessionFile, fileError, string) action" where
  "fsReadTextFile f = (case nextFault f of
     NoFault \<Rightarrow> (case sfContent f of
         None \<Rightarrow> (Inl \<lparr>feNotFound = True, feMessage = ''not found''\<rparr>, afterFault f)
       | Some c \<Rightarrow> (Inr c, afterFault f))
   | Refused e \<Rightarrow> (Inl e, afterFault f)
   | Torn e _ \<Rightarrow> (Inl e, afterFault f))"

definition getFileSystemResultOrThrow :: "fileError + 'a \<Rightarrow> string \<Rightarrow> storage_error + 'a" where
  "getFileSystemResultOrThrow r message = (case r of
     Inr a \<Rightarrow> Inr a
   | Inl e \<Rightarrow> Inl (SessionError (if feNotFound e then NotFound else StorageFailure) (message @ '': '' @ feMessage e)))"

subsection \<open>Lines\<close>

record sessionHeader =
  shId :: string
  shTimestamp :: string
  shCwd :: string
  shParentSession :: "string option"

record sessionMetadata =
  smId :: string
  smCreatedAt :: string
  smCwd :: string
  smPath :: string
  smParentSessionPath :: "string option"

definition headerToSessionMetadata :: "sessionHeader \<Rightarrow> string \<Rightarrow> sessionMetadata" where
  "headerToSessionMetadata header path = \<lparr>smId = shId header, smCreatedAt = shTimestamp header, smCwd = shCwd header,
     smPath = path, smParentSessionPath = shParentSession header\<rparr>"

definition headerToJson :: "sessionHeader \<Rightarrow> json" where
  "headerToJson h = JObj [(''type'', JStr ''session''), (''version'', JNum 3), (''id'', JStr (shId h)),
     (''timestamp'', JStr (shTimestamp h)), (''cwd'', JStr (shCwd h)),
     (''parentSession'', case shParentSession h of None \<Rightarrow> JUndefined | Some p \<Rightarrow> JStr p)]"

definition lineOf :: "json \<Rightarrow> string" where
  "lineOf v = the (jsonStringify v) @ nl"

definition invalidSession :: "string \<Rightarrow> string \<Rightarrow> storage_error" where
  "invalidSession filePath message =
    SessionError InvalidSession (''Invalid JSONL session file '' @ filePath @ '': '' @ message)"

definition invalidEntry :: "string \<Rightarrow> nat \<Rightarrow> string \<Rightarrow> storage_error" where
  "invalidEntry filePath lineNumber message = SessionError InvalidEntry
    (''Invalid JSONL session file '' @ filePath @ '': line '' @ natToString lineNumber @ '' '' @ message)"

definition isObjectValue :: "json \<Rightarrow> bool" where
  "isObjectValue v = (case v of JObj _ \<Rightarrow> True | JArr _ \<Rightarrow> True | _ \<Rightarrow> False)"

text \<open>\<open>typeof v.k === "string" && v.k\<close>: a non-empty text.\<close>

definition textField :: "json \<Rightarrow> string \<Rightarrow> string option" where
  "textField v k = (case jsonField v k of Some (JStr (c # s)) \<Rightarrow> Some (c # s) | _ \<Rightarrow> None)"

definition parseHeaderLine :: "(string \<Rightarrow> json option) \<Rightarrow> string \<Rightarrow> string \<Rightarrow> storage_error + sessionHeader" where
  "parseHeaderLine parse line filePath = (case parse line of
     None \<Rightarrow> Inl (invalidSession filePath ''first line is not a valid session header'')
   | Some v \<Rightarrow>
       if \<not> isObjectValue v \<or> jsonField v ''type'' \<noteq> Some (JStr ''session'')
       then Inl (invalidSession filePath ''first line is not a valid session header'')
       else if jsonField v ''version'' \<noteq> Some (JNum 3) then Inl (invalidSession filePath ''unsupported session version'')
       else (case textField v ''id'' of
         None \<Rightarrow> Inl (invalidSession filePath ''session header is missing id'')
       | Some i \<Rightarrow> (case textField v ''timestamp'' of
           None \<Rightarrow> Inl (invalidSession filePath ''session header is missing timestamp'')
         | Some t \<Rightarrow> (case textField v ''cwd'' of
             None \<Rightarrow> Inl (invalidSession filePath ''session header is missing cwd'')
           | Some cwd \<Rightarrow> (case jsonField v ''parentSession'' of
               None \<Rightarrow> Inr \<lparr>shId = i, shTimestamp = t, shCwd = cwd, shParentSession = None\<rparr>
             | Some (JStr p) \<Rightarrow> Inr \<lparr>shId = i, shTimestamp = t, shCwd = cwd, shParentSession = Some p\<rparr>
             | Some _ \<Rightarrow> Inl (invalidSession filePath ''session header parentSession must be a string''))))))"

text \<open>The checks of \<open>parseEntryLine\<close>; the parsed value itself is the entry.\<close>

definition nullOrString :: "json option \<Rightarrow> bool" where
  "nullOrString v = (case v of Some JNull \<Rightarrow> True | Some (JStr _) \<Rightarrow> True | _ \<Rightarrow> False)"

definition parseEntryLine :: "(string \<Rightarrow> json option) \<Rightarrow> string \<Rightarrow> string \<Rightarrow> nat \<Rightarrow> storage_error + json" where
  "parseEntryLine parse line filePath lineNumber = (case parse line of
     None \<Rightarrow> Inl (invalidEntry filePath lineNumber ''is not valid JSON'')
   | Some v \<Rightarrow>
       if \<not> isObjectValue v then Inl (invalidEntry filePath lineNumber ''is not a valid session entry'')
       else if (case jsonField v ''type'' of Some (JStr _) \<Rightarrow> False | _ \<Rightarrow> True)
       then Inl (invalidEntry filePath lineNumber ''is missing entry type'')
       else if textField v ''id'' = None then Inl (invalidEntry filePath lineNumber ''is missing entry id'')
       else if \<not> nullOrString (jsonField v ''parentId'') then Inl (invalidEntry filePath lineNumber ''has invalid parentId'')
       else if textField v ''timestamp'' = None then Inl (invalidEntry filePath lineNumber ''is missing timestamp'')
       else if jsonField v ''type'' = Some (JStr ''leaf'') \<and> \<not> nullOrString (jsonField v ''targetId'')
       then Inl (invalidEntry filePath lineNumber ''has invalid targetId'')
       else Inr v)"

text \<open>
  The lines after the header, from line number \<open>n\<close>: the last one is without newline when \<open>tail\<close>
  holds, and is dropped then unless it is empty.
\<close>

fun parseLines :: "(string \<Rightarrow> json option) \<Rightarrow> (json \<Rightarrow> entry) \<Rightarrow> string \<Rightarrow> bool \<Rightarrow> nat \<Rightarrow> string list \<Rightarrow> storage_error + (entry list \<times> bool)" where
  "parseLines parse entryOf filePath tail n [] = Inr ([], False)"
| "parseLines parse entryOf filePath tail n (line # lines) =
    (if lines = [] \<and> tail \<and> line \<noteq> [] then Inr ([], True)
     else if trim line = [] then parseLines parse entryOf filePath tail (Suc n) lines
     else andThen (parseEntryLine parse line filePath n) (\<lambda>v.
       andThen (parseLines parse entryOf filePath tail (Suc n) lines) (\<lambda>(es, removed). Inr (entryOf v # es, removed))))"

definition endsWithNewline :: "string \<Rightarrow> bool" where
  "endsWithNewline s = (s \<noteq> [] \<and> last s = hd nl)"

text \<open>\<open>loadJsonlStorage\<close> up to the rewrite: the header, the entries, and whether the file must be rewritten.\<close>

definition parseSessionText :: "(string \<Rightarrow> string) \<Rightarrow> (string \<Rightarrow> json option) \<Rightarrow> (json \<Rightarrow> entry) \<Rightarrow> string \<Rightarrow> string
    \<Rightarrow> storage_error + (sessionHeader \<times> entry list \<times> bool)" where
  "parseSessionText sha parse entryOf filePath content =
    (let lines = splitOn (hd nl) content in
     if trim (hd lines) = [] then Inl (invalidSession filePath ''missing session header'')
     else andThen (parseHeaderLine parse (hd lines) filePath) (\<lambda>header.
       let needsFinalNewline = \<not> endsWithNewline content in
       andThen (parseLines parse entryOf filePath needsFinalNewline 2 (tl lines)) (\<lambda>(parsed, removedInterruptedTail).
       let committed = filterCommittedTransactionEntries sha parsed;
           removedTransactions = crDiagnostics committed \<noteq> [] \<or> length (crEntries committed) \<noteq> length parsed
       in Inr (header, crEntries committed, needsFinalNewline \<or> removedInterruptedTail \<or> removedTransactions))))"

definition sessionText :: "sessionHeader \<Rightarrow> entry list \<Rightarrow> string" where
  "sessionText header entries = lineOf (headerToJson header) @ concat (map (\<lambda>e. lineOf (entryToJson e)) entries)"

definition loadJsonlStorage :: "(string \<Rightarrow> string) \<Rightarrow> (string \<Rightarrow> json option) \<Rightarrow> (json \<Rightarrow> entry) \<Rightarrow> string
    \<Rightarrow> (sessionFile, storage_error, sessionHeader \<times> entry list \<times> string option) action" where
  "loadJsonlStorage sha parse entryOf filePath f =
    (case fsReadTextFile f of (r, f1) \<Rightarrow>
     case andThen (getFileSystemResultOrThrow r (''Failed to read session '' @ filePath))
            (parseSessionText sha parse entryOf filePath) of
       Inl e \<Rightarrow> (Inl e, f1)
     | Inr (header, entries, rewrite) \<Rightarrow>
         let result = (header, entries, foldl (\<lambda>_ e. leafIdAfterEntry e) None entries) in
         if rewrite
         then (case fsWriteFile (sessionText header entries) f1 of (w, f2) \<Rightarrow>
           (andThen (getFileSystemResultOrThrow w (''Failed to recover session '' @ filePath)) (\<lambda>_. Inr result), f2))
         else (Inr result, f1))"

definition loadJsonlSessionMetadata :: "(string \<Rightarrow> json option) \<Rightarrow> string \<Rightarrow> fileError + string list
    \<Rightarrow> storage_error + sessionMetadata" where
  "loadJsonlSessionMetadata parse filePath firstLines =
    andThen (getFileSystemResultOrThrow firstLines (''Failed to read session header '' @ filePath)) (\<lambda>lines.
    case lines of
      [] \<Rightarrow> Inl (invalidSession filePath ''missing session header'')
    | line # _ \<Rightarrow> if trim line = [] then Inl (invalidSession filePath ''missing session header'')
        else andThen (parseHeaderLine parse line filePath) (\<lambda>h. Inr (headerToSessionMetadata h filePath)))"

subsection \<open>The storage\<close>

record jsonlStorage =
  jsFile :: sessionFile
  jsFilePath :: string
  jsHeader :: sessionHeader
  jsCache :: memoryStorage
  jsPoisoned :: "string option"

definition jsonlStorageOf :: "sessionFile \<Rightarrow> string \<Rightarrow> sessionHeader \<Rightarrow> entry list \<Rightarrow> string option \<Rightarrow> uuidState \<Rightarrow> jsonlStorage" where
  "jsonlStorageOf f filePath header entries leafId uuid = \<lparr>jsFile = f, jsFilePath = filePath, jsHeader = header,
     jsCache = \<lparr>msEntries = entries, msById = addById (\<lambda>_. None) entries, msEntryIds = eId ` set entries,
       msTransactionIds = buildTransactionIds entries, msLabelsById = buildLabelsById entries,
       msLeafId = leafId, msUuid = uuid\<rparr>,
     jsPoisoned = None\<rparr>"

definition openJsonlStorage :: "(string \<Rightarrow> string) \<Rightarrow> (string \<Rightarrow> json option) \<Rightarrow> (json \<Rightarrow> entry) \<Rightarrow> string \<Rightarrow> uuidState
    \<Rightarrow> sessionFile \<Rightarrow> storage_error + jsonlStorage" where
  "openJsonlStorage sha parse entryOf filePath uuid f = (case loadJsonlStorage sha parse entryOf filePath f of
     (Inl e, _) \<Rightarrow> Inl e
   | (Inr (header, entries, leafId), f') \<Rightarrow> Inr (jsonlStorageOf f' filePath header entries leafId uuid))"

definition createJsonlStorage :: "string \<Rightarrow> string \<Rightarrow> string \<Rightarrow> string \<Rightarrow> string option \<Rightarrow> uuidState \<Rightarrow> sessionFile
    \<Rightarrow> storage_error + jsonlStorage" where
  "createJsonlStorage filePath now cwd sessionId parentSessionPath uuid f =
    (let header = \<lparr>shId = sessionId, shTimestamp = now, shCwd = cwd, shParentSession = parentSessionPath\<rparr> in
     case fsWriteFile (lineOf (headerToJson header)) f of (w, f') \<Rightarrow>
     andThen (getFileSystemResultOrThrow w (''Failed to create session '' @ filePath)) (\<lambda>_.
     Inr (jsonlStorageOf f' filePath header [] None uuid)))"

definition canonicalContent :: "jsonlStorage \<Rightarrow> string" where
  "canonicalContent st = sessionText (jsHeader st) (msEntries (jsCache st))"

definition errorMessage :: "storage_error \<Rightarrow> string" where
  "errorMessage e = (case e of SessionError _ m \<Rightarrow> m | TransactionError _ \<Rightarrow> [])"

definition poisonedError :: storage_error where
  "poisonedError = SessionError StorageFailure ''Session storage recovery failed; reopen the session before appending''"

definition recoverAppend :: "storage_error \<Rightarrow> (jsonlStorage, storage_error, unit) action" where
  "recoverAppend appendError st = (case fsWriteFile (canonicalContent st) (jsFile st) of (w, f) \<Rightarrow>
     (case getFileSystemResultOrThrow w (''Failed to recover session '' @ jsFilePath st) of
       Inr _ \<Rightarrow> (Inl appendError, st\<lparr>jsFile := f\<rparr>)
     | Inl recoveryError \<Rightarrow>
         (let message = ''Failed to append session entries ('' @ errorMessage appendError @ '') and recover session (''
                @ errorMessage recoveryError @ ''); reopen the session before appending''
          in (Inl (SessionError StorageFailure message), st\<lparr>jsFile := f, jsPoisoned := Some message\<rparr>))))"

definition jsonlAppendEntries :: "(string \<Rightarrow> string) \<Rightarrow> entry list \<Rightarrow> expected_leaf \<Rightarrow> (jsonlStorage, storage_error, unit) action" where
  "jsonlAppendEntries sha entries options st =
    (if jsPoisoned st \<noteq> None then (Inl poisonedError, st)
     else case appendEntriesNow sha entries options (jsCache st) of
       Inl e \<Rightarrow> (Inl e, st)
     | Inr cache \<Rightarrow>
         if entries = [] then (Inr (), st)
         else (case fsAppendFile (concat (map (\<lambda>e. lineOf (entryToJson e)) entries)) (jsFile st) of (w, f) \<Rightarrow>
           (case getFileSystemResultOrThrow w ''Failed to append session entries'' of
             Inl appendError \<Rightarrow> recoverAppend appendError (st\<lparr>jsFile := f\<rparr>)
           | Inr _ \<Rightarrow> (Inr (), st\<lparr>jsFile := f, jsCache := cache\<rparr>))))"

definition jsonlGetLeafId :: "(jsonlStorage, storage_error, string option) action" where
  "jsonlGetLeafId st = (fst (memGetLeafId (jsCache st)), st)"

definition jsonlCreateEntryId :: "uuidEnv \<Rightarrow> (jsonlStorage, storage_error, string) action" where
  "jsonlCreateEntryId env st = (let (i, uuid) = generateEntryId env (\<lambda>i. msById (jsCache st) i \<noteq> None) (msUuid (jsCache st))
     in (Inr i, st\<lparr>jsCache := (jsCache st)\<lparr>msUuid := uuid\<rparr>\<rparr>))"

definition jsonlSetLeafId :: "(string \<Rightarrow> string) \<Rightarrow> uuidEnv \<Rightarrow> string \<Rightarrow> string option \<Rightarrow> (jsonlStorage, storage_error, unit) action" where
  "jsonlSetLeafId sha env now leafId st =
    (if (case leafId of None \<Rightarrow> False | Some l \<Rightarrow> msById (jsCache st) l = None)
     then (Inl (SessionError NotFound (''Entry '' @ the leafId @ '' not found'')), st)
     else bindS (jsonlCreateEntryId env) (\<lambda>i. jsonlAppendEntries sha
       [\<lparr>eId = i, eParent = msLeafId (jsCache st), eTimestamp = now, eTx = None, eKind = LeafEntry leafId\<rparr>] NoExpectation) st)"

definition jsonlGetPathToRoot :: "string option \<Rightarrow> jsonlStorage \<Rightarrow> (storage_error + entry list) option" where
  "jsonlGetPathToRoot leafId st = memGetPathToRoot leafId (jsCache st)"

definition jsonlOps :: "(string \<Rightarrow> string) \<Rightarrow> uuidEnv \<Rightarrow> jsonlStorage storageOps" where
  "jsonlOps sha env = \<lparr>opGetLeafId = jsonlGetLeafId, opSetLeafId = jsonlSetLeafId sha env,
     opCreateEntryId = jsonlCreateEntryId env, opAppendEntries = jsonlAppendEntries sha,
     opGetEntry = (\<lambda>i st. msById (jsCache st) i),
     opFindEntries = (\<lambda>type st. filter (\<lambda>e. entryType e = type) (msEntries (jsCache st))),
     opGetLabel = (\<lambda>i st. msLabelsById (jsCache st) i), opGetPathToRoot = jsonlGetPathToRoot,
     opGetEntries = (\<lambda>st. msEntries (jsCache st))\<rparr>"

subsection \<open>The file mirrors the entries\<close>

definition jsonlInv :: "(string \<Rightarrow> string) \<Rightarrow> jsonlStorage \<Rightarrow> bool" where
  "jsonlInv sha st \<longleftrightarrow> memInv sha (jsCache st)
     \<and> (jsPoisoned st = None \<longrightarrow> sfContent (jsFile st) = Some (canonicalContent st))"

lemma getResult_Inr [simp]: "getFileSystemResultOrThrow r m = Inr a \<longleftrightarrow> r = Inr a"
  by (cases r) (simp_all add: getFileSystemResultOrThrow_def)

lemma fsWriteFile_Inr: "fsWriteFile c f = (Inr u, f') \<Longrightarrow> sfContent f' = Some c"
  by (auto simp: fsWriteFile_def split: fs_fault.splits)

lemma fsAppendFile_Inr: "fsAppendFile c f = (Inr u, f') \<Longrightarrow> sfContent f' = Some (contentOf f @ c)"
  by (auto simp: fsAppendFile_def split: fs_fault.splits)

lemma sessionText_append:
  "sessionText h (es @ bs) = sessionText h es @ concat (map (\<lambda>e. lineOf (entryToJson e)) bs)"
  by (simp add: sessionText_def)

lemma recoverAppend_outcome:
  assumes "memInv sha (jsCache st)" "jsPoisoned st = None"
  shows "\<exists>e st'. recoverAppend err st = (Inl e, st') \<and> jsonlInv sha st' \<and> jsCache st' = jsCache st \<and> jsHeader st' = jsHeader st"
proof -
  obtain w f where w: "fsWriteFile (canonicalContent st) (jsFile st) = (w, f)" by fastforce
  show ?thesis
  proof (cases w)
    case (Inr u)
    then show ?thesis using w assms fsWriteFile_Inr [of "canonicalContent st" "jsFile st" u f]
      by (simp add: recoverAppend_def jsonlInv_def canonicalContent_def getFileSystemResultOrThrow_def)
  next
    case (Inl e)
    then show ?thesis using w assms
      by (simp add: recoverAppend_def jsonlInv_def getFileSystemResultOrThrow_def Let_def)
  qed
qed

lemma jsonlAppend_outcome:
  assumes inv: "jsonlInv sha st" and run: "jsonlAppendEntries sha es x st = (r, st')"
  shows "jsonlInv sha st' \<and> jsHeader st' = jsHeader st
    \<and> (case r of Inr _ \<Rightarrow> msEntries (jsCache st') = msEntries (jsCache st) @ es \<and> jsPoisoned st' = None
       | Inl _ \<Rightarrow> jsCache st' = jsCache st)"
proof (cases "jsPoisoned st = None")
  case False
  then show ?thesis using assms by (auto simp: jsonlAppendEntries_def)
next
  case healthy: True
  show ?thesis
  proof (cases "appendEntriesNow sha es x (jsCache st)")
    case (Inl e)
    then show ?thesis using healthy assms by (auto simp: jsonlAppendEntries_def)
  next
    case (Inr cache)
    have cache: "memInv sha cache" "msEntries cache = msEntries (jsCache st) @ es"
      using memInv_append [OF _ Inr] inv by (auto simp: jsonlInv_def)
    let ?text = "concat (map (\<lambda>e. lineOf (entryToJson e)) es)"
    obtain w f where w: "fsAppendFile ?text (jsFile st) = (w, f)" by fastforce
    show ?thesis
    proof (cases "es = [] \<or> isl w")
      case True
      show ?thesis
      proof (cases "es = []")
        case False
        with True obtain e where e: "w = Inl e" by (cases w) auto
        obtain err where "jsonlAppendEntries sha es x st = recoverAppend err (st\<lparr>jsFile := f\<rparr>)"
          using healthy Inr False w e by (simp add: jsonlAppendEntries_def getFileSystemResultOrThrow_def)
        moreover have "memInv sha (jsCache (st\<lparr>jsFile := f\<rparr>))" "jsPoisoned (st\<lparr>jsFile := f\<rparr>) = None"
          using inv healthy by (simp_all add: jsonlInv_def)
        ultimately show ?thesis using run recoverAppend_outcome [of sha "st\<lparr>jsFile := f\<rparr>" err] by auto
      qed (use run healthy Inr assms in \<open>auto simp: jsonlAppendEntries_def\<close>)
    next
      case False
      then obtain u where u: "w = Inr u" "es \<noteq> []" by (cases w) auto
      have st': "r = Inr ()" "st' = st\<lparr>jsFile := f, jsCache := cache\<rparr>"
        using run healthy Inr u w by (auto simp: jsonlAppendEntries_def getFileSystemResultOrThrow_def)
      have "sfContent f = Some (canonicalContent st @ ?text)"
        using fsAppendFile_Inr [of ?text "jsFile st" u f] w u(1) inv healthy
        by (simp add: jsonlInv_def contentOf_def)
      then show ?thesis using st' cache healthy
        by (simp add: jsonlInv_def canonicalContent_def sessionText_append)
    qed
  qed
qed

lemma jsonlInv_uuid [simp]: "jsonlInv sha (st\<lparr>jsCache := (jsCache st)\<lparr>msUuid := u\<rparr>\<rparr>) = jsonlInv sha st"
  by (simp add: jsonlInv_def canonicalContent_def)

lemma jsonlSetLeaf_outcome:
  assumes inv: "jsonlInv sha st" and run: "jsonlSetLeafId sha env now l st = (r, st')"
  shows "jsonlInv sha st' \<and> (case r of
     Inr _ \<Rightarrow> (\<exists>e. msEntries (jsCache st') = msEntries (jsCache st) @ [e] \<and> eTx e = None)
       \<and> leafOf (msEntries (jsCache st')) = l \<and> leafValid (msEntries (jsCache st'))
   | Inl _ \<Rightarrow> msEntries (jsCache st') = msEntries (jsCache st))"
proof (cases "case l of None \<Rightarrow> False | Some i \<Rightarrow> msById (jsCache st) i = None")
  case True
  then have "r = Inl (SessionError NotFound (''Entry '' @ the l @ '' not found'')) \<and> st' = st"
    using run by (simp add: jsonlSetLeafId_def)
  then show ?thesis using inv by simp
next
  case False
  obtain i u where i: "generateEntryId env (\<lambda>i. msById (jsCache st) i \<noteq> None) (msUuid (jsCache st)) = (i, u)" by fastforce
  let ?st = "st\<lparr>jsCache := (jsCache st)\<lparr>msUuid := u\<rparr>\<rparr>"
  let ?e = "\<lparr>eId = i, eParent = msLeafId (jsCache st), eTimestamp = now, eTx = None, eKind = LeafEntry l\<rparr>"
  have create: "jsonlCreateEntryId env st = (Inr i, ?st)" using i by (simp add: jsonlCreateEntryId_def)
  have run': "jsonlAppendEntries sha [?e] NoExpectation ?st = (r, st')"
    using run False unfolding jsonlSetLeafId_def bindS_def create by simp
  have known: "case l of None \<Rightarrow> True | Some x \<Rightarrow> x \<in> eId ` set (msEntries (jsCache st))"
    using False memInv_has [of sha "jsCache st"] inv by (auto simp: jsonlInv_def split: option.splits)
  have inv': "jsonlInv sha ?st" using inv by simp
  show ?thesis using jsonlAppend_outcome [OF inv' run'] known
    by (cases r) (auto simp: leafValid_def leafIdAfterEntry_def split: option.splits)
qed

interpretation jsonl: session_storage "jsonlOps sha env" sha "jsonlInv sha" for sha env
proof (unfold_locales, goal_cases)
  case (1 st)
  then show ?case by (simp add: jsonlOps_def jsonlInv_def memInv_def)
next
  case (2 st)
  then have "memInv sha (jsCache st)" by (simp add: jsonlInv_def)
  from mem.getLeafId [OF this] 2 show ?case by (simp add: jsonlOps_def jsonlGetLeafId_def memoryOps_def)
next
  case (3 st i)
  then show ?case using memInv_byId [of sha "jsCache st" i] by (simp add: jsonlOps_def jsonlInv_def)
next
  case (4 st i)
  then show ?case using memGetPathToRoot_path [of sha "jsCache st" i] by (simp add: jsonlOps_def jsonlGetPathToRoot_def jsonlInv_def)
next
  case (5 st)
  show ?case by (simp add: jsonlOps_def jsonlGetPathToRoot_def memGetPathToRoot_def)
next
  case (6 st)
  then show ?case
    by (cases "generateEntryId env (\<lambda>i. msById (jsCache st) i \<noteq> None) (msUuid (jsCache st))")
      (simp add: jsonlOps_def jsonlCreateEntryId_def)
next
  case (7 st es x st')
  then show ?case using jsonlAppend_outcome [of sha st es x "Inr ()" st'] by (simp add: jsonlOps_def)
next
  case (8 st es x err st')
  then show ?case using jsonlAppend_outcome [of sha st es x "Inl err" st'] by (simp add: jsonlOps_def)
next
  case (9 st now l st')
  then show ?case using jsonlSetLeaf_outcome [of sha st env now l "Inr ()" st'] by (simp add: jsonlOps_def)
next
  case (10 st now l st')
  then show ?case using jsonlSetLeaf_outcome [of sha st env now l "Inr ()" st'] by (auto simp: jsonlOps_def)
next
  case (11 st now l err st')
  then show ?case using jsonlSetLeaf_outcome [of sha st env now l "Inl err" st'] by (simp add: jsonlOps_def)
qed

subsection \<open>Reading the file back\<close>

text \<open>What \<open>JSON.parse\<close> makes of the text that \<open>JSON.stringify\<close> writes for a value.\<close>

fun jsonTrip :: "json \<Rightarrow> json" where
  "jsonTrip JNonFinite = JNull"
| "jsonTrip (JArr xs) = JArr (map (\<lambda>x. if x = JUndefined then JNull else jsonTrip x) xs)"
| "jsonTrip (JObj kvs) = JObj (concat (map (\<lambda>(k, v). if v = JUndefined then [] else [(k, jsonTrip v)]) kvs))"
| "jsonTrip v = v"

definition textOf :: "json \<Rightarrow> string" where
  "textOf v = the (jsonStringify v)"

text \<open>The contract of \<open>JSON.parse\<close> and of the cast on one value: its text is one line and comes back.\<close>

definition parsesBack :: "(string \<Rightarrow> json option) \<Rightarrow> json \<Rightarrow> bool" where
  "parsesBack parse v \<longleftrightarrow> hd nl \<notin> set (textOf v) \<and> parse (textOf v) = Some (jsonTrip v)"

definition readsBack :: "(string \<Rightarrow> json option) \<Rightarrow> (json \<Rightarrow> entry) \<Rightarrow> entry \<Rightarrow> bool" where
  "readsBack parse entryOf e \<longleftrightarrow> parsesBack parse (entryToJson e) \<and> entryOf (jsonTrip (entryToJson e)) = e \<and> eTimestamp e \<noteq> []"

definition headerReadsBack :: "(string \<Rightarrow> json option) \<Rightarrow> sessionHeader \<Rightarrow> bool" where
  "headerReadsBack parse h \<longleftrightarrow> parsesBack parse (headerToJson h) \<and> shId h \<noteq> [] \<and> shTimestamp h \<noteq> [] \<and> shCwd h \<noteq> []"

lemma lineOf_textOf: "lineOf v = textOf v @ [hd nl]"
  by (simp add: lineOf_def textOf_def nl_def)

lemma splitOn_line: "c \<notin> set l \<Longrightarrow> splitOn c (l @ c # r) = l # splitOn c r"
  by (induction l) auto

lemma splitOn_rest: "c \<notin> set l \<Longrightarrow> splitOn c l = [l]"
  by (induction l) auto

lemma splitOn_lines:
  "\<forall>l \<in> set ls. c \<notin> set l \<Longrightarrow> c \<notin> set r \<Longrightarrow> splitOn c (concat (map (\<lambda>l. l @ [c]) ls) @ r) = ls @ [r]"
  by (induction ls) (auto simp: splitOn_line splitOn_rest)

text \<open>A torn text: complete lines, then a part of the next one.\<close>

lemma take_lines:
  "\<exists>n r. n \<le> length ls \<and> take k (concat (map (\<lambda>l. l @ [c]) ls)) = concat (map (\<lambda>l. l @ [c]) (take n ls)) @ r
     \<and> (r = [] \<or> (\<exists>l \<in> set ls. set r \<subseteq> set l))"
proof (induction ls arbitrary: k)
  case (Cons l ls)
  show ?case
  proof (cases "k \<le> length l")
    case True
    then have "take k (concat (map (\<lambda>l. l @ [c]) (l # ls))) = concat (map (\<lambda>l. l @ [c]) (take 0 (l # ls))) @ take k l"
      by simp
    then show ?thesis using set_take_subset [of k l] by (metis le0 list.set_intros(1))
  next
    case False
    then obtain j where j: "k = length l + 1 + j" by (metis Suc_eq_plus1 add.commute less_iff_Suc_add not_le add_Suc_right)
    obtain n r where n: "n \<le> length ls"
        "take j (concat (map (\<lambda>l. l @ [c]) ls)) = concat (map (\<lambda>l. l @ [c]) (take n ls)) @ r"
        "r = [] \<or> (\<exists>l \<in> set ls. set r \<subseteq> set l)" using Cons.IH [of j] by blast
    then have "take k (concat (map (\<lambda>l. l @ [c]) (l # ls))) = concat (map (\<lambda>l. l @ [c]) (take (Suc n) (l # ls))) @ r"
      by (simp add: j)
    then show ?thesis using n by (intro exI [of _ "Suc n"] exI [of _ r]) auto
  qed
qed simp

lemma trim_nonempty: "x \<in> set s \<Longrightarrow> \<not> jsWhitespace x \<Longrightarrow> trim s \<noteq> []"
proof -
  assume x: "x \<in> set s" "\<not> jsWhitespace x"
  have "dropWhile jsWhitespace s \<noteq> []" using x by (auto simp: dropWhile_eq_Nil_conv)
  then have "hd (dropWhile jsWhitespace s) \<in> set (dropWhile jsWhitespace s)" "\<not> jsWhitespace (hd (dropWhile jsWhitespace s))"
    by (simp_all add: hd_dropWhile)
  then have "dropWhile jsWhitespace (rev (dropWhile jsWhitespace s)) \<noteq> []"
    unfolding dropWhile_eq_Nil_conv by auto
  then show ?thesis by (simp add: trim_def)
qed

lemma trim_object: "trim (textOf (JObj kvs)) \<noteq> []"
  by (rule trim_nonempty [of "CHR 0x7B"]) (simp_all add: textOf_def jsWhitespace_def)

lemma entryToJson_object: "\<exists>kvs. entryToJson e = JObj kvs"
  by (simp add: entryToJson_def)

lemma nullable_trip [simp]: "jsonTrip (nullable p) = nullable p" "nullable p \<noteq> JUndefined" "nullOrString (Some (nullable p))"
  by (cases p; simp add: nullable_def nullOrString_def)+

lemma jsonTrip_entry:
  "\<exists>rest. jsonTrip (entryToJson e) = JObj ([(''type'', JStr (entryType e)), (''id'', JStr (eId e)),
     (''parentId'', nullable (eParent e)), (''timestamp'', JStr (eTimestamp e))] @ rest)"
  by (simp add: entryToJson_def)

lemma jsonTrip_leaf:
  "entryType e = ''leaf'' \<Longrightarrow> \<exists>t. jsonField (jsonTrip (entryToJson e)) ''targetId'' = Some (nullable t)"
  by (cases "eKind e"; cases "eTx e") (auto simp: entryType_def entryToJson_def entryKindToJson_def)

lemma textField_Cons: "v \<noteq> [] \<Longrightarrow> jsonField j k = Some (JStr v) \<Longrightarrow> textField j k = Some v"
  by (cases v) (simp_all add: textField_def)

lemma parseEntryLine_readsBack:
  assumes "readsBack parse entryOf e" "eId e \<noteq> []"
  shows "parseEntryLine parse (textOf (entryToJson e)) filePath n = Inr (jsonTrip (entryToJson e))"
proof -
  let ?j = "jsonTrip (entryToJson e)"
  obtain rest where j: "?j = JObj ([(''type'', JStr (entryType e)), (''id'', JStr (eId e)),
     (''parentId'', nullable (eParent e)), (''timestamp'', JStr (eTimestamp e))] @ rest)" using jsonTrip_entry by blast
  have "textField ?j ''id'' = Some (eId e)" "textField ?j ''timestamp'' = Some (eTimestamp e)"
    using assms by (auto simp: j readsBack_def intro!: textField_Cons)
  moreover have "jsonField ?j ''type'' = Some (JStr (entryType e))" "jsonField ?j ''parentId'' = Some (nullable (eParent e))"
    "isObjectValue ?j" by (simp_all add: j isObjectValue_def)
  moreover have "entryType e = ''leaf'' \<longrightarrow> nullOrString (jsonField ?j ''targetId'')" using jsonTrip_leaf by fastforce
  moreover have "parse (textOf (entryToJson e)) = Some ?j" using assms(1) by (simp add: readsBack_def parsesBack_def)
  ultimately show ?thesis by (simp add: parseEntryLine_def)
qed

lemma parseHeaderLine_readsBack:
  assumes "headerReadsBack parse h"
  shows "parseHeaderLine parse (textOf (headerToJson h)) filePath = Inr h"
proof -
  obtain c i where i: "shId h = c # i" using assms by (cases "shId h") (auto simp: headerReadsBack_def)
  obtain d ts where ts: "shTimestamp h = d # ts" using assms by (cases "shTimestamp h") (auto simp: headerReadsBack_def)
  obtain a cwd where cwd: "shCwd h = a # cwd" using assms by (cases "shCwd h") (auto simp: headerReadsBack_def)
  show ?thesis using assms i ts cwd
    by (cases h; cases "shParentSession h")
      (auto simp: headerReadsBack_def parsesBack_def parseHeaderLine_def headerToJson_def isObjectValue_def textField_def)
qed

lemma parseLines_readsBack:
  "\<forall>e \<in> set es. readsBack parse entryOf e \<and> eId e \<noteq> [] \<Longrightarrow>
   parseLines parse entryOf filePath (r \<noteq> []) n (map (\<lambda>e. textOf (entryToJson e)) es @ [r]) = Inr (es, r \<noteq> [])"
proof (induction es arbitrary: n)
  case Nil
  show ?case by (simp add: trim_def)
next
  case (Cons e es)
  obtain kvs where "entryToJson e = JObj kvs" using entryToJson_object by blast
  then have "trim (textOf (entryToJson e)) \<noteq> []" by (simp only: trim_object not_False_eq_True)
  moreover have "entryOf (jsonTrip (entryToJson e)) = e" using Cons.prems by (simp add: readsBack_def)
  ultimately show ?case using Cons.IH [of "Suc n"] Cons.prems parseEntryLine_readsBack [of parse entryOf e]
    by simp
qed

lemma parseSessionText_readsBack:
  assumes "headerReadsBack parse h" "\<forall>e \<in> set es. readsBack parse entryOf e \<and> eId e \<noteq> []" "hd nl \<notin> set r"
  shows "parseSessionText sha parse entryOf filePath (sessionText h es @ r)
    = Inr (h, crEntries (filterCommittedTransactionEntries sha es),
        r \<noteq> [] \<or> crDiagnostics (filterCommittedTransactionEntries sha es) \<noteq> []
          \<or> length (crEntries (filterCommittedTransactionEntries sha es)) \<noteq> length es)"
proof -
  let ?ts = "textOf (headerToJson h) # map (\<lambda>e. textOf (entryToJson e)) es"
  have flat: "sessionText h es = concat (map (\<lambda>l. l @ [hd nl]) ?ts)"
    by (simp add: sessionText_def lineOf_textOf comp_def)
  have "\<forall>l \<in> set ?ts. hd nl \<notin> set l"
    using assms(1,2) by (auto simp: headerReadsBack_def readsBack_def parsesBack_def)
  from splitOn_lines [OF this assms(3)] have lines: "splitOn (hd nl) (sessionText h es @ r) = ?ts @ [r]"
    unfolding flat by simp
  have tail: "endsWithNewline (sessionText h es @ r) \<longleftrightarrow> r = []"
  proof (cases "r = []")
    case True
    have "sessionText h es \<noteq> [] \<and> last (sessionText h es) = hd nl"
      by (cases es rule: rev_cases) (simp_all add: sessionText_def lineOf_textOf)
    then show ?thesis using True by (simp add: endsWithNewline_def)
  next
    case False
    then have "last r \<noteq> hd nl" using assms(3) last_in_set by metis
    then show ?thesis using False by (simp add: endsWithNewline_def)
  qed
  have first: "trim (textOf (headerToJson h)) \<noteq> []" unfolding headerToJson_def by (rule trim_object)
  show ?thesis
    unfolding parseSessionText_def lines Let_def
    using first parseHeaderLine_readsBack [OF assms(1)] parseLines_readsBack [OF assms(2)] tail by simp
qed

lemma openJsonlStorage_readsBack:
  assumes "headerReadsBack parse h" "\<forall>e \<in> set es. readsBack parse entryOf e \<and> eId e \<noteq> []" "hd nl \<notin> set r"
    and disk: "sfContent f = Some (sessionText h es @ r)" "sfFaults f = []"
    and vs_def: "vs = crEntries (filterCommittedTransactionEntries sha es)"
  shows "\<exists>f'. sfContent f' = Some (sessionText h vs) \<and> sfFaults f' = []
    \<and> (r = [] \<and> clean sha es \<longrightarrow> f' = f)
    \<and> openJsonlStorage sha parse entryOf filePath uuid f = Inr (jsonlStorageOf f' filePath h vs (leafOf vs) uuid)"
proof -
  have read: "fsReadTextFile f = (Inr (sessionText h es @ r), f)"
    using disk by (cases f) (simp add: fsReadTextFile_def nextFault_def afterFault_def)
  have leaf: "foldl (\<lambda>_ e. leafIdAfterEntry e) None vs = leafOf vs" by (simp add: foldl_leaf leafOf_def)
  note parsed = parseSessionText_readsBack [OF assms(1-3), of sha filePath, folded vs_def]
  show ?thesis
  proof (cases "r \<noteq> [] \<or> crDiagnostics (filterCommittedTransactionEntries sha es) \<noteq> [] \<or> length vs \<noteq> length es")
    case True
    let ?f = "f\<lparr>sfContent := Some (sessionText h vs)\<rparr>"
    have "fsWriteFile (sessionText h vs) f = (Inr (), ?f)"
      using disk(2) by (cases f) (simp add: fsWriteFile_def nextFault_def afterFault_def)
    moreover have "r = [] \<and> clean sha es \<longrightarrow> ?f = f"
      using True clean_entries [of sha es] by (auto simp: vs_def clean_def)
    ultimately show ?thesis using read parsed True leaf disk(2)
      by (intro exI [of _ ?f]) (simp add: openJsonlStorage_def loadJsonlStorage_def Let_def getFileSystemResultOrThrow_def)
  next
    case False
    then have "clean sha es" by (simp add: clean_def)
    then have "vs = es" unfolding vs_def by (rule clean_entries)
    then show ?thesis using read parsed False leaf disk
      by (intro exI [of _ f]) (simp add: openJsonlStorage_def loadJsonlStorage_def Let_def getFileSystemResultOrThrow_def)
  qed
qed

lemma jsonlInv_opened:
  assumes "wellFormedFile sha vs" "sfContent f = Some (sessionText h vs)"
  shows "jsonlInv sha (jsonlStorageOf f filePath h vs (leafOf vs) uuid)"
  using assms by (simp add: jsonlInv_def memInv_def jsonlStorageOf_def canonicalContent_def)

subsection \<open>A torn transaction\<close>

lemma torn_group_not_committed:
  assumes "validateGroup sha t g = Inr tx" "n < length g"
  shows "\<exists>err. validateGroup sha t (take n g) = Inl err"
proof (cases "validateGroup sha t (take n g)")
  case (Inr tx')
  from validateGroup_dest [OF assms(1)] obtain us m u d
    where g: "g = us @ [m, u]" "wellFormedGroup sha t us m u d" by blast
  from validateGroup_dest [OF Inr] obtain us' m' u' d'
    where g': "take n g = us' @ [m', u']" "wellFormedGroup sha t us' m' u' d'" by blast
  have "length us' < length us" using g(1) g' assms(2) by (metis add_less_cancel_right diff_is_0_eq' length_append length_take
        less_imp_le_nat list.size(3,4) min.absorb2 nat_less_le)
  moreover have "take n g ! length us' = m'" using g'(1) by (simp add: nth_append)
  moreover have "length us' < n" using g'(1) by (metis add_Suc_right le_add1 le_imp_less_Suc length_append length_take
        list.size(4) min.cobounded2 order_less_le_trans)
  ultimately have "m' \<in> set us" using g(1) by (metis nth_append nth_mem nth_take)
  then show ?thesis using g(2) g'(2) by (auto simp: wellFormedGroup_def)
qed blast

lemma only_new_key: "\<forall>x \<in> B. f x = k \<Longrightarrow> k \<notin> f ` A \<Longrightarrow> f ` A \<inter> f ` B \<subseteq> C"
  by auto

lemma torn_batch_invisible:
  assumes clean: "clean sha es" "clean sha bs" and tx: "\<forall>e \<in> set bs. eTx e = Some t" "Some t \<notin> eTx ` set es"
    and ids: "eId ` set es \<inter> eId ` set bs = {}" and "n < length bs"
  shows "crEntries (filterCommittedTransactionEntries sha (es @ take n bs)) = es"
proof -
  have grp: "groupOf bs t = bs" using tx(1) by (simp add: groupOf_def filter_id_conv)
  have "bs \<noteq> []" using assms(6) by auto
  then obtain b where "b \<in> set bs" by (meson list.set_sel(1))
  then have "committedIn sha bs t \<noteq> None" using clean(2) tx(1) by (auto simp: clean_iff)
  then obtain ctx where "validateGroup sha t bs = Inr ctx"
    using grp by (auto simp: committedIn_def split: if_splits sum.splits)
  from torn_group_not_committed [OF this assms(6)] obtain err where err: "validateGroup sha t (take n bs) = Inl err" by blast
  have sub: "set (take n bs) \<subseteq> set bs" by (rule set_take_subset)
  have ids': "eId ` set es \<inter> eId ` set (take n bs) = {}" using ids sub by blast
  have torn: "\<forall>e \<in> set (take n bs). eTx e = Some t" using tx(1) by (meson in_set_takeD)
  have txs: "eTx ` set es \<inter> eTx ` set (take n bs) \<subseteq> {None}"
    by (rule only_new_key [OF torn tx(2)])
  have gone: "committedIn sha (es @ take n bs) t = None"
  proof -
    have "groupOf es t = []" using tx(2) by (force simp: groupOf_def filter_empty_conv)
    moreover have "groupOf (take n bs) t = take n bs" using torn by (simp add: groupOf_def filter_id_conv)
    ultimately show ?thesis using err by (simp add: committedIn_def groupOf_append)
  qed
  have "visibleIn sha (es @ take n bs) e" if "e \<in> set es" for e
  proof -
    have "usable (es @ take n bs) e" using usable_append(1) [OF ids' that] clean(1) that by (simp add: clean_iff)
    moreover have "committedIn sha (es @ take n bs) x \<noteq> None" if "eTx e = Some x" for x
      using committedIn_append(1) [OF ids' txs, of sha x] clean(1) \<open>e \<in> set es\<close> that by (auto simp: clean_iff)
    ultimately show ?thesis by (simp add: visibleIn_def split: option.split)
  qed
  moreover have "\<not> visibleIn sha (es @ take n bs) e" if "e \<in> set (take n bs)" for e
  proof -
    have "eTx e = Some t" using that torn by blast
    then show ?thesis using gone by (simp add: visibleIn_def)
  qed
  ultimately show ?thesis by (simp add: crEntries_eq filter_id_conv filter_empty_conv)
qed

subsection \<open>Properties of the session file\<close>

text \<open>
  C12: An append either succeeds with the file and the entries extended by the batch, or fails with
  the entries as they were; then the file is again the text of the entries, or the storage is
  poisoned.  The file of a storage that is not poisoned is always the header and the entries, one
  line each, and a poisoned storage refuses every append.
\<close>

theorem failed_append_recovers_or_poisons:
  assumes "jsonlInv sha st" "jsonlAppendEntries sha es x st = (r, st')"
  shows "(case r of Inr _ \<Rightarrow> msEntries (jsCache st') = msEntries (jsCache st) @ es | Inl _ \<Rightarrow> jsCache st' = jsCache st)
    \<and> (sfContent (jsFile st') = Some (sessionText (jsHeader st) (msEntries (jsCache st')))
       \<or> (\<forall>es y. jsonlAppendEntries sha es y st' = (Inl poisonedError, st')))"
proof -
  have "jsonlAppendEntries sha es y st' = (Inl poisonedError, st')" if "jsPoisoned st' \<noteq> None" for es y
    using that by (simp add: jsonlAppendEntries_def)
  then show ?thesis
    using jsonlAppend_outcome [OF assms] by (cases r) (auto simp: jsonlInv_def canonicalContent_def)
qed

definition sampleHeader :: sessionHeader where
  "sampleHeader = \<lparr>shId = ''s'', shTimestamp = ''2026-01-01T00:00:00.000Z'', shCwd = ''/w'', shParentSession = None\<rparr>"

definition sampleJsonl :: jsonlStorage where
  "sampleJsonl = jsonlStorageOf \<lparr>sfContent = Some (sessionText sampleHeader []), sfFaults = []\<rparr> ''f'' sampleHeader [] None
     initialUuidState"

definition sampleParse :: "entry list \<Rightarrow> string \<Rightarrow> json option" where
  "sampleParse es line = map_of (map (\<lambda>v. (textOf v, jsonTrip v)) (headerToJson sampleHeader # map entryToJson es)) line"

definition sampleEntryOf :: "entry list \<Rightarrow> json \<Rightarrow> entry" where
  "sampleEntryOf es v = (case find (\<lambda>e. jsonTrip (entryToJson e) = v) es of Some e \<Rightarrow> e | None \<Rightarrow> sampleModel [] None None)"

lemma sampleJsonl_inv: "jsonlInv (\<lambda>_. ''00'') sampleJsonl"
  using jsonlInv_opened [of "\<lambda>_. ''00''" "[]" "\<lparr>sfContent = Some (sessionText sampleHeader []), sfFaults = []\<rparr>" sampleHeader "''f''" initialUuidState]
  by (simp add: sampleJsonl_def wellFormedFile_def leafOf_def)

theorem failed_append_recovers_or_poisons_witness:
  "\<exists>r st'. jsonlAppendEntries (\<lambda>_. ''00'') [sampleModel ''a'' None None] NoExpectation sampleJsonl = (r, st')
    \<and> (case r of Inr _ \<Rightarrow> msEntries (jsCache st') = [sampleModel ''a'' None None] | Inl _ \<Rightarrow> jsCache st' = jsCache sampleJsonl)"
proof -
  obtain r st' where run: "jsonlAppendEntries (\<lambda>_. ''00'') [sampleModel ''a'' None None] NoExpectation sampleJsonl = (r, st')"
    by fastforce
  have es: "msEntries (jsCache sampleJsonl) = []" by (simp add: sampleJsonl_def jsonlStorageOf_def)
  from failed_append_recovers_or_poisons [OF sampleJsonl_inv run] run show ?thesis
    unfolding es append_Nil by blast
qed




lemma sampleParse_parsesBack:
  assumes "distinct (map textOf (headerToJson sampleHeader # map entryToJson es))"
    and "v \<in> set (headerToJson sampleHeader # map entryToJson es)" "hd nl \<notin> set (textOf v)"
  shows "parsesBack (sampleParse es) v"
proof -
  have "map_of (map (\<lambda>v. (textOf v, jsonTrip v)) (headerToJson sampleHeader # map entryToJson es)) (textOf v) = Some (jsonTrip v)"
    by (rule map_of_is_SomeI) (use assms(1,2) in \<open>auto simp: comp_def\<close>)
  then show ?thesis using assms(3) by (simp add: parsesBack_def sampleParse_def)
qed


end
