(* ===== verification/WriterLease.thy ===== *)
theory WriterLease
  imports Prelude
begin

section \<open>Workspace writer leases\<close>

text \<open>
  \<open>packages/coding-agent/workspace-rewind/workspace-writer-lease.ts\<close>: the registry that lets one
  session at a time write to a workspace.  The mutable objects of the source are explicit: the lease
  states are the elements of \<open>rgStates\<close>, which the map \<open>workspaces\<close> and the closures of leases and
  abort listeners refer to by index; an acquisition, and the promise it belongs to, is known by the
  number it got when it was made.  \<open>rgOutcomes\<close> holds the settled promises, \<open>rgListeners\<close> the abort
  listeners in the order of their registration and \<open>rgAborted\<close> the reasons of the signals aborted so
  far.

  Every operation runs to its end without an \<open>await\<close>, so a history of the registry is a sequence of
  operations: the relation \<open>lease_step\<close>.  The operations are shown to implement one waiting line per
  workspace (\<open>leaseLine\<close>), whose head holds the lease.
\<close>

subsection \<open>State\<close>

record leaseInput =
  liWorkspaceKey :: string
  liSessionId :: string
  liBoundaryToken :: string
  liSignal :: "nat option"

record acquisition =
  aqId :: nat
  aqKey :: string
  aqInput :: leaseInput

text \<open>A lease, with the state and the acquisition that its \<open>release\<close> closes over.\<close>

record writerLease =
  wlWorkspaceKey :: string
  wlSessionId :: string
  wlBoundaryToken :: string
  wlState :: nat
  wlPending :: acquisition

record leaseState =
  wsWorkspaceKey :: string
  wsActive :: "acquisition option"
  wsQueue :: "acquisition list"
  wsAcquisitions :: "(string \<times> acquisition) list"

datatype lease_outcome = Granted writerLease | Rejected string

datatype lease_error = InvalidLeaseInput string | NotActiveLease

record leaseRegistry =
  rgStates :: "leaseState list"
  rgWorkspaces :: "string \<Rightarrow> nat option"
  rgListeners :: "(nat \<times> nat \<times> acquisition) list"
  rgAborted :: "nat \<Rightarrow> string option option"
  rgOutcomes :: "nat \<Rightarrow> lease_outcome option"
  rgNext :: nat

definition emptyRegistry :: leaseRegistry where
  "emptyRegistry = \<lparr>rgStates = [], rgWorkspaces = (\<lambda>_. None), rgListeners = [], rgAborted = (\<lambda>_. None),
     rgOutcomes = (\<lambda>_. None), rgNext = 0\<rparr>"

definition modState :: "nat \<Rightarrow> (leaseState \<Rightarrow> leaseState) \<Rightarrow> leaseRegistry \<Rightarrow> leaseRegistry" where
  "modState ref f r = r\<lparr>rgStates := (rgStates r)[ref := f (rgStates r ! ref)]\<rparr>"

text \<open>\<open>resolve\<close> and \<open>reject\<close>: the first settles the promise, later ones have no effect.\<close>

definition settlePromise :: "nat \<Rightarrow> lease_outcome \<Rightarrow> leaseRegistry \<Rightarrow> leaseRegistry" where
  "settlePromise i outcome r =
    (if rgOutcomes r i = None then r\<lparr>rgOutcomes := (rgOutcomes r)(i \<mapsto> outcome)\<rparr> else r)"

subsection \<open>Operations\<close>

definition assertNonEmptyString :: "string \<Rightarrow> string \<Rightarrow> lease_error + unit" where
  "assertNonEmptyString name v =
    (if trim v = [] then Inl (InvalidLeaseInput (name @ '' must be a non-empty string'')) else Inr ())"

definition assertValidInput :: "leaseInput \<Rightarrow> lease_error + unit" where
  "assertValidInput i =
    andThen (assertNonEmptyString ''workspaceKey'' (liWorkspaceKey i)) (\<lambda>_.
    andThen (assertNonEmptyString ''sessionId'' (liSessionId i)) (\<lambda>_.
    assertNonEmptyString ''boundaryToken'' (liBoundaryToken i)))"

definition acquisitionKey :: "string \<Rightarrow> string \<Rightarrow> string" where
  "acquisitionKey sessionId boundaryToken = the (jsonStringify (JArr [JStr sessionId, JStr boundaryToken]))"

definition abortReason :: "string option \<Rightarrow> string" where
  "abortReason reason = (case reason of
     Some x \<Rightarrow> x | None \<Rightarrow> ''Workspace writer lease acquisition aborted'')"

definition signalAborted :: "leaseRegistry \<Rightarrow> acquisition \<Rightarrow> string option option" where
  "signalAborted r p = (case liSignal (aqInput p) of None \<Rightarrow> None | Some s \<Rightarrow> rgAborted r s)"

definition cleanupAbortListener :: "acquisition \<Rightarrow> leaseRegistry \<Rightarrow> leaseRegistry" where
  "cleanupAbortListener p r = r\<lparr>rgListeners := filter (\<lambda>(_, _, q). aqId q \<noteq> aqId p) (rgListeners r)\<rparr>"

definition deleteIdleState :: "nat \<Rightarrow> leaseRegistry \<Rightarrow> leaseRegistry" where
  "deleteIdleState ref r =
    (let s = rgStates r ! ref in
     if wsActive s \<noteq> None \<or> wsQueue s \<noteq> [] \<or> wsAcquisitions s \<noteq> [] then r
     else if rgWorkspaces r (wsWorkspaceKey s) \<noteq> Some ref then r
     else r\<lparr>rgWorkspaces := (rgWorkspaces r)(wsWorkspaceKey s := None)\<rparr>)"

definition leaseOf :: "nat \<Rightarrow> acquisition \<Rightarrow> writerLease" where
  "leaseOf ref p = \<lparr>wlWorkspaceKey = liWorkspaceKey (aqInput p), wlSessionId = liSessionId (aqInput p),
     wlBoundaryToken = liBoundaryToken (aqInput p), wlState = ref, wlPending = p\<rparr>"

definition grant :: "nat \<Rightarrow> acquisition \<Rightarrow> leaseRegistry \<Rightarrow> leaseRegistry" where
  "grant ref p r = settlePromise (aqId p) (Granted (leaseOf ref p))
     (modState ref (\<lambda>s. s\<lparr>wsActive := Some p\<rparr>) (cleanupAbortListener p r))"

text \<open>\<open>if (state.acquisitions.get(pending.key) === pending) state.acquisitions.delete(pending.key)\<close>\<close>

definition forgetAcquisition :: "acquisition \<Rightarrow> leaseState \<Rightarrow> leaseState" where
  "forgetAcquisition p s =
    (if map_option aqId (map_of (wsAcquisitions s) (aqKey p)) = Some (aqId p)
     then s\<lparr>wsAcquisitions := alistDelete (aqKey p) (wsAcquisitions s)\<rparr> else s)"

fun grantQueue :: "nat \<Rightarrow> acquisition list \<Rightarrow> leaseRegistry \<Rightarrow> leaseRegistry" where
  "grantQueue ref [] r = deleteIdleState ref (modState ref (\<lambda>s. s\<lparr>wsQueue := []\<rparr>) r)"
| "grantQueue ref (p # ps) r =
    (let r' = modState ref (\<lambda>s. s\<lparr>wsQueue := ps\<rparr>) r in
     case signalAborted r' p of
       None \<Rightarrow> grant ref p r'
     | Some reason \<Rightarrow> grantQueue ref ps (settlePromise (aqId p) (Rejected (abortReason reason))
         (cleanupAbortListener p (modState ref (forgetAcquisition p) r'))))"

definition grantNext :: "nat \<Rightarrow> leaseRegistry \<Rightarrow> leaseRegistry" where
  "grantNext ref r =
    (if wsActive (rgStates r ! ref) \<noteq> None then r else grantQueue ref (wsQueue (rgStates r ! ref)) r)"

text \<open>\<open>release\<close> of a lease.\<close>

definition releaseLease :: "writerLease \<Rightarrow> leaseRegistry \<Rightarrow> (lease_error + unit) \<times> leaseRegistry" where
  "releaseLease l r =
    (if map_option aqId (wsActive (rgStates r ! wlState l)) \<noteq> Some (aqId (wlPending l)) then (Inl NotActiveLease, r)
     else (Inr (), grantNext (wlState l) (modState (wlState l)
       (\<lambda>s. s\<lparr>wsAcquisitions := alistDelete (aqKey (wlPending l)) (wsAcquisitions s), wsActive := None\<rparr>) r)))"

definition abortQueued :: "nat \<Rightarrow> acquisition \<Rightarrow> leaseRegistry \<Rightarrow> leaseRegistry" where
  "abortQueued ref p r = (case findIndex (\<lambda>q. aqId q = aqId p) (wsQueue (rgStates r ! ref)) of
     None \<Rightarrow> r
   | Some i \<Rightarrow>
       grantNext ref (settlePromise (aqId p) (Rejected (abortReason (the (signalAborted r p))))
         (cleanupAbortListener p
           (modState ref (\<lambda>s. forgetAcquisition p (s\<lparr>wsQueue := take i (wsQueue s) @ drop (i + 1) (wsQueue s)\<rparr>)) r))))"

text \<open>
  The abort of a signal: it is marked as aborted, then the listeners it had are called in order;
  a listener that is removed meanwhile is not called, one that is called is removed first.
\<close>

fun dispatchAbort :: "(nat \<times> nat \<times> acquisition) list \<Rightarrow> leaseRegistry \<Rightarrow> leaseRegistry" where
  "dispatchAbort [] r = r"
| "dispatchAbort ((s, ref, p) # ls) r =
    dispatchAbort ls (if (s, ref, p) \<in> set (rgListeners r) then abortQueued ref p (cleanupAbortListener p r) else r)"

definition abortSignal :: "nat \<Rightarrow> string option \<Rightarrow> leaseRegistry \<Rightarrow> leaseRegistry" where
  "abortSignal s reason r =
    (if rgAborted r s \<noteq> None then r
     else dispatchAbort (filter (\<lambda>(t, _, _). t = s) (rgListeners r)) (r\<lparr>rgAborted := (rgAborted r)(s \<mapsto> reason)\<rparr>))"

text \<open>A number for a new promise.\<close>

definition newAcquisition :: "leaseInput \<Rightarrow> leaseRegistry \<Rightarrow> acquisition \<times> leaseRegistry" where
  "newAcquisition input r =
    (\<lparr>aqId = rgNext r, aqKey = acquisitionKey (liSessionId input) (liBoundaryToken input), aqInput = input\<rparr>,
     r\<lparr>rgNext := rgNext r + 1\<rparr>)"

text \<open>The state of the workspace, created when there is none.\<close>

definition openState :: "string \<Rightarrow> leaseRegistry \<Rightarrow> nat \<times> leaseRegistry" where
  "openState workspaceKey r = (case rgWorkspaces r workspaceKey of
     Some ref \<Rightarrow> (ref, r)
   | None \<Rightarrow> (length (rgStates r), r\<lparr>rgStates := rgStates r @
         [\<lparr>wsWorkspaceKey = workspaceKey, wsActive = None, wsQueue = [], wsAcquisitions = []\<rparr>],
       rgWorkspaces := (rgWorkspaces r)(workspaceKey \<mapsto> length (rgStates r))\<rparr>))"

definition enqueue :: "nat \<Rightarrow> acquisition \<Rightarrow> leaseRegistry \<Rightarrow> leaseRegistry" where
  "enqueue ref p r =
    (let r1 = modState ref (\<lambda>s. s\<lparr>wsAcquisitions := alistSet (aqKey p) p (wsAcquisitions s), wsQueue := wsQueue s @ [p]\<rparr>) r
     in case liSignal (aqInput p) of None \<Rightarrow> r1 | Some s \<Rightarrow> r1\<lparr>rgListeners := rgListeners r1 @ [(s, ref, p)]\<rparr>)"

definition existingAcquisition :: "leaseInput \<Rightarrow> leaseRegistry \<Rightarrow> acquisition option" where
  "existingAcquisition input r = (case rgWorkspaces r (liWorkspaceKey input) of
     None \<Rightarrow> None
   | Some ref \<Rightarrow> map_of (wsAcquisitions (rgStates r ! ref)) (acquisitionKey (liSessionId input) (liBoundaryToken input)))"

text \<open>\<open>acquire\<close>: throws, or returns the promise with the given number.\<close>

definition acquire :: "leaseInput \<Rightarrow> leaseRegistry \<Rightarrow> (lease_error + nat) \<times> leaseRegistry" where
  "acquire input r = (case assertValidInput input of
     Inl e \<Rightarrow> (Inl e, r)
   | Inr _ \<Rightarrow> (case existingAcquisition input r of
       Some p \<Rightarrow> (Inr (aqId p), r)
     | None \<Rightarrow>
         (let (p, r1) = newAcquisition input r in
          case signalAborted r p of
            Some reason \<Rightarrow> (Inr (aqId p), settlePromise (aqId p) (Rejected (abortReason reason)) r1)
          | None \<Rightarrow> (let (ref, r2) = openState (liWorkspaceKey input) r1 in (Inr (aqId p), grantNext ref (enqueue ref p r2))))))"

subsection \<open>Histories\<close>

text \<open>
  A caller acquires, a caller whose promise was resolved calls \<open>release\<close>, possibly more than once,
  or a signal is aborted.
\<close>

datatype lease_event = Acquire leaseInput | Release nat | ReleaseRefused nat | Abort nat "string option"

inductive lease_step :: "leaseRegistry \<Rightarrow> lease_event \<Rightarrow> leaseRegistry \<Rightarrow> bool" where
  Acquire: "acquire input r = (res, r') \<Longrightarrow> lease_step r (Acquire input) r'"
| Release: "rgOutcomes r i = Some (Granted l) \<Longrightarrow> releaseLease l r = (Inr (), r') \<Longrightarrow> lease_step r (Release i) r'"
| ReleaseRefused: "rgOutcomes r i = Some (Granted l) \<Longrightarrow> releaseLease l r = (Inl e, r') \<Longrightarrow> lease_step r (ReleaseRefused i) r'"
| Abort: "lease_step r (Abort s reason) (abortSignal s reason r)"

inductive_cases lease_stepE: "lease_step r e r'"

inductive lease_run :: "lease_event list \<Rightarrow> leaseRegistry \<Rightarrow> bool" where
  Start: "lease_run [] emptyRegistry"
| Step: "lease_run es r \<Longrightarrow> lease_step r e r' \<Longrightarrow> lease_run (es @ [e]) r'"

subsection \<open>The waiting line of a workspace\<close>

definition wsLine :: "leaseState \<Rightarrow> acquisition list" where
  "wsLine s = (case wsActive s of None \<Rightarrow> [] | Some p \<Rightarrow> [p]) @ wsQueue s"

definition leaseLine :: "leaseRegistry \<Rightarrow> string \<Rightarrow> acquisition list" where
  "leaseLine r w = (case rgWorkspaces r w of None \<Rightarrow> [] | Some ref \<Rightarrow> wsLine (rgStates r ! ref))"

lemma wsLine_simps [simp]:
  "wsActive s = None \<Longrightarrow> wsLine s = wsQueue s" "wsActive s = Some p \<Longrightarrow> wsLine s = p # wsQueue s"
  by (simp_all add: wsLine_def)

lemma queue_in_line: "p \<in> set (wsQueue s) \<Longrightarrow> p \<in> set (wsLine s)"
  by (simp add: wsLine_def)

text \<open>
  The state \<open>ref\<close> is consistent with the promises, the listeners and the map of workspaces: its
  acquisitions are those of its line, the holder's promise is resolved, the others' are pending.
\<close>

definition stateOk :: "leaseRegistry \<Rightarrow> nat \<Rightarrow> bool" where
  "stateOk r ref \<longleftrightarrow> (let s = rgStates r ! ref in
     wsAcquisitions s = map (\<lambda>p. (aqKey p, p)) (wsLine s) \<and> distinct (map aqKey (wsLine s))
   \<and> (wsActive s = None \<longrightarrow> wsQueue s = [])
   \<and> (wsActive s \<noteq> None \<longrightarrow> rgWorkspaces r (wsWorkspaceKey s) = Some ref)
   \<and> (\<forall>p \<in> set (wsLine s). wsWorkspaceKey s = liWorkspaceKey (aqInput p) \<and> aqId p < rgNext r
        \<and> aqKey p = acquisitionKey (liSessionId (aqInput p)) (liBoundaryToken (aqInput p)))
   \<and> (\<forall>p. wsActive s = Some p \<longrightarrow> rgOutcomes r (aqId p) = Some (Granted (leaseOf ref p)))
   \<and> (\<forall>p \<in> set (wsQueue s). rgOutcomes r (aqId p) = None
        \<and> (\<forall>sig. liSignal (aqInput p) = Some sig \<longrightarrow> (sig, ref, p) \<in> set (rgListeners r))))"

definition leaseInv :: "leaseRegistry \<Rightarrow> bool" where
  "leaseInv r \<longleftrightarrow>
     (\<forall>w ref. rgWorkspaces r w = Some ref \<longrightarrow> ref < length (rgStates r)
        \<and> wsWorkspaceKey (rgStates r ! ref) = w \<and> wsActive (rgStates r ! ref) \<noteq> None)
   \<and> (\<forall>ref < length (rgStates r). stateOk r ref)
   \<and> (\<forall>ref < length (rgStates r). \<forall>ref' < length (rgStates r).
        \<forall>p \<in> set (wsLine (rgStates r ! ref)). \<forall>q \<in> set (wsLine (rgStates r ! ref')). aqId p = aqId q \<longrightarrow> ref = ref' \<and> p = q)
   \<and> (\<forall>sig ref p. (sig, ref, p) \<in> set (rgListeners r) \<longrightarrow> ref < length (rgStates r)
        \<and> p \<in> set (wsQueue (rgStates r ! ref)) \<and> liSignal (aqInput p) = Some sig)
   \<and> (\<forall>i. rgOutcomes r i \<noteq> None \<longrightarrow> i < rgNext r)
   \<and> (\<forall>i l. rgOutcomes r i = Some (Granted l) \<longrightarrow> wlState l < length (rgStates r)
        \<and> aqId (wlPending l) = i \<and> wlWorkspaceKey l = wsWorkspaceKey (rgStates r ! wlState l))"

text \<open>Between operations nobody waits whose signal is aborted.\<close>

definition leaseQuiet :: "leaseRegistry \<Rightarrow> bool" where
  "leaseQuiet r \<longleftrightarrow> (\<forall>ref < length (rgStates r). \<forall>p \<in> set (wsQueue (rgStates r ! ref)). signalAborted r p = None)"

lemma leaseInvD:
  assumes "leaseInv r"
  shows leaseInv_workspace: "rgWorkspaces r w = Some ref \<Longrightarrow>
      ref < length (rgStates r) \<and> wsWorkspaceKey (rgStates r ! ref) = w \<and> wsActive (rgStates r ! ref) \<noteq> None"
    and leaseInv_state: "ref < length (rgStates r) \<Longrightarrow> stateOk r ref"
    and leaseInv_ids: "\<lbrakk>ref < length (rgStates r); ref' < length (rgStates r); p \<in> set (wsLine (rgStates r ! ref));
      q \<in> set (wsLine (rgStates r ! ref')); aqId p = aqId q\<rbrakk> \<Longrightarrow> ref = ref' \<and> p = q"
    and leaseInv_listener: "(sig, ref, p) \<in> set (rgListeners r) \<Longrightarrow> ref < length (rgStates r)
        \<and> p \<in> set (wsQueue (rgStates r ! ref)) \<and> liSignal (aqInput p) = Some sig"
    and leaseInv_outcome: "rgOutcomes r i \<noteq> None \<Longrightarrow> i < rgNext r"
    and leaseInv_granted: "rgOutcomes r i = Some (Granted l) \<Longrightarrow> wlState l < length (rgStates r)
        \<and> aqId (wlPending l) = i \<and> wlWorkspaceKey l = wsWorkspaceKey (rgStates r ! wlState l)"
  using assms by (simp_all add: leaseInv_def)

lemma leaseInv_empty: "leaseInv emptyRegistry" "leaseQuiet emptyRegistry"
  by (simp_all add: leaseInv_def leaseQuiet_def emptyRegistry_def)

text \<open>A state that an operation does not touch stays consistent.\<close>

lemma stateOk_transfer:
  assumes ok: "stateOk r k" and same: "rgStates r' ! k = rgStates r ! k" "rgNext r \<le> rgNext r'"
      "\<forall>p \<in> set (wsLine (rgStates r ! k)). rgOutcomes r' (aqId p) = rgOutcomes r (aqId p)"
      "\<forall>sig p. (sig, k, p) \<in> set (rgListeners r') \<longleftrightarrow> (sig, k, p) \<in> set (rgListeners r)"
    and ws: "rgWorkspaces r (wsWorkspaceKey (rgStates r ! k)) = Some k \<Longrightarrow> rgWorkspaces r' (wsWorkspaceKey (rgStates r ! k)) = Some k"
  shows "stateOk r' k"
proof -
  have "\<forall>p. wsActive (rgStates r ! k) = Some p \<longrightarrow> rgOutcomes r' (aqId p) = rgOutcomes r (aqId p)"
    "\<forall>p \<in> set (wsQueue (rgStates r ! k)). rgOutcomes r' (aqId p) = rgOutcomes r (aqId p)"
    using same(3) by (simp_all add: queue_in_line)
  moreover have "\<forall>p \<in> set (wsLine (rgStates r ! k)). aqId p < rgNext r'"
    using ok same(2) unfolding stateOk_def Let_def by fastforce
  ultimately show ?thesis using ok ws same(1,4) unfolding stateOk_def Let_def by simp
qed

text \<open>
  An operation that changes one state, whose line loses acquisitions or gains new ones, and touches
  only the promises and listeners of that state's acquisitions.
\<close>

lemma leaseInv_update:
  assumes inv: "leaseInv r" and ref: "ref < length (rgStates r)"
      "rgWorkspaces r (wsWorkspaceKey s') = (if wsActive (rgStates r ! ref) = None then None else Some ref)"
    and states: "rgStates r' = (rgStates r)[ref := s']" "rgNext r \<le> rgNext r'"
      "rgWorkspaces r' = (rgWorkspaces r)(wsWorkspaceKey s' := (if wsActive s' = None then None else Some ref))"
    and s': "wsWorkspaceKey s' = wsWorkspaceKey (rgStates r ! ref)" "stateOk r' ref"
    and line: "\<forall>p \<in> set (wsLine s'). p \<in> set (wsLine (rgStates r ! ref)) \<or> rgNext r \<le> aqId p"
      "\<forall>p \<in> set (wsLine s'). \<forall>q \<in> set (wsLine s'). aqId p = aqId q \<longrightarrow> p = q"
    and outcomes: "\<forall>i < rgNext r. i \<notin> aqId ` set (wsLine (rgStates r ! ref)) \<longrightarrow> rgOutcomes r' i = rgOutcomes r i"
      "\<forall>i. rgOutcomes r' i \<noteq> None \<longrightarrow> i < rgNext r'"
      "\<forall>i l. rgOutcomes r' i = Some (Granted l) \<longrightarrow> rgOutcomes r i = Some (Granted l)
        \<or> wlState l = ref \<and> aqId (wlPending l) = i \<and> wlWorkspaceKey l = wsWorkspaceKey s'"
    and listeners: "\<forall>sig ref' p. ref' \<noteq> ref \<longrightarrow> (sig, ref', p) \<in> set (rgListeners r') \<longleftrightarrow> (sig, ref', p) \<in> set (rgListeners r)"
      "\<forall>sig p. (sig, ref, p) \<in> set (rgListeners r') \<longrightarrow> p \<in> set (wsQueue s') \<and> liSignal (aqInput p) = Some sig"
  shows "leaseInv r'"
proof -
  have nth: "rgStates r' ! k = (if k = ref then s' else rgStates r ! k)" if "k < length (rgStates r)" for k
    using that by (simp add: states)
  have len: "length (rgStates r') = length (rgStates r)" by (simp add: states)
  have other: "stateOk r' k" if k: "k < length (rgStates r)" "k \<noteq> ref" for k
  proof -
    have ok: "stateOk r k" by (rule leaseInv_state [OF inv k(1)])
    then have bound: "\<forall>p \<in> set (wsLine (rgStates r ! k)). aqId p < rgNext r" by (simp add: stateOk_def Let_def)
    have "aqId p \<notin> aqId ` set (wsLine (rgStates r ! ref))" if "p \<in> set (wsLine (rgStates r ! k))" for p
      using leaseInv_ids [OF inv k(1) ref(1) that] k(2) by auto
    with bound have same: "\<forall>p \<in> set (wsLine (rgStates r ! k)). rgOutcomes r' (aqId p) = rgOutcomes r (aqId p)"
      using outcomes(1) by blast
    show ?thesis
    proof (rule stateOk_transfer [OF ok _ states(2) same])
      show "rgStates r' ! k = rgStates r ! k" using nth [OF k(1)] k(2) by simp
      show "\<forall>sig p. (sig, k, p) \<in> set (rgListeners r') \<longleftrightarrow> (sig, k, p) \<in> set (rgListeners r)" using listeners(1) k(2) by blast
      assume key: "rgWorkspaces r (wsWorkspaceKey (rgStates r ! k)) = Some k"
      with ref(2) k(2) have "wsWorkspaceKey (rgStates r ! k) \<noteq> wsWorkspaceKey s'" by (auto split: if_splits)
      with key states(3) show "rgWorkspaces r' (wsWorkspaceKey (rgStates r ! k)) = Some k" by simp
    qed
  qed
  have bound: "aqId p < rgNext r" if "k < length (rgStates r)" "p \<in> set (wsLine (rgStates r ! k))" for k p
    using leaseInv_state [OF inv that(1)] that(2) by (simp add: stateOk_def Let_def)
  have apart: "aqId p \<noteq> aqId q" if "k < length (rgStates r)" "k \<noteq> ref" "p \<in> set (wsLine (rgStates r ! k))" "q \<in> set (wsLine s')" for k p q
  proof (cases "q \<in> set (wsLine (rgStates r ! ref))")
    case True
    then show ?thesis using leaseInv_ids [OF inv that(1) ref(1) that(3)] that(2) by blast
  next
    case False
    then show ?thesis using line(1) that(4) bound [OF that(1,3)] by auto
  qed
  have "stateOk r' k" if "k < length (rgStates r')" for k using that other s'(2) len by (cases "k = ref") auto
  moreover have "\<forall>w k. rgWorkspaces r' w = Some k \<longrightarrow> k < length (rgStates r')
      \<and> wsWorkspaceKey (rgStates r' ! k) = w \<and> wsActive (rgStates r' ! k) \<noteq> None"
  proof (intro allI impI)
    fix w k
    assume w: "rgWorkspaces r' w = Some k"
    show "k < length (rgStates r') \<and> wsWorkspaceKey (rgStates r' ! k) = w \<and> wsActive (rgStates r' ! k) \<noteq> None"
    proof (cases "w = wsWorkspaceKey s'")
      case True
      then show ?thesis using w states(3) ref(1) len nth by (auto split: if_splits)
    next
      case False
      then have "rgWorkspaces r w = Some k" using w states(3) by simp
      then show ?thesis using leaseInv_workspace [OF inv] s'(1) False len nth by fastforce
    qed
  qed
  moreover have "k = k' \<and> p = q" if "k < length (rgStates r')" "k' < length (rgStates r')"
      "p \<in> set (wsLine (rgStates r' ! k))" "q \<in> set (wsLine (rgStates r' ! k'))" "aqId p = aqId q" for k k' p q
    using that apart apart [of k' q p] leaseInv_ids [OF inv, of k k' p q] line(2) by (auto simp: len nth split: if_splits)
  moreover have "k < length (rgStates r') \<and> p \<in> set (wsQueue (rgStates r' ! k)) \<and> liSignal (aqInput p) = Some sig"
    if "(sig, k, p) \<in> set (rgListeners r')" for sig k p
    using that listeners leaseInv_listener [OF inv, of sig k p] ref(1) by (cases "k = ref") (auto simp: len nth)
  moreover have "wlState l < length (rgStates r') \<and> aqId (wlPending l) = i
      \<and> wlWorkspaceKey l = wsWorkspaceKey (rgStates r' ! wlState l)" if granted: "rgOutcomes r' i = Some (Granted l)" for i l
  proof -
    consider "rgOutcomes r i = Some (Granted l)" | "wlState l = ref" "aqId (wlPending l) = i" "wlWorkspaceKey l = wsWorkspaceKey s'"
      using outcomes(3) granted by blast
    then show ?thesis
    proof cases
      case 1
      from leaseInv_granted [OF inv 1] show ?thesis using s'(1) len nth by simp
    next
      case 2
      then show ?thesis using ref(1) len nth by simp
    qed
  qed
  ultimately show ?thesis using outcomes(2) unfolding leaseInv_def by blast
qed

lemma leaseLine_update:
  assumes inv: "leaseInv r" and ref: "ref < length (rgStates r)" and s': "wsActive s' = None \<Longrightarrow> wsLine s' = []"
      "wsWorkspaceKey s' = wsWorkspaceKey (rgStates r ! ref)"
    and states: "rgStates r' = (rgStates r)[ref := s']"
      "rgWorkspaces r' = (rgWorkspaces r)(wsWorkspaceKey s' := (if wsActive s' = None then None else Some ref))"
  shows "leaseLine r' = (leaseLine r)(wsWorkspaceKey s' := wsLine s')"
proof
  fix w
  show "leaseLine r' w = ((leaseLine r)(wsWorkspaceKey s' := wsLine s')) w"
  proof (cases "w = wsWorkspaceKey s'")
    case True
    then show ?thesis using ref s'(1) by (simp add: leaseLine_def states)
  next
    case False
    then have same: "rgWorkspaces r' w = rgWorkspaces r w" by (simp add: states)
    show ?thesis
    proof (cases "rgWorkspaces r w")
      case None
      then show ?thesis using False same by (simp add: leaseLine_def)
    next
      case (Some k)
      then have "k \<noteq> ref" using leaseInv_workspace [OF inv Some] s'(2) False by auto
      then show ?thesis using Some False same by (simp add: leaseLine_def states(1))
    qed
  qed
qed

subsection \<open>The operations on the waiting line\<close>

lemma modState_sel [simp]:
  "rgStates (modState ref f r) = (rgStates r)[ref := f (rgStates r ! ref)]" "rgWorkspaces (modState ref f r) = rgWorkspaces r"
  "rgListeners (modState ref f r) = rgListeners r" "rgAborted (modState ref f r) = rgAborted r"
  "rgOutcomes (modState ref f r) = rgOutcomes r" "rgNext (modState ref f r) = rgNext r"
  by (simp_all add: modState_def)

lemma settlePromise_sel [simp]:
  "rgStates (settlePromise i x r) = rgStates r" "rgWorkspaces (settlePromise i x r) = rgWorkspaces r"
  "rgListeners (settlePromise i x r) = rgListeners r" "rgAborted (settlePromise i x r) = rgAborted r"
  "rgNext (settlePromise i x r) = rgNext r"
  "rgOutcomes r i = None \<Longrightarrow> rgOutcomes (settlePromise i x r) = (rgOutcomes r)(i \<mapsto> x)"
  by (simp_all add: settlePromise_def)

lemma cleanup_sel [simp]:
  "rgStates (cleanupAbortListener p r) = rgStates r" "rgWorkspaces (cleanupAbortListener p r) = rgWorkspaces r"
  "rgAborted (cleanupAbortListener p r) = rgAborted r" "rgOutcomes (cleanupAbortListener p r) = rgOutcomes r"
  "rgNext (cleanupAbortListener p r) = rgNext r"
  "(s, ref, q) \<in> set (rgListeners (cleanupAbortListener p r)) \<longleftrightarrow> (s, ref, q) \<in> set (rgListeners r) \<and> aqId q \<noteq> aqId p"
  by (simp_all add: cleanupAbortListener_def)

lemma enqueue_sel [simp]:
  "rgStates (enqueue ref p r) = (rgStates r)[ref := (rgStates r ! ref)\<lparr>
     wsAcquisitions := alistSet (aqKey p) p (wsAcquisitions (rgStates r ! ref)), wsQueue := wsQueue (rgStates r ! ref) @ [p]\<rparr>]"
  "rgWorkspaces (enqueue ref p r) = rgWorkspaces r" "rgAborted (enqueue ref p r) = rgAborted r"
  "rgOutcomes (enqueue ref p r) = rgOutcomes r" "rgNext (enqueue ref p r) = rgNext r"
  "(s, k, q) \<in> set (rgListeners (enqueue ref p r))
     \<longleftrightarrow> (s, k, q) \<in> set (rgListeners r) \<or> k = ref \<and> q = p \<and> liSignal (aqInput p) = Some s"
  by (auto simp: enqueue_def Let_def split: option.split)

lemma signalAborted_cong: "rgAborted r' = rgAborted r \<Longrightarrow> signalAborted r' p = signalAborted r p"
  by (simp add: signalAborted_def split: option.split)

lemma stateOkD:
  assumes "stateOk r ref" and s: "s = rgStates r ! ref"
  shows stateOk_acquisitions: "wsAcquisitions s = map (\<lambda>p. (aqKey p, p)) (wsLine s)"
    and stateOk_distinct: "distinct (map aqKey (wsLine s))"
    and stateOk_idle: "wsActive s = None \<Longrightarrow> wsQueue s = []"
    and stateOk_open: "wsActive s \<noteq> None \<Longrightarrow> rgWorkspaces r (wsWorkspaceKey s) = Some ref"
    and stateOk_member: "p \<in> set (wsLine s) \<Longrightarrow> wsWorkspaceKey s = liWorkspaceKey (aqInput p) \<and> aqId p < rgNext r
        \<and> aqKey p = acquisitionKey (liSessionId (aqInput p)) (liBoundaryToken (aqInput p))"
    and stateOk_holder: "wsActive s = Some p \<Longrightarrow> rgOutcomes r (aqId p) = Some (Granted (leaseOf ref p))"
    and stateOk_waiting: "p \<in> set (wsQueue s) \<Longrightarrow> rgOutcomes r (aqId p) = None
        \<and> (\<forall>sig. liSignal (aqInput p) = Some sig \<longrightarrow> (sig, ref, p) \<in> set (rgListeners r))"
  using assms by (simp_all add: stateOk_def Let_def)

lemma stateOkI:
  assumes "s = rgStates r ! ref" "wsAcquisitions s = map (\<lambda>p. (aqKey p, p)) (wsLine s)" "distinct (map aqKey (wsLine s))"
    and "wsActive s = None \<Longrightarrow> wsQueue s = []" "wsActive s \<noteq> None \<Longrightarrow> rgWorkspaces r (wsWorkspaceKey s) = Some ref"
    and "\<And>p. p \<in> set (wsLine s) \<Longrightarrow> wsWorkspaceKey s = liWorkspaceKey (aqInput p) \<and> aqId p < rgNext r
        \<and> aqKey p = acquisitionKey (liSessionId (aqInput p)) (liBoundaryToken (aqInput p))"
    and "\<And>p. wsActive s = Some p \<Longrightarrow> rgOutcomes r (aqId p) = Some (Granted (leaseOf ref p))"
    and "\<And>p. p \<in> set (wsQueue s) \<Longrightarrow> rgOutcomes r (aqId p) = None
        \<and> (\<forall>sig. liSignal (aqInput p) = Some sig \<longrightarrow> (sig, ref, p) \<in> set (rgListeners r))"
  shows "stateOk r ref"
  using assms(2-) unfolding stateOk_def Let_def assms(1) by blast

lemma alistDelete_line:
  assumes "distinct (map aqKey ps)" "p \<in> set ps"
  shows "alistDelete (aqKey p) (map (\<lambda>q. (aqKey q, q)) ps) = map (\<lambda>q. (aqKey q, q)) (remove1 p ps)"
  using assms
proof (induction ps)
  case (Cons a ps)
  show ?case
  proof (cases "a = p")
    case True
    with Cons.prems(1) have "\<forall>q \<in> set ps. aqKey q \<noteq> aqKey p" by (auto simp: image_iff)
    then have "filter (\<lambda>q. aqKey q \<noteq> aqKey p) ps = ps" by (simp add: filter_id_conv)
    then show ?thesis using True by (simp add: alistDelete_def filter_map comp_def)
  next
    case False
    with Cons have "aqKey a \<noteq> aqKey p" by auto
    with False Cons show ?thesis by (simp add: alistDelete_def)
  qed
qed simp

lemma map_of_line:
  assumes "distinct (map aqKey ps)" "p \<in> set ps"
  shows "map_of (map (\<lambda>q. (aqKey q, q)) ps) (aqKey p) = Some p"
  using assms by (intro map_of_is_SomeI) (simp_all add: comp_def)

lemma line_ids_inj:
  assumes "leaseInv r" "ref < length (rgStates r)" "p \<in> set (wsLine (rgStates r ! ref))" "q \<in> set (wsLine (rgStates r ! ref))"
  shows "aqId p = aqId q \<longleftrightarrow> p = q"
  using leaseInv_ids [OF assms(1,2,2,3,4)] by auto

subsubsection \<open>Release\<close>

text \<open>The state after a release of the head of the line \<open>p # ps\<close>.\<close>

definition handOver :: "nat \<Rightarrow> acquisition list \<Rightarrow> leaseRegistry \<Rightarrow> leaseRegistry \<Rightarrow> bool" where
  "handOver ref ps r r' \<longleftrightarrow> rgAborted r' = rgAborted r \<and> rgNext r' = rgNext r
    \<and> rgStates r' = (rgStates r)[ref := (rgStates r ! ref)\<lparr>wsActive := (case ps of [] \<Rightarrow> None | q # _ \<Rightarrow> Some q),
        wsQueue := tl ps, wsAcquisitions := map (\<lambda>q. (aqKey q, q)) ps\<rparr>]
    \<and> (case ps of
         [] \<Rightarrow> rgWorkspaces r' = (rgWorkspaces r)(wsWorkspaceKey (rgStates r ! ref) := None)
           \<and> rgOutcomes r' = rgOutcomes r \<and> rgListeners r' = rgListeners r
       | q # _ \<Rightarrow> rgWorkspaces r' = rgWorkspaces r \<and> rgOutcomes r' = (rgOutcomes r)(aqId q \<mapsto> Granted (leaseOf ref q))
           \<and> rgListeners r' = rgListeners (cleanupAbortListener q r))"

lemma leaseState_commute:
  "s\<lparr>wsAcquisitions := a, wsActive := b, wsQueue := c\<rparr> = s\<lparr>wsActive := b, wsQueue := c, wsAcquisitions := a\<rparr>"
  "s\<lparr>wsQueue := c, wsAcquisitions := a, wsActive := b\<rparr> = s\<lparr>wsActive := b, wsQueue := c, wsAcquisitions := a\<rparr>"
  by (cases s; simp)+

lemma leaseState_commute2: "s\<lparr>wsAcquisitions := a, wsQueue := c\<rparr> = s\<lparr>wsQueue := c, wsAcquisitions := a\<rparr>"
  by (cases s) simp

lemma releaseLease_handOver:
  assumes inv: "leaseInv r" "leaseQuiet r" and run: "rgOutcomes r i = Some (Granted l)" "releaseLease l r = (Inr (), r')"
  shows "\<exists>ref p ps. ref < length (rgStates r) \<and> wsLine (rgStates r ! ref) = p # ps \<and> wsActive (rgStates r ! ref) = Some p
    \<and> aqId p = i \<and> handOver ref ps r r'"
proof -
  let ?ref = "wlState l" and ?s = "rgStates r ! wlState l"
  have ref: "?ref < length (rgStates r)" and i: "aqId (wlPending l) = i" using leaseInv_granted [OF inv(1) run(1)] by auto
  note ok = leaseInv_state [OF inv(1) ref]
  obtain p where act: "wsActive ?s = Some p" and id: "aqId p = aqId (wlPending l)"
    using run(2) by (auto simp: releaseLease_def split: if_splits)
  have "Granted (leaseOf ?ref p) = Granted l" using stateOk_holder [OF ok refl act] run(1) i id by simp
  then have "wlPending (leaseOf ?ref p) = wlPending l" by simp
  then have p: "wlPending l = p" by (simp add: leaseOf_def)
  define r0 where "r0 = modState ?ref (\<lambda>s. s\<lparr>wsAcquisitions := alistDelete (aqKey p) (wsAcquisitions s), wsActive := None\<rparr>) r"
  have r': "r' = grantNext ?ref r0" using run(2) act p by (simp add: releaseLease_def r0_def)
  have acq: "alistDelete (aqKey p) (wsAcquisitions ?s) = map (\<lambda>q. (aqKey q, q)) (wsQueue ?s)"
    using stateOk_acquisitions [OF ok refl] stateOk_distinct [OF ok refl] act alistDelete_line [of "wsLine ?s" p] by simp
  have key: "rgWorkspaces r (wsWorkspaceKey ?s) = Some ?ref" using stateOk_open [OF ok refl] act by simp
  have "handOver ?ref (wsQueue ?s) r r'"
  proof (cases "wsQueue ?s")
    case Nil
    then show ?thesis using ref acq key
      by (simp add: r' grantNext_def r0_def deleteIdleState_def handOver_def leaseState_commute)
  next
    case (Cons q qs)
    then have "q \<in> set (wsQueue ?s)" by simp
    then have "signalAborted r q = None" "rgOutcomes r (aqId q) = None"
      using inv(2) ref stateOk_waiting [OF ok refl] by (auto simp: leaseQuiet_def)
    moreover from this(1) have "signalAborted (modState ?ref (\<lambda>s. s\<lparr>wsQueue := qs\<rparr>) r0) q = None"
      using signalAborted_cong [of "modState ?ref (\<lambda>s. s\<lparr>wsQueue := qs\<rparr>) r0" r q] by (simp add: r0_def)
    ultimately show ?thesis using ref acq Cons
      by (simp add: r' grantNext_def grant_def handOver_def r0_def cleanupAbortListener_def leaseState_commute)
  qed
  with ref act id i show ?thesis by (intro exI [of _ ?ref] exI [of _ p] exI [of _ "wsQueue ?s"]) simp
qed

lemma handOver_inv:
  assumes inv: "leaseInv r" "leaseQuiet r" and ref: "ref < length (rgStates r)" and line: "wsLine (rgStates r ! ref) = p # ps"
    and act: "wsActive (rgStates r ! ref) = Some p" and h: "handOver ref ps r r'"
  shows "leaseInv r'" "leaseQuiet r'" "leaseLine r' = (leaseLine r)(wsWorkspaceKey (rgStates r ! ref) := ps)"
proof -
  let ?s = "rgStates r ! ref"
  define s' where "s' = ?s\<lparr>wsActive := (case ps of [] \<Rightarrow> None | q # _ \<Rightarrow> Some q), wsQueue := tl ps,
    wsAcquisitions := map (\<lambda>q. (aqKey q, q)) ps\<rparr>"
  note ok = leaseInv_state [OF inv(1) ref]
  have ps: "ps = wsQueue ?s" using line act by simp
  have key: "rgWorkspaces r (wsWorkspaceKey ?s) = Some ref" using stateOk_open [OF ok refl] act by simp
  have line': "wsLine s' = ps" by (cases ps) (simp_all add: s'_def wsLine_def)
  have states: "rgStates r' = (rgStates r)[ref := s']" using h by (simp add: handOver_def s'_def)
  have active': "wsActive s' = None \<longleftrightarrow> ps = []" by (simp add: s'_def split: list.split)
  have same: "(rgWorkspaces r)(wsWorkspaceKey ?s \<mapsto> ref) = rgWorkspaces r" using key by (simp add: fun_upd_idem)
  have ws: "rgWorkspaces r' = (rgWorkspaces r)(wsWorkspaceKey s' := (if wsActive s' = None then None else Some ref))"
    using h same active' by (cases ps) (simp_all add: handOver_def s'_def)
  have key': "wsWorkspaceKey s' = wsWorkspaceKey ?s" by (simp add: s'_def)
  have distinct: "distinct (map aqKey ps)" using stateOk_distinct [OF ok refl] line by simp
  have waiting: "\<forall>q \<in> set ps. rgOutcomes r (aqId q) = None \<and> (\<forall>sig. liSignal (aqInput q) = Some sig \<longrightarrow> (sig, ref, q) \<in> set (rgListeners r))"
    using stateOk_waiting [OF ok refl] ps by blast
  have member: "\<forall>q \<in> set ps. wsWorkspaceKey ?s = liWorkspaceKey (aqInput q) \<and> aqId q < rgNext r
        \<and> aqKey q = acquisitionKey (liSessionId (aqInput q)) (liBoundaryToken (aqInput q))"
    using stateOk_member [OF ok refl] line by simp
  have inj: "\<forall>q \<in> set ps. \<forall>q' \<in> set ps. aqId q = aqId q' \<longrightarrow> q = q'" using line_ids_inj [OF inv(1) ref] line by (metis list.set_intros(2))
  have outcomes: "rgOutcomes r' = (case ps of [] \<Rightarrow> rgOutcomes r | q # _ \<Rightarrow> (rgOutcomes r)(aqId q \<mapsto> Granted (leaseOf ref q)))"
    using h by (cases ps) (simp_all add: handOver_def)
  have listeners: "(sig, k, q) \<in> set (rgListeners r') \<longleftrightarrow> (sig, k, q) \<in> set (rgListeners r) \<and> (ps = [] \<or> aqId q \<noteq> aqId (hd ps))" for sig k q
    using h by (cases ps) (auto simp: handOver_def)
  have nxt: "rgNext r' = rgNext r" using h by (simp add: handOver_def)
  have ids: "aqId q \<noteq> aqId (hd ps)" if "ps \<noteq> []" "q \<in> set (tl ps)" for q
    using that inj distinct by (cases ps) auto
  have "stateOk r' ref"
    using ref distinct waiting member key ids
    unfolding stateOk_def Let_def
    by (cases ps) (auto simp: states nxt ws line' listeners outcomes s'_def)
  moreover have "\<forall>sig q. (sig, ref, q) \<in> set (rgListeners r') \<longrightarrow> q \<in> set (wsQueue s') \<and> liSignal (aqInput q) = Some sig"
  proof (intro allI impI)
    fix sig q
    assume "(sig, ref, q) \<in> set (rgListeners r')"
    then have "(sig, ref, q) \<in> set (rgListeners r)" "ps = [] \<or> aqId q \<noteq> aqId (hd ps)" by (simp_all add: listeners)
    moreover from leaseInv_listener [OF inv(1) this(1)] have "q \<in> set ps" "liSignal (aqInput q) = Some sig" by (simp_all add: ps)
    ultimately show "q \<in> set (wsQueue s') \<and> liSignal (aqInput q) = Some sig" by (cases ps) (auto simp: s'_def)
  qed
  moreover have "(sig, k, q) \<in> set (rgListeners r') \<longleftrightarrow> (sig, k, q) \<in> set (rgListeners r)" if "k \<noteq> ref" for sig k q
  proof -
    have "aqId q \<noteq> aqId (hd ps)" if l: "(sig, k, q) \<in> set (rgListeners r)" "ps \<noteq> []"
    proof -
      have "hd ps \<in> set (wsLine ?s)" using l(2) line by simp
      then show ?thesis
        using leaseInv_listener [OF inv(1) l(1)] leaseInv_ids [OF inv(1), of k ref q "hd ps"] ref \<open>k \<noteq> ref\<close> queue_in_line by blast
    qed
    then show ?thesis by (auto simp: listeners)
  qed
  moreover have "\<forall>i. rgOutcomes r' i \<noteq> None \<longrightarrow> i < rgNext r'"
    using member leaseInv_outcome [OF inv(1)] by (cases ps) (auto simp: outcomes nxt)
  moreover have "\<forall>i < rgNext r. i \<notin> aqId ` set (wsLine ?s) \<longrightarrow> rgOutcomes r' i = rgOutcomes r i"
    using line by (cases ps) (auto simp: outcomes)
  moreover have "\<forall>i l. rgOutcomes r' i = Some (Granted l) \<longrightarrow> rgOutcomes r i = Some (Granted l)
        \<or> wlState l = ref \<and> aqId (wlPending l) = i \<and> wlWorkspaceKey l = wsWorkspaceKey s'"
    using member by (cases ps) (auto simp: outcomes leaseOf_def key')
  ultimately show "leaseInv r'"
    using leaseInv_update [OF inv(1) ref _ states _ ws key'] key act key' line line' inj nxt by auto
  have "rgAborted r' = rgAborted r" using h by (simp add: handOver_def)
  moreover have "set (tl ps) \<subseteq> set ps" by (cases ps) auto
  ultimately show "leaseQuiet r'"
    using inv(2) ref signalAborted_cong [of r' r] ps
    by (auto simp: leaseQuiet_def states nth_list_update s'_def)
  show "leaseLine r' = (leaseLine r)(wsWorkspaceKey ?s := ps)"
    using leaseLine_update [OF inv(1) ref _ key' states ws] line' active' by (simp add: key')
qed

subsubsection \<open>Abort\<close>

lemma splice_remove1:
  "findIndex P xs = Some i \<Longrightarrow> \<forall>x \<in> set xs. P x \<longleftrightarrow> x = p \<Longrightarrow> take i xs @ drop (i + 1) xs = remove1 p xs"
  by (induction xs arbitrary: i) (auto split: if_splits)

text \<open>The state after an abort listener took \<open>p\<close> out of the queue.\<close>

definition takenOut :: "nat \<Rightarrow> acquisition \<Rightarrow> leaseRegistry \<Rightarrow> leaseRegistry \<Rightarrow> bool" where
  "takenOut ref p r r' \<longleftrightarrow> rgAborted r' = rgAborted r \<and> rgNext r' = rgNext r \<and> rgWorkspaces r' = rgWorkspaces r
    \<and> rgStates r' = (rgStates r)[ref := (rgStates r ! ref)\<lparr>wsQueue := remove1 p (wsQueue (rgStates r ! ref)),
        wsAcquisitions := map (\<lambda>q. (aqKey q, q)) (remove1 p (wsLine (rgStates r ! ref)))\<rparr>]
    \<and> rgOutcomes r' = (rgOutcomes r)(aqId p \<mapsto> Rejected (abortReason (the (signalAborted r p))))
    \<and> (\<forall>s k q. (s, k, q) \<in> set (rgListeners r') \<longleftrightarrow> (s, k, q) \<in> set (rgListeners r) \<and> aqId q \<noteq> aqId p)"

lemma queue_behind_holder:
  assumes "leaseInv r" "ref < length (rgStates r)" "p \<in> set (wsQueue (rgStates r ! ref))"
  shows "\<exists>a. wsActive (rgStates r ! ref) = Some a \<and> a \<noteq> p"
proof -
  note ok = leaseInv_state [OF assms(1,2)]
  obtain a where a: "wsActive (rgStates r ! ref) = Some a" using stateOk_idle [OF ok refl] assms(3) by fastforce
  moreover have "a \<noteq> p" using stateOk_distinct [OF ok refl] assms(3) a by auto
  ultimately show ?thesis by blast
qed

lemma abortQueued_takenOut:
  assumes inv: "leaseInv r" and ref: "ref < length (rgStates r)" and p: "p \<in> set (wsQueue (rgStates r ! ref))"
  shows "takenOut ref p r (abortQueued ref p (cleanupAbortListener p r))"
proof -
  let ?s = "rgStates r ! ref"
  note ok = leaseInv_state [OF inv ref]
  obtain a where a: "wsActive ?s = Some a" "a \<noteq> p" using queue_behind_holder [OF inv ref p] by blast
  have pl: "p \<in> set (wsLine ?s)" using p by (rule queue_in_line)
  have inj: "\<forall>q \<in> set (wsQueue ?s). aqId q = aqId p \<longleftrightarrow> q = p"
    using line_ids_inj [OF inv ref _ pl] queue_in_line by blast
  obtain i where i: "findIndex (\<lambda>q. aqId q = aqId p) (wsQueue ?s) = Some i"
    using p findIndex_None [of "\<lambda>q. aqId q = aqId p" "wsQueue ?s"] by (cases "findIndex (\<lambda>q. aqId q = aqId p) (wsQueue ?s)") auto
  have queue: "take i (wsQueue ?s) @ drop (Suc i) (wsQueue ?s) = remove1 p (wsQueue ?s)"
    using splice_remove1 [OF i inj] by simp
  have forget: "forgetAcquisition p (?s\<lparr>wsQueue := qs\<rparr>)
      = ?s\<lparr>wsQueue := qs, wsAcquisitions := map (\<lambda>q. (aqKey q, q)) (remove1 p (wsLine ?s))\<rparr>" for qs
    using stateOk_acquisitions [OF ok refl] stateOk_distinct [OF ok refl] pl
    by (simp add: forgetAcquisition_def map_of_line alistDelete_line)
  have fresh: "rgOutcomes r (aqId p) = None" using stateOk_waiting [OF ok refl p] by blast
  have "signalAborted (cleanupAbortListener p r) p = signalAborted r p" by (rule signalAborted_cong) simp
  then show ?thesis
    using ref a fresh queue by (simp add: abortQueued_def i grantNext_def takenOut_def forget)
qed

lemma distinct_map_remove1: "distinct (map f xs) \<Longrightarrow> distinct (map f (remove1 x xs))"
  by (induction xs) (use set_remove1_subset in fastforce)+

lemma remove1_filter: "\<not> P p \<Longrightarrow> filter P (remove1 p xs) = filter P xs"
  by (induction xs) auto

lemma takenOut_inv:
  assumes inv: "leaseInv r" and ref: "ref < length (rgStates r)" and p: "p \<in> set (wsQueue (rgStates r ! ref))"
    and h: "takenOut ref p r r'"
  shows "leaseInv r'"
    and "leaseLine r' = (leaseLine r)(wsWorkspaceKey (rgStates r ! ref) := remove1 p (leaseLine r (wsWorkspaceKey (rgStates r ! ref))))"
    and "k < length (rgStates r) \<Longrightarrow> set (wsQueue (rgStates r' ! k)) = set (wsQueue (rgStates r ! k)) - (if k = ref then {p} else {})"
proof -
  let ?s = "rgStates r ! ref"
  define s' where "s' = ?s\<lparr>wsQueue := remove1 p (wsQueue ?s), wsAcquisitions := map (\<lambda>q. (aqKey q, q)) (remove1 p (wsLine ?s))\<rparr>"
  note ok = leaseInv_state [OF inv ref]
  obtain a where a: "wsActive ?s = Some a" "a \<noteq> p" using queue_behind_holder [OF inv ref p] by blast
  have pl: "p \<in> set (wsLine ?s)" using p by (rule queue_in_line)
  have key: "rgWorkspaces r (wsWorkspaceKey ?s) = Some ref" using stateOk_open [OF ok refl] a by simp
  have states: "rgStates r' = (rgStates r)[ref := s']" using h by (simp add: takenOut_def s'_def)
  have line': "wsLine s' = remove1 p (wsLine ?s)" using a by (simp add: s'_def)
  have keys: "distinct (map aqKey (wsLine ?s))" by (rule stateOk_distinct [OF ok refl])
  then have dist: "distinct (wsLine ?s)" by (simp add: distinct_map)
  have set': "set (remove1 p (wsQueue ?s)) = set (wsQueue ?s) - {p}" using dist a by simp
  have keys': "distinct (map aqKey (wsLine s'))"
    using keys by (simp add: line' distinct_map_remove1)
  have same: "(rgWorkspaces r)(wsWorkspaceKey ?s \<mapsto> ref) = rgWorkspaces r" using key by (simp add: fun_upd_idem)
  have ws: "rgWorkspaces r' = (rgWorkspaces r)(wsWorkspaceKey s' := (if wsActive s' = None then None else Some ref))"
    using h same a by (simp add: takenOut_def s'_def)
  have outcomes: "rgOutcomes r' = (rgOutcomes r)(aqId p \<mapsto> Rejected (abortReason (the (signalAborted r p))))"
    and nxt: "rgNext r' = rgNext r"
    and listeners: "\<And>s k q. (s, k, q) \<in> set (rgListeners r') \<longleftrightarrow> (s, k, q) \<in> set (rgListeners r) \<and> aqId q \<noteq> aqId p"
    using h by (simp_all add: takenOut_def)
  have inj: "aqId q = aqId p \<longleftrightarrow> q = p" if "q \<in> set (wsLine ?s)" for q using line_ids_inj [OF inv ref that pl] .
  have ida: "aqId a \<noteq> aqId p" using inj [of a] a by simp
  have sub: "q \<in> set (wsLine ?s)" if "q \<in> set (wsLine s')" for q using that set_remove1_subset [of p "wsLine ?s"] by (auto simp: line')
  have ok': "stateOk r' ref"
  proof (rule stateOkI [of s'])
    show "s' = rgStates r' ! ref" using ref by (simp add: states)
    show "wsAcquisitions s' = map (\<lambda>p. (aqKey p, p)) (wsLine s')" by (simp add: line') (simp add: s'_def)
    show "rgOutcomes r' (aqId q) = Some (Granted (leaseOf ref q))" if "wsActive s' = Some q" for q
      using that a ida stateOk_holder [OF ok refl a(1)] by (simp add: outcomes s'_def)
    show "rgOutcomes r' (aqId q) = None \<and> (\<forall>sig. liSignal (aqInput q) = Some sig \<longrightarrow> (sig, ref, q) \<in> set (rgListeners r'))"
      if "q \<in> set (wsQueue s')" for q
    proof -
      have q: "q \<in> set (wsQueue ?s)" "q \<noteq> p" using that set' by (simp_all add: s'_def)
      then have "aqId q \<noteq> aqId p" using inj queue_in_line by blast
      then show ?thesis using stateOk_waiting [OF ok refl q(1)] by (simp add: outcomes listeners)
    qed
    show "wsWorkspaceKey s' = liWorkspaceKey (aqInput q) \<and> aqId q < rgNext r'
        \<and> aqKey q = acquisitionKey (liSessionId (aqInput q)) (liBoundaryToken (aqInput q))" if "q \<in> set (wsLine s')" for q
      using stateOk_member [OF ok refl sub [OF that]] unfolding nxt by (simp add: s'_def)
    have act: "wsActive s' = Some a" using a by (simp add: s'_def)
    then show "wsActive s' = None \<Longrightarrow> wsQueue s' = []" by simp
    show "rgWorkspaces r' (wsWorkspaceKey s') = Some ref" by (simp add: ws act)
  qed (rule keys')
  have l2: "\<forall>sig q. (sig, ref, q) \<in> set (rgListeners r') \<longrightarrow> q \<in> set (wsQueue s') \<and> liSignal (aqInput q) = Some sig"
    using leaseInv_listener [OF inv] by (auto simp: listeners s'_def set')
  have l1: "(sig, k, q) \<in> set (rgListeners r') \<longleftrightarrow> (sig, k, q) \<in> set (rgListeners r)" if k: "k \<noteq> ref" for sig k q
  proof -
    have "aqId q \<noteq> aqId p" if l: "(sig, k, q) \<in> set (rgListeners r)"
    proof
      assume "aqId q = aqId p"
      moreover have "k < length (rgStates r)" "q \<in> set (wsLine (rgStates r ! k))"
        using leaseInv_listener [OF inv l] queue_in_line by auto
      ultimately show False using leaseInv_ids [OF inv _ ref _ pl, of k q] k by blast
    qed
    then show ?thesis by (auto simp: listeners)
  qed
  have o2: "\<forall>i. rgOutcomes r' i \<noteq> None \<longrightarrow> i < rgNext r'"
    using stateOk_member [OF ok refl pl] leaseInv_outcome [OF inv] by (auto simp: outcomes nxt)
  have o1: "\<forall>i < rgNext r. i \<notin> aqId ` set (wsLine ?s) \<longrightarrow> rgOutcomes r' i = rgOutcomes r i"
    using pl by (auto simp: outcomes)
  have o3: "\<forall>i l. rgOutcomes r' i = Some (Granted l) \<longrightarrow> rgOutcomes r i = Some (Granted l)
        \<or> wlState l = ref \<and> aqId (wlPending l) = i \<and> wlWorkspaceKey l = wsWorkspaceKey s'"
    by (auto simp: outcomes)
  have m1: "\<forall>q \<in> set (wsLine s'). q \<in> set (wsLine ?s) \<or> rgNext r \<le> aqId q" using sub by blast
  have m2: "\<forall>q \<in> set (wsLine s'). \<forall>q' \<in> set (wsLine s'). aqId q = aqId q' \<longrightarrow> q = q'"
    using line_ids_inj [OF inv ref] sub by blast
  have key': "wsWorkspaceKey s' = wsWorkspaceKey ?s" by (simp add: s'_def)
  have old: "rgWorkspaces r (wsWorkspaceKey s') = (if wsActive ?s = None then None else Some ref)" using key a by (simp add: key')
  show "leaseInv r'"
    by (rule leaseInv_update [OF inv ref old states _ ws key' ok' m1 m2 o1 o2 o3 _ l2]) (use l1 nxt in auto)
  have "leaseLine r (wsWorkspaceKey ?s) = wsLine ?s" using key by (simp add: leaseLine_def)
  with leaseLine_update [OF inv ref _ key' states ws] a
  show "leaseLine r' = (leaseLine r)(wsWorkspaceKey ?s := remove1 p (leaseLine r (wsWorkspaceKey ?s)))"
    by (simp add: line' key') (simp add: s'_def)
  show "set (wsQueue (rgStates r' ! k)) = set (wsQueue (rgStates r ! k)) - (if k = ref then {p} else {})"
    if "k < length (rgStates r)" for k
    using that set' by (simp add: states nth_list_update s'_def)
qed

lemma abortQueued_head:
  assumes inv: "leaseInv r" and ref: "ref < length (rgStates r)" and p: "p \<in> set (wsQueue (rgStates r ! ref))"
  shows "\<exists>a q. leaseLine r (wsWorkspaceKey (rgStates r ! ref)) = a # q \<and> a \<noteq> p"
proof -
  obtain a where a: "wsActive (rgStates r ! ref) = Some a" "a \<noteq> p" using queue_behind_holder [OF assms] by blast
  then have "leaseLine r (wsWorkspaceKey (rgStates r ! ref)) = a # wsQueue (rgStates r ! ref)"
    using stateOk_open [OF leaseInv_state [OF inv ref] refl] by (simp add: leaseLine_def)
  with a(2) show ?thesis by blast
qed

text \<open>What the abort of a signal does to a line: the waiting acquisitions with that signal leave it.\<close>

definition withoutSignal :: "nat \<Rightarrow> acquisition list \<Rightarrow> acquisition list" where
  "withoutSignal s line = (case line of [] \<Rightarrow> [] | p # q \<Rightarrow> p # filter (\<lambda>x. liSignal (aqInput x) \<noteq> Some s) q)"

definition onlyRejects :: "string option \<Rightarrow> leaseRegistry \<Rightarrow> leaseRegistry \<Rightarrow> bool" where
  "onlyRejects reason r r' \<longleftrightarrow> rgAborted r' = rgAborted r
    \<and> (\<forall>i. rgOutcomes r' i = rgOutcomes r i \<or> rgOutcomes r i = None \<and> rgOutcomes r' i = Some (Rejected (abortReason reason)))"

lemma onlyRejects_trans: "onlyRejects x r r1 \<Longrightarrow> onlyRejects x r1 r2 \<Longrightarrow> onlyRejects x r r2"
  unfolding onlyRejects_def by metis

lemma dispatchAbort_ok:
  assumes "leaseInv r" "rgAborted r s = Some reason" "\<forall>(t, k, p) \<in> set ls. t = s \<and> liSignal (aqInput p) = Some s"
    and "\<forall>k < length (rgStates r). \<forall>p \<in> set (wsQueue (rgStates r ! k)). signalAborted r p = None \<or> (s, k, p) \<in> set ls"
  shows "leaseInv (dispatchAbort ls r) \<and> leaseQuiet (dispatchAbort ls r) \<and> onlyRejects reason r (dispatchAbort ls r)
    \<and> (\<forall>w. withoutSignal s (leaseLine (dispatchAbort ls r) w) = withoutSignal s (leaseLine r w))"
  using assms
proof (induction ls arbitrary: r)
  case Nil
  then show ?case by (simp add: leaseQuiet_def onlyRejects_def)
next
  case (Cons l ls)
  obtain k p where l: "l = (s, k, p)" and sig: "liSignal (aqInput p) = Some s" using Cons.prems(3) by (cases l) auto
  have ls: "\<forall>(t, k, p) \<in> set ls. t = s \<and> liSignal (aqInput p) = Some s" using Cons.prems(3) by simp
  show ?case
  proof (cases "(s, k, p) \<in> set (rgListeners r)")
    case False
    have "(s, k', q) \<in> set ls" if k': "k' < length (rgStates r)" and q: "q \<in> set (wsQueue (rgStates r ! k'))"
      and ab: "signalAborted r q \<noteq> None" for k' q
    proof -
      have in_l: "(s, k', q) \<in> set (l # ls)" using Cons.prems(4) [rule_format, OF k' q] ab by simp
      with Cons.prems(3) have "liSignal (aqInput q) = Some s" by auto
      then have "(s, k', q) \<in> set (rgListeners r)" using stateOk_waiting [OF leaseInv_state [OF Cons.prems(1) k'] refl q] by blast
      then show ?thesis using in_l False l by auto
    qed
    then have "\<forall>k' < length (rgStates r). \<forall>q \<in> set (wsQueue (rgStates r ! k')). signalAborted r q = None \<or> (s, k', q) \<in> set ls"
      by blast
    from Cons.IH [OF Cons.prems(1,2) ls this] show ?thesis using False by (simp add: l)
  next
    case True
    define r1 where "r1 = abortQueued k p (cleanupAbortListener p r)"
    have k: "k < length (rgStates r)" "p \<in> set (wsQueue (rgStates r ! k))" using leaseInv_listener [OF Cons.prems(1) True] by auto
    have t: "takenOut k p r r1" unfolding r1_def by (rule abortQueued_takenOut [OF Cons.prems(1) k])
    note i1 = takenOut_inv [OF Cons.prems(1) k t]
    have len: "length (rgStates r1) = length (rgStates r)" and ab: "rgAborted r1 = rgAborted r" using t by (simp_all add: takenOut_def)
    have "(s, k', q) \<in> set ls" if k': "k' < length (rgStates r)" and q: "q \<in> set (wsQueue (rgStates r1 ! k'))"
      and q': "signalAborted r q \<noteq> None" for k' q
    proof -
      have q0: "q \<in> set (wsQueue (rgStates r ! k'))" "\<not> (k' = k \<and> q = p)" using i1(3) [OF k'] q by (auto split: if_splits)
      have "signalAborted r q = None \<or> (s, k', q) \<in> set (l # ls)" by (rule Cons.prems(4) [rule_format, OF k' q0(1)])
      then show ?thesis using q0(2) q' l by auto
    qed
    then have wait: "\<forall>k' < length (rgStates r1). \<forall>q \<in> set (wsQueue (rgStates r1 ! k')). signalAborted r1 q = None \<or> (s, k', q) \<in> set ls"
      using signalAborted_cong [OF ab] len by metis
    have "signalAborted r p = Some reason" using sig Cons.prems(2) by (simp add: signalAborted_def)
    then have rej: "onlyRejects reason r r1"
      using t stateOk_waiting [OF leaseInv_state [OF Cons.prems(1) k(1)] refl k(2)] by (simp add: takenOut_def onlyRejects_def)
    have lines: "withoutSignal s (leaseLine r1 w) = withoutSignal s (leaseLine r w)" for w
      using abortQueued_head [OF Cons.prems(1) k] sig i1(2) by (auto simp: withoutSignal_def remove1_filter)
    have "dispatchAbort (l # ls) r = dispatchAbort ls r1" using True by (simp add: l r1_def)
    then show ?thesis using Cons.IH [OF i1(1) _ ls wait] Cons.prems(2) ab lines onlyRejects_trans [OF rej] by simp
  qed
qed

lemma withoutSignal_quiet:
  assumes "leaseInv r" "leaseQuiet r" "rgAborted r s \<noteq> None"
  shows "withoutSignal s (leaseLine r w) = leaseLine r w"
proof (cases "rgWorkspaces r w")
  case (Some ref)
  then obtain a where ref: "ref < length (rgStates r)" and a: "wsActive (rgStates r ! ref) = Some a"
    using leaseInv_workspace [OF assms(1) Some] by blast
  have "\<forall>p \<in> set (wsQueue (rgStates r ! ref)). liSignal (aqInput p) \<noteq> Some s"
    using assms(2,3) ref by (fastforce simp: leaseQuiet_def signalAborted_def)
  then show ?thesis using Some a by (simp add: leaseLine_def withoutSignal_def filter_id_conv)
qed (simp add: leaseLine_def withoutSignal_def)

lemma abortSignal_ok:
  assumes inv: "leaseInv r" "leaseQuiet r"
  shows "leaseInv (abortSignal s reason r) \<and> leaseQuiet (abortSignal s reason r)
    \<and> leaseLine (abortSignal s reason r) = (\<lambda>w. withoutSignal s (leaseLine r w))
    \<and> rgAborted (abortSignal s reason r) = (if rgAborted r s = None then (rgAborted r)(s \<mapsto> reason) else rgAborted r)
    \<and> (\<forall>i l. rgOutcomes (abortSignal s reason r) i = Some (Granted l) \<longleftrightarrow> rgOutcomes r i = Some (Granted l))"
proof (cases "rgAborted r s = None")
  case False
  then show ?thesis using inv withoutSignal_quiet [OF inv False] by (auto simp: abortSignal_def)
next
  case True
  define r0 where "r0 = r\<lparr>rgAborted := (rgAborted r)(s \<mapsto> reason)\<rparr>"
  define ls where "ls = filter (\<lambda>(t, _, _). t = s) (rgListeners r)"
  have inv0: "leaseInv r0" using inv(1) by (simp add: leaseInv_def stateOk_def r0_def)
  have lines0: "leaseLine r0 = leaseLine r" by (simp add: leaseLine_def r0_def fun_eq_iff split: option.split)
  have ls: "\<forall>(t, k, p) \<in> set ls. t = s \<and> liSignal (aqInput p) = Some s" using leaseInv_listener [OF inv(1)] by (auto simp: ls_def)
  have wait: "(s, k, p) \<in> set ls" if k: "k < length (rgStates r0)" and p: "p \<in> set (wsQueue (rgStates r0 ! k))"
    and ab: "signalAborted r0 p \<noteq> None" for k p
  proof -
    have "signalAborted r p = None" using inv(2) k p by (simp add: leaseQuiet_def r0_def)
    then have "liSignal (aqInput p) = Some s" using ab by (auto simp: signalAborted_def r0_def split: option.splits if_splits)
    then show ?thesis using stateOk_waiting [OF leaseInv_state [OF inv0 k] refl p] by (simp add: ls_def r0_def)
  qed
  have aborted: "rgAborted r0 s = Some reason" by (simp add: r0_def)
  have run: "leaseInv (dispatchAbort ls r0) \<and> leaseQuiet (dispatchAbort ls r0) \<and> onlyRejects reason r0 (dispatchAbort ls r0)
    \<and> (\<forall>w. withoutSignal s (leaseLine (dispatchAbort ls r0) w) = withoutSignal s (leaseLine r0 w))"
    by (rule dispatchAbort_ok [OF inv0 aborted ls]) (use wait in blast)
  have eq: "abortSignal s reason r = dispatchAbort ls r0" using True by (simp add: abortSignal_def ls_def r0_def)
  have ab: "rgAborted (dispatchAbort ls r0) = (rgAborted r)(s \<mapsto> reason)" using run by (simp add: onlyRejects_def r0_def)
  have "withoutSignal s (leaseLine (dispatchAbort ls r0) w) = leaseLine (dispatchAbort ls r0) w" for w
    by (rule withoutSignal_quiet) (use run ab in simp_all)
  moreover have "rgOutcomes (dispatchAbort ls r0) i = Some (Granted l) \<longleftrightarrow> rgOutcomes r i = Some (Granted l)" for i l
    using run by (simp add: onlyRejects_def r0_def) (metis lease_outcome.distinct(1) option.distinct(1) option.inject)
  ultimately show ?thesis using run ab True by (simp add: eq lines0 fun_eq_iff)
qed

subsubsection \<open>Acquire\<close>

lemma acquisitionKey_inj: "acquisitionKey s b = acquisitionKey s' b' \<longleftrightarrow> s = s' \<and> b = b'"
proof
  assume eq: "acquisitionKey s b = acquisitionKey s' b'"
  have "jsonQuote s @ '','' @ jsonQuote b @ '']'' = jsonQuote s' @ '','' @ jsonQuote b' @ '']''"
    using eq by (simp add: acquisitionKey_def)
  then have "s = s'" "jsonQuote b @ '']'' = jsonQuote b' @ '']''" using jsonQuote_inj [of s _ s'] by auto
  then show "s = s' \<and> b = b'" using jsonQuote_inj [of b _ b'] by blast
qed simp

definition sameRequest :: "leaseInput \<Rightarrow> acquisition \<Rightarrow> bool" where
  "sameRequest input p \<longleftrightarrow> liSessionId (aqInput p) = liSessionId input \<and> liBoundaryToken (aqInput p) = liBoundaryToken input"

lemma line_member:
  assumes "leaseInv r" "p \<in> set (leaseLine r w)"
  shows "aqId p < rgNext r \<and> liWorkspaceKey (aqInput p) = w
    \<and> aqKey p = acquisitionKey (liSessionId (aqInput p)) (liBoundaryToken (aqInput p))"
proof -
  obtain ref where ref: "rgWorkspaces r w = Some ref" "p \<in> set (wsLine (rgStates r ! ref))"
    using assms(2) by (cases "rgWorkspaces r w") (auto simp: leaseLine_def)
  have "ref < length (rgStates r)" "wsWorkspaceKey (rgStates r ! ref) = w" using leaseInv_workspace [OF assms(1) ref(1)] by auto
  then show ?thesis using stateOk_member [OF leaseInv_state [OF assms(1)] refl ref(2)] by simp
qed

lemma existingAcquisition_line:
  assumes inv: "leaseInv r"
  shows "existingAcquisition input r = find (sameRequest input) (leaseLine r (liWorkspaceKey input))"
proof -
  let ?w = "liWorkspaceKey input"
  have "existingAcquisition input r
      = find (\<lambda>p. aqKey p = acquisitionKey (liSessionId input) (liBoundaryToken input)) (leaseLine r ?w)"
  proof (cases "rgWorkspaces r ?w")
    case (Some ref)
    then have "ref < length (rgStates r)" using leaseInv_workspace [OF inv Some] by blast
    from stateOk_acquisitions [OF leaseInv_state [OF inv this] refl] show ?thesis
      using Some by (simp add: existingAcquisition_def leaseLine_def map_of_map_pair)
  qed (simp add: existingAcquisition_def leaseLine_def)
  also have "\<dots> = find (sameRequest input) (leaseLine r ?w)"
    by (rule find_cong) (use line_member [OF inv] in \<open>auto simp: sameRequest_def acquisitionKey_inj\<close>)
  finally show ?thesis .
qed

lemma leaseInv_add_idle:
  assumes inv: "leaseInv r" "leaseQuiet r"
    and idle: "wsActive s = None" "wsQueue s = []" "wsAcquisitions s = []"
    and r0: "r0 = r\<lparr>rgStates := rgStates r @ [s]\<rparr>"
  shows "leaseInv r0" "leaseQuiet r0" "leaseLine r0 = leaseLine r"
proof -
  have old: "rgStates r0 ! k = rgStates r ! k" if "k < length (rgStates r)" for k using that by (simp add: r0 nth_append)
  have new: "rgStates r0 ! k = s" if "k < length (rgStates r0)" "\<not> k < length (rgStates r)" for k using that by (simp add: r0 nth_append)
  have sel: "rgWorkspaces r0 = rgWorkspaces r" "rgListeners r0 = rgListeners r" "rgOutcomes r0 = rgOutcomes r" "rgNext r0 = rgNext r"
    and len: "length (rgStates r0) = Suc (length (rgStates r))" by (simp_all add: r0)
  have line: "wsLine s = []" using idle by simp
  have "stateOk r0 k" if k: "k < length (rgStates r0)" for k
  proof (cases "k < length (rgStates r)")
    case True
    then show ?thesis using leaseInv_state [OF inv(1) True] old [OF True] by (simp add: stateOk_def sel)
  next
    case False
    then show ?thesis using new [OF k] idle line by (simp add: stateOk_def)
  qed
  moreover have "\<forall>w k. rgWorkspaces r w = Some k \<longrightarrow> k < length (rgStates r0)
      \<and> wsWorkspaceKey (rgStates r0 ! k) = w \<and> wsActive (rgStates r0 ! k) \<noteq> None"
    using leaseInv_workspace [OF inv(1)] old len by fastforce
  moreover have "k = k' \<and> p = q" if k: "k < length (rgStates r0)" "k' < length (rgStates r0)"
      "p \<in> set (wsLine (rgStates r0 ! k))" "q \<in> set (wsLine (rgStates r0 ! k'))" "aqId p = aqId q" for k k' p q
  proof -
    have "k < length (rgStates r)" "k' < length (rgStates r)" using k new [of k] new [of k'] line by force+
    then show ?thesis using leaseInv_ids [OF inv(1) _ _ _ _ k(5)] k(3,4) old by simp
  qed
  moreover have "k < length (rgStates r0) \<and> p \<in> set (wsQueue (rgStates r0 ! k)) \<and> liSignal (aqInput p) = Some sig"
    if "(sig, k, p) \<in> set (rgListeners r)" for sig k p using leaseInv_listener [OF inv(1) that] old len by auto
  moreover have "wlState l < length (rgStates r0) \<and> aqId (wlPending l) = i \<and> wlWorkspaceKey l = wsWorkspaceKey (rgStates r0 ! wlState l)"
    if "rgOutcomes r i = Some (Granted l)" for i l using leaseInv_granted [OF inv(1) that] old len by auto
  ultimately show "leaseInv r0" using leaseInv_outcome [OF inv(1)] unfolding leaseInv_def sel by blast
  have "signalAborted r0 p = signalAborted r p" for p by (rule signalAborted_cong) (simp add: r0)
  then show "leaseQuiet r0" using inv(2) old new idle len unfolding leaseQuiet_def by (metis empty_iff less_Suc_eq list.set(1))
  show "leaseLine r0 = leaseLine r"
    using leaseInv_workspace [OF inv(1)] old by (auto simp: leaseLine_def sel fun_eq_iff split: option.split)
qed

text \<open>The state after a new acquisition joined the line of its workspace.\<close>

definition joined :: "nat \<Rightarrow> acquisition \<Rightarrow> leaseRegistry \<Rightarrow> leaseRegistry \<Rightarrow> bool" where
  "joined ref p r r' \<longleftrightarrow> (let s = rgStates r ! ref in rgAborted r' = rgAborted r \<and> rgNext r' = Suc (rgNext r)
    \<and> rgWorkspaces r' = (rgWorkspaces r)(wsWorkspaceKey s \<mapsto> ref)
    \<and> rgStates r' = (rgStates r)[ref := s\<lparr>wsAcquisitions := wsAcquisitions s @ [(aqKey p, p)],
        wsActive := (if wsActive s = None then Some p else wsActive s),
        wsQueue := (if wsActive s = None then [] else wsQueue s @ [p])\<rparr>]
    \<and> rgOutcomes r' = (if wsActive s = None then (rgOutcomes r)(aqId p \<mapsto> Granted (leaseOf ref p)) else rgOutcomes r)
    \<and> (\<forall>sig k q. (sig, k, q) \<in> set (rgListeners r') \<longleftrightarrow> (sig, k, q) \<in> set (rgListeners r)
        \<or> wsActive s \<noteq> None \<and> k = ref \<and> q = p \<and> liSignal (aqInput p) = Some sig))"

lemma joined_inv:
  assumes inv: "leaseInv r" "leaseQuiet r" and ref: "ref < length (rgStates r)"
      "rgWorkspaces r (wsWorkspaceKey (rgStates r ! ref)) = (if wsActive (rgStates r ! ref) = None then None else Some ref)"
    and p: "aqId p = rgNext r" "aqKey p = acquisitionKey (liSessionId (aqInput p)) (liBoundaryToken (aqInput p))"
      "liWorkspaceKey (aqInput p) = wsWorkspaceKey (rgStates r ! ref)" "aqKey p \<notin> aqKey ` set (wsLine (rgStates r ! ref))"
      "signalAborted r p = None"
    and h: "joined ref p r r'"
  shows "leaseInv r'" "leaseQuiet r'" "leaseLine r' = (leaseLine r)(liWorkspaceKey (aqInput p) := wsLine (rgStates r ! ref) @ [p])"
proof -
  let ?s = "rgStates r ! ref"
  define s' where "s' = ?s\<lparr>wsAcquisitions := wsAcquisitions ?s @ [(aqKey p, p)],
    wsActive := (if wsActive ?s = None then Some p else wsActive ?s), wsQueue := (if wsActive ?s = None then [] else wsQueue ?s @ [p])\<rparr>"
  note ok = leaseInv_state [OF inv(1) ref(1)]
  have states: "rgStates r' = (rgStates r)[ref := s']" and nxt: "rgNext r' = Suc (rgNext r)" and ab: "rgAborted r' = rgAborted r"
    and outcomes: "rgOutcomes r' = (if wsActive ?s = None then (rgOutcomes r)(aqId p \<mapsto> Granted (leaseOf ref p)) else rgOutcomes r)"
    and listeners: "\<And>sig k q. (sig, k, q) \<in> set (rgListeners r') \<longleftrightarrow> (sig, k, q) \<in> set (rgListeners r)
        \<or> wsActive ?s \<noteq> None \<and> k = ref \<and> q = p \<and> liSignal (aqInput p) = Some sig"
    using h by (simp_all add: joined_def Let_def s'_def)
  have act: "wsActive s' \<noteq> None" by (auto simp: s'_def)
  have key': "wsWorkspaceKey s' = wsWorkspaceKey ?s" by (simp add: s'_def)
  have ws: "rgWorkspaces r' = (rgWorkspaces r)(wsWorkspaceKey s' := (if wsActive s' = None then None else Some ref))"
    using h act unfolding joined_def Let_def key' by auto
  have idle: "wsActive ?s = None \<Longrightarrow> wsQueue ?s = []" by (rule stateOk_idle [OF ok refl])
  then have line': "wsLine s' = wsLine ?s @ [p]" by (cases "wsActive ?s") (auto simp: s'_def wsLine_def)
  have queue': "q \<in> set (wsQueue s') \<longleftrightarrow> wsActive ?s \<noteq> None \<and> (q \<in> set (wsQueue ?s) \<or> q = p)" for q using idle by (auto simp: s'_def)
  have fresh: "rgOutcomes r (rgNext r) = None" using leaseInv_outcome [OF inv(1), of "rgNext r"] by (cases "rgOutcomes r (rgNext r)") auto
  have new: "aqId q \<noteq> rgNext r" if "q \<in> set (wsLine ?s)" for q using stateOk_member [OF ok refl that] by simp
  have ok': "stateOk r' ref"
  proof (rule stateOkI [of s'])
    show "s' = rgStates r' ! ref" using ref(1) by (simp add: states)
    show "wsAcquisitions s' = map (\<lambda>p. (aqKey p, p)) (wsLine s')" unfolding line' using stateOk_acquisitions [OF ok refl] by (simp add: s'_def)
    show "distinct (map aqKey (wsLine s'))" using stateOk_distinct [OF ok refl] p(4) by (simp add: line')
    show "wsActive s' = None \<Longrightarrow> wsQueue s' = []" using act by blast
    show "rgWorkspaces r' (wsWorkspaceKey s') = Some ref" using act by (simp add: ws)
    show "wsWorkspaceKey s' = liWorkspaceKey (aqInput q) \<and> aqId q < rgNext r'
        \<and> aqKey q = acquisitionKey (liSessionId (aqInput q)) (liBoundaryToken (aqInput q))" if "q \<in> set (wsLine s')" for q
    proof (cases "q = p")
      case False
      then have "q \<in> set (wsLine ?s)" using that by (simp add: line')
      from stateOk_member [OF ok refl this] show ?thesis by (simp add: key' nxt)
    qed (use p in \<open>simp add: key' nxt\<close>)
    show "rgOutcomes r' (aqId q) = Some (Granted (leaseOf ref q))" if q: "wsActive s' = Some q" for q
    proof (cases "wsActive ?s")
      case None
      then show ?thesis using q by (simp add: s'_def outcomes)
    next
      case (Some a)
      then show ?thesis using q stateOk_holder [OF ok refl Some] by (simp add: s'_def outcomes)
    qed
    show "rgOutcomes r' (aqId q) = None \<and> (\<forall>sig. liSignal (aqInput q) = Some sig \<longrightarrow> (sig, ref, q) \<in> set (rgListeners r'))"
      if q: "q \<in> set (wsQueue s')" for q
    proof (cases "q = p")
      case True
      then show ?thesis using q fresh p(1) by (simp add: outcomes listeners queue')
    next
      case False
      then have "q \<in> set (wsQueue ?s)" "wsActive ?s \<noteq> None" using q by (simp_all add: queue')
      with stateOk_waiting [OF ok refl this(1)] show ?thesis by (simp add: outcomes listeners)
    qed
  qed
  have m1: "\<forall>q \<in> set (wsLine s'). q \<in> set (wsLine ?s) \<or> rgNext r \<le> aqId q" using p(1) by (auto simp: line')
  have m2: "\<forall>q \<in> set (wsLine s'). \<forall>q' \<in> set (wsLine s'). aqId q = aqId q' \<longrightarrow> q = q'"
    using line_ids_inj [OF inv(1) ref(1)] new p(1) by (auto simp: line' dest: new)
  have o1: "\<forall>i < rgNext r. i \<notin> aqId ` set (wsLine ?s) \<longrightarrow> rgOutcomes r' i = rgOutcomes r i" using p(1) by (simp add: outcomes)
  have o2: "\<forall>i. rgOutcomes r' i \<noteq> None \<longrightarrow> i < rgNext r'" using leaseInv_outcome [OF inv(1)] p(1) by (auto simp: outcomes nxt less_Suc_eq)
  have o3: "\<forall>i l. rgOutcomes r' i = Some (Granted l) \<longrightarrow> rgOutcomes r i = Some (Granted l)
      \<or> wlState l = ref \<and> aqId (wlPending l) = i \<and> wlWorkspaceKey l = wsWorkspaceKey s'"
    using p(3) by (auto simp: outcomes leaseOf_def key')
  have l2: "\<forall>sig q. (sig, ref, q) \<in> set (rgListeners r') \<longrightarrow> q \<in> set (wsQueue s') \<and> liSignal (aqInput q) = Some sig"
    using leaseInv_listener [OF inv(1)] idle by (fastforce simp: listeners queue')
  have old: "rgWorkspaces r (wsWorkspaceKey s') = (if wsActive ?s = None then None else Some ref)" using ref(2) by (simp add: key')
  show "leaseInv r'"
    by (rule leaseInv_update [OF inv(1) ref(1) old states _ ws key' ok' m1 m2 o1 o2 o3 _ l2]) (simp_all add: nxt listeners)
  have same: "signalAborted r' q = signalAborted r q" for q by (rule signalAborted_cong [OF ab])
  show "leaseQuiet r'"
    using inv(2) ref(1) p(5) by (auto simp: leaseQuiet_def states nth_list_update queue' same)
  show "leaseLine r' = (leaseLine r)(liWorkspaceKey (aqInput p) := wsLine ?s @ [p])"
    using leaseLine_update [OF inv(1) ref(1) _ key' states ws] act by (simp add: line' key' p(3))
qed

definition acquisitionFor :: "leaseInput \<Rightarrow> leaseRegistry \<Rightarrow> acquisition" where
  "acquisitionFor input r = \<lparr>aqId = rgNext r, aqKey = acquisitionKey (liSessionId input) (liBoundaryToken input), aqInput = input\<rparr>"

lemma acquire_joined:
  assumes inv: "leaseInv r" "leaseQuiet r" and valid: "assertValidInput input = Inr ()"
    and new: "find (sameRequest input) (leaseLine r (liWorkspaceKey input)) = None"
    and go: "signalAborted r (acquisitionFor input r) = None" and run: "acquire input r = (res, r')"
  shows "res = Inr (rgNext r) \<and> leaseInv r' \<and> leaseQuiet r' \<and> rgAborted r' = rgAborted r
    \<and> leaseLine r' = (leaseLine r)(liWorkspaceKey input := leaseLine r (liWorkspaceKey input) @ [acquisitionFor input r])
    \<and> (\<forall>i. i \<noteq> rgNext r \<longrightarrow> rgOutcomes r' i = rgOutcomes r i)"
proof -
  let ?w = "liWorkspaceKey input" and ?p = "acquisitionFor input r"
  let ?idle = "\<lparr>wsWorkspaceKey = ?w, wsActive = None, wsQueue = [], wsAcquisitions = []\<rparr>"
  have exist: "existingAcquisition input r = None" using new existingAcquisition_line [OF inv(1)] by simp
  have keys: "aqKey ?p \<notin> aqKey ` set (leaseLine r ?w)"
    using new line_member [OF inv(1)] by (auto simp: acquisitionFor_def find_None_iff sameRequest_def acquisitionKey_inj)
  define r1 where "r1 = r\<lparr>rgNext := Suc (rgNext r)\<rparr>"
  obtain ref r2 where opened: "openState ?w r1 = (ref, r2)" by fastforce
  have "newAcquisition input r = (?p, r1)" by (simp add: newAcquisition_def acquisitionFor_def r1_def)
  then have res: "res = Inr (rgNext r)" and r': "r' = grantNext ref (enqueue ref ?p r2)"
    using run valid exist go opened by (simp_all add: acquire_def acquisitionFor_def)
  have inp: "aqInput ?p = input" "aqId ?p = rgNext r" by (simp_all add: acquisitionFor_def)
  have go2: "signalAborted s ?p = None" if "rgAborted s = rgAborted r" for s using go signalAborted_cong [OF that, of ?p] by simp
  obtain r0 where r0: "leaseInv r0" "leaseQuiet r0" "leaseLine r0 = leaseLine r" "rgNext r0 = rgNext r" "rgOutcomes r0 = rgOutcomes r"
      "rgAborted r0 = rgAborted r" "ref < length (rgStates r0)" "wsWorkspaceKey (rgStates r0 ! ref) = ?w"
      "rgWorkspaces r0 ?w = (if wsActive (rgStates r0 ! ref) = None then None else Some ref)" "joined ref ?p r0 r'"
      "wsLine (rgStates r0 ! ref) = leaseLine r ?w"
  proof (cases "rgWorkspaces r ?w")
    case (Some k)
    then have eq: "ref = k" "r2 = r1" using opened by (simp_all add: openState_def r1_def)
    have k: "k < length (rgStates r)" "wsWorkspaceKey (rgStates r ! k) = ?w" "wsActive (rgStates r ! k) \<noteq> None"
      using leaseInv_workspace [OF inv(1) Some] by auto
    have line: "wsLine (rgStates r ! k) = leaseLine r ?w" using Some by (simp add: leaseLine_def)
    have "wsAcquisitions (rgStates r ! k) = map (\<lambda>p. (aqKey p, p)) (leaseLine r ?w)"
      using stateOk_acquisitions [OF leaseInv_state [OF inv(1) k(1)] refl] line by simp
    then have "alistSet (aqKey ?p) ?p (wsAcquisitions (rgStates r ! k)) = wsAcquisitions (rgStates r ! k) @ [(aqKey ?p, ?p)]"
      using keys by (intro alistSet_new) (auto simp: image_iff)
    moreover have "(rgWorkspaces r)(?w \<mapsto> k) = rgWorkspaces r" using Some by (simp add: fun_upd_idem)
    ultimately have "joined k ?p r r'"
      using k by (auto simp: r' eq joined_def Let_def grantNext_def r1_def inp leaseState_commute2)
    then show thesis using that [of r] inv k Some line by (simp add: eq)
  next
    case None
    then have eq: "ref = length (rgStates r)" "r2 = r1\<lparr>rgStates := rgStates r @ [?idle], rgWorkspaces := (rgWorkspaces r)(?w \<mapsto> length (rgStates r))\<rparr>"
      using opened by (auto simp: openState_def r1_def)
    define r0 where "r0 = r\<lparr>rgStates := rgStates r @ [?idle]\<rparr>"
    note r0_inv = leaseInv_add_idle [OF inv _ _ _ r0_def]
    have old: "aqId q \<noteq> rgNext r" if "(sig, k, q) \<in> set (rgListeners r)" for sig k q
    proof -
      have "q \<in> set (wsLine (rgStates r ! k))" "k < length (rgStates r)" using leaseInv_listener [OF inv(1) that] queue_in_line by auto
      then show ?thesis using stateOk_member [OF leaseInv_state [OF inv(1)] refl, of k q] by simp
    qed
    have fresh: "rgOutcomes r (rgNext r) = None" using leaseInv_outcome [OF inv(1), of "rgNext r"] by (cases "rgOutcomes r (rgNext r)") auto
    have "joined ref ?p r0 r'"
      unfolding joined_def Let_def
      using fresh by (auto simp: r' eq grantNext_def grant_def r0_def r1_def inp nth_append go2 leaseState_commute dest: old)
    then show thesis using that [of r0] r0_inv None by (simp add: eq r0_def leaseLine_def)
  qed
  note j = joined_inv [OF r0(1,2,7) _ _ _ _ _ _ r0(10)]
  have "leaseInv r'" "leaseQuiet r'" "leaseLine r' = (leaseLine r)(?w := leaseLine r ?w @ [?p])"
    using j r0 keys go2 [of r0] by (simp_all add: inp) (simp_all add: acquisitionFor_def)
  moreover have "rgAborted r' = rgAborted r" "\<forall>i. i \<noteq> rgNext r \<longrightarrow> rgOutcomes r' i = rgOutcomes r i"
    using r0(5,6,10) by (simp_all add: joined_def Let_def inp)
  ultimately show ?thesis using res by simp
qed

subsection \<open>The contract: one waiting line per workspace\<close>

text \<open>
  The abstract registry: the line of each workspace, whose head holds the lease, and the aborted
  signals.  A request joins at the end of the line of its workspace unless it is invalid, already
  there or aborted, only the head of a line can release, and the abort of a signal takes those out of
  the lines who still wait.
\<close>

type_synonym lease_lines = "string \<Rightarrow> acquisition list"

definition joins :: "lease_lines \<Rightarrow> nat set \<Rightarrow> leaseInput \<Rightarrow> bool" where
  "joins L A input \<longleftrightarrow> assertValidInput input = Inr () \<and> (\<forall>p \<in> set (L (liWorkspaceKey input)). \<not> sameRequest input p)
     \<and> (\<forall>s. liSignal input = Some s \<longrightarrow> s \<notin> A)"

definition holds :: "lease_lines \<Rightarrow> nat \<Rightarrow> string \<Rightarrow> bool" where
  "holds L i w \<longleftrightarrow> (\<exists>p ps. L w = p # ps \<and> aqId p = i)"

inductive line_step :: "lease_lines \<Rightarrow> nat set \<Rightarrow> lease_event \<Rightarrow> lease_lines \<Rightarrow> nat set \<Rightarrow> bool" where
  Join: "joins L A input \<Longrightarrow> aqInput p = input \<Longrightarrow> \<forall>w. aqId p \<notin> aqId ` set (L w)
    \<Longrightarrow> line_step L A (Acquire input) (L(liWorkspaceKey input := L (liWorkspaceKey input) @ [p])) A"
| Stay: "\<not> joins L A input \<Longrightarrow> line_step L A (Acquire input) L A"
| Leave: "L w = p # ps \<Longrightarrow> line_step L A (Release (aqId p)) (L(w := ps)) A"
| Refuse: "\<forall>w. \<not> holds L i w \<Longrightarrow> line_step L A (ReleaseRefused i) L A"
| Withdraw: "line_step L A (Abort s reason) (\<lambda>w. withoutSignal s (L w)) (insert s A)"

inductive_simps line_step_Acquire: "line_step L A (Acquire input) L' A'"
inductive_simps line_step_Release: "line_step L A (Release i) L' A'"
inductive_simps line_step_Abort: "line_step L A (Abort s reason) L' A'"

definition abortedSignals :: "leaseRegistry \<Rightarrow> nat set" where
  "abortedSignals r = {s. rgAborted r s \<noteq> None}"

lemma holder_granted:
  assumes "leaseInv r" "holds (leaseLine r) i w"
  shows "\<exists>l. rgOutcomes r i = Some (Granted l) \<and> wlWorkspaceKey l = w"
proof -
  obtain p ps where p: "leaseLine r w = p # ps" "aqId p = i" using assms(2) by (auto simp: holds_def)
  then obtain ref where ref: "rgWorkspaces r w = Some ref" "wsLine (rgStates r ! ref) = p # ps"
    by (cases "rgWorkspaces r w") (auto simp: leaseLine_def)
  have s: "ref < length (rgStates r)" "wsWorkspaceKey (rgStates r ! ref) = w" "wsActive (rgStates r ! ref) \<noteq> None"
    using leaseInv_workspace [OF assms(1) ref(1)] by auto
  then have "wsActive (rgStates r ! ref) = Some p" using ref(2) by auto
  from stateOk_holder [OF leaseInv_state [OF assms(1) s(1)] refl this] p(2) have "rgOutcomes r i = Some (Granted (leaseOf ref p))" by simp
  moreover have "wlWorkspaceKey (leaseOf ref p) = w" using line_member [OF assms(1), of p w] p(1) by (simp add: leaseOf_def)
  ultimately show ?thesis by blast
qed

lemma release_refused:
  assumes inv: "leaseInv r" and run: "rgOutcomes r i = Some (Granted l)" "releaseLease l r = (Inl e, r')"
  shows "\<not> holds (leaseLine r) i w" "r' = r"
proof -
  show "r' = r" using run(2) by (simp add: releaseLease_def split: if_splits)
  show "\<not> holds (leaseLine r) i w"
  proof
    assume h: "holds (leaseLine r) i w"
    then obtain p ps where p: "leaseLine r w = p # ps" "aqId p = i" by (auto simp: holds_def)
    then obtain ref where ref: "rgWorkspaces r w = Some ref" "wsLine (rgStates r ! ref) = p # ps"
      by (cases "rgWorkspaces r w") (auto simp: leaseLine_def)
    have s: "ref < length (rgStates r)" "wsActive (rgStates r ! ref) \<noteq> None" using leaseInv_workspace [OF inv ref(1)] by auto
    then have act: "wsActive (rgStates r ! ref) = Some p" using ref(2) by auto
    from stateOk_holder [OF leaseInv_state [OF inv s(1)] refl act] p(2) run(1) have "l = leaseOf ref p" by simp
    then show False using run(2) act by (simp add: releaseLease_def leaseOf_def)
  qed
qed

lemma acquire_stays:
  assumes inv: "leaseInv r" "leaseQuiet r" and stay: "\<not> joins (leaseLine r) (abortedSignals r) input" and run: "acquire input r = (res, r')"
  shows "leaseInv r' \<and> leaseQuiet r' \<and> leaseLine r' = leaseLine r \<and> rgAborted r' = rgAborted r
    \<and> (\<forall>i l. rgOutcomes r' i = Some (Granted l) \<longleftrightarrow> rgOutcomes r i = Some (Granted l))"
proof (cases "assertValidInput input")
  case (Inl e)
  then show ?thesis using run inv by (simp add: acquire_def)
next
  case (Inr u)
  show ?thesis
  proof (cases "find (sameRequest input) (leaseLine r (liWorkspaceKey input))")
    case (Some p)
    then have "existingAcquisition input r = Some p" by (simp add: existingAcquisition_line [OF inv(1)])
    then show ?thesis using run inv Inr by (simp add: acquire_def)
  next
    case None
    then have exist: "existingAcquisition input r = None" by (simp add: existingAcquisition_line [OF inv(1)])
    from None Inr stay obtain s reason where s: "liSignal input = Some s" "rgAborted r s = Some reason"
      by (auto simp: joins_def find_None_iff abortedSignals_def)
    define r1 where "r1 = r\<lparr>rgNext := Suc (rgNext r)\<rparr>"
    have fresh: "rgOutcomes r (rgNext r) = None" using leaseInv_outcome [OF inv(1), of "rgNext r"] by (cases "rgOutcomes r (rgNext r)") auto
    have r': "r' = settlePromise (rgNext r) (Rejected (abortReason reason)) r1"
      using run exist Inr s by (simp add: acquire_def newAcquisition_def signalAborted_def r1_def)
    then have sel: "rgStates r' = rgStates r" "rgWorkspaces r' = rgWorkspaces r" "rgListeners r' = rgListeners r" "rgAborted r' = rgAborted r"
      "rgNext r' = Suc (rgNext r)" "rgOutcomes r' = (rgOutcomes r)(rgNext r \<mapsto> Rejected (abortReason reason))"
      using fresh by (simp_all add: r1_def)
    have "stateOk r' k" if k: "k < length (rgStates r)" for k
    proof -
      note ok = leaseInv_state [OF inv(1) k]
      have "\<forall>q \<in> set (wsLine (rgStates r ! k)). rgOutcomes r' (aqId q) = rgOutcomes r (aqId q)"
        using stateOk_member [OF ok refl] by (fastforce simp: sel)
      then show ?thesis by (intro stateOk_transfer [OF ok]) (simp_all add: sel)
    qed
    moreover have "\<forall>i l. rgOutcomes r' i = Some (Granted l) \<longleftrightarrow> rgOutcomes r i = Some (Granted l)" using fresh by (simp add: sel)
    moreover have "\<forall>i. rgOutcomes r' i \<noteq> None \<longrightarrow> i < rgNext r'" using leaseInv_outcome [OF inv(1)] by (auto simp: sel less_Suc_eq)
    ultimately have "leaseInv r'" using inv(1) unfolding leaseInv_def sel(1-3) by blast
    moreover have "signalAborted r' = signalAborted r" by (simp add: signalAborted_def sel fun_eq_iff split: option.split)
    then have "leaseQuiet r'" using inv(2) by (simp add: leaseQuiet_def sel)
    ultimately show ?thesis using fresh by (simp add: sel leaseLine_def fun_eq_iff split: option.split)
  qed
qed

lemma granted_in_line:
  assumes inv: "leaseInv r" and p: "p \<in> set (leaseLine r w)" and granted: "rgOutcomes r (aqId p) = Some (Granted l)"
  shows "holds (leaseLine r) (aqId p) w \<and> wlWorkspaceKey l = w"
proof -
  obtain ref where ref: "rgWorkspaces r w = Some ref" "p \<in> set (wsLine (rgStates r ! ref))"
    using p by (cases "rgWorkspaces r w") (auto simp: leaseLine_def)
  have s: "ref < length (rgStates r)" "wsActive (rgStates r ! ref) \<noteq> None" using leaseInv_workspace [OF inv ref(1)] by auto
  then obtain a where a: "wsActive (rgStates r ! ref) = Some a" by blast
  have "p \<notin> set (wsQueue (rgStates r ! ref))" using stateOk_waiting [OF leaseInv_state [OF inv s(1)] refl, of p] granted by auto
  then have "p = a" using ref(2) a by simp
  then have h: "holds (leaseLine r) (aqId p) w" using ref(1) a by (simp add: holds_def leaseLine_def)
  from holder_granted [OF inv this] granted h show ?thesis by simp
qed

lemma lease_step_ok:
  assumes inv: "leaseInv r" "leaseQuiet r" and step: "lease_step r e r'"
  shows "leaseInv r' \<and> leaseQuiet r' \<and> line_step (leaseLine r) (abortedSignals r) e (leaseLine r') (abortedSignals r')
    \<and> (\<forall>i l. rgOutcomes r' i = Some (Granted l) \<longrightarrow> rgOutcomes r i = Some (Granted l) \<or> holds (leaseLine r') i (wlWorkspaceKey l))"
  using step
proof (rule lease_stepE)
  fix input res
  assume e: "e = Acquire input" and run: "acquire input r = (res, r')"
  show ?thesis
  proof (cases "joins (leaseLine r) (abortedSignals r) input")
    case False
    from acquire_stays [OF inv False run] show ?thesis
      using False by (auto simp: e abortedSignals_def intro: line_step.Stay)
  next
    case True
    have "find (sameRequest input) (leaseLine r (liWorkspaceKey input)) = None" "assertValidInput input = Inr ()"
      using True by (simp_all add: joins_def find_None_iff)
    moreover have "signalAborted r (acquisitionFor input r) = None"
      using True by (auto simp: joins_def abortedSignals_def signalAborted_def acquisitionFor_def split: option.split)
    ultimately have j: "leaseInv r'" "leaseQuiet r'" "rgAborted r' = rgAborted r"
        "leaseLine r' = (leaseLine r)(liWorkspaceKey input := leaseLine r (liWorkspaceKey input) @ [acquisitionFor input r])"
        "\<forall>i. i \<noteq> rgNext r \<longrightarrow> rgOutcomes r' i = rgOutcomes r i"
      using acquire_joined [OF inv _ _ _ run] by auto
    have "\<forall>w. aqId (acquisitionFor input r) \<notin> aqId ` set (leaseLine r w)"
      using line_member [OF inv(1)] by (fastforce simp: acquisitionFor_def)
    moreover have "aqInput (acquisitionFor input r) = input" by (simp add: acquisitionFor_def)
    ultimately have "line_step (leaseLine r) (abortedSignals r) e (leaseLine r') (abortedSignals r')"
      using line_step.Join [OF True] j(3) by (simp add: e j(4) abortedSignals_def)
    moreover have "rgOutcomes r i = Some (Granted l) \<or> holds (leaseLine r') i (wlWorkspaceKey l)"
      if "rgOutcomes r' i = Some (Granted l)" for i l
    proof (cases "i = rgNext r")
      case True
      then have "i = aqId (acquisitionFor input r)" "acquisitionFor input r \<in> set (leaseLine r' (liWorkspaceKey input))"
        by (simp_all add: acquisitionFor_def j(4))
      with granted_in_line [OF j(1) this(2)] that show ?thesis by auto
    qed (use that j(5) in simp)
    ultimately show ?thesis using j(1,2) by blast
  qed
next
  fix i l
  assume e: "e = Release i" and run: "rgOutcomes r i = Some (Granted l)" "releaseLease l r = (Inr (), r')"
  from releaseLease_handOver [OF inv run] obtain ref p ps where ref: "ref < length (rgStates r)"
    "wsLine (rgStates r ! ref) = p # ps" "wsActive (rgStates r ! ref) = Some p" "aqId p = i" "handOver ref ps r r'" by blast
  let ?w = "wsWorkspaceKey (rgStates r ! ref)"
  note h = handOver_inv [OF inv ref(1,2,3,5)]
  have "leaseLine r ?w = p # ps" using stateOk_open [OF leaseInv_state [OF inv(1) ref(1)] refl] ref(2,3) by (simp add: leaseLine_def)
  moreover have ab: "abortedSignals r' = abortedSignals r" using ref(5) by (simp add: handOver_def abortedSignals_def)
  ultimately have "line_step (leaseLine r) (abortedSignals r) e (leaseLine r') (abortedSignals r')"
    using line_step.Leave [of "leaseLine r" ?w p ps] ref(4) by (simp add: e h(3))
  moreover have "rgOutcomes r j = Some (Granted l) \<or> holds (leaseLine r') j (wlWorkspaceKey l)"
    if g: "rgOutcomes r' j = Some (Granted l)" for j l
  proof (cases ps)
    case (Cons q qs)
    then have q: "q \<in> set (leaseLine r' ?w)" by (simp add: h(3))
    show ?thesis
    proof (cases "j = aqId q")
      case True
      with granted_in_line [OF h(1) q] g show ?thesis by auto
    qed (use g ref(5) Cons in \<open>simp add: handOver_def\<close>)
  qed (use g ref(5) in \<open>simp add: handOver_def\<close>)
  ultimately show ?thesis using h(1,2) by blast
next
  fix i l err
  assume e: "e = ReleaseRefused i" and run: "rgOutcomes r i = Some (Granted l)" "releaseLease l r = (Inl err, r')"
  show ?thesis using release_refused [OF inv(1) run] inv by (auto simp: e intro: line_step.Refuse)
next
  fix s reason
  assume e: "e = Abort s reason" and r': "r' = abortSignal s reason r"
  from abortSignal_ok [OF inv, of s reason] have a: "leaseInv r'" "leaseQuiet r'" "leaseLine r' = (\<lambda>w. withoutSignal s (leaseLine r w))"
      "rgAborted r' = (if rgAborted r s = None then (rgAborted r)(s \<mapsto> reason) else rgAborted r)"
      "\<forall>i l. rgOutcomes r' i = Some (Granted l) \<longleftrightarrow> rgOutcomes r i = Some (Granted l)" by (simp_all add: r')
  have "abortedSignals r' = insert s (abortedSignals r)" by (auto simp: abortedSignals_def a(4))
  then show ?thesis using a line_step.Withdraw [of "leaseLine r" "abortedSignals r" s reason] by (simp add: e)
qed

lemma lease_run_inv: "lease_run es r \<Longrightarrow> leaseInv r \<and> leaseQuiet r"
  by (induction rule: lease_run.induct) (auto simp: leaseInv_empty dest: lease_step_ok)

lemma lease_run_holds:
  "lease_run es r \<Longrightarrow> \<forall>i l. rgOutcomes r i = Some (Granted l) \<and> Release i \<notin> set es \<longrightarrow> holds (leaseLine r) i (wlWorkspaceKey l)"
proof (induction rule: lease_run.induct)
  case Start
  show ?case by (simp add: emptyRegistry_def)
next
  case (Step es r e r')
  have inv: "leaseInv r" "leaseQuiet r" using lease_run_inv [OF Step.hyps(1)] by auto
  note ok = lease_step_ok [OF inv Step.hyps(2)]
  have "holds (leaseLine r') i w" if h: "holds (leaseLine r) i w" and e: "e \<noteq> Release i" for i w
  proof -
    have "line_step (leaseLine r) (abortedSignals r) e (leaseLine r') (abortedSignals r')" using ok by blast
    then show ?thesis
      using h e by cases (auto simp: holds_def withoutSignal_def)
  qed
  then show ?case using ok Step.IH by (metis Un_iff in_set_conv_decomp list.set_intros(1) set_append)
qed

subsection \<open>Properties\<close>

text \<open>
  C6: the registry implements one waiting line per workspace.  In every history, every operation of the
  registry is a step of the abstract lines (requests join at the end, only the head leaves by a
  release, aborted waiters withdraw), and afterwards exactly the promise of the head of each line is
  resolved, with a lease for that workspace, while those behind it are pending.
\<close>

theorem writer_lease_refines_lines:
  assumes "lease_run es r" "lease_step r e r'"
  shows "line_step (leaseLine r) (abortedSignals r) e (leaseLine r') (abortedSignals r')
    \<and> (\<forall>w p ps. leaseLine r' w = p # ps \<longrightarrow>
        (\<exists>l. rgOutcomes r' (aqId p) = Some (Granted l) \<and> wlWorkspaceKey l = w) \<and> (\<forall>q \<in> set ps. rgOutcomes r' (aqId q) = None))"
proof -
  have ok: "leaseInv r' \<and> line_step (leaseLine r) (abortedSignals r) e (leaseLine r') (abortedSignals r')"
    using lease_step_ok lease_run_inv [OF assms(1)] assms(2) by blast
  moreover have "rgOutcomes r' (aqId q) = None" if line: "leaseLine r' w = p # ps" and q: "q \<in> set ps" for w p ps q
  proof -
    obtain ref where ref: "rgWorkspaces r' w = Some ref" "wsLine (rgStates r' ! ref) = p # ps"
      using line by (cases "rgWorkspaces r' w") (auto simp: leaseLine_def)
    have s: "ref < length (rgStates r')" "wsActive (rgStates r' ! ref) \<noteq> None" using leaseInv_workspace [OF _ ref(1)] ok by auto
    then have "wsQueue (rgStates r' ! ref) = ps" using ref(2) by auto
    then show ?thesis using stateOk_waiting [OF leaseInv_state [OF _ s(1)] refl] ok q by auto
  qed
  ultimately show ?thesis using holder_granted by (auto simp: holds_def)
qed

definition sampleRequest :: "string \<Rightarrow> leaseInput" where
  "sampleRequest s = \<lparr>liWorkspaceKey = ''w'', liSessionId = s, liBoundaryToken = ''b'', liSignal = None\<rparr>"

definition sampleOne :: leaseRegistry where "sampleOne = snd (acquire (sampleRequest ''s1'') emptyRegistry)"

definition sampleTwo :: leaseRegistry where "sampleTwo = snd (acquire (sampleRequest ''s2'') sampleOne)"

lemma sampleOne_run: "lease_run [Acquire (sampleRequest ''s1'')] sampleOne"
  using lease_run.Step [OF lease_run.Start, of "Acquire (sampleRequest ''s1'')"] lease_step.Acquire [OF surjective_pairing]
  by (simp add: sampleOne_def)

lemma sampleTwo_step: "lease_step sampleOne (Acquire (sampleRequest ''s2'')) sampleTwo"
  unfolding sampleTwo_def by (rule lease_step.Acquire [OF surjective_pairing])

lemma sampleTwo_run: "lease_run [Acquire (sampleRequest ''s1''), Acquire (sampleRequest ''s2'')] sampleTwo"
  using lease_run.Step [OF sampleOne_run sampleTwo_step] by simp

theorem writer_lease_refines_lines_witness:
  "map aqId (leaseLine sampleTwo ''w'') = [0, 1] \<and> (\<exists>l. rgOutcomes sampleTwo 0 = Some (Granted l))
    \<and> rgOutcomes sampleTwo 1 = None"
proof -
  have ids: "map aqId (leaseLine sampleTwo ''w'') = [0, 1]" by code_simp
  then obtain p q where "leaseLine sampleTwo ''w'' = [p, q]" "aqId p = 0" "aqId q = 1" by (auto simp: map_eq_Cons_conv)
  with writer_lease_refines_lines [OF sampleOne_run sampleTwo_step] ids show ?thesis by fastforce
qed

text \<open>
  C10: at most one writer per workspace.  In every history, two leases for the same workspace that were
  granted and not released are the same lease.
\<close>

theorem writer_lease_exclusive:
  assumes "lease_run es r" "rgOutcomes r i = Some (Granted l)" "rgOutcomes r j = Some (Granted l')"
    and "Release i \<notin> set es" "Release j \<notin> set es" "wlWorkspaceKey l = wlWorkspaceKey l'"
  shows "i = j"
proof -
  have "holds (leaseLine r) i (wlWorkspaceKey l)" "holds (leaseLine r) j (wlWorkspaceKey l)"
    using lease_run_holds [OF assms(1)] assms(2-) by metis+
  then show ?thesis by (auto simp: holds_def)
qed

theorem writer_lease_exclusive_witness:
  "\<exists>l. rgOutcomes sampleTwo 0 = Some (Granted l) \<and> (\<forall>j l'. rgOutcomes sampleTwo j = Some (Granted l') \<and> wlWorkspaceKey l' = ''w'' \<longrightarrow> j = 0)"
proof -
  have "(case rgOutcomes sampleTwo 0 of Some (Granted l) \<Rightarrow> wlWorkspaceKey l = ''w'' | _ \<Rightarrow> False)" by code_simp
  then obtain l where "rgOutcomes sampleTwo 0 = Some (Granted l)" "wlWorkspaceKey l = ''w''"
    by (auto split: option.splits lease_outcome.splits)
  with writer_lease_exclusive [OF sampleTwo_run] show ?thesis by fastforce
qed

lemma lease_hand_on:
  assumes run: "lease_run es r" and line: "leaseLine r w = p # ps"
  shows "\<exists>r'. lease_run (es @ [Release (aqId p)]) r' \<and> leaseLine r' w = ps"
proof -
  have inv: "leaseInv r" "leaseQuiet r" using lease_run_inv [OF run] by auto
  obtain l where l: "rgOutcomes r (aqId p) = Some (Granted l)" using holder_granted [OF inv(1), of "aqId p" w] line by (auto simp: holds_def)
  obtain res r' where rel: "releaseLease l r = (res, r')" by fastforce
  have "res = Inr ()"
    using release_refused(1) [OF inv(1) l, of _ r' w] rel line by (cases res) (auto simp: holds_def)
  with rel l have step: "lease_step r (Release (aqId p)) r'" by (auto intro: lease_step.Release)
  from releaseLease_handOver [OF inv l] rel \<open>res = Inr ()\<close> obtain ref q qs where ref: "ref < length (rgStates r)"
    "wsLine (rgStates r ! ref) = q # qs" "wsActive (rgStates r ! ref) = Some q" "aqId q = aqId p" "handOver ref qs r r'" by blast
  have "leaseLine r (wsWorkspaceKey (rgStates r ! ref)) = q # qs"
    using stateOk_open [OF leaseInv_state [OF inv(1) ref(1)] refl] ref(2,3) by (simp add: leaseLine_def)
  moreover from this have "wsWorkspaceKey (rgStates r ! ref) = w"
    using holder_granted [OF inv(1), of "aqId p"] line ref(4) by (metis holds_def lease_outcome.inject(1) option.inject)
  ultimately have "leaseLine r' w = ps" using handOver_inv(3) [OF inv ref(1,2,3,5)] line by simp
  with lease_run.Step [OF run step] show ?thesis by blast
qed

text \<open>
  C26: no waiting writer is forgotten or overtaken.  When the holder and everybody who waits before
  an acquisition release in turn, its promise is resolved with a lease.
\<close>

theorem lease_granted_in_turn:
  assumes "lease_run es r" "leaseLine r w = ps @ p # qs"
  shows "\<exists>r' l. lease_run (es @ map (\<lambda>q. Release (aqId q)) ps) r' \<and> leaseLine r' w = p # qs
    \<and> rgOutcomes r' (aqId p) = Some (Granted l) \<and> wlWorkspaceKey l = w"
  using assms
proof (induction ps arbitrary: es r)
  case Nil
  then show ?case using holder_granted [of r "aqId p" w] lease_run_inv [OF Nil.prems(1)] by (auto simp: holds_def)
next
  case (Cons q ps)
  then obtain r1 where "lease_run (es @ [Release (aqId q)]) r1" "leaseLine r1 w = ps @ p # qs"
    using lease_hand_on [of es r w q "ps @ p # qs"] by auto
  from Cons.IH [OF this] show ?case by simp
qed

theorem lease_granted_in_turn_witness:
  "\<exists>r' l. lease_run [Acquire (sampleRequest ''s1''), Acquire (sampleRequest ''s2''), Release 0] r' \<and> rgOutcomes r' 1 = Some (Granted l)"
proof -
  have "map aqId (leaseLine sampleTwo ''w'') = [0, 1]" by code_simp
  then obtain p q where line: "leaseLine sampleTwo ''w'' = [p] @ q # []" "aqId p = 0" "aqId q = 1" by (auto simp: map_eq_Cons_conv)
  from lease_granted_in_turn [OF sampleTwo_run line(1)] line(2,3) show ?thesis by auto
qed

end
