(* ===== verification/LoopFrames.thy ===== *)
theory LoopFrames
  imports AgentRuns
begin

section \<open>What a run of the agent loop preserves\<close>

text \<open>
  A client of the agent loop relates the events of a run to its own world: the event sink updates the
  world, and the other callbacks may change it too.  The interface \<open>loop_frame\<close> is a relation
  \<open>I trace world\<close> that every successful call of the sink extends by its event and that no other call
  of the host breaks; when the sink throws, the weaker \<open>F trace world\<close> is left.  Under it a run that
  returns ends in \<open>I\<close> and a run that throws in \<open>F\<close>, whatever the model streams and in whatever order the
  tools run, provided the callbacks and tools of the configuration keep \<open>I\<close> (\<open>keepingConfig\<close>,
  \<open>keepingContext\<close>), those that a callback hands in during the run included.  \<open>keeps J E m Q\<close> is the
  rule that carries this through the loop.
\<close>

definition keeps :: "('w loopRun \<Rightarrow> bool) \<Rightarrow> ('w loopRun \<Rightarrow> bool) \<Rightarrow> ('w, 'a) loop \<Rightarrow> ('a \<Rightarrow> bool) \<Rightarrow> bool" where
  "keeps J E m Q \<longleftrightarrow> (\<forall>s. J s \<longrightarrow> (case m s of (Inr a, s') \<Rightarrow> J s' \<and> Q a | (Inl _, s') \<Rightarrow> E s'))"

named_theorems keeps_rules

lemma keepsD: "keeps J E m Q \<Longrightarrow> J s \<Longrightarrow> m s = (Inr a, s') \<Longrightarrow> J s' \<and> Q a"
  by (fastforce simp: keeps_def)

lemma keeps_failed: "keeps J E m Q \<Longrightarrow> J s \<Longrightarrow> m s = (Inl e, s') \<Longrightarrow> E s'"
  by (fastforce simp: keeps_def)

lemma keepsI:
  "(\<And>s a s'. J s \<Longrightarrow> m s = (Inr a, s') \<Longrightarrow> J s' \<and> Q a) \<Longrightarrow> (\<And>s e s'. J s \<Longrightarrow> m s = (Inl e, s') \<Longrightarrow> E s') \<Longrightarrow> keeps J E m Q"
  by (simp add: keeps_def split: prod.split sum.split)

lemma keeps_bind:
  assumes m: "keeps J E m P" and f: "\<And>a. P a \<Longrightarrow> keeps J E (f a) Q"
  shows "keeps J E (bindS m f) Q"
proof (rule keepsI)
  fix s b s''
  assume J: "J s" and run: "bindS m f s = (Inr b, s'')"
  obtain a s' where a: "m s = (Inr a, s')" and b: "f a s' = (Inr b, s'')"
    using run by (auto simp: bindS_def split: prod.splits sum.splits)
  show "J s'' \<and> Q b" using keepsD [OF m J a] keepsD [OF f _ b] by blast
next
  fix s e s''
  assume J: "J s" and run: "bindS m f s = (Inl e, s'')"
  show "E s''"
  proof (cases "m s")
    case (Pair x s')
    show ?thesis
    proof (cases x)
      case (Inl e')
      then show ?thesis using keeps_failed [OF m J] Pair run by simp
    next
      case (Inr a)
      then show ?thesis using keepsD [OF m J, of a s'] keeps_failed [OF f, of a s' e s''] Pair run by simp
    qed
  qed
qed

lemma keeps_weaken: "keeps J E m P \<Longrightarrow> (\<And>a. P a \<Longrightarrow> Q a) \<Longrightarrow> keeps J E m Q"
  by (rule keepsI) (blast dest: keepsD keeps_failed)+

lemma keeps_ret [keeps_rules]: "Q a \<Longrightarrow> keeps J E (retS a) Q"
  by (simp add: keeps_def)

lemma keeps_Pair [simp]: "keeps J E (Pair (Inr a)) Q \<longleftrightarrow> (Q a \<or> (\<forall>s. \<not> J s))"
  by (auto simp: keeps_def)

lemma keeps_throw: "(\<And>s. J s \<Longrightarrow> E s) \<Longrightarrow> keeps J E (throwS e) Q"
  by (simp add: keeps_def)

lemma keeps_seq [keeps_rules]: "keeps J E m (\<lambda>_. True) \<Longrightarrow> (\<And>a. keeps J E (f a) Q) \<Longrightarrow> keeps J E (bindS m f) Q"
  by (rule keeps_bind)

lemma keeps_if [keeps_rules]: "(b \<Longrightarrow> keeps J E m Q) \<Longrightarrow> (\<not> b \<Longrightarrow> keeps J E n Q) \<Longrightarrow> keeps J E (if b then m else n) Q"
  by simp

lemma keeps_option [keeps_rules]:
  "(x = None \<Longrightarrow> keeps J E m Q) \<Longrightarrow> (\<And>y. x = Some y \<Longrightarrow> keeps J E (f y) Q) \<Longrightarrow> keeps J E (case x of None \<Rightarrow> m | Some y \<Rightarrow> f y) Q"
  by (cases x) auto

lemma keeps_pair [keeps_rules]: "keeps J E (f (fst p) (snd p)) Q \<Longrightarrow> keeps J E (case p of (x, y) \<Rightarrow> f x y) Q"
  by (cases p) simp

lemma keeps_let [keeps_rules]: "keeps J E (f a) Q \<Longrightarrow> keeps J E (let x = a in f x) Q"
  by simp

lemma keeps_each: "(\<And>x. x \<in> set xs \<Longrightarrow> keeps J E (f x) (\<lambda>_. True)) \<Longrightarrow> keeps J E (each f xs) (\<lambda>_. True)"
  by (induction xs) (auto intro!: keeps_ret keeps_seq)

text \<open>An event about a user message is due only while the client knows the message as started.\<close>

definition dueWhen :: "(userMessage \<Rightarrow> 'w \<Rightarrow> bool) \<Rightarrow> agent_event \<Rightarrow> 'w \<Rightarrow> bool" where
  "dueWhen U ev w = (case ev of MessageStart (UserMsg m) \<Rightarrow> U m w | MessageEnd (UserMsg m) \<Rightarrow> U m w | _ \<Rightarrow> True)"

locale loop_frame =
  fixes host :: "'w loopHost" and I :: "agent_event list \<Rightarrow> 'w \<Rightarrow> bool"
    and F :: "agent_event list \<Rightarrow> 'w \<Rightarrow> bool" and U :: "userMessage \<Rightarrow> 'w \<Rightarrow> bool"
  assumes sink: "I tr w \<Longrightarrow> dueWhen U ev w \<Longrightarrow> hoEmit host ev w = (Inr (), w') \<Longrightarrow> I (tr @ [ev]) w'"
    and sink_start: "I tr w \<Longrightarrow> U m w \<Longrightarrow> hoEmit host (MessageStart (UserMsg m)) w = (Inr (), w') \<Longrightarrow> U m w'"
    and sink_failed: "I tr w \<Longrightarrow> dueWhen U ev w \<Longrightarrow> hoEmit host ev w = (Inl e, w') \<Longrightarrow> F (tr @ [ev]) w'"
    and sink_after: "F tr w \<Longrightarrow> F (tr @ [ToolExecutionUpdate i n a r]) (snd (hoEmit host (ToolExecutionUpdate i n a r) w))"
    and frame_failed: "I tr w \<Longrightarrow> F tr w"
    and stream: "I tr w \<Longrightarrow> I tr (snd (hoStream host model c x w))"
    and now: "I tr w \<Longrightarrow> I tr (snd (hoNow host w))"
    and pick: "I tr w \<Longrightarrow> I tr (snd (hoPick host w))"
begin

definition keeping :: "('w \<Rightarrow> 'a \<times> 'w) \<Rightarrow> bool" where
  "keeping f \<longleftrightarrow> (\<forall>tr w. I tr w \<longrightarrow> I tr (snd (f w)))"

definition keepingContext :: "'w agentContext \<Rightarrow> bool" where
  "keepingContext c \<longleftrightarrow> (\<forall>ts. acTools c = Some ts \<longrightarrow> (\<forall>t \<in> set ts. \<forall>i args. keeping (atExecute t i args)))"

definition keepingUpdate :: "('w, 'w turnUpdate option) outside \<Rightarrow> bool" where
  "keepingUpdate f \<longleftrightarrow> keeping f
     \<and> (\<forall>w u c. fst (f w) = Inr (Some u) \<and> tuContext u = Some c \<longrightarrow> keepingContext c)"

definition startsUser :: "(userMessage \<Rightarrow> ('w, unit) outside) option \<Rightarrow> userMessage \<Rightarrow> bool" where
  "startsUser before u \<longleftrightarrow> (case before of
     None \<Rightarrow> \<forall>tr w. I tr w \<longrightarrow> U u w
   | Some f \<Rightarrow> keeping (f u) \<and> (\<forall>tr w w'. I tr w \<and> f u w = (Inr (), w') \<longrightarrow> U u w'))"

definition keepingConfig :: "'w loopConfig \<Rightarrow> bool" where
  "keepingConfig c \<longleftrightarrow>
     (\<forall>u. startsUser (cfBeforeUserMessage c) u) \<and> (\<forall>ms. keeping (cfConvertToLlm c ms))
   \<and> (\<forall>f ms. cfTransformContext c = Some f \<longrightarrow> keeping (f ms)) \<and> (\<forall>f p. cfGetApiKey c = Some f \<longrightarrow> keeping (f p))
   \<and> (\<forall>f t. cfShouldStopAfterTurn c = Some f \<longrightarrow> keeping (f t)) \<and> (\<forall>f t. cfPrepareNextTurn c = Some f \<longrightarrow> keepingUpdate (f t))
   \<and> (\<forall>f. cfPrepareFollowUpTurn c = Some f \<longrightarrow> keepingUpdate f) \<and> (\<forall>f. cfGetSteeringMessages c = Some f \<longrightarrow> keeping f)
   \<and> (\<forall>f. cfGetFollowUpMessages c = Some f \<longrightarrow> keeping f) \<and> (\<forall>f x. cfBeforeToolCall c = Some f \<longrightarrow> keeping (f x))
   \<and> (\<forall>f x r e. cfAfterToolCall c = Some f \<longrightarrow> keeping (f x r e))"

definition keepingState :: "'w loopState \<Rightarrow> bool" where
  "keepingState st \<longleftrightarrow> keepingContext (lsContext st) \<and> keepingConfig (lsConfig st)"

abbreviation J :: "'w loopRun \<Rightarrow> bool" where
  "J s \<equiv> I (lrTrace s) (lrWorld s)"

abbreviation E :: "'w loopRun \<Rightarrow> bool" where
  "E s \<equiv> F (lrTrace s) (lrWorld s)"

lemma keepingD: "keeping f \<Longrightarrow> I tr w \<Longrightarrow> f w = (a, w') \<Longrightarrow> I tr w'"
  unfolding keeping_def by (metis snd_conv)

lemma keepingD1: "\<forall>x. keeping (f x) \<Longrightarrow> I tr w \<Longrightarrow> f x w = (a, w') \<Longrightarrow> I tr w'"
  by (metis keepingD)

lemma keepingD3: "\<forall>x y z. keeping (f x y z) \<Longrightarrow> I tr w \<Longrightarrow> f x y z w = (a, w') \<Longrightarrow> I tr w'"
  by (metis keepingD)

lemma keeps_throwE [keeps_rules]: "keeps J E (throwS e) Q"
  by (rule keeps_throw) (rule frame_failed)

lemma keeps_onWorld: "keeping f \<Longrightarrow> keeps J E (onWorld f) (\<lambda>_. True)"
  by (rule keepsI) (auto simp: onWorld_def dest: keepingD split: prod.splits)

lemma keeps_call: "keeping f \<Longrightarrow> keeps J E (call f) (\<lambda>a. \<exists>w. fst (f w) = Inr a)"
proof (rule keepsI)
  fix s a s'
  assume "keeping f" "J s" "call f s = (Inr a, s')"
  then show "J s' \<and> (\<exists>w. fst (f w) = Inr a)"
    by (auto simp: call_def dest: keepingD split: prod.splits sum.splits) (metis fst_conv)
next
  fix s e s'
  assume "keeping f" "J s" "call f s = (Inl e, s')"
  then show "E s'" by (auto simp: call_def dest!: keepingD intro: frame_failed split: prod.splits sum.splits)
qed

lemma keeps_callT [keeps_rules]: "keeping f \<Longrightarrow> keeps J E (call f) (\<lambda>_. True)"
  by (rule keeps_weaken [OF keeps_call]) simp_all

lemma keeps_emit:
  assumes due: "\<And>w. dueWhen U ev w"
  shows "keeps J E (emit host ev) (\<lambda>_. True)"
  by (rule keepsI)
    (auto simp: emit_def call_def sink [OF _ due] sink_failed [OF _ due] split: prod.splits sum.splits)

lemma dueWhen_simps [simp]:
  "dueWhen U AgentStart w" "dueWhen U (AgentEnd ms) w" "dueWhen U TurnStart w" "dueWhen U (TurnEnd m ts) w"
  "dueWhen U (MessageUpdate x sev) w" "dueWhen U (MessageStart (AssistantMsg am)) w" "dueWhen U (MessageEnd (AssistantMsg am)) w"
  "dueWhen U (MessageStart (ToolResultMsg t)) w" "dueWhen U (MessageEnd (ToolResultMsg t)) w"
  "dueWhen U (ToolExecutionStart i n a) w" "dueWhen U (ToolExecutionUpdate i n a r) w" "dueWhen U (ToolExecutionEnd i n r b) w"
  by (simp_all add: dueWhen_def)

lemmas keeps_emits [keeps_rules] = dueWhen_simps [THEN keeps_emit]
lemmas keeps_emits_seq = keeps_emits [THEN keeps_seq]

lemma keeps_aborted [keeps_rules]: "keeps J E (aborted host) (\<lambda>_. True)"
  by (simp add: keeps_def aborted_def onWorld_def)

lemma keeps_now [keeps_rules]: "keeps J E (onWorld (hoNow host)) (\<lambda>_. True)"
  by (rule keeps_onWorld) (simp add: keeping_def now)

lemma keeps_pick [keeps_rules]: "keeps J E (onWorld (hoPick host)) (\<lambda>_. True)"
  by (rule keeps_onWorld) (simp add: keeping_def pick)

lemma keeps_stream [keeps_rules]: "keeps J E (call (hoStream host m c x)) (\<lambda>_. True)"
  by (rule keeps_callT) (simp add: keeping_def stream)

lemma keeps_poll [keeps_rules]: "(\<And>f. queue = Some f \<Longrightarrow> keeping f) \<Longrightarrow> keeps J E (poll queue) (\<lambda>_. True)"
  unfolding poll_def by (intro keeps_rules) auto

lemma announce_user:
  assumes "J s" "U u (lrWorld s)"
  shows "case announce host (UserMsg u) s of (Inr a, s') \<Rightarrow> J s' \<and> True | (Inl e, s') \<Rightarrow> E s'"
proof -
  have due: "dueWhen U (MessageStart (UserMsg u)) w = U u w" "dueWhen U (MessageEnd (UserMsg u)) w = U u w" for w
    by (simp_all add: dueWhen_def)
  obtain x w where x: "hoEmit host (MessageStart (UserMsg u)) (lrWorld s) = (x, w)" by fastforce
  show ?thesis
  proof (cases x)
    case (Inl e)
    then show ?thesis using x sink_failed [of _ "lrWorld s" "MessageStart (UserMsg u)" e w] assms due
      by (auto simp: announce_def emit_def call_def bindS_def)
  next
    case (Inr v)
    then have I: "I (lrTrace s @ [MessageStart (UserMsg u)]) w" "U u w"
      using x sink [of "lrTrace s" "lrWorld s" "MessageStart (UserMsg u)" w] sink_start [of "lrTrace s" "lrWorld s" u w] assms due
      by simp_all
    obtain y w' where y: "hoEmit host (MessageEnd (UserMsg u)) w = (y, w')" by fastforce
    show ?thesis
      using Inr x y sink [OF I(1), of "MessageEnd (UserMsg u)" w'] sink_failed [OF I(1), of "MessageEnd (UserMsg u)" _ w'] I(2) due
      by (cases y) (simp_all add: announce_def emit_def call_def bindS_def)
  qed
qed

lemma keeps_announce_other: "(\<forall>u. m \<noteq> UserMsg u) \<Longrightarrow> keeps J E (announce host m) (\<lambda>_. True)"
  unfolding announce_def by (intro keeps_seq keeps_emit) (cases m; simp add: dueWhen_def)+

lemma keeps_prompt:
  assumes "keepingConfig c"
  shows "keeps J E (bindS (beforeUser c m) (\<lambda>_. announce host m)) (\<lambda>_. True)"
proof (cases "\<exists>u. m = UserMsg u")
  case False
  then have "beforeUser c m = retS ()" by (cases m) (auto simp: beforeUser_def)
  then show ?thesis using False by (auto intro!: keeps_seq [OF keeps_ret] keeps_announce_other)
next
  case True
  then obtain u where u: "m = UserMsg u" by blast
  have starts: "startsUser (cfBeforeUserMessage c) u" using assms by (simp add: keepingConfig_def)
  have "case bindS (beforeUser c m) (\<lambda>_. announce host m) s of (Inr a, s') \<Rightarrow> J s' \<and> True | (Inl e, s') \<Rightarrow> E s'" if "J s" for s
  proof (cases "cfBeforeUserMessage c")
    case None
    then have "beforeUser c m = retS ()" "U u (lrWorld s)" using starts that by (auto simp: u beforeUser_def startsUser_def)
    then show ?thesis using announce_user [OF that, of u] by (simp add: u bindS_def)
  next
    case (Some f)
    obtain x w where x: "f u (lrWorld s) = (x, w)" by fastforce
    have f: "I (lrTrace s) w" "x = Inr () \<Longrightarrow> U u w"
      using starts that x Some by (auto simp: startsUser_def dest: keepingD)
    show ?thesis
      using x f announce_user [of "s\<lparr>lrWorld := w\<rparr>" u] frame_failed [OF f(1)]
      by (cases x) (simp_all add: u Some beforeUser_def bindS_def call_def)
  qed
  then show ?thesis by (simp add: keeps_def)
qed

lemma keeps_prompts: "keepingConfig c \<Longrightarrow> keeps J E (each (\<lambda>m. bindS (beforeUser c m) (\<lambda>_. announce host m)) ms) (\<lambda>_. True)"
  by (intro keeps_each keeps_prompt)

subsection \<open>Tool calls\<close>

lemma emitAll_failed: "E s \<Longrightarrow> E (snd (emitAll host (map (ToolExecutionUpdate i n a) rs) s))"
proof (induction rs arbitrary: s)
  case (Cons r rs)
  have "E (snd (emit host (ToolExecutionUpdate i n a r) s))"
    using sink_after [OF Cons.prems, of i n a r] by (auto simp: emit_def call_def split: prod.split sum.split)
  then show ?case using Cons.IH by (auto split: prod.split sum.split)
qed simp

lemma keeps_emitAll: "keeps J E (emitAll host (map (ToolExecutionUpdate i n a) rs)) (\<lambda>_. True)"
proof (induction rs)
  case (Cons r rs)
  let ?ev = "ToolExecutionUpdate i n a r"
  have emit: "keeps J E (emit host ?ev) (\<lambda>_. True)" by (simp add: keeps_emits)
  have "case emitAll host (map (ToolExecutionUpdate i n a) (r # rs)) s of (Inr x, s') \<Rightarrow> J s' \<and> True | (Inl e, s') \<Rightarrow> E s'" if J: "J s" for s
  proof (cases "emit host ?ev s")
    case (Pair x s')
    show ?thesis
    proof (cases x)
      case (Inl e)
      then show ?thesis using Pair emitAll_failed [of s'] keeps_failed [OF emit J] by simp
    next
      case (Inr u)
      then have "J s'" using Pair keepsD [OF emit J] by simp
      then show ?thesis using Pair Inr Cons.IH by (simp add: keeps_def)
    qed
  qed
  then show ?case by (simp add: keeps_def)
qed (simp add: keeps_ret)

lemma keeping_prepareToolCall:
  assumes "keepingConfig config"
  shows "keeping (prepareToolCall host config context message tc)"
  using assms unfolding keeping_def
  by (auto simp: prepareToolCall_def keepingConfig_def dest: keepingD1 split: option.splits sum.splits prod.splits)

lemma prepared_tool:
  "fst (prepareToolCall host config context message tc w) = Ready p \<Longrightarrow> \<exists>ts. acTools context = Some ts \<and> ptTool p \<in> set ts"
  by (auto simp: prepareToolCall_def allowToolCall_def findTool_def find_Some_iff
      split: option.splits sum.splits prod.splits if_splits)

definition keepingPrepared :: "'w preparation \<Rightarrow> bool" where
  "keepingPrepared p \<longleftrightarrow> (\<forall>x i args. p = Ready x \<longrightarrow> keeping (atExecute (ptTool x) i args))"

lemma keeps_prepareToolCall:
  assumes "keepingConfig config" "keepingContext context"
  shows "keeps J E (onWorld (prepareToolCall host config context message tc)) keepingPrepared"
  using keeping_prepareToolCall [OF assms(1), of "context" message tc] prepared_tool [of config "context" message tc] assms(2)
  unfolding keeps_def onWorld_def keepingPrepared_def keepingContext_def
  by (auto dest: keepingD split: prod.splits) (metis fst_conv)

lemma keeps_execute:
  "keepingPrepared (Ready p) \<Longrightarrow> keeps J E (executePreparedToolCall host p) (\<lambda>_. True)"
  unfolding executePreparedToolCall_def keepingPrepared_def
  by (intro keeps_rules keeps_onWorld keeps_emitAll) auto

lemma keeps_finalize: "keepingConfig config \<Longrightarrow> keeps J E (onWorld (finalizeExecutedToolCall config context message p x)) (\<lambda>_. True)"
proof (rule keeps_onWorld)
  assume "keepingConfig config"
  then show "keeping (finalizeExecutedToolCall config context message p x)"
    unfolding keeping_def
    by (auto simp: finalizeExecutedToolCall_def keepingConfig_def dest: keepingD3 split: option.splits sum.splits prod.splits)
qed

lemma keeps_settle:
  "keepingConfig config \<Longrightarrow> keepingPrepared p \<Longrightarrow> keeps J E (settleToolCall host config context message tc p) (\<lambda>_. True)"
  by (cases p) (auto simp: settleToolCall_def intro!: keeps_rules keeps_execute keeps_finalize)

lemma keeps_reportResult [keeps_rules]: "keeps J E (reportResult host f) (\<lambda>_. True)"
  unfolding reportResult_def emitToolResultMessage_def by (intro keeps_rules) auto

lemma keeps_sequentialCalls:
  assumes "keepingConfig config" "keepingContext context"
  shows "keeps J E (sequentialCalls host config context message tcs) (\<lambda>_. True)"
proof (induction tcs)
  case (Cons tc tcs)
  show ?case
    unfolding sequentialCalls.simps emitToolExecutionStart_def emitToolExecutionEnd_def
    by (intro keeps_emits_seq keeps_bind [OF keeps_prepareToolCall [OF assms]] keeps_seq [OF keeps_settle [OF assms(1)]]
        keeps_seq [OF keeps_reportResult] keeps_seq [OF keeps_aborted] keeps_if keeps_seq [OF Cons.IH] keeps_ret) simp_all
qed simp

definition keepingTask :: "'w task \<Rightarrow> bool" where
  "keepingTask t \<longleftrightarrow> (\<forall>p. t = Execute p \<longrightarrow> keepingPrepared (Ready p))"

lemma keeps_stepTask:
  "keepingConfig config \<Longrightarrow> keepingTask t \<Longrightarrow> keeps J E (stepTask host config context message t) keepingTask"
  by (cases t) (auto simp: keepingTask_def emitToolExecutionEnd_def intro!: keeps_seq [OF keeps_execute] keeps_seq [OF keeps_finalize]
      keeps_emits_seq keeps_ret)

lemma keeps_preparedTasks:
  assumes "keepingConfig config" "keepingContext context"
  shows "keeps J E (preparedTasks host config context message tcs) (\<lambda>ts. \<forall>t \<in> set ts. keepingTask t)"
proof (induction tcs)
  case (Cons tc tcs)
  have task: "keeps J E (case p of Immediate r e \<Rightarrow> (let f = \<lparr>fnToolCall = tc, fnResult = r, fnIsError = e\<rparr> in
        bindS (emitToolExecutionEnd host f) (\<lambda>_. retS (Settled f))) | Ready x \<Rightarrow> retS (Execute x)) keepingTask"
    if "keepingPrepared p" for p
    using that by (cases p) (auto simp: keepingTask_def emitToolExecutionEnd_def Let_def intro!: keeps_emits_seq keeps_ret)
  show ?case
    unfolding preparedTasks.simps emitToolExecutionStart_def
    by (intro keeps_emits_seq keeps_bind [OF keeps_prepareToolCall [OF assms]] keeps_bind [OF task]
        keeps_seq [OF keeps_aborted] keeps_if keeps_bind [OF Cons.IH] keeps_ret) auto
qed simp

lemma stepTask_left:
  "stepTask host config context message t s = (Inr t', s') \<Longrightarrow> stepsLeft t > 0 \<Longrightarrow> stepsLeft t' = stepsLeft t - 1"
  by (cases t) (auto simp: bindS_def retS_def split: prod.splits sum.splits)

lemma keeps_runTasks:
  assumes config: "keepingConfig config"
  shows "sum_list (map stepsLeft ts) = k \<Longrightarrow> \<forall>t \<in> set ts. keepingTask t
    \<Longrightarrow> keeps J E (runTasks host config context message k ts) (\<lambda>_. True)"
proof (induction k arbitrary: ts)
  case (Suc k)
  have step: "keeps J E (bindS (stepTask host config context message (ts ! i)) (\<lambda>t. runTasks host config context message k (ts[i := t]))) (\<lambda>_. True)"
    if i_def: "i = unsettled ts ! (n mod length (unsettled ts))" for i n
  proof -
    have i: "i < length ts" "stepsLeft (ts ! i) > 0" using unsettled_nth [OF Suc.prems(1) i_def] by simp_all
    have "keeps J E (stepTask host config context message (ts ! i)) (\<lambda>t. keepingTask t \<and> stepsLeft t = stepsLeft (ts ! i) - 1)"
    proof (rule keepsI)
      fix s t s'
      assume "J s" "stepTask host config context message (ts ! i) s = (Inr t, s')"
      then show "J s' \<and> keepingTask t \<and> stepsLeft t = stepsLeft (ts ! i) - 1"
        using keepsD [OF keeps_stepTask [OF config]] Suc.prems(2) i stepTask_left [OF _ i(2)] nth_mem by blast
    next
      fix s e s'
      assume "J s" "stepTask host config context message (ts ! i) s = (Inl e, s')"
      then show "E s'" using keeps_failed [OF keeps_stepTask [OF config]] Suc.prems(2) i nth_mem by blast
    qed
    then show ?thesis
    proof (rule keeps_bind, elim conjE)
      fix t
      assume t: "keepingTask t" "stepsLeft t = stepsLeft (ts ! i) - 1"
      have "sum_list (map stepsLeft (ts[i := t])) = k"
        using Suc.prems(1) i t(2) sum_list_update [of i "map stepsLeft ts" "stepsLeft t"]
          elem_le_sum_list [of i "map stepsLeft ts"] by (simp add: map_update)
      then show "keeps J E (runTasks host config context message k (ts[i := t])) (\<lambda>_. True)"
        using Suc.IH t(1) Suc.prems(2) by (auto dest: set_update_subset_insert [THEN subsetD])
    qed
  qed
  show ?case unfolding runTasks.simps Let_def by (rule keeps_seq [OF keeps_pick]) (use step in blast)
qed (simp add: keeps_ret)

lemma keeps_reportResults [keeps_rules]: "keeps J E (reportResults host fs) (\<lambda>_. True)"
  by (induction fs) (auto intro!: keeps_rules)

lemma keeps_executeToolCalls:
  assumes "keepingConfig config" "keepingContext context"
  shows "keeps J E (executeToolCalls host config context message) (\<lambda>_. True)"
proof -
  have "keeps J E (executeToolCallsParallel host config context message tcs) (\<lambda>_. True)" for tcs
    unfolding executeToolCallsParallel_def Let_def
    by (rule keeps_bind [OF keeps_preparedTasks [OF assms]])
      (intro keeps_seq [OF keeps_runTasks [OF assms(1) refl]] keeps_seq [OF keeps_reportResults] keeps_ret; simp)
  moreover have "keeps J E (executeToolCallsSequential host config context message tcs) (\<lambda>_. True)" for tcs
    unfolding executeToolCallsSequential_def
    by (intro keeps_seq [OF keeps_sequentialCalls [OF assms]] keeps_ret) simp
  ultimately show ?thesis by (simp add: executeToolCalls_def Let_def)
qed

subsection \<open>Turns and runs\<close>

lemma keeps_finishStream:
  "keepingContext ctx \<Longrightarrow> keeps J E (finishStream host ctx added final) (\<lambda>(_, c). keepingContext c)"
  by (auto simp: finishStream_def keepingContext_def pushMessage_def intro!: keeps_emits_seq keeps_ret)

lemma keeps_streamEvents:
  "h = host \<Longrightarrow> keepingContext ctx \<Longrightarrow> keeps J E (streamEvents h ctx added final evs) (\<lambda>(_, c). keepingContext c)"
proof (induction h ctx added final evs rule: streamEvents.induct)
  case (2 h ctx added final partial evs)
  show ?case unfolding streamEvents.simps \<open>h = host\<close>
    by (intro keeps_emits_seq "2.IH" [unfolded \<open>h = host\<close>]) (use "2.prems" in \<open>simp_all add: keepingContext_def pushMessage_def\<close>)
next
  case (3 h ctx added final k payload partial evs)
  show ?case unfolding streamEvents.simps \<open>h = host\<close>
    by (intro keeps_if keeps_emits_seq "3.IH" [unfolded \<open>h = host\<close>]) (use "3.prems" in \<open>simp_all add: keepingContext_def\<close>)
qed (simp_all add: keeps_finishStream)

lemma keeps_streamAssistantResponse:
  assumes "keepingConfig config" "keepingContext context"
  shows "keeps J E (streamAssistantResponse host config context) (\<lambda>(_, c). keepingContext c)"
  unfolding streamAssistantResponse_def
  using assms(1) by (intro keeps_rules keeps_streamEvents [OF refl assms(2)]) (auto simp: keepingConfig_def)

lemma keeps_injectPending:
  "keepingState st \<Longrightarrow> keeps J E (injectPending host st) keepingState"
  unfolding injectPending_def
  by (intro keeps_seq [OF keeps_prompts] keeps_ret) (simp_all add: keepingState_def keepingContext_def)

definition keepingOutcome :: "'w turn_outcome \<Rightarrow> bool" where
  "keepingOutcome x \<longleftrightarrow> (\<forall>st. x = Goes st \<longrightarrow> keepingState st)"

lemma keepingOutcome_simps [simp]: "keepingOutcome (Goes st) = keepingState st" "keepingOutcome (Ended ms)"
  by (simp_all add: keepingOutcome_def)

lemma keeps_finishRun: "keeps J E (finishRun host st) keepingOutcome"
  unfolding finishRun_def by (intro keeps_emits_seq keeps_ret) simp

lemma keepingConfig_model [simp]:
  "keepingConfig (c\<lparr>cfModel := m, cfReasoning := r\<rparr>) = keepingConfig c"
  by (simp add: keepingConfig_def)

lemma keepingState_update:
  assumes "keepingState st" "\<forall>(u :: 'w turnUpdate) c. x = Some u \<and> tuContext u = Some c \<longrightarrow> keepingContext c"
  shows "keepingState (applyTurnUpdate x st)"
  using assms by (auto simp: applyTurnUpdate_def keepingState_def orOption_def split: option.split)

lemma keeps_update:
  "keepingUpdate f \<Longrightarrow> keeps J E (call f) (\<lambda>x. \<forall>(u :: 'w turnUpdate) c. x = Some u \<and> tuContext u = Some c \<longrightarrow> keepingContext c)"
  by (rule keeps_weaken [OF keeps_call]) (auto simp: keepingUpdate_def)

lemma keeps_finishTurn:
  assumes st: "keepingState st"
  shows "keeps J E (finishTurn host message results st) keepingOutcome"
proof -
  have prepare: "keeps J E (case cfPrepareNextTurn (lsConfig st) of None \<Rightarrow> retS None
      | Some f \<Rightarrow> call (f x)) (\<lambda>x. \<forall>(u :: 'w turnUpdate) c. x = Some u \<and> tuContext u = Some c \<longrightarrow> keepingContext c)" for x
    using st by (intro keeps_option keeps_ret keeps_update) (auto simp: keepingState_def keepingConfig_def)
  show ?thesis
    unfolding finishTurn_def Let_def
  proof (intro keeps_emits_seq keeps_bind [OF prepare])
    fix u
    assume "\<forall>(v :: 'w turnUpdate) c. u = Some v \<and> tuContext v = Some c \<longrightarrow> keepingContext c"
    then have st': "keepingState (applyTurnUpdate u st)" by (rule keepingState_update [OF st])
    then have config: "keepingConfig (lsConfig (applyTurnUpdate u st))" by (simp add: keepingState_def)
    let ?st = "applyTurnUpdate u st"
    show "keeps J E (bindS (case cfShouldStopAfterTurn (lsConfig ?st) of None \<Rightarrow> retS False
        | Some stops \<Rightarrow> call (stops \<lparr>ftMessage = message, ftToolResults = results, ftContext = lsContext ?st, ftNewMessages = lsNewMessages ?st\<rparr>))
        (\<lambda>stop. if stop then finishRun host ?st else bindS (poll (cfGetSteeringMessages (lsConfig ?st)))
          (\<lambda>pending. retS (Goes (?st\<lparr>lsPending := pending\<rparr>))))) keepingOutcome"
      using config st'
      by (intro keeps_seq keeps_option keeps_if keeps_finishRun keeps_callT keeps_poll keeps_ret)
        (auto simp: keepingConfig_def keepingState_def)
  qed
qed

lemma keeps_settleTurn:
  assumes st: "keepingState st"
  shows "keeps J E (settleTurn host message st) keepingOutcome"
proof -
  have st': "keepingState (st\<lparr>lsHasMoreToolCalls := b\<rparr>)" "keepingState (pushAll ms (st\<lparr>lsHasMoreToolCalls := b\<rparr>))" for b ms
    using st by (simp_all add: keepingState_def pushAll_def keepingContext_def)
  have calls: "keeps J E (executeToolCalls host (lsConfig st) (lsContext st) message) (\<lambda>_. True)"
    using st by (intro keeps_executeToolCalls) (simp_all add: keepingState_def)
  show ?thesis
    unfolding settleTurn_def
    by (intro keeps_if keeps_emits_seq keeps_finishRun keeps_finishTurn st' keeps_seq [OF calls] keeps_pair)
qed

lemma keeps_turn:
  assumes st: "keepingState st"
  shows "keeps J E (turn host st) keepingOutcome"
proof -
  have st0: "keepingState (st\<lparr>lsFirstTurn := False\<rparr>)" using st by (simp add: keepingState_def)
  have rest: "keeps J E (bindS (streamAssistantResponse host (lsConfig st1) (lsContext st1)) (\<lambda>(message, context).
      settleTurn host message (st1\<lparr>lsContext := context, lsNewMessages := lsNewMessages st1 @ [AssistantMsg message]\<rparr>))) keepingOutcome"
    if "keepingState st1" for st1
    using that by (intro keeps_bind [OF keeps_streamAssistantResponse])
      (auto simp: keepingState_def intro!: keeps_settleTurn)
  show ?thesis unfolding turn_def
    by (intro keeps_seq keeps_if keeps_ret keeps_emits keeps_bind [OF keeps_injectPending [OF st0]] rest) simp_all
qed

lemma keeps_innerLoop: "keepingState st \<Longrightarrow> keeps J E (innerLoop host n st) keepingOutcome"
proof (induction n arbitrary: st)
  case (Suc n)
  have "keeps J E (case x of Ended ms \<Rightarrow> retS (Ended ms) | Goes st' \<Rightarrow> innerLoop host n st') keepingOutcome" if "keepingOutcome x" for x
    using that Suc.IH by (cases x) (auto intro!: keeps_ret)
  then show ?case unfolding innerLoop.simps
    by (intro keeps_if keeps_bind [OF keeps_turn [OF Suc.prems]] keeps_ret) (simp_all add: Suc.prems)
qed (auto intro!: keeps_ret keeps_throwE)

lemma keeps_outerLoop: "keepingState st \<Longrightarrow> keeps J E (outerLoop host turns n st) keepingOutcome"
proof (induction n arbitrary: st)
  case (Suc n)
  have more: "keepingState (st\<lparr>lsHasMoreToolCalls := True\<rparr>)" using Suc.prems by (simp add: keepingState_def)
  have prepare: "keeps J E (case cfPrepareFollowUpTurn (lsConfig s) of None \<Rightarrow> retS None | Some f \<Rightarrow> call f)
      (\<lambda>x. \<forall>(u :: 'w turnUpdate) c. x = Some u \<and> tuContext u = Some c \<longrightarrow> keepingContext c)" if "keepingState s" for s
    using that by (intro keeps_option keeps_ret keeps_update) (auto simp: keepingState_def keepingConfig_def)
  have go: "keepingState ((applyTurnUpdate u s)\<lparr>lsPending := ms\<rparr>)"
    if "keepingState s" "\<forall>(v :: 'w turnUpdate) c. u = Some v \<and> tuContext v = Some c \<longrightarrow> keepingContext c" for u s ms
    using keepingState_update [OF that] by (simp add: keepingState_def)
  have "keeps J E (case x of Ended ms \<Rightarrow> retS (Ended ms) | Goes st' \<Rightarrow>
        bindS (poll (cfGetFollowUpMessages (lsConfig st'))) (\<lambda>ms.
        if ms = [] then finishRun host st'
        else bindS (case cfPrepareFollowUpTurn (lsConfig st') of None \<Rightarrow> retS None | Some f \<Rightarrow> call f) (\<lambda>u.
          outerLoop host turns n ((applyTurnUpdate u st')\<lparr>lsPending := ms\<rparr>)))) keepingOutcome"
    if x: "keepingOutcome x" for x
  proof (cases x)
    case (Goes s)
    then have s: "keepingState s" using x by simp
    then show ?thesis unfolding Goes turn_outcome.case
      by (intro keeps_seq [OF keeps_poll] keeps_if keeps_finishRun keeps_bind [OF prepare] Suc.IH go)
        (auto simp: keepingState_def keepingConfig_def)
  qed (simp add: keeps_rules)
  then show ?case unfolding outerLoop.simps by (intro keeps_bind [OF keeps_innerLoop [OF more]])
qed (simp add: keeps_throwE)

lemma keeps_runLoop:
  assumes "keepingConfig config" "keepingContext context"
  shows "keeps J E (runLoop host fuel config context ms) (\<lambda>_. True)"
proof -
  have "keeps J E (case x of Ended ms \<Rightarrow> retS ms | Goes st \<Rightarrow> retS (lsNewMessages st)) (\<lambda>_. True)" for x
    by (cases x) (simp_all add: keeps_rules)
  then show ?thesis
    unfolding runLoop_def
    by (intro keeps_seq [OF keeps_poll] keeps_bind [OF keeps_outerLoop]) (use assms in \<open>auto simp: keepingState_def keepingConfig_def\<close>)
qed

lemma keeps_runAgentLoop:
  assumes "keepingConfig config" "keepingContext context"
  shows "keeps J E (runAgentLoop host fuel config prompts context) (\<lambda>_. True)"
  unfolding runAgentLoop_def
  by (intro keeps_emits_seq keeps_seq [OF keeps_prompts [OF assms(1)]] keeps_runLoop [OF assms(1)])
    (use assms(2) in \<open>simp add: keepingContext_def\<close>)

end

end
