(* ===== verification/HarnessState.thy ===== *)
theory HarnessState
  imports BranchSummary LoopFrames
begin

section \<open>The agent harness: state, environment, awaiting\<close>

text \<open>
  The data of \<open>packages/agent/harness/agent-harness.ts\<close>: the fields of the class \<open>AgentHarness\<close> as a
  record, its errors, events and queues, and what awaiting code of a client means.

  The harness lives in an outside world \<open>'w\<close>: listeners, hooks, tools, the model stream and the clock
  act on it, and the record \<open>harnessEnv\<close> holds them together with the options of the constructor.
  While the harness awaits a listener, a hook, a tool or the stream, the client may call it: the
  function \<open>heRequests\<close> reads from the world which calls those are, and \<open>interleave\<close> performs them, in
  order, before the awaited call resumes.  So every interleaving of \<open>steer\<close>, \<open>followUp\<close>, \<open>nextTurn\<close>,
  \<open>appendMessage\<close>, the setters and \<open>abort\<close> with a run is a value of \<open>heRequests\<close>.  An operation of the
  session storage is one step.

  Objects the code compares by identity: an abort controller and a user-turn boundary are indices of
  lists in the state; a user message is its value, so two messages of a harness differ in content or
  time stamp.  The array that holds the steering messages is replaced by \<open>abort\<close>; \<open>hnSteerArray\<close>
  counts the replacements.
\<close>

subsection \<open>Errors\<close>

datatype harness_error_code =
  BusyCode | InvalidStateCode | InvalidArgumentCode | SessionCode | HookCode | AuthCode | CompactionCode
  | BranchSummaryCode | UnknownCode

text \<open>
  What an operation may throw: an \<open>AgentHarnessError\<close>, the errors of the session, of a compaction and
  of a branch summary, the \<open>AgentHarnessTerminalPreparationError\<close> with its cause, an \<open>AggregateError\<close>,
  and any other error.  \<open>Diverged\<close> is no error: the call does not return, and nothing catches it.
\<close>

datatype harness_fault =
    HarnessError harness_error_code string
  | StorageFault storage_error
  | CompactionFault compaction_error
  | BranchFault branch_error
  | TerminalPreparation string "harness_fault option"
  | AggregateFault string
  | OtherFault string
  | Diverged

definition faultMessage :: "harness_fault \<Rightarrow> string" where
  "faultMessage e = (case e of
     HarnessError _ m \<Rightarrow> m
   | StorageFault (SessionError _ m) \<Rightarrow> m
   | StorageFault (TransactionError t) \<Rightarrow> errMessage t
   | CompactionFault (CompactionError _ m) \<Rightarrow> m
   | BranchFault (BranchSummaryError _ m) \<Rightarrow> m
   | TerminalPreparation m _ \<Rightarrow> m
   | AggregateFault m \<Rightarrow> m
   | OtherFault m \<Rightarrow> m
   | Diverged \<Rightarrow> [])"

definition normalizeHarnessError :: "harness_fault \<Rightarrow> harness_error_code \<Rightarrow> harness_fault" where
  "normalizeHarnessError e fallback = (case e of
     HarnessError c m \<Rightarrow> HarnessError c m
   | Diverged \<Rightarrow> Diverged
   | StorageFault (SessionError c m) \<Rightarrow> HarnessError SessionCode m
   | CompactionFault _ \<Rightarrow> HarnessError CompactionCode (faultMessage e)
   | BranchFault _ \<Rightarrow> HarnessError BranchSummaryCode (faultMessage e)
   | _ \<Rightarrow> HarnessError fallback (faultMessage e))"

definition normalizeHookError :: "harness_fault \<Rightarrow> harness_fault" where
  "normalizeHookError e = normalizeHarnessError e HookCode"

text \<open>\<open>try ... catch\<close> and \<open>try ... finally\<close>; a call that does not return runs neither handler.\<close>

definition catchS :: "('s, harness_fault, 'a) action \<Rightarrow> (harness_fault \<Rightarrow> ('s, harness_fault, 'a) action)
    \<Rightarrow> ('s, harness_fault, 'a) action" where
  "catchS m handler s = (case m s of
     (Inr a, s') \<Rightarrow> (Inr a, s')
   | (Inl e, s') \<Rightarrow> if e = Diverged then (Inl e, s') else handler e s')"

definition finallyS :: "('s, harness_fault, 'a) action \<Rightarrow> ('s, harness_fault, unit) action
    \<Rightarrow> ('s, harness_fault, 'a) action" where
  "finallyS m cleanup s = (case m s of
     (Inl Diverged, s') \<Rightarrow> (Inl Diverged, s')
   | (r, s') \<Rightarrow> (case cleanup s' of (Inl e, s'') \<Rightarrow> (Inl e, s'') | (Inr _, s'') \<Rightarrow> (r, s'')))"

text \<open>The error a \<open>try\<close> block threw, if it threw one.\<close>

definition attemptS :: "('s, harness_fault, 'a) action \<Rightarrow> ('s, harness_fault, harness_fault option) action" where
  "attemptS m = catchS (bindS m (\<lambda>_. retS None)) (\<lambda>e. retS (Some e))"

definition getS :: "('s, harness_fault, 's) action" where
  "getS s = (Inr s, s)"

definition modifyS :: "('s \<Rightarrow> 's) \<Rightarrow> ('s, harness_fault, unit) action" where
  "modifyS f s = (Inr (), f s)"

subsection \<open>Queues, user turns, turn state\<close>

datatype harness_phase = PhaseIdle | PhaseTurn | PhaseCompaction | PhaseBranchSummary | PhaseRetry

datatype queue_mode = QueueAll | QueueOneAtATime

datatype terminal_reason = Superseded | AgentEnded | RunAborted | PreparationFailed | ProviderFailed

record userTurnBoundary =
  btToken :: string
  btMessage :: userMessage
  btUserEntryId :: "string option"
  btCommittedDispatched :: bool
  btTerminalDispatched :: bool
  btFinalizationError :: "harness_fault option"
  btCommitted :: bool
  btTerminal :: bool

record harnessStreamOptions =
  hsTransport :: "json option"
  hsTimeoutMs :: "json option"
  hsMaxRetries :: "json option"
  hsMaxRetryDelayMs :: "json option"
  hsCacheRetention :: "json option"
  hsHeaders :: "(string \<times> string) list option"
  hsMetadata :: "(string \<times> json) list option"

text \<open>A patch: an absent property, one that holds \<open>undefined\<close>, or a value.\<close>

record streamOptionsPatch =
  spTransport :: "json jsProp"
  spTimeoutMs :: "json jsProp"
  spMaxRetries :: "json jsProp"
  spMaxRetryDelayMs :: "json jsProp"
  spCacheRetention :: "json jsProp"
  spHeaders :: "(string \<times> string option) list jsProp"
  spMetadata :: "(string \<times> json option) list jsProp"

text \<open>What a preparation is told and what it returns; the functions its input offers are left out.\<close>

record 'w preparationInput =
  piUserMessage :: userMessage
  piSystemPrompt :: string
  piSystemPromptMetadata :: "json option"
  piMessages :: "agent_message list"
  piModel :: loopModel
  piActiveTools :: "'w agentTool list"

record preparedTurn =
  pdUserEntryId :: string
  pdSystemPromptSuffix :: string
  pdProviderRequestOptions :: "harnessStreamOptions option"
  pdContextMessages :: "agent_message list option"
  pdProviderPayload :: "json option"

type_synonym ('w, 'a) hook = "'w \<Rightarrow> (harness_fault + 'a) \<times> 'w"

text \<open>Preparations and activations are code of the client that also writes to the session.\<close>

type_synonym ('s, 'w, 'a) sessionHook = "'s \<Rightarrow> 'w \<Rightarrow> (harness_fault + 'a) \<times> 's \<times> 'w"

type_synonym ('s, 'w) turnPreparation = "'w preparationInput \<Rightarrow> ('s, 'w, preparedTurn) sessionHook"

type_synonym ('s, 'w) activation = "('s, 'w, ('s, 'w) turnPreparation option) sessionHook"

record ('s, 'w) followUpDrain =
  drMessages :: "userMessage list"
  drPreparations :: "('s, 'w) turnPreparation option list"
  drActivations :: "('s, 'w) activation option list"
  drCancelled :: bool

record 'w turnState =
  tsEntries :: "entry list"
  tsMessages :: "agent_message list"
  tsMessageEntryIds :: "string list"
  tsLeafId :: "string option"
  tsStreamOptions :: harnessStreamOptions
  tsSessionId :: string
  tsSystemPrompt :: string
  tsSystemPromptMetadata :: "json option"
  tsModel :: loopModel
  tsThinkingLevel :: string
  tsTools :: "'w agentTool list"
  tsActiveTools :: "'w agentTool list"

subsection \<open>Events\<close>

text \<open>
  The events listeners are given: those of the agent loop, \<open>message_end\<close> with the id of the entry that
  stores the message, and the harness's own.
\<close>

datatype harness_event =
    LoopEvent agent_event "string option"
  | BeforeUserTurn string userMessage
  | UserTurnCommitted string string
  | UserTurnTerminal string terminal_reason
  | QueueUpdate "userMessage list" "userMessage list" "agent_message list"
  | SavePoint bool
  | RunSettled nat
  | AbortDone "userMessage list" "userMessage list"
  | SessionCompacted entry bool
  | SessionTreeMoved "string option" "string option" "entry option" bool
  | ModelSelect loopModel loopModel
  | ThinkingLevelSelect string string

subsection \<open>The state of a harness\<close>

text \<open>
  \<open>hnTurnState\<close> and \<open>hnSystemPromptSuffix\<close> are the variables \<open>activeTurnState\<close> and
  \<open>activeSystemPromptSuffix\<close> that the callbacks of a run share.  \<open>hnAbortWaiters\<close> are the calls of
  \<open>abort\<close> that wait for the run to end.  \<open>hnDiverged\<close> records that awaited code did not return.
  The last three fields before the world record what happened and are read by nothing:
  \<open>hnEvents\<close> the events given to the listeners, \<open>hnWrites\<close> the session writes that were queued,
  \<open>hnDirectWrites\<close> those a client's call stored at once.
\<close>

record ('s, 'w) harness =
  hnSession :: 's
  hnPhase :: harness_phase
  hnAbortControllers :: "bool list"
  hnRunAbortController :: "nat option"
  hnRunPromise :: bool
  hnAbortWaiters :: "(userMessage list \<times> userMessage list) list"
  hnPendingSessionWrites :: "entry_kind list"
  hnModel :: loopModel
  hnThinkingLevel :: string
  hnStreamOptions :: harnessStreamOptions
  hnTools :: "'w agentTool list"
  hnActiveToolNames :: "string list"
  hnSteerQueue :: "userMessage list"
  hnSteerArray :: nat
  hnSteeringQueueMode :: queue_mode
  hnFollowUpQueue :: "userMessage list"
  hnFollowUpPreparations :: "('s, 'w) turnPreparation option list"
  hnFollowUpActivations :: "('s, 'w) activation option list"
  hnFollowUpQueueMode :: queue_mode
  hnInFlightDrain :: "('s, 'w) followUpDrain option"
  hnNextTurnQueue :: "agent_message list"
  hnPreparedUserEntryIds :: "string option list"
  hnPreparedProviderRequests :: "(string \<times> harnessStreamOptions) list"
  hnPreparedContextTransforms :: "(string \<times> agent_message list) list"
  hnPreparedProviderPayloads :: "(string \<times> json) list"
  hnPreparedProviderReceipts :: "string list"
  hnActivePreparedProviderUserEntryId :: "string option"
  hnUserTurnCounter :: nat
  hnBoundaries :: "userTurnBoundary list"
  hnBoundaryOf :: "userMessage \<Rightarrow> nat option"
  hnActiveUserTurn :: "nat option"
  hnFailureReason :: "terminal_reason option"
  hnFinalizationPending :: bool
  hnTurnState :: "'w turnState option"
  hnSystemPromptSuffix :: string
  hnDiverged :: bool
  hnEvents :: "harness_event list"
  hnWrites :: "entry_kind list"
  hnDirectWrites :: "entry_kind list"
  hnOutside :: 'w

type_synonym ('s, 'w, 'a) harnessM = "(('s, 'w) harness, harness_fault, 'a) action"

subsection \<open>The environment\<close>

record authResult =
  auApiKey :: "string option"
  auHeaders :: "(string \<times> string) list option"

record beforeStartEvent =
  bvPrompt :: string
  bvImages :: "content_part list"
  bvSystemPrompt :: string

record beforeStartResult =
  bsMessages :: "agent_message list option"
  bsSystemPrompt :: "string option"

record toolCallEvent =
  tvToolCallId :: string
  tvToolName :: string
  tvInput :: json

record providedCompaction =
  pcSummary :: string
  pcFirstKeptEntryId :: string
  pcTokensBefore :: int
  pcDetails :: "json option"

record beforeCompactResult =
  bcCancel :: bool
  bcCompaction :: "providedCompaction option"

record treePreparation =
  tpTargetId :: string
  tpOldLeafId :: "string option"
  tpCommonAncestorId :: "string option"
  tpEntriesToSummarize :: "entry list"
  tpUserWantsSummary :: bool
  tpCustomInstructions :: "string option"
  tpReplaceInstructions :: "bool option"
  tpLabel :: "string option"

record beforeTreeResult =
  bwCancel :: bool
  bwSummary :: "(string \<times> json option) option"
  bwCustomInstructions :: "string option"
  bwReplaceInstructions :: "bool option"

datatype ('s, 'w) system_prompt =
    DefaultPrompt
  | FixedPrompt string
  | ComputedPrompt "'s \<Rightarrow> loopModel \<Rightarrow> string \<Rightarrow> 'w agentTool list \<Rightarrow> ('w, string \<times> json option) hook"

text \<open>The calls a client may make while the harness awaits something.\<close>

datatype ('s, 'w) request =
    Steer string "content_part list"
  | FollowUp string "content_part list" "('s, 'w) activation option" "('s, 'w) turnPreparation option"
  | NextTurn string "content_part list"
  | AppendMessage agent_message
  | AppendCustom string "json option"
  | SetModel loopModel
  | SetThinkingLevel string
  | SetActiveTools "string list"
  | SetTools "'w agentTool list" "string list option"
  | SetSteeringMode queue_mode
  | SetFollowUpMode queue_mode
  | SetStreamOptions harnessStreamOptions
  | Abort

text \<open>
  \<open>heStreamSimple\<close> is \<open>streamSimple\<close> with the payload and response callbacks; it is given the names and
  schemas of the tools.  \<open>hePick\<close> schedules concurrent tool calls.  \<open>heFuel\<close> bounds the rounds of a
  run's loops and the follow-ups a failed prompt promotes.
\<close>

record ('s, 'w) harnessEnv =
  heOps :: "'s storageOps"
  heSha :: "string \<Rightarrow> string"
  heSessionId :: string
  heNow :: "'w \<Rightarrow> int \<times> 'w"
  heIsoNow :: "'w \<Rightarrow> string \<times> 'w"
  hePick :: "'w \<Rightarrow> nat \<times> 'w"
  heFuel :: nat
  heValidate :: "string \<Rightarrow> json \<Rightarrow> toolCall \<Rightarrow> string + json"
  heListeners :: "(harness_event \<Rightarrow> ('w, unit) hook) list"
  heBeforeAgentStart :: "(beforeStartEvent \<Rightarrow> ('w, beforeStartResult option) hook) list"
  heContext :: "(agent_message list \<Rightarrow> ('w, agent_message list option) hook) list"
  heToolCall :: "(toolCallEvent \<Rightarrow> ('w, beforeToolCallResult option) hook) list"
  heToolResult :: "(toolCallEvent \<times> toolResult \<times> bool \<Rightarrow> ('w, afterToolCallResult option) hook) list"
  heBeforeProviderRequest :: "(loopModel \<times> harnessStreamOptions \<Rightarrow> ('w, streamOptionsPatch option) hook) list"
  heBeforeCompact :: "(compactionPreparation \<times> entry list \<times> string option \<Rightarrow> ('w, beforeCompactResult option) hook) list"
  heBeforeTree :: "(treePreparation \<Rightarrow> ('w, beforeTreeResult option) hook) list"
  heTransformSessionContext :: "(entry list \<Rightarrow> sessionContext \<Rightarrow> ('w, sessionContext) hook) option"
  heSystemPrompt :: "('s, 'w) system_prompt"
  heAuth :: "(loopModel \<Rightarrow> ('w, authResult option) hook) option"
  heStreamSimple :: "loopModel \<Rightarrow> string \<Rightarrow> agent_message list \<Rightarrow> (string \<times> json) list option \<Rightarrow> streamOptions
    \<Rightarrow> harnessStreamOptions \<Rightarrow> authResult option \<Rightarrow> ('w, stream_event list \<times> assistantMessage) hook"
  heModelInfo :: "loopModel \<Rightarrow> modelInfo"
  heComplete :: "loopModel \<Rightarrow> authResult \<Rightarrow> 'w \<Rightarrow> completion \<times> 'w"
  heRequests :: "'w \<Rightarrow> ('s, 'w) request list \<times> 'w"

end
