(* ===== verification/AgentHarness.thy ===== *)
theory AgentHarness
  imports HarnessState
begin

section \<open>The agent harness: operations\<close>

text \<open>
  The methods of the class \<open>AgentHarness\<close> of \<open>packages/agent/harness/agent-harness.ts\<close>, in the order of
  the file: awaiting and emitting, user turns, the queues, the callbacks it hands to the agent loop,
  the handler of the loop's events, a turn, and the public operations.

  An operation that the client may also call during a run takes the function that emits its event as
  an argument: \<open>emitOwn\<close> when the operation is called on its own, \<open>emitDuring\<close> when \<open>interleave\<close> performs it while
  the harness awaits something else.  Not modelled: the ids a context message is traced back to
  (\<open>alignMessageEntryIds\<close>) and the observation of provider contexts, which only report, the payload
  and response callbacks of the stream, and the resources.
\<close>

subsection \<open>Stream options\<close>

definition mergeHeaders :: "(string \<times> string) list option list \<Rightarrow> (string \<times> string) list option" where
  "mergeHeaders headers = (let given = List.map_filter id headers in
     if given = [] then None else Some (fold (\<lambda>(k, v). alistSet k v) (concat given) []))"

definition patched :: "'a jsProp \<Rightarrow> 'a option \<Rightarrow> 'a option" where
  "patched patch current = (case patch of None \<Rightarrow> current | Some v \<Rightarrow> v)"

definition patchedMap :: "(string \<times> 'a option) list jsProp \<Rightarrow> (string \<times> 'a) list option \<Rightarrow> (string \<times> 'a) list option" where
  "patchedMap patch current = (case patch of
     None \<Rightarrow> current
   | Some None \<Rightarrow> None
   | Some (Some changes) \<Rightarrow>
       (let m = fold (\<lambda>(k, v) m. case v of None \<Rightarrow> alistDelete k m | Some x \<Rightarrow> alistSet k x m) changes
          (case current of None \<Rightarrow> [] | Some c \<Rightarrow> c)
        in if m = [] then None else Some m))"

definition applyStreamOptionsPatch :: "harnessStreamOptions \<Rightarrow> streamOptionsPatch option \<Rightarrow> harnessStreamOptions" where
  "applyStreamOptionsPatch base patch = (case patch of None \<Rightarrow> base | Some p \<Rightarrow>
     \<lparr>hsTransport = patched (spTransport p) (hsTransport base), hsTimeoutMs = patched (spTimeoutMs p) (hsTimeoutMs base),
      hsMaxRetries = patched (spMaxRetries p) (hsMaxRetries base),
      hsMaxRetryDelayMs = patched (spMaxRetryDelayMs p) (hsMaxRetryDelayMs base),
      hsCacheRetention = patched (spCacheRetention p) (hsCacheRetention base),
      hsHeaders = patchedMap (spHeaders p) (hsHeaders base), hsMetadata = patchedMap (spMetadata p) (hsMetadata base)\<rparr>)"

definition joinSystemPrompt :: "string \<Rightarrow> string \<Rightarrow> string" where
  "joinSystemPrompt systemPrompt suffix =
    (if suffix = [] then systemPrompt else if systemPrompt = [] then suffix else systemPrompt @ nl @ nl @ suffix)"

subsection \<open>Awaiting the outside\<close>

definition onOutside :: "('w, 'a) hook \<Rightarrow> ('s, 'w, 'a) harnessM" where
  "onOutside f s = (case f (hnOutside s) of (r, w) \<Rightarrow> (r, s\<lparr>hnOutside := w\<rparr>))"

definition onClock :: "('w \<Rightarrow> 'a \<times> 'w) \<Rightarrow> ('s, 'w, 'a) harnessM" where
  "onClock f s = (case f (hnOutside s) of (a, w) \<Rightarrow> (Inr a, s\<lparr>hnOutside := w\<rparr>))"

text \<open>An operation of the session.\<close>

definition onSession :: "('s, storage_error, 'a) action \<Rightarrow> ('s, 'w, 'a) harnessM" where
  "onSession f s = (case f (hnSession s) of
     (Inl e, t) \<Rightarrow> (Inl (StorageFault e), s\<lparr>hnSession := t\<rparr>)
   | (Inr a, t) \<Rightarrow> (Inr a, s\<lparr>hnSession := t\<rparr>))"

definition readSession :: "('s \<Rightarrow> (storage_error + 'a) option) \<Rightarrow> ('s, 'w, 'a) harnessM" where
  "readSession f s = (case f (hnSession s) of
     None \<Rightarrow> (Inl Diverged, s)
   | Some (Inl e) \<Rightarrow> (Inl (StorageFault e), s)
   | Some (Inr a) \<Rightarrow> (Inr a, s))"

definition appendToSession :: "('s, 'w) harnessEnv \<Rightarrow> (string \<Rightarrow> ('s, storage_error, 'a) action) \<Rightarrow> ('s, 'w, 'a) harnessM" where
  "appendToSession env f = bindS (onClock (heIsoNow env)) (\<lambda>now. onSession (f now))"

text \<open>
  The body of the loop of \<open>flushPendingSessionWrites\<close>: a write without an id is stored as an entry.  The
  setters and \<open>appendMessage\<close> store theirs the same way while the harness is idle.
\<close>

definition writeEntry :: "('s, 'w) harnessEnv \<Rightarrow> entry_kind \<Rightarrow> ('s, 'w, unit) harnessM" where
  "writeEntry env k = (let ops = heOps env; append = (\<lambda>f. bindS (appendToSession env f) (\<lambda>_. retS ())) in case k of
     MessageEntry m \<Rightarrow> append (\<lambda>now. appendMessage ops now m)
   | ModelChangeEntry p m \<Rightarrow> append (\<lambda>now. appendModelChange ops now p m)
   | ThinkingLevelChangeEntry l \<Rightarrow> append (\<lambda>now. appendThinkingLevelChange ops now l)
   | CustomEntry t d \<Rightarrow> append (\<lambda>now. appendCustomEntry ops now t d)
   | CustomMessageEntry c \<Rightarrow> append (\<lambda>now. appendCustomMessageEntry ops now (cmeCustomType c) (cmeContent c) (cmeDisplay c) (cmeDetails c))
   | LabelEntry i l \<Rightarrow> append (\<lambda>now. appendLabel ops now i l)
   | SessionInfoEntry n \<Rightarrow> append (\<lambda>now. appendSessionName ops now (case n of None \<Rightarrow> [] | Some x \<Rightarrow> x))
   | LeafEntry t \<Rightarrow> appendToSession env (\<lambda>now. opSetLeafId ops now t)
   | CompactionEntry _ \<Rightarrow> retS ()
   | BranchSummaryEntry _ \<Rightarrow> retS ())"

definition writeNow :: "('s, 'w) harnessEnv \<Rightarrow> entry_kind \<Rightarrow> ('s, 'w, unit) harnessM" where
  "writeNow env k = bindS (writeEntry env k) (\<lambda>_. modifyS (\<lambda>s. s\<lparr>hnDirectWrites := hnDirectWrites s @ [k]\<rparr>))"

definition normalized :: "('s, 'w, 'a) harnessM \<Rightarrow> ('s, 'w, 'a) harnessM" where
  "normalized m = catchS m (\<lambda>e. throwS (normalizeHookError e))"

definition logEvent :: "harness_event \<Rightarrow> ('s, 'w) harness \<Rightarrow> ('s, 'w) harness" where
  "logEvent ev s = s\<lparr>hnEvents := hnEvents s @ [ev]\<rparr>"

text \<open>An event goes to the listeners in order; the first that throws ends it.\<close>

primrec tellListeners :: "(('w, unit) hook \<Rightarrow> ('s, 'w, unit) harnessM) \<Rightarrow> (harness_event \<Rightarrow> ('w, unit) hook) list
    \<Rightarrow> harness_event \<Rightarrow> ('s, 'w, unit) harnessM" where
  "tellListeners awaiting [] ev = retS ()"
| "tellListeners awaiting (l # ls) ev = bindS (normalized (awaiting (l ev))) (\<lambda>_. tellListeners awaiting ls ev)"

definition emitDuring :: "('s, 'w) harnessEnv \<Rightarrow> harness_event \<Rightarrow> ('s, 'w, unit) harnessM" where
  "emitDuring env ev = bindS (modifyS (logEvent ev)) (\<lambda>_. tellListeners onOutside (heListeners env) ev)"

subsection \<open>Operations of the client during a run\<close>

type_synonym ('s, 'w) emitter = "harness_event \<Rightarrow> ('s, 'w, unit) harnessM"

definition createUserMessage :: "('s, 'w) harnessEnv \<Rightarrow> string \<Rightarrow> content_part list \<Rightarrow> ('s, 'w, userMessage) harnessM" where
  "createUserMessage env text images = bindS (onClock (heNow env)) (\<lambda>now.
     retS \<lparr>umContent = ContentParts (TextContent text None # images), umTimestamp = Some now\<rparr>)"

definition emitQueueUpdate :: "('s, 'w) emitter \<Rightarrow> ('s, 'w, unit) harnessM" where
  "emitQueueUpdate tell = bindS getS (\<lambda>s. tell (QueueUpdate (hnSteerQueue s) (hnFollowUpQueue s) (hnNextTurnQueue s)))"

definition steer :: "('s, 'w) harnessEnv \<Rightarrow> ('s, 'w) emitter \<Rightarrow> string \<Rightarrow> content_part list \<Rightarrow> ('s, 'w, unit) harnessM" where
  "steer env tell text images = bindS getS (\<lambda>s.
     if hnPhase s = PhaseIdle then throwS (HarnessError InvalidStateCode ''Cannot steer while idle'')
     else bindS (createUserMessage env text images) (\<lambda>m.
       bindS (modifyS (\<lambda>s. s\<lparr>hnSteerQueue := hnSteerQueue s @ [m]\<rparr>)) (\<lambda>_. emitQueueUpdate tell)))"

definition followUp :: "('s, 'w) harnessEnv \<Rightarrow> ('s, 'w) emitter \<Rightarrow> string \<Rightarrow> content_part list \<Rightarrow> ('s, 'w) activation option
    \<Rightarrow> ('s, 'w) turnPreparation option \<Rightarrow> ('s, 'w, unit) harnessM" where
  "followUp env tell text images activate prepare = bindS getS (\<lambda>s.
     if hnPhase s = PhaseIdle then throwS (HarnessError InvalidStateCode ''Cannot follow up while idle'')
     else bindS (createUserMessage env text images) (\<lambda>m.
       bindS (modifyS (\<lambda>s. s\<lparr>hnFollowUpQueue := hnFollowUpQueue s @ [m],
           hnFollowUpPreparations := hnFollowUpPreparations s @ [prepare],
           hnFollowUpActivations := hnFollowUpActivations s @ [activate]\<rparr>)) (\<lambda>_. emitQueueUpdate tell)))"

definition nextTurn :: "('s, 'w) harnessEnv \<Rightarrow> ('s, 'w) emitter \<Rightarrow> string \<Rightarrow> content_part list \<Rightarrow> ('s, 'w, unit) harnessM" where
  "nextTurn env tell text images = bindS (createUserMessage env text images) (\<lambda>m.
     bindS (modifyS (\<lambda>s. s\<lparr>hnNextTurnQueue := hnNextTurnQueue s @ [UserMsg m]\<rparr>)) (\<lambda>_. emitQueueUpdate tell))"

definition queueWrite :: "entry_kind \<Rightarrow> ('s, 'w, unit) harnessM" where
  "queueWrite k = modifyS (\<lambda>s. s\<lparr>hnPendingSessionWrites := hnPendingSessionWrites s @ [k], hnWrites := hnWrites s @ [k]\<rparr>)"

definition asSessionError :: "('s, 'w, 'a) harnessM \<Rightarrow> ('s, 'w, 'a) harnessM" where
  "asSessionError m = catchS m (\<lambda>e. throwS (normalizeHarnessError e SessionCode))"

definition harnessAppendMessage :: "('s, 'w) harnessEnv \<Rightarrow> agent_message \<Rightarrow> ('s, 'w, unit) harnessM" where
  "harnessAppendMessage env message = asSessionError (bindS getS (\<lambda>s.
     if hnPhase s = PhaseIdle then writeNow env (MessageEntry message) else queueWrite (MessageEntry message)))"

definition harnessAppendCustomEntry :: "('s, 'w) harnessEnv \<Rightarrow> string \<Rightarrow> json option \<Rightarrow> ('s, 'w, unit) harnessM" where
  "harnessAppendCustomEntry env customType data = asSessionError (writeNow env (CustomEntry customType data))"

definition setModel :: "('s, 'w) harnessEnv \<Rightarrow> ('s, 'w) emitter \<Rightarrow> loopModel \<Rightarrow> ('s, 'w, unit) harnessM" where
  "setModel env tell model = asSessionError (bindS getS (\<lambda>s.
     bindS ((if hnPhase s = PhaseIdle then writeNow env else queueWrite) (ModelChangeEntry (lmProvider model) (lmId model))) (\<lambda>_.
     bindS (modifyS (\<lambda>s. s\<lparr>hnModel := model\<rparr>)) (\<lambda>_. tell (ModelSelect model (hnModel s))))))"

definition setThinkingLevel :: "('s, 'w) harnessEnv \<Rightarrow> ('s, 'w) emitter \<Rightarrow> string \<Rightarrow> ('s, 'w, unit) harnessM" where
  "setThinkingLevel env tell level = asSessionError (bindS getS (\<lambda>s.
     bindS ((if hnPhase s = PhaseIdle then writeNow env else queueWrite) (ThinkingLevelChangeEntry level)) (\<lambda>_.
     bindS (modifyS (\<lambda>s. s\<lparr>hnThinkingLevel := level\<rparr>)) (\<lambda>_. tell (ThinkingLevelSelect level (hnThinkingLevel s))))))"

definition toolNamed :: "'w agentTool list \<Rightarrow> string \<Rightarrow> 'w agentTool option" where
  "toolNamed tools name = find (\<lambda>t. atName t = name) tools"

text \<open>A \<open>Map\<close> keyed by name: a later tool of the same name takes the place of the earlier.\<close>

definition toolMap :: "'w agentTool list \<Rightarrow> 'w agentTool list" where
  "toolMap tools = map snd (fold (\<lambda>t. alistSet (atName t) t) tools [])"

definition validateToolNames :: "string list \<Rightarrow> 'w agentTool list \<Rightarrow> ('s, 'w, unit) harnessM" where
  "validateToolNames names tools = (let missing = filter (\<lambda>n. toolNamed tools n = None) names in
     if missing \<noteq> [] then throwS (HarnessError InvalidArgumentCode (''Unknown tool(s): '' @ joinWith '', '' missing)) else retS ())"

definition setActiveTools :: "string list \<Rightarrow> ('s, 'w, unit) harnessM" where
  "setActiveTools names = bindS getS (\<lambda>s. bindS (validateToolNames names (hnTools s)) (\<lambda>_.
     modifyS (\<lambda>s. s\<lparr>hnActiveToolNames := names\<rparr>)))"

definition setTools :: "'w agentTool list \<Rightarrow> string list option \<Rightarrow> ('s, 'w, unit) harnessM" where
  "setTools tools activeNames = bindS getS (\<lambda>s.
     let nextTools = toolMap tools; nextNames = (case activeNames of None \<Rightarrow> hnActiveToolNames s | Some ns \<Rightarrow> ns)
     in bindS (validateToolNames nextNames nextTools) (\<lambda>_.
        modifyS (\<lambda>s. s\<lparr>hnTools := nextTools, hnActiveToolNames := nextNames\<rparr>)))"

definition activeTools :: "('s, 'w) harness \<Rightarrow> 'w agentTool list" where
  "activeTools s = List.map_filter (toolNamed (hnTools s)) (hnActiveToolNames s)"

text \<open>What \<open>abort\<close> does before it waits for the run to end; the cleared messages.\<close>

definition clearQueues :: "('s, 'w) harness \<Rightarrow> ('s, 'w) harness" where
  "clearQueues s = s\<lparr>hnSteerQueue := [], hnSteerArray := Suc (hnSteerArray s), hnFollowUpQueue := [],
     hnFollowUpPreparations := [], hnFollowUpActivations := [],
     hnInFlightDrain := map_option (\<lambda>d. d\<lparr>drCancelled := True\<rparr>) (hnInFlightDrain s),
     hnAbortControllers := (case hnRunAbortController s of None \<Rightarrow> hnAbortControllers s
       | Some c \<Rightarrow> (hnAbortControllers s)[c := True])\<rparr>"

definition clearedFollowUps :: "('s, 'w) harness \<Rightarrow> userMessage list" where
  "clearedFollowUps s = hnFollowUpQueue s @ (case hnInFlightDrain s of
     None \<Rightarrow> [] | Some d \<Rightarrow> if drCancelled d then [] else drMessages d)"

definition startAbort :: "('s, 'w) emitter \<Rightarrow> ('s, 'w, (userMessage list \<times> userMessage list) \<times> harness_fault option) harnessM" where
  "startAbort tell = bindS getS (\<lambda>s. bindS (modifyS clearQueues) (\<lambda>_. bindS (attemptS (emitQueueUpdate tell)) (\<lambda>e.
     retS ((hnSteerQueue s, clearedFollowUps s), e))))"

definition perform :: "('s, 'w) harnessEnv \<Rightarrow> ('s, 'w) emitter \<Rightarrow> ('s, 'w) request \<Rightarrow> ('s, 'w, unit) harnessM" where
  "perform env tell q = (case q of
     Steer text images \<Rightarrow> steer env tell text images
   | FollowUp text images activate prepare \<Rightarrow> followUp env tell text images activate prepare
   | NextTurn text images \<Rightarrow> nextTurn env tell text images
   | AppendMessage m \<Rightarrow> harnessAppendMessage env m
   | AppendCustom t d \<Rightarrow> harnessAppendCustomEntry env t d
   | SetModel m \<Rightarrow> setModel env tell m
   | SetThinkingLevel l \<Rightarrow> setThinkingLevel env tell l
   | SetActiveTools ns \<Rightarrow> setActiveTools ns
   | SetTools ts ns \<Rightarrow> setTools ts ns
   | SetSteeringMode m \<Rightarrow> modifyS (\<lambda>s. s\<lparr>hnSteeringQueueMode := m\<rparr>)
   | SetFollowUpMode m \<Rightarrow> modifyS (\<lambda>s. s\<lparr>hnFollowUpQueueMode := m\<rparr>)
   | SetStreamOptions opts \<Rightarrow> modifyS (\<lambda>s. s\<lparr>hnStreamOptions := opts\<rparr>)
   | Abort \<Rightarrow> bindS (startAbort tell) (\<lambda>(cleared, _).
       modifyS (\<lambda>s. s\<lparr>hnAbortWaiters := hnAbortWaiters s @ [cleared]\<rparr>)))"

definition interleave :: "('s, 'w) harnessEnv \<Rightarrow> ('s, 'w) harness \<Rightarrow> ('s, 'w) harness" where
  "interleave env s = (case heRequests env (hnOutside s) of (qs, w) \<Rightarrow>
     fold (\<lambda>q s. snd (perform env (emitDuring env) q s)) qs (s\<lparr>hnOutside := w\<rparr>))"

definition markDiverged :: "harness_fault + 'a \<Rightarrow> ('s, 'w) harness \<Rightarrow> ('s, 'w) harness" where
  "markDiverged r s = (case r of Inl Diverged \<Rightarrow> s\<lparr>hnDiverged := True\<rparr> | _ \<Rightarrow> s)"

definition await :: "('s, 'w) harnessEnv \<Rightarrow> ('w, 'a) hook \<Rightarrow> ('s, 'w, 'a) harnessM" where
  "await env f s = (case onOutside f s of (r, s') \<Rightarrow> (r, interleave env (markDiverged r s')))"

definition awaitSession :: "('s, 'w) harnessEnv \<Rightarrow> ('s, 'w, 'a) sessionHook \<Rightarrow> ('s, 'w, 'a) harnessM" where
  "awaitSession env f s = (case f (hnSession s) (hnOutside s) of (r, t, w) \<Rightarrow>
     (r, interleave env (markDiverged r (s\<lparr>hnSession := t, hnOutside := w\<rparr>))))"

definition emitOwn :: "('s, 'w) harnessEnv \<Rightarrow> harness_event \<Rightarrow> ('s, 'w, unit) harnessM" where
  "emitOwn env ev = bindS (modifyS (logEvent ev)) (\<lambda>_. tellListeners (await env) (heListeners env) ev)"

text \<open>The handlers of one kind of event: the last result that is not \<open>undefined\<close>.\<close>

primrec runHandlers :: "('s, 'w) harnessEnv \<Rightarrow> ('e \<Rightarrow> ('w, 'r option) hook) list \<Rightarrow> 'e \<Rightarrow> 'r option
    \<Rightarrow> ('s, 'w, 'r option) harnessM" where
  "runHandlers env [] ev lastResult = retS lastResult"
| "runHandlers env (h # hs) ev lastResult = bindS (normalized (await env (h ev))) (\<lambda>r.
     runHandlers env hs ev (case r of None \<Rightarrow> lastResult | Some _ \<Rightarrow> r))"

definition emitHook :: "('s, 'w) harnessEnv \<Rightarrow> ('e \<Rightarrow> ('w, 'r option) hook) list \<Rightarrow> 'e \<Rightarrow> ('s, 'w, 'r option) harnessM" where
  "emitHook env handlers ev = runHandlers env handlers ev None"

primrec patchStreamOptions :: "('s, 'w) harnessEnv \<Rightarrow> (loopModel \<times> harnessStreamOptions \<Rightarrow> ('w, streamOptionsPatch option) hook) list
    \<Rightarrow> loopModel \<Rightarrow> harnessStreamOptions \<Rightarrow> ('s, 'w, harnessStreamOptions) harnessM" where
  "patchStreamOptions env [] model current = retS current"
| "patchStreamOptions env (h # hs) model current = bindS (normalized (await env (h (model, current)))) (\<lambda>p.
     patchStreamOptions env hs model (applyStreamOptionsPatch current p))"

definition emitBeforeProviderRequest :: "('s, 'w) harnessEnv \<Rightarrow> loopModel \<Rightarrow> harnessStreamOptions
    \<Rightarrow> ('s, 'w, harnessStreamOptions) harnessM" where
  "emitBeforeProviderRequest env model options = patchStreamOptions env (heBeforeProviderRequest env) model options"

end
