(* ===== verification/HarnessRuns.thy ===== *)
theory HarnessRuns
  imports AgentHarness
begin

section \<open>The agent harness: user turns, queues and runs\<close>

text \<open>
  \<open>packages/agent/harness/agent-harness.ts\<close>, continued: the boundary events of user turns, the state of
  a turn, the queues a run drains, the pending session writes and the handler of the agent loop's events.
\<close>

subsection \<open>User turns\<close>

definition given :: "string option \<Rightarrow> bool" where
  "given x \<longleftrightarrow> x \<noteq> None \<and> x \<noteq> Some []"

definition isAborted :: "nat \<Rightarrow> ('s, 'w) harness \<Rightarrow> bool" where
  "isAborted c s \<longleftrightarrow> hnAbortControllers s ! c"

definition setBoundary :: "nat \<Rightarrow> (userTurnBoundary \<Rightarrow> userTurnBoundary) \<Rightarrow> ('s, 'w) harness \<Rightarrow> ('s, 'w) harness" where
  "setBoundary i f s = s\<lparr>hnBoundaries := (hnBoundaries s)[i := f (hnBoundaries s ! i)]\<rparr>"

definition throwUserTurnFinalizationError :: "nat \<Rightarrow> ('s, 'w, unit) harnessM" where
  "throwUserTurnFinalizationError i = bindS getS (\<lambda>s. case btFinalizationError (hnBoundaries s ! i) of
     None \<Rightarrow> retS () | Some e \<Rightarrow> throwS e)"

definition failUserTurnFinalization :: "nat \<Rightarrow> harness_fault \<Rightarrow> ('s, 'w, 'a) harnessM" where
  "failUserTurnFinalization i e = bindS (modifyS (\<lambda>s. (setBoundary i (\<lambda>b. b\<lparr>btFinalizationError := Some e\<rparr>) s)
     \<lparr>hnFinalizationPending := True\<rparr>)) (\<lambda>_. throwS e)"

definition settleCommitted :: "nat \<Rightarrow> ('s, 'w) harness \<Rightarrow> ('s, 'w) harness" where
  "settleCommitted i s = (setBoundary i (\<lambda>b. b\<lparr>btCommitted := True\<rparr>) s)\<lparr>hnFinalizationPending := False\<rparr>"

definition emitUserTurnCommitted :: "('s, 'w) harnessEnv \<Rightarrow> nat \<Rightarrow> ('s, 'w, unit) harnessM" where
  "emitUserTurnCommitted env i = bindS getS (\<lambda>s. let b = hnBoundaries s ! i in
     if btCommitted b then retS ()
     else bindS (throwUserTurnFinalizationError i) (\<lambda>_.
       if \<not> given (btUserEntryId b)
       then throwS (HarnessError InvalidStateCode ''Cannot commit a user turn without a durable entry'')
       else if btCommittedDispatched b
       then throwS (HarnessError InvalidStateCode ''User turn committed event did not settle'')
       else bindS (modifyS (setBoundary i (\<lambda>b. b\<lparr>btCommittedDispatched := True\<rparr>))) (\<lambda>_.
         catchS (bindS (emitOwn env (UserTurnCommitted (btToken b) (the (btUserEntryId b)))) (\<lambda>_. modifyS (settleCommitted i)))
           (failUserTurnFinalization i))))"

definition settleTerminal :: "nat \<Rightarrow> ('s, 'w) harness \<Rightarrow> ('s, 'w) harness" where
  "settleTerminal i s = (let s' = (setBoundary i (\<lambda>b. b\<lparr>btTerminal := True\<rparr>) s)\<lparr>hnFinalizationPending := False\<rparr>
     in if hnActiveUserTurn s' = Some i then s'\<lparr>hnActiveUserTurn := None, hnFailureReason := None\<rparr> else s')"

definition terminalizeUserTurn :: "('s, 'w) harnessEnv \<Rightarrow> nat \<Rightarrow> terminal_reason \<Rightarrow> ('s, 'w, unit) harnessM" where
  "terminalizeUserTurn env i reason = bindS getS (\<lambda>s. let b = hnBoundaries s ! i in
     if btTerminal b then retS ()
     else bindS (throwUserTurnFinalizationError i) (\<lambda>_.
       bindS (if given (btUserEntryId b) \<and> \<not> btCommitted b then emitUserTurnCommitted env i else retS ()) (\<lambda>_.
       bindS (throwUserTurnFinalizationError i) (\<lambda>_.
       bindS getS (\<lambda>s'.
         if btTerminalDispatched (hnBoundaries s' ! i)
         then throwS (HarnessError InvalidStateCode ''User turn terminal event did not settle'')
         else bindS (modifyS (setBoundary i (\<lambda>b. b\<lparr>btTerminalDispatched := True\<rparr>))) (\<lambda>_.
           catchS (bindS (emitOwn env (UserTurnTerminal (btToken b) reason)) (\<lambda>_. modifyS (settleTerminal i)))
             (failUserTurnFinalization i)))))))"

definition terminalizeActiveUserTurn :: "('s, 'w) harnessEnv \<Rightarrow> terminal_reason \<Rightarrow> ('s, 'w, unit) harnessM" where
  "terminalizeActiveUserTurn env reason = bindS getS (\<lambda>s. case hnActiveUserTurn s of
     None \<Rightarrow> retS ()
   | Some i \<Rightarrow> terminalizeUserTurn env i (if given (btUserEntryId (hnBoundaries s ! i)) then reason else PreparationFailed))"

text \<open>A new boundary of the message, active from here on.\<close>

definition openBoundary :: "userMessage \<Rightarrow> ('s, 'w) harness \<Rightarrow> ('s, 'w) harness" where
  "openBoundary m s = s\<lparr>hnUserTurnCounter := Suc (hnUserTurnCounter s),
     hnBoundaries := hnBoundaries s @ [\<lparr>btToken = ''boundary-'' @ natToString (Suc (hnUserTurnCounter s)), btMessage = m,
       btUserEntryId = None, btCommittedDispatched = False, btTerminalDispatched = False, btFinalizationError = None,
       btCommitted = False, btTerminal = False\<rparr>],
     hnBoundaryOf := (hnBoundaryOf s)(m \<mapsto> length (hnBoundaries s)),
     hnActiveUserTurn := Some (length (hnBoundaries s)), hnFailureReason := None\<rparr>"

definition startUserTurn :: "('s, 'w) harnessEnv \<Rightarrow> userMessage \<Rightarrow> ('s, 'w, nat) harnessM" where
  "startUserTurn env m = bindS getS (\<lambda>s. let i = length (hnBoundaries s) in
     bindS (modifyS (openBoundary m)) (\<lambda>_. bindS getS (\<lambda>s'.
     catchS (bindS (emitOwn env (BeforeUserTurn (btToken (hnBoundaries s' ! i)) m)) (\<lambda>_. retS i))
       (\<lambda>e. bindS (attemptS (terminalizeUserTurn env i PreparationFailed)) (\<lambda>terminalError. case terminalError of
          Some _ \<Rightarrow> throwS (AggregateFault ''User turn preparation hooks failed'')
        | None \<Rightarrow> throwS e)))))"

definition beginUserTurn :: "('s, 'w) harnessEnv \<Rightarrow> userMessage \<Rightarrow> ('s, 'w, nat) harnessM" where
  "beginUserTurn env m = bindS getS (\<lambda>s.
     let existing = (case hnBoundaryOf s m of None \<Rightarrow> None | Some i \<Rightarrow> if btTerminal (hnBoundaries s ! i) then None else Some i)
     in case existing of
       Some i \<Rightarrow> retS i
     | None \<Rightarrow> bindS (case hnActiveUserTurn s of
           None \<Rightarrow> retS ()
         | Some i \<Rightarrow> if btTerminal (hnBoundaries s ! i) then retS () else terminalizeUserTurn env i Superseded)
         (\<lambda>_. startUserTurn env m))"

definition commitUserTurn :: "('s, 'w) harnessEnv \<Rightarrow> userMessage \<Rightarrow> string \<Rightarrow> ('s, 'w, unit) harnessM" where
  "commitUserTurn env m userEntryId = bindS getS (\<lambda>s.
     bindS (case hnBoundaryOf s m of Some i \<Rightarrow> retS i | None \<Rightarrow> beginUserTurn env m) (\<lambda>i.
     bindS getS (\<lambda>s'. let b = hnBoundaries s' ! i in
       if given (btUserEntryId b) \<and> btUserEntryId b \<noteq> Some userEntryId
       then throwS (HarnessError InvalidStateCode ''User turn committed with a different durable entry'')
       else bindS (modifyS (setBoundary i (\<lambda>b. b\<lparr>btUserEntryId := Some userEntryId\<rparr>))) (\<lambda>_.
         if btCommitted b then retS () else emitUserTurnCommitted env i))))"

definition failUserTurnPreparation :: "('s, 'w) harnessEnv \<Rightarrow> userMessage \<Rightarrow> nat \<Rightarrow> ('s, 'w, unit) harnessM" where
  "failUserTurnPreparation env m c = bindS getS (\<lambda>s. case hnBoundaryOf s m of
     None \<Rightarrow> retS ()
   | Some i \<Rightarrow> if btTerminal (hnBoundaries s ! i) then retS ()
       else terminalizeUserTurn env i (if given (btUserEntryId (hnBoundaries s ! i))
         then (if isAborted c s then RunAborted else ProviderFailed) else PreparationFailed))"

definition releaseTurnPhaseAfterFailure :: "('s, 'w, unit) harnessM" where
  "releaseTurnPhaseAfterFailure = modifyS (\<lambda>s. if hnFinalizationPending s then s else s\<lparr>hnPhase := PhaseIdle\<rparr>)"

subsection \<open>The state of a turn\<close>

definition prepareUserMessage :: "('s, 'w) harnessEnv \<Rightarrow> 'w turnState \<Rightarrow> agent_message list \<Rightarrow> userMessage
    \<Rightarrow> ('s, 'w) turnPreparation \<Rightarrow> ('s, 'w, preparedTurn) harnessM" where
  "prepareUserMessage env ts messages m prepare = awaitSession env (prepare
     \<lparr>piUserMessage = m, piSystemPrompt = tsSystemPrompt ts, piSystemPromptMetadata = tsSystemPromptMetadata ts,
      piMessages = messages, piModel = tsModel ts, piActiveTools = tsActiveTools ts\<rparr>)"

definition isUserMsg :: "agent_message \<Rightarrow> bool" where
  "isUserMsg m = (case m of UserMsg _ \<Rightarrow> True | _ \<Rightarrow> False)"

definition dropTrailingUser :: "sessionContext \<Rightarrow> sessionContext" where
  "dropTrailingUser c = (if scMessages c \<noteq> [] \<and> isUserMsg (last (scMessages c))
     then c\<lparr>scMessages := butlast (scMessages c), scMessageEntryIds := butlast (scMessageEntryIds c)\<rparr> else c)"

definition systemPromptOf :: "('s, 'w) harnessEnv \<Rightarrow> 'w agentTool list \<Rightarrow> ('s, 'w, string \<times> json option) harnessM" where
  "systemPromptOf env tools = (case heSystemPrompt env of
     DefaultPrompt \<Rightarrow> retS (''You are a helpful assistant.'', None)
   | FixedPrompt t \<Rightarrow> retS (t, None)
   | ComputedPrompt f \<Rightarrow> bindS getS (\<lambda>s. await env (f (hnSession s) (hnModel s) (hnThinkingLevel s) tools)))"

definition createTurnState :: "('s, 'w) harnessEnv \<Rightarrow> ('s, 'w, 'w turnState) harnessM" where
  "createTurnState env =
    bindS (readSession (getBranch (heOps env) None)) (\<lambda>entries.
    let built = buildSessionContext (heSha env) entries in
    bindS (case heTransformSessionContext env of None \<Rightarrow> retS built | Some f \<Rightarrow> await env (f entries built)) (\<lambda>transformed.
    let context = dropTrailingUser transformed in
    bindS (onSession (opGetLeafId (heOps env))) (\<lambda>leafId.
    bindS getS (\<lambda>s. let tools = hnTools s; active = activeTools s in
    bindS (systemPromptOf env active) (\<lambda>(prompt, metadata).
    bindS getS (\<lambda>s'.
    retS \<lparr>tsEntries = entries, tsMessages = scMessages context, tsMessageEntryIds = scMessageEntryIds context,
      tsLeafId = leafId, tsStreamOptions = hnStreamOptions s', tsSessionId = heSessionId env, tsSystemPrompt = prompt,
      tsSystemPromptMetadata = metadata, tsModel = hnModel s', tsThinkingLevel = hnThinkingLevel s', tsTools = tools,
      tsActiveTools = active\<rparr>))))))"

definition liftTool :: "('s, 'w) harnessEnv \<Rightarrow> 'w agentTool \<Rightarrow> ('s, 'w) harness agentTool" where
  "liftTool env t = \<lparr>atName = atName t, atSchema = atSchema t, atPrepareArguments = atPrepareArguments t,
     atExecute = (\<lambda>i args s. case atExecute t i args (hnOutside s) of (r, w) \<Rightarrow> (r, interleave env (s\<lparr>hnOutside := w\<rparr>))),
     atExecutionMode = atExecutionMode t\<rparr>"

definition createContext :: "('s, 'w) harnessEnv \<Rightarrow> 'w turnState \<Rightarrow> string \<Rightarrow> ('s, 'w) harness agentContext" where
  "createContext env ts systemPrompt = \<lparr>acSystemPrompt = systemPrompt, acMessages = tsMessages ts,
     acTools = Some (map (liftTool env) (tsActiveTools ts))\<rparr>"

subsection \<open>Queues\<close>

definition prependFollowUps :: "userMessage list \<Rightarrow> ('s, 'w) turnPreparation option list \<Rightarrow> ('s, 'w) activation option list
    \<Rightarrow> ('s, 'w) harness \<Rightarrow> ('s, 'w) harness" where
  "prependFollowUps ms ps as s = s\<lparr>hnFollowUpQueue := ms @ hnFollowUpQueue s,
     hnFollowUpPreparations := ps @ hnFollowUpPreparations s, hnFollowUpActivations := as @ hnFollowUpActivations s\<rparr>"

text \<open>
  The handlers that give drained follow-ups back: unless \<open>abort\<close> cancelled the drain, they return to
  the front of the queue.
\<close>

definition giveBack :: "('s, 'w) followUpDrain \<Rightarrow> ('s, 'w) harness \<Rightarrow> ('s, 'w) harness" where
  "giveBack d s = (if (case hnInFlightDrain s of None \<Rightarrow> False | Some d' \<Rightarrow> drCancelled d') then s
     else prependFollowUps (drMessages d) (drPreparations d) (drActivations d) s)"

definition drainCount :: "('s, 'w) harness \<Rightarrow> nat" where
  "drainCount s = (let requiresPerSendActivation = list_ex (\<lambda>p. \<not> Option.is_none p) (hnFollowUpPreparations s)
         \<or> list_ex (\<lambda>a. \<not> Option.is_none a) (hnFollowUpActivations s)
     in if hnFollowUpQueueMode s = QueueAll \<and> \<not> requiresPerSendActivation then length (hnFollowUpQueue s)
        else min 1 (length (hnFollowUpQueue s)))"

definition newDrain :: "('s, 'w) harness \<Rightarrow> ('s, 'w) followUpDrain" where
  "newDrain s = \<lparr>drMessages = take (drainCount s) (hnFollowUpQueue s),
     drPreparations = take (drainCount s) (hnFollowUpPreparations s),
     drActivations = take (drainCount s) (hnFollowUpActivations s), drCancelled = False\<rparr>"

definition startDrain :: "('s, 'w) harness \<Rightarrow> ('s, 'w) harness" where
  "startDrain s = s\<lparr>hnFollowUpQueue := drop (drainCount s) (hnFollowUpQueue s),
     hnFollowUpPreparations := drop (drainCount s) (hnFollowUpPreparations s),
     hnFollowUpActivations := drop (drainCount s) (hnFollowUpActivations s), hnInFlightDrain := Some (newDrain s)\<rparr>"

definition drainFollowUpMessages :: "('s, 'w) harnessEnv \<Rightarrow> ('s, 'w, agent_message list) harnessM" where
  "drainFollowUpMessages env = bindS getS (\<lambda>s. let drain = newDrain s in
     if drMessages drain = [] then retS []
     else bindS (modifyS startDrain) (\<lambda>_.
       catchS (bindS (emitQueueUpdate (emitOwn env)) (\<lambda>_. retS (map UserMsg (drMessages drain))))
         (\<lambda>e. bindS (modifyS (\<lambda>s. (giveBack drain s)\<lparr>hnInFlightDrain := None\<rparr>)) (\<lambda>_.
           bindS (attemptS (emitQueueUpdate (emitOwn env))) (\<lambda>_. throwS (normalizeHookError e))))))"

definition drainSteering :: "('s, 'w) harnessEnv \<Rightarrow> ('s, 'w, agent_message list) harnessM" where
  "drainSteering env = bindS getS (\<lambda>s.
     let count = (if hnSteeringQueueMode s = QueueAll then length (hnSteerQueue s) else 1);
         messages = take count (hnSteerQueue s); array = hnSteerArray s
     in if messages = [] then retS []
        else bindS (modifyS (\<lambda>s. s\<lparr>hnSteerQueue := drop count (hnSteerQueue s)\<rparr>)) (\<lambda>_.
          catchS (bindS (emitQueueUpdate (emitOwn env)) (\<lambda>_. retS (map UserMsg messages)))
            (\<lambda>e. bindS (modifyS (\<lambda>s. if hnSteerArray s = array then s\<lparr>hnSteerQueue := messages @ hnSteerQueue s\<rparr> else s)) (\<lambda>_.
              throwS (normalizeHookError e)))))"

definition takeNextTurn :: "('s, 'w) harnessEnv \<Rightarrow> ('s, 'w, agent_message list) harnessM" where
  "takeNextTurn env = bindS getS (\<lambda>s. let queued = hnNextTurnQueue s in
     if queued = [] then retS []
     else bindS (modifyS (\<lambda>s. s\<lparr>hnNextTurnQueue := []\<rparr>)) (\<lambda>_.
       catchS (bindS (emitQueueUpdate (emitOwn env)) (\<lambda>_. retS queued))
         (\<lambda>e. bindS (modifyS (\<lambda>s. s\<lparr>hnNextTurnQueue := queued @ hnNextTurnQueue s\<rparr>)) (\<lambda>_.
           throwS (normalizeHookError e)))))"

subsection \<open>Pending session writes\<close>

text \<open>The loop makes one round for each write that is pending when it starts.\<close>

primrec flushWrites :: "('s, 'w) harnessEnv \<Rightarrow> nat \<Rightarrow> ('s, 'w, unit) harnessM" where
  "flushWrites env 0 = retS ()"
| "flushWrites env (Suc n) = bindS getS (\<lambda>s. case hnPendingSessionWrites s of
     [] \<Rightarrow> retS ()
   | k # _ \<Rightarrow> bindS (writeEntry env k) (\<lambda>_. bindS (modifyS (\<lambda>s. s\<lparr>hnPendingSessionWrites := tl (hnPendingSessionWrites s)\<rparr>))
       (\<lambda>_. flushWrites env n)))"

definition flushPendingSessionWrites :: "('s, 'w) harnessEnv \<Rightarrow> ('s, 'w, unit) harnessM" where
  "flushPendingSessionWrites env = bindS getS (\<lambda>s. flushWrites env (length (hnPendingSessionWrites s)))"

subsection \<open>Events of the agent loop\<close>

text \<open>The entry id a preparation stored the next user message under.\<close>

definition takePreparedEntryId :: "agent_message \<Rightarrow> ('s, 'w, string option) harnessM" where
  "takePreparedEntryId m = bindS getS (\<lambda>s. case (m, hnPreparedUserEntryIds s) of
     (UserMsg _, i # is) \<Rightarrow> bindS (modifyS (\<lambda>s. s\<lparr>hnPreparedUserEntryIds := is\<rparr>)) (\<lambda>_. retS (if given i then i else None))
   | _ \<Rightarrow> retS None)"

definition noteStored :: "('s, 'w) harnessEnv \<Rightarrow> agent_message \<Rightarrow> string \<Rightarrow> ('s, 'w, unit) harnessM" where
  "noteStored env m i = (case m of
     UserMsg u \<Rightarrow> commitUserTurn env u i
   | AssistantMsg a \<Rightarrow> modifyS (\<lambda>s. if amStopReason a = StopAborted then s\<lparr>hnFailureReason := Some RunAborted\<rparr>
       else if amStopReason a = StopError then s\<lparr>hnFailureReason := Some ProviderFailed\<rparr> else s)
   | _ \<Rightarrow> retS ())"

definition handleAgentEvent :: "('s, 'w) harnessEnv \<Rightarrow> agent_event \<Rightarrow> ('s, 'w, unit) harnessM" where
  "handleAgentEvent env ev = (case ev of
     MessageEnd m \<Rightarrow> bindS (takePreparedEntryId m) (\<lambda>prepared. case prepared of
         Some i \<Rightarrow> emitOwn env (LoopEvent ev (Some i))
       | None \<Rightarrow> bindS (appendToSession env (\<lambda>now. appendMessage (heOps env) now m)) (\<lambda>i.
           bindS (noteStored env m i) (\<lambda>_. emitOwn env (LoopEvent ev (Some i)))))
   | TurnEnd a ts \<Rightarrow> bindS (attemptS (emitOwn env (LoopEvent ev None))) (\<lambda>eventError. bindS getS (\<lambda>s.
       let hadPendingMutations = hnPendingSessionWrites s \<noteq> [] in
       bindS (flushPendingSessionWrites env) (\<lambda>_. case eventError of
         Some e \<Rightarrow> throwS e
       | None \<Rightarrow> emitOwn env (SavePoint hadPendingMutations))))
   | AgentEnd ms \<Rightarrow> bindS (flushPendingSessionWrites env) (\<lambda>_. bindS getS (\<lambda>s.
       bindS (terminalizeActiveUserTurn env (case hnFailureReason s of None \<Rightarrow> AgentEnded | Some r \<Rightarrow> r)) (\<lambda>_.
       bindS (modifyS (\<lambda>s. s\<lparr>hnFinalizationPending := True\<rparr>)) (\<lambda>_.
       bindS (emitOwn env (LoopEvent ev None)) (\<lambda>_. bindS getS (\<lambda>s'.
       bindS (emitOwn env (RunSettled (length (hnNextTurnQueue s')))) (\<lambda>_.
       modifyS (\<lambda>s. s\<lparr>hnFinalizationPending := False, hnPhase := PhaseIdle\<rparr>))))))))
   | _ \<Rightarrow> emitOwn env (LoopEvent ev None))"

definition modelApi :: "loopModel \<Rightarrow> string" where
  "modelApi m = (case jsonField (lmSpec m) ''api'' of Some (JStr a) \<Rightarrow> a | _ \<Rightarrow> [])"

definition createFailureMessage :: "('s, 'w) harnessEnv \<Rightarrow> loopModel \<Rightarrow> harness_fault \<Rightarrow> bool \<Rightarrow> ('s, 'w, assistantMessage) harnessM" where
  "createFailureMessage env model e stopped = bindS (onClock (heNow env)) (\<lambda>now. retS
     \<lparr>amContent = [TextBlock [] None], amApi = modelApi model, amProvider = lmProvider model, amModel = lmId model,
      amResponseModel = None, amResponseId = None, amDiagnostics = None,
      amUsage = Some \<lparr>uInput = 0, uOutput = 0, uCacheRead = 0, uCacheWrite = 0, uTotalTokens = 0,
        uCost = JObj (map (\<lambda>k. (k, JNum 0)) [''input'', ''output'', ''cacheRead'', ''cacheWrite'', ''total''])\<rparr>,
      amStopReason = (if stopped then StopAborted else StopError), amErrorMessage = Some (faultMessage e), amTimestamp = Some now\<rparr>)"

definition emitRunFailure :: "('s, 'w) harnessEnv \<Rightarrow> loopModel \<Rightarrow> harness_fault \<Rightarrow> bool \<Rightarrow> ('s, 'w, agent_message list) harnessM" where
  "emitRunFailure env model e stopped = bindS (createFailureMessage env model e stopped) (\<lambda>failure.
     let m = AssistantMsg failure in
     bindS (handleAgentEvent env (MessageStart m)) (\<lambda>_. bindS (handleAgentEvent env (MessageEnd m)) (\<lambda>_.
     bindS (handleAgentEvent env (TurnEnd failure [])) (\<lambda>_. bindS (handleAgentEvent env (AgentEnd [m])) (\<lambda>_. retS [m])))))"

end
