(* ===== verification/HarnessPrompts.thy ===== *)
theory HarnessPrompts
  imports HarnessRuns
begin

section \<open>The agent harness: runs and public operations\<close>

text \<open>
  \<open>packages/agent/harness/agent-harness.ts\<close>, concluded: the callbacks given to the agent loop,
  \<open>executeTurn\<close>, and the operations that start a run or change the session tree.

  A run is the model of \<open>AgentLoop\<close> with the harness as its world.  A callback reports an error to the
  loop by its message (\<open>asOutside\<close>), which is all the code reads of it.
\<close>

subsection \<open>Callbacks of a run\<close>

definition asOutside :: "('s, 'w, 'a) harnessM \<Rightarrow> (('s, 'w) harness, 'a) outside" where
  "asOutside m s = (case m s of
     (Inr a, s') \<Rightarrow> (Inr a, s')
   | (Inl e, s') \<Rightarrow> (Inl (faultMessage e), if e = Diverged then s'\<lparr>hnDiverged := True\<rparr> else s'))"

definition setTurnState :: "'w turnState \<Rightarrow> ('s, 'w, unit) harnessM" where
  "setTurnState ts = modifyS (\<lambda>s. s\<lparr>hnTurnState := Some ts\<rparr>)"

definition setSuffix :: "string \<Rightarrow> ('s, 'w, unit) harnessM" where
  "setSuffix suffix = modifyS (\<lambda>s. s\<lparr>hnSystemPromptSuffix := suffix\<rparr>)"

text \<open>The update for the next turn, with the present suffix of the system prompt.\<close>

definition turnUpdateOf :: "('s, 'w) harnessEnv \<Rightarrow> 'w turnState \<Rightarrow> ('s, 'w, ('s, 'w) harness turnUpdate option) harnessM" where
  "turnUpdateOf env ts = bindS getS (\<lambda>s. retS (Some
     \<lparr>tuContext = Some (createContext env ts (joinSystemPrompt (tsSystemPrompt ts) (hnSystemPromptSuffix s))),
      tuModel = Some (tsModel ts), tuThinkingLevel = Some (tsThinkingLevel ts)\<rparr>))"

definition prepareTurn :: "('s, 'w) harnessEnv \<Rightarrow> bool \<Rightarrow> ('s, 'w, ('s, 'w) harness turnUpdate option) harnessM" where
  "prepareTurn env keepSuffix = bindS (if keepSuffix then retS () else setSuffix []) (\<lambda>_.
     bindS (flushPendingSessionWrites env) (\<lambda>_.
     bindS (createTurnState env) (\<lambda>ts.
     bindS (setTurnState ts) (\<lambda>_. turnUpdateOf env ts))))"

text \<open>What a prepared turn leaves for the request it prepared.\<close>

definition recordPrepared :: "preparedTurn \<Rightarrow> ('s, 'w) harness \<Rightarrow> ('s, 'w) harness" where
  "recordPrepared p s = s
     \<lparr>hnPreparedProviderRequests := hnPreparedProviderRequests s
        @ (case pdProviderRequestOptions p of None \<Rightarrow> [] | Some o' \<Rightarrow> [(pdUserEntryId p, o')]),
      hnPreparedProviderReceipts := hnPreparedProviderReceipts s
        @ (if pdProviderRequestOptions p \<noteq> None \<or> pdContextMessages p \<noteq> None \<or> pdProviderPayload p \<noteq> None then [pdUserEntryId p] else []),
      hnPreparedContextTransforms := hnPreparedContextTransforms s
        @ (case pdContextMessages p of None \<Rightarrow> [] | Some ms \<Rightarrow> [(pdUserEntryId p, ms)]),
      hnPreparedProviderPayloads := hnPreparedProviderPayloads s
        @ (case pdProviderPayload p of None \<Rightarrow> [] | Some j \<Rightarrow> [(pdUserEntryId p, j)])\<rparr>"

definition resetPrepared :: "('s, 'w) harness \<Rightarrow> ('s, 'w) harness" where
  "resetPrepared s = s\<lparr>hnPreparedUserEntryIds := [], hnPreparedProviderRequests := [], hnPreparedProviderReceipts := [],
     hnActivePreparedProviderUserEntryId := None, hnPreparedContextTransforms := [], hnPreparedProviderPayloads := []\<rparr>"

definition throwIfAborted :: "nat \<Rightarrow> ('s, 'w, unit) harnessM" where
  "throwIfAborted c = bindS getS (\<lambda>s.
     if isAborted c s then throwS (HarnessError InvalidStateCode ''Turn preparation was aborted'') else retS ())"

definition activateFollowUp :: "('s, 'w) harnessEnv \<Rightarrow> ('s, 'w) activation option \<Rightarrow> ('s, 'w, ('s, 'w) turnPreparation option) harnessM" where
  "activateFollowUp env activate = (case activate of None \<Rightarrow> retS None | Some f \<Rightarrow> awaitSession env f)"

definition orPreparation :: "('s, 'w) turnPreparation option \<Rightarrow> ('s, 'w) turnPreparation option \<Rightarrow> ('s, 'w) turnPreparation option" where
  "orPreparation activated stored = (case activated of Some p \<Rightarrow> Some p | None \<Rightarrow> stored)"

text \<open>
  The body of \<open>prepareFollowUpTurn\<close> for drained follow-ups: with no preparation the drain is over; a
  preparation stores the message itself and is committed here.
\<close>

definition adoptPrepared :: "preparedTurn \<Rightarrow> ('s, 'w) harness \<Rightarrow> ('s, 'w) harness" where
  "adoptPrepared p s = (recordPrepared p s)\<lparr>hnInFlightDrain := None, hnSystemPromptSuffix := pdSystemPromptSuffix p,
     hnPreparedUserEntryIds := hnPreparedUserEntryIds s @ [Some (pdUserEntryId p)]\<rparr>"

definition runPreparation :: "('s, 'w) harnessEnv \<Rightarrow> nat \<Rightarrow> userMessage \<Rightarrow> ('s, 'w) turnPreparation option \<Rightarrow> 'w turnState
    \<Rightarrow> ('s, 'w, ('s, 'w) harness turnUpdate option) harnessM" where
  "runPreparation env c m prepare ts = (case prepare of
     None \<Rightarrow> bindS (modifyS (\<lambda>s. s\<lparr>hnInFlightDrain := None, hnSystemPromptSuffix := []\<rparr>)) (\<lambda>_. turnUpdateOf env ts)
   | Some f \<Rightarrow> bindS (prepareUserMessage env ts (tsMessages ts @ [UserMsg m]) m f) (\<lambda>prepared.
       bindS (commitUserTurn env m (pdUserEntryId prepared)) (\<lambda>_.
       bindS (throwIfAborted c) (\<lambda>_.
       bindS (modifyS (adoptPrepared prepared)) (\<lambda>_. turnUpdateOf env ts)))))"

definition nextTurnState :: "('s, 'w) harnessEnv \<Rightarrow> nat \<Rightarrow> ('s, 'w, 'w turnState) harnessM" where
  "nextTurnState env c =
    bindS (throwIfAborted c) (\<lambda>_.
    bindS (flushPendingSessionWrites env) (\<lambda>_.
    bindS (createTurnState env) (\<lambda>ts.
    bindS (setTurnState ts) (\<lambda>_. retS ts))))"

definition firstOf :: "'a option list \<Rightarrow> 'a option" where
  "firstOf xs = (case xs of [] \<Rightarrow> None | x # _ \<Rightarrow> x)"

definition prepareDrained :: "('s, 'w) harnessEnv \<Rightarrow> nat \<Rightarrow> ('s, 'w) followUpDrain \<Rightarrow> userMessage
    \<Rightarrow> ('s, 'w, ('s, 'w) harness turnUpdate option) harnessM" where
  "prepareDrained env c drain m =
    bindS (beginUserTurn env m) (\<lambda>_.
    bindS (activateFollowUp env (firstOf (drActivations drain))) (\<lambda>activated.
    bindS (nextTurnState env c) (\<lambda>ts.
    runPreparation env c m (orPreparation activated (firstOf (drPreparations drain))) ts)))"

definition terminalCause :: "harness_fault \<Rightarrow> harness_fault" where
  "terminalCause e = (case e of TerminalPreparation _ (Some cause) \<Rightarrow> cause | _ \<Rightarrow> e)"

definition isTerminalPreparation :: "harness_fault \<Rightarrow> bool" where
  "isTerminalPreparation e = (case e of TerminalPreparation _ _ \<Rightarrow> True | _ \<Rightarrow> False)"

definition prepareFollowUpTurn :: "('s, 'w) harnessEnv \<Rightarrow> nat \<Rightarrow> ('s, 'w, ('s, 'w) harness turnUpdate option) harnessM" where
  "prepareFollowUpTurn env c = bindS (throwIfAborted c) (\<lambda>_. bindS getS (\<lambda>s. case hnInFlightDrain s of
     None \<Rightarrow> prepareTurn env False
   | Some drain \<Rightarrow> (let m = hd (drMessages drain) in
       catchS (prepareDrained env c drain m) (\<lambda>e.
         bindS (attemptS (failUserTurnPreparation env m c)) (\<lambda>lifecycleError.
         bindS (modifyS (\<lambda>s. (if isTerminalPreparation e then s else giveBack drain s)\<lparr>hnInFlightDrain := None\<rparr>)) (\<lambda>_.
         bindS (attemptS (emitQueueUpdate (emitOwn env))) (\<lambda>_.
         if lifecycleError \<noteq> None
         then throwS (AggregateFault ''Follow-up preparation and lifecycle finalization failed'')
         else throwS (normalizeHookError (terminalCause e)))))))))"

definition transformContext :: "('s, 'w) harnessEnv \<Rightarrow> agent_message list \<Rightarrow> ('s, 'w, agent_message list) harnessM" where
  "transformContext env messages = bindS getS (\<lambda>s.
     let ask = bindS (emitHook env (heContext env) messages) (\<lambda>r. retS (case r of None \<Rightarrow> messages | Some ms \<Rightarrow> ms)) in
     case hnPreparedProviderReceipts s of
       receipt # receipts \<Rightarrow> (case hnPreparedContextTransforms s of
           (i, ms) # transforms \<Rightarrow>
             if i \<noteq> receipt
             then bindS (modifyS (\<lambda>s. s\<lparr>hnPreparedContextTransforms := []\<rparr>)) (\<lambda>_.
               throwS (HarnessError InvalidStateCode ''Prepared context transform is out of sequence''))
             else bindS (modifyS (\<lambda>s. s\<lparr>hnPreparedProviderReceipts := receipts, hnActivePreparedProviderUserEntryId := Some receipt,
                 hnPreparedContextTransforms := transforms\<rparr>)) (\<lambda>_. retS ms)
         | [] \<Rightarrow> bindS (modifyS (\<lambda>s. s\<lparr>hnPreparedProviderReceipts := receipts, hnActivePreparedProviderUserEntryId := Some receipt\<rparr>))
             (\<lambda>_. ask))
     | [] \<Rightarrow> if hnPreparedContextTransforms s \<noteq> []
         then bindS (modifyS (\<lambda>s. s\<lparr>hnPreparedContextTransforms := []\<rparr>)) (\<lambda>_.
           throwS (HarnessError InvalidStateCode ''Prepared context transform has no matching receipt''))
         else ask)"

definition createLoopConfig :: "('s, 'w) harnessEnv \<Rightarrow> nat \<Rightarrow> 'w turnState \<Rightarrow> ('s, 'w) harness loopConfig" where
  "createLoopConfig env c ts =
    \<lparr>cfModel = tsModel ts, cfReasoning = (if tsThinkingLevel ts = ''off'' then None else Some (tsThinkingLevel ts)),
     cfApiKey = None, cfStreamOptions = JObj [], cfToolExecution = None,
     cfBeforeUserMessage = Some (\<lambda>m. asOutside (bindS (beginUserTurn env m) (\<lambda>_. retS ()))),
     cfConvertToLlm = (\<lambda>messages s. (Inr (concat (map (\<lambda>m. convertToLlm [m]) messages)), s)),
     cfTransformContext = Some (\<lambda>messages. asOutside (transformContext env messages)),
     cfGetApiKey = None, cfShouldStopAfterTurn = None,
     cfPrepareNextTurn = Some (\<lambda>t. asOutside (prepareTurn env (ftToolResults t \<noteq> []))),
     cfPrepareFollowUpTurn = Some (asOutside (prepareFollowUpTurn env c)),
     cfGetSteeringMessages = Some (asOutside (drainSteering env)),
     cfGetFollowUpMessages = Some (asOutside (drainFollowUpMessages env)),
     cfBeforeToolCall = Some (\<lambda>t. asOutside (emitHook env (heToolCall env)
       \<lparr>tvToolCallId = tcId (tccToolCall t), tvToolName = tcName (tccToolCall t), tvInput = tccArgs t\<rparr>)),
     cfAfterToolCall = Some (\<lambda>t r e. asOutside (emitHook env (heToolResult env)
       (\<lparr>tvToolCallId = tcId (tccToolCall t), tvToolName = tcName (tccToolCall t), tvInput = tccArgs t\<rparr>, r, e)))\<rparr>"

definition askAuth :: "('s, 'w) harnessEnv \<Rightarrow> loopModel \<Rightarrow> ('s, 'w, authResult option) harnessM" where
  "askAuth env model = (case heAuth env of None \<Rightarrow> retS None | Some f \<Rightarrow> await env (f model))"

text \<open>\<open>createStreamFn\<close> up to the call of \<open>streamSimple\<close>.\<close>

definition streamFn :: "('s, 'w) harnessEnv \<Rightarrow> loopModel \<Rightarrow> ('s, 'w) harness llmContext \<Rightarrow> streamOptions
    \<Rightarrow> ('s, 'w, stream_event list \<times> assistantMessage) harnessM" where
  "streamFn env model context options = bindS getS (\<lambda>s0. bindS (askAuth env model) (\<lambda>auth. bindS getS (\<lambda>s.
     let turnOptions = (case hnTurnState s0 of None \<Rightarrow> hnStreamOptions s0 | Some ts \<Rightarrow> tsStreamOptions ts);
         snapshot = turnOptions\<lparr>hsHeaders := mergeHeaders [hsHeaders turnOptions, case auth of None \<Rightarrow> None | Some a \<Rightarrow> auHeaders a]\<rparr>
     in bindS (case hnPreparedProviderRequests s of
         (i, prepared) # rest \<Rightarrow>
           if hnActivePreparedProviderUserEntryId s \<noteq> Some i
           then bindS (modifyS (\<lambda>s. s\<lparr>hnPreparedProviderRequests := []\<rparr>)) (\<lambda>_.
             throwS (HarnessError InvalidStateCode ''Prepared provider request is out of sequence''))
           else bindS (modifyS (\<lambda>s. s\<lparr>hnPreparedProviderRequests := rest\<rparr>)) (\<lambda>_. retS prepared)
       | [] \<Rightarrow> emitBeforeProviderRequest env model snapshot) (\<lambda>request.
     await env (heStreamSimple env model (lcSystemPrompt context) (lcMessages context)
       (map_option (map (\<lambda>t. (atName t, atSchema t))) (lcTools context)) options request auth)))))"

definition loopHostOf :: "('s, 'w) harnessEnv \<Rightarrow> nat \<Rightarrow> ('s, 'w) harness loopHost" where
  "loopHostOf env c =
    \<lparr>hoEmit = (\<lambda>ev. asOutside (handleAgentEvent env ev)),
     hoStream = (\<lambda>model context options. asOutside (streamFn env model context options)),
     hoValidate = (\<lambda>t tc. heValidate env (atName t) (atSchema t) tc),
     hoAborted = isAborted c,
     hoNow = (\<lambda>s. case heNow env (hnOutside s) of (n, w) \<Rightarrow> (n, s\<lparr>hnOutside := w\<rparr>)),
     hoPick = (\<lambda>s. case hePick env (hnOutside s) of (n, w) \<Rightarrow> (n, s\<lparr>hnOutside := w\<rparr>))\<rparr>"

subsection \<open>A run\<close>

definition runLoopOn :: "('s, 'w) harnessEnv \<Rightarrow> nat \<Rightarrow> 'w turnState \<Rightarrow> agent_message list \<Rightarrow> string
    \<Rightarrow> ('s, 'w, agent_message list) harnessM" where
  "runLoopOn env c ts messages systemPrompt s =
    (case runAgentLoop (loopHostOf env c) (heFuel env) (createLoopConfig env c ts) messages (createContext env ts systemPrompt)
        \<lparr>lrTrace = [], lrWorld = s\<rparr> of
       (Inr ms, r) \<Rightarrow> (if hnDiverged (lrWorld r) then Inl Diverged else Inr ms, lrWorld r)
     | (Inl (Thrown e), r) \<Rightarrow> (Inl (if hnDiverged (lrWorld r) then Diverged else OtherFault e), lrWorld r)
     | (Inl OutOfFuel, r) \<Rightarrow> (Inl Diverged, lrWorld r))"

definition modelOfTurn :: "('s, 'w) harness \<Rightarrow> loopModel" where
  "modelOfTurn s = (case hnTurnState s of None \<Rightarrow> hnModel s | Some ts \<Rightarrow> tsModel ts)"

definition runOrReport :: "('s, 'w) harnessEnv \<Rightarrow> nat \<Rightarrow> 'w turnState \<Rightarrow> agent_message list \<Rightarrow> string
    \<Rightarrow> ('s, 'w, agent_message list) harnessM" where
  "runOrReport env c ts messages systemPrompt = catchS (runLoopOn env c ts messages systemPrompt) (\<lambda>e.
     catchS (bindS getS (\<lambda>s. emitRunFailure env (modelOfTurn s) e (isAborted c s))) (\<lambda>_.
       throwS (HarnessError UnknownCode ''Agent run failed and failure reporting failed'')))"

definition lastAssistant :: "agent_message list \<Rightarrow> ('s, 'w, assistantMessage) harnessM" where
  "lastAssistant ms = (case List.map_filter (\<lambda>m. case m of AssistantMsg a \<Rightarrow> Some a | _ \<Rightarrow> None) (rev ms) of
     a # _ \<Rightarrow> retS a
   | [] \<Rightarrow> throwS (HarnessError InvalidStateCode ''AgentHarness prompt completed without an assistant message''))"

text \<open>The \<open>finally\<close> block of a run.\<close>

definition closeRun :: "('s, 'w) harnessEnv \<Rightarrow> nat \<Rightarrow> ('s, 'w, unit) harnessM" where
  "closeRun env c = finallyS
     (finallyS (bindS getS (\<lambda>s. terminalizeActiveUserTurn env (if isAborted c s then RunAborted else ProviderFailed)))
       (flushPendingSessionWrites env))
     (modifyS (\<lambda>s. (resetPrepared s)\<lparr>hnInFlightDrain := None, hnRunAbortController := None\<rparr>))"

text \<open>The turn state with what the hooks and setters changed since it was made.\<close>

definition effectiveTurnState :: "'w turnState \<Rightarrow> beforeStartResult option \<Rightarrow> ('s, 'w) harness \<Rightarrow> 'w turnState" where
  "effectiveTurnState ts beforeResult s =
    (let prompt = (case beforeResult of None \<Rightarrow> None | Some b \<Rightarrow> bsSystemPrompt b)
     in ts\<lparr>tsStreamOptions := hnStreamOptions s, tsSystemPrompt := (case prompt of None \<Rightarrow> tsSystemPrompt ts | Some p \<Rightarrow> p),
        tsSystemPromptMetadata := (if prompt = None then tsSystemPromptMetadata ts else None),
        tsModel := hnModel s, tsThinkingLevel := hnThinkingLevel s, tsTools := hnTools s, tsActiveTools := activeTools s\<rparr>)"

definition newAbortController :: "('s, 'w, nat) harnessM" where
  "newAbortController s = (Inr (length (hnAbortControllers s)), s\<lparr>hnAbortControllers := hnAbortControllers s @ [False]\<rparr>)"

definition setRunController :: "nat option \<Rightarrow> ('s, 'w, unit) harnessM" where
  "setRunController c = modifyS (\<lambda>s. s\<lparr>hnRunAbortController := c\<rparr>)"

text \<open>The preparation of the prompt's user turn, before the run.\<close>

definition prepareUserTurn :: "('s, 'w) harnessEnv \<Rightarrow> nat \<Rightarrow> 'w turnState \<Rightarrow> agent_message list \<Rightarrow> userMessage
    \<Rightarrow> ('s, 'w) turnPreparation option \<Rightarrow> ('s, 'w, preparedTurn option) harnessM" where
  "prepareUserTurn env c ts contextMessages m prepare = catchS
     (bindS (case prepare of
         None \<Rightarrow> retS None
       | Some f \<Rightarrow> bindS (beginUserTurn env m) (\<lambda>_.
           bindS (prepareUserMessage env ts contextMessages m f) (\<lambda>prepared.
           bindS (commitUserTurn env m (pdUserEntryId prepared)) (\<lambda>_. retS (Some prepared)))))
       (\<lambda>prepared. bindS (throwIfAborted c) (\<lambda>_. retS prepared)))
     (\<lambda>e. bindS (attemptS (failUserTurnPreparation env m c)) (\<lambda>lifecycleError.
       bindS (modifyS (\<lambda>s. (resetPrepared s)\<lparr>hnRunAbortController := None\<rparr>)) (\<lambda>_.
       if lifecycleError \<noteq> None
       then throwS (AggregateFault ''Turn preparation and lifecycle finalization failed'')
       else throwS e)))"

text \<open>Which of the run's user messages a preparation has stored; a message equal to the prompt is the prompt.\<close>

definition preparedIds :: "userMessage \<Rightarrow> string \<Rightarrow> agent_message list \<Rightarrow> string option list" where
  "preparedIds m i messages = List.map_filter (\<lambda>x. case x of
     UserMsg u \<Rightarrow> Some (if u = m then Some i else None) | _ \<Rightarrow> None) messages"

definition executeTurn :: "('s, 'w) harnessEnv \<Rightarrow> 'w turnState \<Rightarrow> string \<Rightarrow> content_part list \<Rightarrow> ('s, 'w) turnPreparation option
    \<Rightarrow> userMessage option \<Rightarrow> nat option \<Rightarrow> ('s, 'w, assistantMessage) harnessM" where
  "executeTurn env ts text images prepare queued controller = bindS getS (\<lambda>s.
     if \<not> Option.is_none prepare \<and> hnNextTurnQueue s \<noteq> []
     then throwS (HarnessError InvalidStateCode ''Cannot prepare a prompt while next-turn messages are pending'')
     else bindS (case queued of Some m \<Rightarrow> retS m | None \<Rightarrow> createUserMessage env text images) (\<lambda>userMessage.
     bindS (takeNextTurn env) (\<lambda>queuedMessages.
     bindS (emitHook env (heBeforeAgentStart env) \<lparr>bvPrompt = text, bvImages = images, bvSystemPrompt = tsSystemPrompt ts\<rparr>) (\<lambda>beforeResult.
     let messages = queuedMessages @ [UserMsg userMessage]
       @ (case beforeResult of None \<Rightarrow> [] | Some b \<Rightarrow> (case bsMessages b of None \<Rightarrow> [] | Some ms \<Rightarrow> ms)) in
     bindS getS (\<lambda>s'. let effective = effectiveTurnState ts beforeResult s' in
     bindS (setTurnState effective) (\<lambda>_.
     bindS (case controller of Some c \<Rightarrow> retS c | None \<Rightarrow> newAbortController) (\<lambda>c.
     bindS (setRunController (Some c)) (\<lambda>_.
     bindS (prepareUserTurn env c effective (tsMessages ts @ messages) userMessage prepare) (\<lambda>prepared.
     bindS (case prepared of
         None \<Rightarrow> retS ()
       | Some p \<Rightarrow> modifyS (\<lambda>s. (recordPrepared p s)\<lparr>hnPreparedUserEntryIds := hnPreparedUserEntryIds s
           @ preparedIds userMessage (pdUserEntryId p) messages\<rparr>)) (\<lambda>_.
     let suffix = (case prepared of None \<Rightarrow> [] | Some p \<Rightarrow> pdSystemPromptSuffix p) in
     bindS (modifyS (\<lambda>s. s\<lparr>hnRunAbortController := Some c, hnSystemPromptSuffix := suffix\<rparr>)) (\<lambda>_.
     finallyS (bindS (runOrReport env c effective messages (joinSystemPrompt (tsSystemPrompt effective) suffix)) lastAssistant)
       (closeRun env c))))))))))))"

subsection \<open>Prompts\<close>

definition contentText :: "string \<Rightarrow> user_content \<Rightarrow> string" where
  "contentText separator content = (case content of
     ContentText t \<Rightarrow> t
   | ContentParts ps \<Rightarrow> joinWith separator (List.map_filter (\<lambda>p. case p of TextContent t _ \<Rightarrow> Some t | _ \<Rightarrow> None) ps))"

definition contentImages :: "user_content \<Rightarrow> content_part list" where
  "contentImages content = (case content of
     ContentText _ \<Rightarrow> [] | ContentParts ps \<Rightarrow> filter (\<lambda>p. case p of ImageContent _ _ \<Rightarrow> True | _ \<Rightarrow> False) ps)"

text \<open>One queued follow-up: the boundary, the activation and the turn.\<close>

definition promoteOne :: "('s, 'w) harnessEnv \<Rightarrow> nat \<Rightarrow> userMessage \<Rightarrow> ('s, 'w) turnPreparation option \<Rightarrow> ('s, 'w) activation option
    \<Rightarrow> ('s, 'w, assistantMessage) harnessM" where
  "promoteOne env c m prepare activate =
    bindS (beginUserTurn env m) (\<lambda>_.
    bindS (activateFollowUp env activate) (\<lambda>activated.
    bindS (throwIfAborted c) (\<lambda>_.
    bindS (createTurnState env) (\<lambda>ts.
    executeTurn env ts (contentText nl (umContent m)) (contentImages (umContent m)) (orPreparation activated prepare) (Some m) (Some c)))))"

primrec promoteQueuedFollowUp :: "('s, 'w) harnessEnv \<Rightarrow> nat \<Rightarrow> ('s, 'w, assistantMessage option) harnessM" where
  "promoteQueuedFollowUp env 0 = throwS Diverged"
| "promoteQueuedFollowUp env (Suc n) = bindS getS (\<lambda>s. case hnFollowUpQueue s of
     [] \<Rightarrow> retS None
   | m # ms \<Rightarrow>
       (let prepare = (case hnFollowUpPreparations s of [] \<Rightarrow> None | p # _ \<Rightarrow> p);
            activate = (case hnFollowUpActivations s of [] \<Rightarrow> None | a # _ \<Rightarrow> a);
            putBack = prependFollowUps [m] [prepare] [activate]
        in bindS (modifyS (\<lambda>s. s\<lparr>hnFollowUpQueue := ms, hnFollowUpPreparations := tl (hnFollowUpPreparations s),
             hnFollowUpActivations := tl (hnFollowUpActivations s)\<rparr>)) (\<lambda>_.
           bindS (catchS (emitQueueUpdate (emitOwn env)) (\<lambda>e. bindS (modifyS putBack) (\<lambda>_. throwS (normalizeHookError e)))) (\<lambda>_.
           bindS newAbortController (\<lambda>c. bindS (setRunController (Some c)) (\<lambda>_.
           catchS (bindS (promoteOne env c m prepare activate) (\<lambda>a. retS (Some a))) (\<lambda>e.
             bindS (attemptS (failUserTurnPreparation env m c)) (\<lambda>lifecycleError.
             bindS (setRunController None) (\<lambda>_.
             if isTerminalPreparation e then promoteQueuedFollowUp env n
             else bindS getS (\<lambda>s'. bindS (if isAborted c s' then retS ()
                 else bindS (modifyS putBack) (\<lambda>_. bindS (attemptS (emitQueueUpdate (emitOwn env))) (\<lambda>_. retS ()))) (\<lambda>_.
               if lifecycleError \<noteq> None
               then throwS (AggregateFault ''Follow-up activation and lifecycle finalization failed'')
               else throwS e)))))))))))"

definition startRun :: "('s, 'w, unit) harnessM" where
  "startRun = bindS getS (\<lambda>s. if hnPhase s \<noteq> PhaseIdle then throwS (HarnessError BusyCode ''AgentHarness is busy'')
     else modifyS (\<lambda>s. s\<lparr>hnPhase := PhaseTurn, hnRunPromise := True\<rparr>))"

text \<open>The run's promise resolves: the calls of \<open>abort\<close> that wait for it go on.\<close>

definition finishRunPromise :: "('s, 'w) harnessEnv \<Rightarrow> ('s, 'w, unit) harnessM" where
  "finishRunPromise env s = (Inr (), fold (\<lambda>(a, b) s. snd (emitDuring env (AbortDone a b) s)) (hnAbortWaiters s)
     (s\<lparr>hnRunPromise := False, hnAbortWaiters := []\<rparr>))"

definition failRun :: "harness_fault \<Rightarrow> ('s, 'w, 'a) harnessM" where
  "failRun e = bindS releaseTurnPhaseAfterFailure (\<lambda>_. throwS (normalizeHarnessError e UnknownCode))"

definition prompt :: "('s, 'w) harnessEnv \<Rightarrow> string \<Rightarrow> content_part list \<Rightarrow> ('s, 'w) turnPreparation option
    \<Rightarrow> ('s, 'w, assistantMessage) harnessM" where
  "prompt env text images prepare = bindS startRun (\<lambda>_. finallyS
     (catchS (bindS (createTurnState env) (\<lambda>ts. executeTurn env ts text images prepare None None)) (\<lambda>e.
        if isTerminalPreparation e
        then bindS (catchS (bindS (promoteQueuedFollowUp env (heFuel env)) (\<lambda>r. retS (Inr r))) (\<lambda>e'. retS (Inl e'))) (\<lambda>promoted. case promoted of
            Inr (Some a) \<Rightarrow> retS a
          | Inr None \<Rightarrow> failRun e
          | Inl e' \<Rightarrow> failRun e')
        else failRun e))
     (finishRunPromise env))"

definition promptReturningEntryId :: "('s, 'w) harnessEnv \<Rightarrow> string \<Rightarrow> content_part list \<Rightarrow> ('s, 'w) turnPreparation option
    \<Rightarrow> ('s, 'w, assistantMessage \<times> string) harnessM" where
  "promptReturningEntryId env text images prepare = bindS startRun (\<lambda>_. bindS (readSession (getBranch (heOps env) None)) (\<lambda>base. finallyS
     (catchS (bindS (createTurnState env) (\<lambda>ts. bindS (executeTurn env ts text images prepare None None) (\<lambda>assistant.
        bindS (readSession (getBranch (heOps env) None)) (\<lambda>branch.
        case find (\<lambda>e. (case eKind e of MessageEntry m \<Rightarrow> isUserMsg m | _ \<Rightarrow> False) \<and> eId e \<notin> eId ` set base) branch of
          None \<Rightarrow> throwS (HarnessError UnknownCode ''prompt did not produce a user entry'')
        | Some e \<Rightarrow> retS (assistant, eId e))))) failRun)
     (finishRunPromise env)))"

definition promptWithCustomEntry :: "('s, 'w) harnessEnv \<Rightarrow> string \<Rightarrow> json option \<Rightarrow> string \<Rightarrow> content_part list
    \<Rightarrow> ('s, 'w) turnPreparation option \<Rightarrow> ('s, 'w, assistantMessage) harnessM" where
  "promptWithCustomEntry env customType data text images prepare = bindS startRun (\<lambda>_. finallyS
     (catchS (bindS (writeNow env (CustomEntry customType data)) (\<lambda>_.
        bindS (createTurnState env) (\<lambda>ts. executeTurn env ts text images prepare None None))) failRun)
     (finishRunPromise env))"

text \<open>\<open>abort\<close> while no run is in flight; during a run it is a request.\<close>

definition abort :: "('s, 'w) harnessEnv \<Rightarrow> ('s, 'w, userMessage list \<times> userMessage list) harnessM" where
  "abort env = bindS (startAbort (emitOwn env)) (\<lambda>(cleared, e1).
     bindS (attemptS (emitOwn env (AbortDone (fst cleared) (snd cleared)))) (\<lambda>e2.
     case List.map_filter id [e1, e2] of
       [] \<Rightarrow> retS cleared
     | [e] \<Rightarrow> throwS (normalizeHarnessError e HookCode)
     | _ \<Rightarrow> throwS (HarnessError HookCode ''Abort completed with errors'')))"

subsection \<open>Compaction and navigation\<close>

definition liftResult :: "('e \<Rightarrow> harness_fault) \<Rightarrow> 'e + 'a \<Rightarrow> ('s, 'w, 'a) harnessM" where
  "liftResult f r = (case r of Inl e \<Rightarrow> throwS (f e) | Inr a \<Rightarrow> retS a)"

definition requireAuth :: "('s, 'w) harnessEnv \<Rightarrow> loopModel \<Rightarrow> string \<Rightarrow> ('s, 'w, authResult) harnessM" where
  "requireAuth env model purpose = bindS (askAuth env model) (\<lambda>auth. case auth of
     None \<Rightarrow> throwS (HarnessError AuthCode (''No auth available for '' @ purpose)) | Some a \<Rightarrow> retS a)"

definition fileListsJson :: "fileLists \<Rightarrow> json" where
  "fileListsJson l = JObj [(''readFiles'', JArr (map JStr (readFiles l))), (''modifiedFiles'', JArr (map JStr (modifiedFiles l)))]"

definition startIdle :: "harness_phase \<Rightarrow> string \<Rightarrow> ('s, 'w, unit) harnessM" where
  "startIdle phase message = bindS getS (\<lambda>s. if hnPhase s \<noteq> PhaseIdle then throwS (HarnessError BusyCode message)
     else modifyS (\<lambda>s. s\<lparr>hnPhase := phase\<rparr>))"

definition becomeIdle :: "('s, 'w, unit) harnessM" where
  "becomeIdle = modifyS (\<lambda>s. s\<lparr>hnPhase := PhaseIdle\<rparr>)"

definition compactionResultOf :: "('s, 'w) harnessEnv \<Rightarrow> authResult \<Rightarrow> loopModel \<Rightarrow> compactionPreparation \<Rightarrow> string option
    \<Rightarrow> providedCompaction option \<Rightarrow> ('s, 'w, providedCompaction) harnessM" where
  "compactionResultOf env auth model preparation instructions provided = (case provided of
     Some p \<Rightarrow> retS p
   | None \<Rightarrow> bindS getS (\<lambda>s. bindS (onClock (heComplete env model auth)) (\<lambda>complete.
       bindS (liftResult CompactionFault (compact complete preparation (heModelInfo env model) instructions (Some (hnThinkingLevel s)))) (\<lambda>r.
       retS \<lparr>pcSummary = crsSummary r, pcFirstKeptEntryId = crsFirstKeptEntryId r, pcTokensBefore = crsTokensBefore r,
         pcDetails = Some (fileListsJson (crsDetails r))\<rparr>))))"

definition harnessCompact :: "('s, 'w) harnessEnv \<Rightarrow> string option \<Rightarrow> ('s, 'w, providedCompaction) harnessM" where
  "harnessCompact env instructions = bindS (startIdle PhaseCompaction ''compact() requires idle harness'') (\<lambda>_. finallyS (catchS
    (bindS getS (\<lambda>s. let model = hnModel s in
     bindS (requireAuth env model ''compaction'') (\<lambda>auth.
     bindS (readSession (getBranch (heOps env) None)) (\<lambda>branchEntries.
     bindS (liftResult CompactionFault (prepareCompaction (heSha env) branchEntries DEFAULT_COMPACTION_SETTINGS)) (\<lambda>preparation.
     case preparation of
       None \<Rightarrow> throwS (HarnessError CompactionCode ''Nothing to compact'')
     | Some prep \<Rightarrow>
         bindS (emitHook env (heBeforeCompact env) (prep, branchEntries, instructions)) (\<lambda>hook.
         if (case hook of None \<Rightarrow> False | Some h \<Rightarrow> bcCancel h) then throwS (HarnessError CompactionCode ''Compaction cancelled'')
         else let provided = (case hook of None \<Rightarrow> None | Some h \<Rightarrow> bcCompaction h) in
           bindS (compactionResultOf env auth model prep instructions provided) (\<lambda>result.
           bindS (appendToSession env (\<lambda>now. appendCompaction (heOps env) now (pcSummary result) (pcFirstKeptEntryId result)
             (pcTokensBefore result) (pcDetails result) (Some (provided \<noteq> None)))) (\<lambda>entryId.
           bindS getS (\<lambda>s'. bindS (case opGetEntry (heOps env) entryId (hnSession s') of
               None \<Rightarrow> retS ()
             | Some e \<Rightarrow> if isCompaction e then emitOwn env (SessionCompacted e (provided \<noteq> None)) else retS ()) (\<lambda>_.
           retS result))))))))))
    (\<lambda>e. throwS (normalizeHarnessError e CompactionCode))) becomeIdle)"

record navigateOptions =
  noSummarize :: bool
  noCustomInstructions :: "string option"
  noReplaceInstructions :: "bool option"
  noLabel :: "string option"

record navigateTreeResult =
  nrCancelled :: bool
  nrEditorText :: "string option"
  nrSummaryEntry :: "entry option"

text \<open>The new leaf, and the text to edit, of a target entry.\<close>

definition navigationTarget :: "entry \<Rightarrow> string option \<times> string option" where
  "navigationTarget e = (let above = (case eParent e of None \<Rightarrow> Some (eId e) | Some p \<Rightarrow> Some p) in case eKind e of
     MessageEntry (UserMsg u) \<Rightarrow> (above, Some (contentText [] (umContent u)))
   | CustomMessageEntry c \<Rightarrow> (above, Some (contentText [] (cmeContent c)))
   | _ \<Rightarrow> (Some (eId e), None))"

text \<open>
  The summary of the branch that is left: that of the hook, one the model writes, or none.
  \<open>None\<close> when the model's summary was aborted.
\<close>

definition branchSummaryFor :: "('s, 'w) harnessEnv \<Rightarrow> navigateOptions \<Rightarrow> beforeTreeResult option \<Rightarrow> entry list
    \<Rightarrow> ('s, 'w, (string option \<times> json option) option) harnessM" where
  "branchSummaryFor env options hook entries = (let provided = (case hook of None \<Rightarrow> None | Some h \<Rightarrow> bwSummary h) in
     if \<not> given (map_option fst provided) \<and> noSummarize options \<and> entries \<noteq> []
     then bindS getS (\<lambda>s. let model = hnModel s in bindS (requireAuth env model ''branch summary'') (\<lambda>auth.
       bindS (onClock (heComplete env model auth)) (\<lambda>complete.
       case generateBranchSummary complete (heModelInfo env model)
           \<lparr>boCustomInstructions = (case hook of None \<Rightarrow> noCustomInstructions options
                | Some h \<Rightarrow> orOption (bwCustomInstructions h) (noCustomInstructions options)),
            boReplaceInstructions = (case (case hook of None \<Rightarrow> noReplaceInstructions options
                | Some h \<Rightarrow> orOption (bwReplaceInstructions h) (noReplaceInstructions options)) of None \<Rightarrow> False | Some b \<Rightarrow> b),
            boReserveTokens = None\<rparr> entries of
         Inl (BranchSummaryError BranchAborted _) \<Rightarrow> retS None
       | Inl (BranchSummaryError c m) \<Rightarrow> throwS (HarnessError BranchSummaryCode m)
       | Inr r \<Rightarrow> retS (Some (Some (brSummary r), Some (fileListsJson (brFiles r)))))))
     else retS (Some (map_option fst provided, case provided of None \<Rightarrow> None | Some (_, d) \<Rightarrow> d)))"

definition navigateTree :: "('s, 'w) harnessEnv \<Rightarrow> string \<Rightarrow> navigateOptions \<Rightarrow> ('s, 'w, navigateTreeResult) harnessM" where
  "navigateTree env targetId options = bindS (startIdle PhaseBranchSummary ''navigateTree() requires idle harness'') (\<lambda>_. finallyS (catchS
    (let ops = heOps env; cancelled = \<lparr>nrCancelled = True, nrEditorText = None, nrSummaryEntry = None\<rparr> in
     bindS (onSession (opGetLeafId ops)) (\<lambda>oldLeafId.
     if oldLeafId = Some targetId then retS (cancelled\<lparr>nrCancelled := False\<rparr>)
     else bindS getS (\<lambda>s. case opGetEntry ops targetId (hnSession s) of
       None \<Rightarrow> throwS (HarnessError InvalidArgumentCode (''Entry '' @ targetId @ '' not found''))
     | Some target \<Rightarrow>
         bindS (readSession (collectEntriesForBranchSummary ops oldLeafId targetId)) (\<lambda>collected.
         bindS (emitHook env (heBeforeTree env) \<lparr>tpTargetId = targetId, tpOldLeafId = oldLeafId,
           tpCommonAncestorId = clCommonAncestorId collected, tpEntriesToSummarize = clEntries collected,
           tpUserWantsSummary = noSummarize options, tpCustomInstructions = noCustomInstructions options,
           tpReplaceInstructions = noReplaceInstructions options, tpLabel = noLabel options\<rparr>) (\<lambda>hook.
         if (case hook of None \<Rightarrow> False | Some h \<Rightarrow> bwCancel h) then retS cancelled
         else let fromHook = (case hook of None \<Rightarrow> False | Some h \<Rightarrow> bwSummary h \<noteq> None) in
         bindS (branchSummaryFor env options hook (clEntries collected)) (\<lambda>summary. case summary of
           None \<Rightarrow> retS cancelled
         | Some (text, details) \<Rightarrow>
             (case navigationTarget target of (newLeafId, editorText) \<Rightarrow>
             bindS (appendToSession env (\<lambda>now. moveTo ops now newLeafId (if given text
               then Some \<lparr>mvSummary = the text, mvDetails = details, mvFromHook = Some fromHook\<rparr> else None))) (\<lambda>summaryId.
             bindS getS (\<lambda>s'. let summaryEntry = (case summaryId of None \<Rightarrow> None | Some i \<Rightarrow>
                 (case opGetEntry ops i (hnSession s') of None \<Rightarrow> None | Some e \<Rightarrow>
                   (case eKind e of BranchSummaryEntry _ \<Rightarrow> Some e | _ \<Rightarrow> None))) in
             bindS (onSession (opGetLeafId ops)) (\<lambda>leaf.
             bindS (emitOwn env (SessionTreeMoved leaf oldLeafId summaryEntry fromHook)) (\<lambda>_.
             retS \<lparr>nrCancelled = False, nrEditorText = editorText, nrSummaryEntry = summaryEntry\<rparr>)))))))))))
    (\<lambda>e. throwS (normalizeHarnessError e BranchSummaryCode))) becomeIdle)"

subsection \<open>The life of a harness\<close>

definition newHarness :: "'s \<Rightarrow> loopModel \<Rightarrow> string option \<Rightarrow> harnessStreamOptions \<Rightarrow> 'w agentTool list \<Rightarrow> string list option
    \<Rightarrow> queue_mode option \<Rightarrow> queue_mode option \<Rightarrow> 'w \<Rightarrow> ('s, 'w) harness" where
  "newHarness session model level options tools activeNames steering followUps world =
    \<lparr>hnSession = session, hnPhase = PhaseIdle, hnAbortControllers = [], hnRunAbortController = None, hnRunPromise = False,
     hnAbortWaiters = [], hnPendingSessionWrites = [], hnModel = model,
     hnThinkingLevel = (case level of None \<Rightarrow> ''off'' | Some l \<Rightarrow> l), hnStreamOptions = options, hnTools = toolMap tools,
     hnActiveToolNames = (case activeNames of None \<Rightarrow> map atName tools | Some ns \<Rightarrow> ns),
     hnSteerQueue = [], hnSteerArray = 0,
     hnSteeringQueueMode = (case steering of None \<Rightarrow> QueueOneAtATime | Some m \<Rightarrow> m),
     hnFollowUpQueue = [], hnFollowUpPreparations = [], hnFollowUpActivations = [],
     hnFollowUpQueueMode = (case followUps of None \<Rightarrow> QueueOneAtATime | Some m \<Rightarrow> m), hnInFlightDrain = None,
     hnNextTurnQueue = [], hnPreparedUserEntryIds = [], hnPreparedProviderRequests = [], hnPreparedContextTransforms = [],
     hnPreparedProviderPayloads = [], hnPreparedProviderReceipts = [], hnActivePreparedProviderUserEntryId = None,
     hnUserTurnCounter = 0, hnBoundaries = [], hnBoundaryOf = (\<lambda>_. None), hnActiveUserTurn = None, hnFailureReason = None,
     hnFinalizationPending = False, hnTurnState = None, hnSystemPromptSuffix = [], hnDiverged = False, hnEvents = [],
     hnWrites = [], hnDirectWrites = [], hnOutside = world\<rparr>"

text \<open>
  The calls a client makes one after the other; \<open>World\<close> is anything that happens outside between two
  calls.  A call that throws leaves the harness in the state it had then.
\<close>

inductive harnessStep :: "('s, 'w) harnessEnv \<Rightarrow> ('s, 'w) harness \<Rightarrow> ('s, 'w) harness \<Rightarrow> bool" for env where
  Prompt: "harnessStep env s (snd (prompt env text images prepare s))"
| PromptReturningEntryId: "harnessStep env s (snd (promptReturningEntryId env text images prepare s))"
| PromptWithCustomEntry: "harnessStep env s (snd (promptWithCustomEntry env customType data text images prepare s))"
| Compact: "harnessStep env s (snd (harnessCompact env instructions s))"
| NavigateTree: "harnessStep env s (snd (navigateTree env targetId options s))"
| Aborts: "harnessStep env s (snd (abort env s))"
| Call: "q \<noteq> Abort \<Longrightarrow> harnessStep env s (snd (perform env (emitOwn env) q s))"
| World: "harnessStep env s (s\<lparr>hnOutside := w\<rparr>)"

inductive harnessReaches :: "('s, 'w) harnessEnv \<Rightarrow> ('s, 'w) harness \<Rightarrow> ('s, 'w) harness \<Rightarrow> bool" for env where
  Here: "harnessReaches env s s"
| Next: "harnessReaches env s s' \<Longrightarrow> harnessStep env s' s'' \<Longrightarrow> harnessReaches env s s''"

end
