(* ===== verification/HarnessLogic.thy ===== *)
theory HarnessLogic
  imports HarnessPrompts
begin

section \<open>Reasoning about the agent harness\<close>

text \<open>
  What every operation of the harness preserves.  \<open>preserves P m\<close> says that \<open>m\<close> keeps \<open>P\<close> whether it
  returns or throws; the collection \<open>preserves_rules\<close> goes through the control structures.

  The interface \<open>harness_frame\<close> is a relation between the events of a run and the harness that looks
  only at the session, the session writes and the user turns (\<open>core\<close>).  Its laws name the few steps
  that change those; from them it follows that awaiting, the queues, the hooks, the turn states and
  the callbacks of a run keep the relation, whatever the client does meanwhile.
\<close>

definition preserves :: "('s \<Rightarrow> bool) \<Rightarrow> ('s, harness_fault, 'a) action \<Rightarrow> bool" where
  "preserves P m \<longleftrightarrow> (\<forall>s. P s \<longrightarrow> P (snd (m s)))"

named_theorems preserves_rules

lemma preservesI: "(\<And>s. P s \<Longrightarrow> P (snd (m s))) \<Longrightarrow> preserves P m"
  by (simp add: preserves_def)

lemma preservesD: "preserves P m \<Longrightarrow> P s \<Longrightarrow> P (snd (m s))"
  by (simp add: preserves_def)

lemma preserves_outcome: "preserves P m \<Longrightarrow> P s \<Longrightarrow> m s = (r, s') \<Longrightarrow> P s'"
  by (metis preservesD snd_conv)

lemma preserves_ret [preserves_rules]: "preserves P (retS a)"
  by (simp add: preserves_def)

lemma preserves_throw [preserves_rules]: "preserves P (throwS e)"
  by (simp add: preserves_def)

lemma preserves_get [preserves_rules]: "preserves P getS"
  by (simp add: preserves_def getS_def)

lemma preserves_modify: "(\<And>s. P s \<Longrightarrow> P (f s)) \<Longrightarrow> preserves P (modifyS f)"
  by (simp add: preserves_def modifyS_def)

lemma bind_at: "P (snd (m s)) \<Longrightarrow> (\<And>a. preserves P (f a)) \<Longrightarrow> P (snd (bindS m f s))"
  by (auto simp: bindS_def preserves_def split: prod.split sum.split)

lemma preserves_bind [preserves_rules]: "preserves P m \<Longrightarrow> (\<And>a. preserves P (f a)) \<Longrightarrow> preserves P (bindS m f)"
  by (rule preservesI) (rule bind_at, erule preservesD)

lemma bindS_assoc: "bindS (bindS m f) g = bindS m (\<lambda>a. bindS (f a) g)"
  by (rule ext) (simp add: bindS_def split: prod.split sum.split)

lemma bindS_modify [simp]: "bindS (modifyS f) g s = g () (f s)"
  by (simp add: bindS_def modifyS_def)

lemma bindS_get [simp]: "bindS getS g s = g s s"
  by (simp add: bindS_def getS_def)

lemma preserves_assoc: "preserves P (bindS m (\<lambda>a. bindS (f a) g)) \<Longrightarrow> preserves P (bindS (bindS m f) g)"
  by (simp add: bindS_assoc)

text \<open>The continuation may use the state that was read.\<close>

lemma preserves_read: "(\<And>s. P s \<Longrightarrow> P (snd (f s s))) \<Longrightarrow> preserves P (bindS getS f)"
  by (simp add: preserves_def getS_def bindS_def)

lemma preserves_catch [preserves_rules]:
  assumes m: "preserves P m" and h: "\<And>e. preserves P (h e)"
  shows "preserves P (catchS m h)"
proof (rule preservesI)
  fix s
  assume "P s"
  then have "P (snd (m s))" by (rule preservesD [OF m])
  then show "P (snd (catchS m h s))" using h by (auto simp: catchS_def preserves_def split: prod.split sum.split)
qed

lemma preserves_attempt [preserves_rules]: "preserves P m \<Longrightarrow> preserves P (attemptS m)"
  unfolding attemptS_def by (intro preserves_rules)

lemma finallyS_cases:
  "finallyS m cleanup s = (case m s of (r, s') \<Rightarrow> if r = Inl Diverged then (r, s')
     else case cleanup s' of (Inl e, s'') \<Rightarrow> (Inl e, s'') | (Inr _, s'') \<Rightarrow> (r, s''))"
  by (simp add: finallyS_def split: prod.split sum.split harness_fault.split)

lemma preserves_finally [preserves_rules]:
  assumes m: "preserves P m" and c: "preserves P cleanup"
  shows "preserves P (finallyS m cleanup)"
proof (rule preservesI)
  fix s
  assume "P s"
  then have "P (snd (m s))" by (rule preservesD [OF m])
  then show "P (snd (finallyS m cleanup s))"
    using preservesD [OF c, of "snd (m s)"] by (auto simp: finallyS_cases split: prod.splits sum.splits)
qed

lemma preserves_if [preserves_rules]: "(b \<Longrightarrow> preserves P m) \<Longrightarrow> (\<not> b \<Longrightarrow> preserves P n) \<Longrightarrow> preserves P (if b then m else n)"
  by simp

lemma preserves_option [preserves_rules]:
  "(x = None \<Longrightarrow> preserves P m) \<Longrightarrow> (\<And>y. x = Some y \<Longrightarrow> preserves P (f y)) \<Longrightarrow> preserves P (case x of None \<Rightarrow> m | Some y \<Rightarrow> f y)"
  by (cases x) auto

lemma preserves_list [preserves_rules]:
  "(x = [] \<Longrightarrow> preserves P m) \<Longrightarrow> (\<And>y ys. x = y # ys \<Longrightarrow> preserves P (f y ys)) \<Longrightarrow> preserves P (case x of [] \<Rightarrow> m | y # ys \<Rightarrow> f y ys)"
  by (cases x) auto

lemma preserves_sum [preserves_rules]:
  "(\<And>e. x = Inl e \<Longrightarrow> preserves P (g e)) \<Longrightarrow> (\<And>y. x = Inr y \<Longrightarrow> preserves P (f y)) \<Longrightarrow> preserves P (case x of Inl e \<Rightarrow> g e | Inr y \<Rightarrow> f y)"
  by (cases x) auto

lemma preserves_pair [preserves_rules]: "(\<And>x y. p = (x, y) \<Longrightarrow> preserves P (f x y)) \<Longrightarrow> preserves P (case p of (x, y) \<Rightarrow> f x y)"
  by (cases p) simp

lemma preserves_let [preserves_rules]: "(\<And>x. x = a \<Longrightarrow> preserves P (f x)) \<Longrightarrow> preserves P (let x = a in f x)"
  by simp

lemma preserves_normalized [preserves_rules]: "preserves P m \<Longrightarrow> preserves P (normalized m)"
  unfolding normalized_def by (intro preserves_rules)

lemma preserves_asSessionError [preserves_rules]: "preserves P m \<Longrightarrow> preserves P (asSessionError m)"
  unfolding asSessionError_def by (intro preserves_rules)

lemma preserves_tell [preserves_rules]:
  "(\<And>l. l \<in> set ls \<Longrightarrow> preserves P (awaiting (l ev))) \<Longrightarrow> preserves P (tellListeners awaiting ls ev)"
  by (induction ls) (auto intro!: preserves_rules)

lemma preserves_fold: "(\<And>x. x \<in> set xs \<Longrightarrow> preserves P (f x)) \<Longrightarrow> P s \<Longrightarrow> P (fold (\<lambda>x s. snd (f x s)) xs s)"
proof (induction xs arbitrary: s)
  case (Cons x xs)
  have "P (snd (f x s))" using Cons.prems by (auto intro: preservesD)
  then show ?case using Cons.IH [of "snd (f x s)"] Cons.prems(1) by simp
qed simp

lemma preserves_handlers:
  "(\<And>h. h \<in> set hs \<Longrightarrow> preserves P (await env (h ev))) \<Longrightarrow> preserves P (runHandlers env hs ev r)"
  by (induction hs arbitrary: r) (auto intro!: preserves_rules split: option.split)

subsection \<open>What a relation on harnesses may look at\<close>

definition isTurnEvent :: "harness_event \<Rightarrow> bool" where
  "isTurnEvent ev = (case ev of BeforeUserTurn _ _ \<Rightarrow> True | UserTurnCommitted _ _ \<Rightarrow> True | UserTurnTerminal _ _ \<Rightarrow> True | _ \<Rightarrow> False)"

lemma isTurnEvent_simps [simp]:
  "\<not> isTurnEvent (LoopEvent e i)" "isTurnEvent (BeforeUserTurn t m)" "isTurnEvent (UserTurnCommitted t j)"
  "isTurnEvent (UserTurnTerminal t r)" "\<not> isTurnEvent (QueueUpdate a b c)" "\<not> isTurnEvent (SavePoint h)"
  "\<not> isTurnEvent (RunSettled n)" "\<not> isTurnEvent (AbortDone a b)" "\<not> isTurnEvent (SessionCompacted x h)"
  "\<not> isTurnEvent (SessionTreeMoved l l' x' h)" "\<not> isTurnEvent (ModelSelect m1 m2)" "\<not> isTurnEvent (ThinkingLevelSelect l1 l2)"
  by (simp_all add: isTurnEvent_def)

text \<open>The user turns of a harness, and what of it is stored or about to be.\<close>

definition turnsOf :: "('s, 'w) harness \<Rightarrow> nat \<times> userTurnBoundary list \<times> (userMessage \<Rightarrow> nat option) \<times> nat option \<times> harness_event list" where
  "turnsOf s = (hnUserTurnCounter s, hnBoundaries s, hnBoundaryOf s, hnActiveUserTurn s, filter isTurnEvent (hnEvents s))"

definition storedOf :: "('s, 'w) harness \<Rightarrow> 's \<times> entry_kind list \<times> entry_kind list \<times> entry_kind list" where
  "storedOf s = (hnSession s, hnPendingSessionWrites s, hnWrites s, hnDirectWrites s)"

text \<open>The user message has a boundary that is not terminal.\<close>

definition dueTurn :: "userMessage \<Rightarrow> ('s, 'w) harness \<Rightarrow> bool" where
  "dueTurn m s \<longleftrightarrow> (\<exists>i. hnBoundaryOf s m = Some i \<and> \<not> btTerminal (hnBoundaries s ! i))"

lemma dueTurn_turns: "turnsOf s' = turnsOf s \<Longrightarrow> dueTurn m s' = dueTurn m s"
  by (simp add: turnsOf_def dueTurn_def)

text \<open>No preparation or activation is queued, drained or under way.\<close>

definition drainFree :: "('s, 'w) followUpDrain \<Rightarrow> bool" where
  "drainFree d \<longleftrightarrow> set (drPreparations d) \<subseteq> {None} \<and> set (drActivations d) \<subseteq> {None}"

definition prepFree :: "('s, 'w) harness \<Rightarrow> bool" where
  "prepFree s \<longleftrightarrow> set (hnFollowUpPreparations s) \<subseteq> {None} \<and> set (hnFollowUpActivations s) \<subseteq> {None}
     \<and> (\<forall>d. hnInFlightDrain s = Some d \<longrightarrow> drainFree d) \<and> hnPreparedUserEntryIds s = []"

definition requestFree :: "('s, 'w) request \<Rightarrow> bool" where
  "requestFree q = (case q of FollowUp _ _ a p \<Rightarrow> a = None \<and> p = None | _ \<Rightarrow> True)"

definition plainWrite :: "entry_kind \<Rightarrow> bool" where
  "plainWrite k = (case k of MessageEntry _ \<Rightarrow> True | ModelChangeEntry _ _ \<Rightarrow> True | ThinkingLevelChangeEntry _ \<Rightarrow> True
     | _ \<Rightarrow> False)"

lemma plainWrite_simps [simp]: "plainWrite (MessageEntry m)" "plainWrite (ModelChangeEntry p i)" "plainWrite (ThinkingLevelChangeEntry l)"
  by (simp_all add: plainWrite_def)

definition flushOne :: "('s, 'w) harnessEnv \<Rightarrow> entry_kind \<Rightarrow> ('s, 'w, unit) harnessM" where
  "flushOne env k = bindS (writeEntry env k) (\<lambda>_. modifyS (\<lambda>s. s\<lparr>hnPendingSessionWrites := tl (hnPendingSessionWrites s)\<rparr>))"

lemma preserves_flushWrites:
  assumes one: "\<And>s k ks. P s \<Longrightarrow> hnPendingSessionWrites s = k # ks \<Longrightarrow> P (snd (flushOne env k s))"
  shows "preserves P (flushWrites env n)"
proof (induction n)
  case (Suc n)
  show ?case
    unfolding flushWrites.simps
  proof (rule preserves_read)
    fix s
    assume s: "P s"
    show "P (snd ((case hnPendingSessionWrites s of [] \<Rightarrow> retS ()
      | k # _ \<Rightarrow> bindS (writeEntry env k) (\<lambda>_. bindS (modifyS (\<lambda>s. s\<lparr>hnPendingSessionWrites := tl (hnPendingSessionWrites s)\<rparr>))
         (\<lambda>_. flushWrites env n))) s))"
    proof (cases "hnPendingSessionWrites s")
      case (Cons k ks)
      have "P (snd (bindS (flushOne env k) (\<lambda>_. flushWrites env n) s))"
        by (rule bind_at) (rule one [OF s Cons], rule Suc.IH)
      then show ?thesis by (simp add: Cons flushOne_def bindS_assoc)
    qed (simp add: s)
  qed
qed (simp add: preserves_def)

text \<open>
  The laws.  \<open>free\<close> says whether preparations and activations, which write to the session themselves,
  are in play.
\<close>

locale await_frame =
  fixes env :: "('s, 'w) harnessEnv" and R :: "agent_event list \<Rightarrow> ('s, 'w) harness \<Rightarrow> bool" and free :: bool
  assumes core: "R tr s \<Longrightarrow> turnsOf s' = turnsOf s \<Longrightarrow> storedOf s' = storedOf s \<Longrightarrow> hnDiverged s' = hnDiverged s \<Longrightarrow> R tr s'"
    and hung: "R tr s \<Longrightarrow> R tr (s\<lparr>hnDiverged := True\<rparr>)"
    and queued: "R tr s \<Longrightarrow> plainWrite k \<Longrightarrow> R tr (snd (queueWrite k s))"
    and direct: "R tr s \<Longrightarrow> plainWrite k \<or> (\<exists>t d. k = CustomEntry t d) \<Longrightarrow> R tr (snd (writeNow env k s))"
    and flushed: "R tr s \<Longrightarrow> hnPendingSessionWrites s = k # ks \<Longrightarrow> R tr (snd (flushOne env k s))"
    and leaf: "R tr s \<Longrightarrow> R tr (snd (onSession (opGetLeafId (heOps env)) s))"
    and foreign: "free \<Longrightarrow> R tr s \<Longrightarrow> R tr (s\<lparr>hnSession := t\<rparr>)"
    and requests: "\<not> free \<Longrightarrow> q \<in> set (fst (heRequests env w)) \<Longrightarrow> requestFree q"
begin

definition framed :: "agent_event list \<Rightarrow> ('s, 'w) harness \<Rightarrow> bool" where
  "framed tr s \<longleftrightarrow> R tr s \<and> (free \<or> prepFree s)"

lemma framed_same:
  "framed tr s \<Longrightarrow> turnsOf s' = turnsOf s \<Longrightarrow> storedOf s' = storedOf s \<Longrightarrow> hnDiverged s' = hnDiverged s
    \<Longrightarrow> (prepFree s \<Longrightarrow> prepFree s') \<Longrightarrow> framed tr s'"
  unfolding framed_def using core by blast

lemma framed_modify:
  "(\<And>s. turnsOf (f s) = turnsOf s) \<Longrightarrow> (\<And>s. storedOf (f s) = storedOf s) \<Longrightarrow> (\<And>s. hnDiverged (f s) = hnDiverged s) \<Longrightarrow> (\<And>s. prepFree s \<Longrightarrow> prepFree (f s))
    \<Longrightarrow> preserves (framed tr) (modifyS f)"
  by (rule preserves_modify) (rule framed_same)

named_theorems frame

lemmas frame_simps = turnsOf_def storedOf_def prepFree_def drainFree_def

lemma framed_outside: "framed tr s \<Longrightarrow> framed tr (s\<lparr>hnOutside := w\<rparr>)"
  by (erule framed_same) (simp_all add: frame_simps)

lemma frame_onOutside [frame]: "preserves (framed tr) (onOutside f)"
  by (rule preservesI) (auto simp: onOutside_def split: prod.split intro: framed_outside)

lemma frame_onClock [frame]: "preserves (framed tr) (onClock f)"
  by (rule preservesI) (auto simp: onClock_def split: prod.split intro: framed_outside)

lemma frame_readSession [frame]: "preserves (framed tr) (readSession f)"
  by (rule preservesI) (auto simp: readSession_def split: option.split sum.split)

lemma frame_log: "\<not> isTurnEvent ev \<Longrightarrow> preserves (framed tr) (modifyS (logEvent ev))"
  by (rule framed_modify) (simp_all add: frame_simps logEvent_def)

lemma frame_emitDuring: "\<not> isTurnEvent ev \<Longrightarrow> preserves (framed tr) (emitDuring env ev)"
  unfolding emitDuring_def by (intro preserves_rules frame_log frame)

lemma frame_createUserMessage [frame]: "preserves (framed tr) (createUserMessage env text images)"
  unfolding createUserMessage_def by (intro preserves_rules frame)

lemma frame_queueUpdate: "(\<And>ev. \<not> isTurnEvent ev \<Longrightarrow> preserves (framed tr) (tell ev)) \<Longrightarrow> preserves (framed tr) (emitQueueUpdate tell)"
  unfolding emitQueueUpdate_def by (intro preserves_rules) simp

lemma prepFree_queueWrite: "prepFree (snd (queueWrite k s)) = prepFree s"
  by (simp add: queueWrite_def modifyS_def prepFree_def)

lemma frame_queueWrite [frame]: "plainWrite k \<Longrightarrow> preserves (framed tr) (queueWrite k)"
  by (rule preservesI) (auto simp: framed_def queued prepFree_queueWrite)

lemma prepFree_writeNow: "prepFree (snd (writeNow env k s)) = prepFree s"
  by (cases k) (auto simp: writeNow_def writeEntry_def appendToSession_def onClock_def onSession_def bindS_def modifyS_def
      prepFree_def Let_def split: prod.split sum.split)

lemma frame_writeNow [frame]: "plainWrite k \<or> (\<exists>t d. k = CustomEntry t d) \<Longrightarrow> preserves (framed tr) (writeNow env k)"
  by (rule preservesI) (auto simp: framed_def direct prepFree_writeNow)

subsection \<open>Requests\<close>

lemma framed_tools: "framed tr s \<Longrightarrow> framed tr (s\<lparr>hnTools := ts, hnActiveToolNames := ns\<rparr>)"
  by (erule framed_same) (simp_all add: frame_simps)

lemma frame_steer:
  assumes tell: "\<And>ev. \<not> isTurnEvent ev \<Longrightarrow> preserves (framed tr) (tell ev)"
  shows "preserves (framed tr) (steer env tell text images)"
  unfolding steer_def by (intro preserves_rules frame frame_queueUpdate tell framed_modify) (simp_all add: frame_simps)

lemma frame_followUp:
  assumes tell: "\<And>ev. \<not> isTurnEvent ev \<Longrightarrow> preserves (framed tr) (tell ev)" and free: "free \<or> a = None \<and> p = None"
  shows "preserves (framed tr) (followUp env tell text images a p)"
proof -
  have "preserves (framed tr) (modifyS (\<lambda>s. s\<lparr>hnFollowUpQueue := hnFollowUpQueue s @ [m],
           hnFollowUpPreparations := hnFollowUpPreparations s @ [p], hnFollowUpActivations := hnFollowUpActivations s @ [a]\<rparr>))" for m
  proof (rule preserves_modify)
    fix s :: "('s, 'w) harness"
    let ?s = "s\<lparr>hnFollowUpQueue := hnFollowUpQueue s @ [m], hnFollowUpPreparations := hnFollowUpPreparations s @ [p],
      hnFollowUpActivations := hnFollowUpActivations s @ [a]\<rparr>"
    assume "framed tr s"
    then show "framed tr ?s" using free core [of tr s ?s] by (auto simp: framed_def frame_simps)
  qed
  then show ?thesis unfolding followUp_def by (intro preserves_rules frame frame_queueUpdate tell)
qed

lemma frame_nextTurn:
  assumes tell: "\<And>ev. \<not> isTurnEvent ev \<Longrightarrow> preserves (framed tr) (tell ev)"
  shows "preserves (framed tr) (nextTurn env tell text images)"
  unfolding nextTurn_def by (intro preserves_rules frame frame_queueUpdate tell framed_modify) (simp_all add: frame_simps)

lemma frame_validate [frame]: "preserves (framed tr) (validateToolNames ns ts)"
  unfolding validateToolNames_def by (intro preserves_rules)

lemma framed_clearQueues: "framed tr s \<Longrightarrow> framed tr (clearQueues s)"
  by (erule framed_same) (auto simp: frame_simps clearQueues_def)

lemma frame_startAbort:
  assumes tell: "\<And>ev. \<not> isTurnEvent ev \<Longrightarrow> preserves (framed tr) (tell ev)"
  shows "preserves (framed tr) (startAbort tell)"
  unfolding startAbort_def by (intro preserves_rules frame_queueUpdate tell preserves_modify framed_clearQueues)

lemma frame_setModel:
  assumes tell: "\<And>ev. \<not> isTurnEvent ev \<Longrightarrow> preserves (framed tr) (tell ev)"
  shows "preserves (framed tr) (setModel env tell m)"
proof -
  have "preserves (framed tr) ((if b then writeNow env else queueWrite) (ModelChangeEntry p i))" for b p i
    by (cases b) (simp_all add: frame)
  moreover have "preserves (framed tr) (modifyS (\<lambda>s. s\<lparr>hnModel := m\<rparr>))" by (rule framed_modify) (simp_all add: frame_simps)
  ultimately show ?thesis unfolding setModel_def by (intro preserves_rules tell) simp_all
qed

lemma frame_setThinkingLevel:
  assumes tell: "\<And>ev. \<not> isTurnEvent ev \<Longrightarrow> preserves (framed tr) (tell ev)"
  shows "preserves (framed tr) (setThinkingLevel env tell l)"
proof -
  have "preserves (framed tr) ((if b then writeNow env else queueWrite) (ThinkingLevelChangeEntry k))" for b k
    by (cases b) (simp_all add: frame)
  moreover have "preserves (framed tr) (modifyS (\<lambda>s. s\<lparr>hnThinkingLevel := l\<rparr>))" by (rule framed_modify) (simp_all add: frame_simps)
  ultimately show ?thesis unfolding setThinkingLevel_def by (intro preserves_rules tell) simp_all
qed

lemma frame_settings:
  "preserves (framed tr) (modifyS (\<lambda>s. s\<lparr>hnSteeringQueueMode := m\<rparr>))"
  "preserves (framed tr) (modifyS (\<lambda>s. s\<lparr>hnFollowUpQueueMode := m\<rparr>))"
  "preserves (framed tr) (modifyS (\<lambda>s. s\<lparr>hnStreamOptions := opts\<rparr>))"
  "preserves (framed tr) (modifyS (\<lambda>s. s\<lparr>hnAbortWaiters := hnAbortWaiters s @ [c]\<rparr>))"
  "preserves (framed tr) (modifyS (\<lambda>s. s\<lparr>hnActiveToolNames := ns\<rparr>))"
  by (rule framed_modify; simp add: frame_simps)+

lemma frame_setTools: "preserves (framed tr) (setTools ts ns)"
  unfolding setTools_def by (intro preserves_rules frame preserves_modify framed_tools)

lemma frame_setActiveTools: "preserves (framed tr) (setActiveTools ns)"
  unfolding setActiveTools_def by (intro preserves_rules frame frame_settings)

lemma frame_perform:
  assumes tell: "\<And>ev. \<not> isTurnEvent ev \<Longrightarrow> preserves (framed tr) (tell ev)" and free: "free \<or> requestFree q"
  shows "preserves (framed tr) (perform env tell q)"
proof (cases q)
  case (FollowUp t images a p)
  then show ?thesis using frame_followUp [OF tell] free by (simp add: perform_def requestFree_def)
next
  case (AppendMessage m)
  show ?thesis unfolding perform_def AppendMessage request.case harnessAppendMessage_def by (intro preserves_rules frame) simp_all
next
  case (AppendCustom t d)
  show ?thesis unfolding perform_def AppendCustom request.case harnessAppendCustomEntry_def by (intro preserves_rules frame) simp
next
  case Abort
  show ?thesis unfolding perform_def Abort request.case by (intro preserves_rules frame_startAbort tell frame_settings)
next
  case (Steer t images)
  show ?thesis unfolding perform_def Steer request.case by (rule frame_steer [OF tell])
next
  case (NextTurn t images)
  show ?thesis unfolding perform_def NextTurn request.case by (rule frame_nextTurn [OF tell])
next
  case (SetModel m)
  show ?thesis unfolding perform_def SetModel request.case by (rule frame_setModel [OF tell])
next
  case (SetThinkingLevel l)
  show ?thesis unfolding perform_def SetThinkingLevel request.case by (rule frame_setThinkingLevel [OF tell])
next
  case (SetActiveTools ns)
  show ?thesis unfolding perform_def SetActiveTools request.case by (rule frame_setActiveTools)
next
  case (SetTools ts ns)
  show ?thesis unfolding perform_def SetTools request.case by (rule frame_setTools)
next
  case (SetSteeringMode m)
  show ?thesis unfolding perform_def SetSteeringMode request.case by (rule frame_settings)
next
  case (SetFollowUpMode m)
  show ?thesis unfolding perform_def SetFollowUpMode request.case by (rule frame_settings)
next
  case (SetStreamOptions opts)
  show ?thesis unfolding perform_def SetStreamOptions request.case by (rule frame_settings)
qed

lemma framed_interleave:
  assumes "framed tr s"
  shows "framed tr (interleave env s)"
proof -
  obtain qs w where qs: "heRequests env (hnOutside s) = (qs, w)" by fastforce
  have "preserves (framed tr) (perform env (emitDuring env) q)" if "q \<in> set qs" for q
    by (rule frame_perform [OF frame_emitDuring]) (use that requests [of q "hnOutside s"] qs in auto)
  then have "framed tr (fold (\<lambda>q s. snd (perform env (emitDuring env) q s)) qs (s\<lparr>hnOutside := w\<rparr>))"
    by (rule preserves_fold [where P = "framed tr" and f = "perform env (emitDuring env)"]) (assumption, rule framed_outside [OF assms])
  then show ?thesis by (simp add: interleave_def qs)
qed

lemma framed_hung: "framed tr s \<Longrightarrow> framed tr (s\<lparr>hnDiverged := True\<rparr>)"
  by (auto simp: framed_def hung prepFree_def)

lemma framed_marked: "framed tr s \<Longrightarrow> framed tr (markDiverged r s)"
  by (auto simp: markDiverged_def framed_hung split: sum.split harness_fault.split)

lemma frame_await [frame]: "preserves (framed tr) (await env f)"
  by (rule preservesI)
    (auto simp: await_def split: prod.split intro!: framed_interleave framed_marked dest: preserves_outcome [OF frame_onOutside])

lemma frame_tell: "preserves (framed tr) (tellListeners (await env) ls ev)"
  by (intro preserves_rules frame)

lemma frame_awaitSession:
  assumes free
  shows "preserves (framed tr) (awaitSession env f)"
proof (rule preservesI)
  fix s
  assume s: "framed tr s"
  have "framed tr (s\<lparr>hnSession := t, hnOutside := w\<rparr>)" for t w
  proof -
    have "R tr (s\<lparr>hnSession := t\<rparr>)" using foreign [OF assms] s unfolding framed_def by blast
    then have "framed tr (s\<lparr>hnSession := t\<rparr>)" using assms unfolding framed_def by blast
    from framed_outside [OF this, of w] show ?thesis by simp
  qed
  then show "framed tr (snd (awaitSession env f s))"
    by (auto simp: awaitSession_def split: prod.split intro: framed_interleave framed_marked)
qed

lemma frame_emitOwn: "\<not> isTurnEvent ev \<Longrightarrow> preserves (framed tr) (emitOwn env ev)"
  unfolding emitOwn_def by (intro preserves_rules frame_log frame)

lemma frame_emitHook [frame]: "preserves (framed tr) (emitHook env hs ev)"
  unfolding emitHook_def by (intro preserves_handlers frame)

lemma frame_emitQueueUpdate [frame]: "preserves (framed tr) (emitQueueUpdate (emitOwn env))"
  by (intro frame_queueUpdate frame_emitOwn)

subsection \<open>Session writes and turn states\<close>

lemma prepFree_writeEntry: "prepFree (snd (writeEntry env k s)) = prepFree s"
  by (cases k) (auto simp: writeEntry_def appendToSession_def onClock_def onSession_def bindS_def
      prepFree_def Let_def split: prod.split sum.split)

lemma frame_flushOne: "framed tr s \<Longrightarrow> hnPendingSessionWrites s = k # ks \<Longrightarrow> framed tr (snd (flushOne env k s))"
  unfolding framed_def using flushed prepFree_writeEntry [of k s]
  by (auto simp: flushOne_def bindS_def modifyS_def prepFree_def split: prod.splits sum.splits)

lemma frame_flushWrites [frame]: "preserves (framed tr) (flushWrites env n)"
  by (rule preserves_flushWrites) (rule frame_flushOne)

lemma frame_flush [frame]: "preserves (framed tr) (flushPendingSessionWrites env)"
  unfolding flushPendingSessionWrites_def by (intro preserves_rules frame)

lemma frame_leaf [frame]: "preserves (framed tr) (onSession (opGetLeafId (heOps env)))"
proof (rule preservesI)
  fix s
  assume "framed tr s"
  moreover have "prepFree (snd (onSession (opGetLeafId (heOps env)) s)) = prepFree s"
    by (auto simp: onSession_def prepFree_def split: prod.split sum.split)
  ultimately show "framed tr (snd (onSession (opGetLeafId (heOps env)) s))" using leaf by (auto simp: framed_def)
qed

lemma frame_systemPrompt [frame]: "preserves (framed tr) (systemPromptOf env tools)"
  unfolding systemPromptOf_def by (cases "heSystemPrompt env") (auto intro!: preserves_rules frame)

lemma frame_createTurnState [frame]: "preserves (framed tr) (createTurnState env)"
  unfolding createTurnState_def by (intro preserves_rules frame)

lemma frame_setTurnState [frame]: "preserves (framed tr) (setTurnState ts)"
  unfolding setTurnState_def by (rule framed_modify) (simp_all add: frame_simps)

lemma frame_setSuffix [frame]: "preserves (framed tr) (setSuffix x)"
  unfolding setSuffix_def by (rule framed_modify) (simp_all add: frame_simps)

lemma frame_turnUpdateOf [frame]: "preserves (framed tr) (turnUpdateOf env ts)"
  unfolding turnUpdateOf_def by (intro preserves_rules)

lemma frame_prepareTurn [frame]: "preserves (framed tr) (prepareTurn env keep)"
  unfolding prepareTurn_def by (intro preserves_rules frame)

lemma frame_throwIfAborted [frame]: "preserves (framed tr) (throwIfAborted c)"
  unfolding throwIfAborted_def by (intro preserves_rules)

lemma frame_prepareUserMessage: "free \<Longrightarrow> preserves (framed tr) (prepareUserMessage env ts ms m f)"
  unfolding prepareUserMessage_def by (rule frame_awaitSession)

lemma frame_activate: "free \<or> a = None \<Longrightarrow> preserves (framed tr) (activateFollowUp env a)"
  unfolding activateFollowUp_def by (intro preserves_rules frame_awaitSession) auto

subsection \<open>Queues\<close>

lemma framed_prepend:
  "framed tr s \<Longrightarrow> free \<or> set ps \<subseteq> {None} \<and> set as \<subseteq> {None} \<Longrightarrow> framed tr (prependFollowUps ms ps as s)"
  using core [of tr s "prependFollowUps ms ps as s"] by (auto simp: framed_def frame_simps prependFollowUps_def)

lemma framed_giveBack: "framed tr s \<Longrightarrow> free \<or> drainFree d \<Longrightarrow> framed tr (giveBack d s)"
  by (auto simp: giveBack_def drainFree_def intro!: framed_prepend)

lemma framed_noDrain: "framed tr s \<Longrightarrow> framed tr (s\<lparr>hnInFlightDrain := None\<rparr>)"
  by (erule framed_same) (simp_all add: frame_simps)

lemma frame_takeNextTurn [frame]: "preserves (framed tr) (takeNextTurn env)"
proof -
  have "preserves (framed tr) (modifyS (\<lambda>s. s\<lparr>hnNextTurnQueue := f s\<rparr>))" for f
    by (rule framed_modify) (simp_all add: frame_simps)
  then show ?thesis unfolding takeNextTurn_def by (intro preserves_rules frame)
qed

lemma frame_drainSteering [frame]: "preserves (framed tr) (drainSteering env)"
proof -
  have "preserves (framed tr) (modifyS (\<lambda>s. if b s then s\<lparr>hnSteerQueue := f s\<rparr> else s))" for b f
    by (rule framed_modify) (simp_all add: frame_simps)
  from this [of "\<lambda>_. True"] this show ?thesis unfolding drainSteering_def by (intro preserves_rules frame) simp
qed

lemma framed_startDrain: "framed tr s \<Longrightarrow> framed tr (startDrain s)"
  by (erule framed_same) (auto simp: frame_simps startDrain_def newDrain_def dest!: in_set_takeD in_set_dropD)

lemma newDrain_free: "framed tr s \<Longrightarrow> free \<or> drainFree (newDrain s)"
  by (auto simp: framed_def prepFree_def newDrain_def drainFree_def dest!: in_set_takeD)

lemma frame_drainFollowUps [frame]: "preserves (framed tr) (drainFollowUpMessages env)"
  unfolding drainFollowUpMessages_def Let_def
proof (rule preserves_read)
  fix s
  assume s: "framed tr s"
  define rest where "rest = catchS (bindS (emitQueueUpdate (emitOwn env)) (\<lambda>_. retS (map UserMsg (drMessages (newDrain s)))))
    (\<lambda>e. bindS (modifyS (\<lambda>s'. (giveBack (newDrain s) s')\<lparr>hnInFlightDrain := None\<rparr>)) (\<lambda>_.
       bindS (attemptS (emitQueueUpdate (emitOwn env))) (\<lambda>_. throwS (normalizeHookError e))))"
  have "preserves (framed tr) (modifyS (\<lambda>s'. (giveBack (newDrain s) s')\<lparr>hnInFlightDrain := None\<rparr>))"
    by (intro preserves_modify framed_noDrain framed_giveBack newDrain_free [OF s])
  then have "preserves (framed tr) rest" unfolding rest_def by (intro preserves_rules frame)
  then have "framed tr (snd ((if drMessages (newDrain s) = [] then retS [] else bindS (modifyS startDrain) (\<lambda>_. rest)) s))"
    using s framed_startDrain [OF s] by (simp add: preserves_def)
  then show "framed tr (snd ((if drMessages (newDrain s) = [] then retS [] else bindS (modifyS startDrain) (\<lambda>_.
      catchS (bindS (emitQueueUpdate (emitOwn env)) (\<lambda>_. retS (map UserMsg (drMessages (newDrain s)))))
    (\<lambda>e. bindS (modifyS (\<lambda>s'. (giveBack (newDrain s) s')\<lparr>hnInFlightDrain := None\<rparr>)) (\<lambda>_.
       bindS (attemptS (emitQueueUpdate (emitOwn env))) (\<lambda>_. throwS (normalizeHookError e)))))) s))"
    unfolding rest_def .
qed

subsection \<open>Callbacks of a run\<close>

lemma framed_asOutside:
  assumes "preserves (framed tr) m" "framed tr s"
  shows "framed tr (snd (asOutside m s))"
proof -
  obtain r s' where r: "m s = (r, s')" by fastforce
  have s': "framed tr s'" by (rule preserves_outcome [OF assms r])
  then have "framed tr (s'\<lparr>hnDiverged := True\<rparr>)" by (rule framed_hung)
  then show ?thesis using s' r by (simp add: asOutside_def split: sum.split)
qed

lemma frame_patch [frame]: "preserves (framed tr) (patchStreamOptions env hs m o')"
  by (induction hs arbitrary: o') (auto intro!: preserves_rules frame)

lemma frame_beforeRequest [frame]: "preserves (framed tr) (emitBeforeProviderRequest env m o')"
  unfolding emitBeforeProviderRequest_def by (rule frame)

lemma frame_askAuth [frame]: "preserves (framed tr) (askAuth env m)"
  unfolding askAuth_def by (intro preserves_rules frame)

lemma frame_prepared:
  "preserves (framed tr) (modifyS (\<lambda>s. s\<lparr>hnPreparedProviderRequests := a\<rparr>))"
  "preserves (framed tr) (modifyS (\<lambda>s. s\<lparr>hnPreparedContextTransforms := b\<rparr>))"
  "preserves (framed tr) (modifyS (\<lambda>s. s\<lparr>hnPreparedProviderReceipts := c, hnActivePreparedProviderUserEntryId := d\<rparr>))"
  "preserves (framed tr) (modifyS (\<lambda>s. s\<lparr>hnPreparedProviderReceipts := c, hnActivePreparedProviderUserEntryId := d,
     hnPreparedContextTransforms := b\<rparr>))"
  by (rule framed_modify; simp add: frame_simps)+

lemma frame_streamFn [frame]: "preserves (framed tr) (streamFn env m c o')"
  unfolding streamFn_def by (intro preserves_rules frame frame_prepared)

lemma frame_transformContext [frame]: "preserves (framed tr) (transformContext env ms)"
  unfolding transformContext_def
  by (intro preserves_rules) (auto intro!: preserves_rules frame frame_prepared)

end

end
