(* ===== verification/HarnessFrames.thy ===== *)
theory HarnessFrames
  imports HarnessLogic
begin

section \<open>What a run of the harness preserves\<close>

text \<open>
  The interface \<open>harness_frame\<close> extends \<open>await_frame\<close> by the laws of the user turns and of the messages
  a run stores: reporting the end of a message extends the relation by that event.  Every harness
  frame is a frame of the agent loop (\<open>loop_frame\<close>), with the harness as the loop's world, so a run
  keeps the relation; a run that fails has stored the messages whose end was reported, but perhaps the last.
\<close>

subsection \<open>Outcomes\<close>

lemma bindS_Inr_iff: "bindS m f s = (Inr b, s') \<longleftrightarrow> (\<exists>a s1. m s = (Inr a, s1) \<and> f a s1 = (Inr b, s'))"
  by (auto simp: bindS_def split: prod.splits sum.splits)

lemma bindS_Inl_iff: "bindS m f s = (Inl e, s') \<longleftrightarrow> m s = (Inl e, s') \<or> (\<exists>a s1. m s = (Inr a, s1) \<and> f a s1 = (Inl e, s'))"
  by (auto simp: bindS_def split: prod.splits sum.splits)

lemma bindS_ret: "bindS (retS a) f = f a"
  by (rule ext) (simp add: bindS_def)

definition preservesTo :: "('s \<Rightarrow> bool) \<Rightarrow> ('s \<Rightarrow> bool) \<Rightarrow> ('s, harness_fault, 'a) action \<Rightarrow> bool" where
  "preservesTo P Q m \<longleftrightarrow> (\<forall>s. P s \<longrightarrow> Q (snd (m s)))"

lemma to_bind:
  assumes "preserves P m" "\<And>s. P s \<Longrightarrow> Q s" "\<And>a. preservesTo P Q (f a)"
  shows "preservesTo P Q (bindS m f)"
  unfolding preservesTo_def
proof (intro allI impI)
  fix s
  assume "P s"
  then have "P (snd (m s))" by (rule preservesD [OF assms(1)])
  then show "Q (snd (bindS m f s))" using assms(2,3) by (auto simp: bindS_def preservesTo_def split: prod.split sum.split)
qed

lemma to_end: "preservesTo P Q m \<Longrightarrow> (\<And>a. preserves Q (f a)) \<Longrightarrow> preservesTo P Q (bindS m f)"
  unfolding preservesTo_def using bind_at [of Q m] by blast

lemma to_weaken: "preserves P m \<Longrightarrow> (\<And>s. P s \<Longrightarrow> Q s) \<Longrightarrow> preservesTo P Q m"
  by (simp add: preservesTo_def preserves_def)

lemma preserves_both: "preserves P m \<Longrightarrow> preserves Q m \<Longrightarrow> preserves (\<lambda>s. P s \<and> Q s) m"
  by (simp add: preserves_def)

text \<open>The part of a run's life cycle that is needed here.\<close>

lemma agent_run_ended:
  assumes "runAgentLoop host fuel config prompts ctx \<lparr>lrTrace = [], lrWorld = w\<rparr> = (Inr ms, s')"
  shows "endedMessages (lrTrace s') = ms \<and> take (length prompts) ms = prompts"
  using emits_runAgentLoop [of host fuel config prompts ctx] assms unfolding emits_def runEvents_def by fastforce

subsection \<open>The user turns are left alone by everything that awaits\<close>

lemma writeEntry_turns: "turnsOf (snd (writeEntry env k s)) = turnsOf s"
  by (cases k) (auto simp: writeEntry_def appendToSession_def onClock_def onSession_def bindS_def
    turnsOf_def Let_def split: prod.split sum.split)

lemma stored_turns:
  "turnsOf (snd (queueWrite k s)) = turnsOf s"
  "turnsOf (snd (writeNow env k s)) = turnsOf s"
  "turnsOf (snd (flushOne env k s)) = turnsOf s"
  "turnsOf (snd (onSession f s)) = turnsOf s"
  "turnsOf (s\<lparr>hnSession := t\<rparr>) = turnsOf s"
  "turnsOf (s\<lparr>hnDiverged := d\<rparr>) = turnsOf s"
  using writeEntry_turns [of env k s]
  by (auto simp: queueWrite_def writeNow_def flushOne_def onSession_def bindS_def modifyS_def turnsOf_def split: prod.splits sum.splits)

interpretation kept: await_frame env "\<lambda>_ s. turnsOf s = v" True for env v
  by unfold_locales (simp_all add: stored_turns)

lemma kept_turns: "(\<And>v. preserves (kept.framed v []) m) \<Longrightarrow> turnsOf (snd (m s)) = turnsOf s"
  by (simp add: preserves_def kept.framed_def)

lemma kept_due:
  assumes "\<And>v. preserves (kept.framed v []) m"
  shows "preserves (dueTurn u) m"
  unfolding preserves_def dueTurn_turns [OF kept_turns [OF assms]] by simp

lemma tell_turns: "turnsOf (snd (tellListeners (await env) ls ev s)) = turnsOf s"
  by (rule kept_turns) (intro preserves_rules kept.frame)

lemma emitOwn_turns: "turnsOf (snd (emitOwn env ev s)) = turnsOf (logEvent ev s)"
  by (simp add: emitOwn_def tell_turns)

lemma boundaries_of_turns: "turnsOf s' = turnsOf s \<Longrightarrow> hnBoundaries s' = hnBoundaries s \<and> hnBoundaryOf s' = hnBoundaryOf s
   \<and> hnActiveUserTurn s' = hnActiveUserTurn s \<and> hnUserTurnCounter s' = hnUserTurnCounter s"
  by (simp add: turnsOf_def)

lemma startUserTurn_due: "startUserTurn env m s = (Inr i, s') \<Longrightarrow> dueTurn m s'"
proof -
  assume run: "startUserTurn env m s = (Inr i, s')"
  let ?s = "openBoundary m s" and ?i = "length (hnBoundaries s)"
  let ?ev = "BeforeUserTurn (btToken (hnBoundaries ?s ! ?i)) m"
  have "bindS (emitOwn env ?ev) (\<lambda>_. retS ?i) ?s = (Inr i, s')"
    using run unfolding startUserTurn_def Let_def
    by (auto simp: catchS_def bindS_def [of "attemptS _"] split: prod.splits sum.splits option.splits if_splits)
  then have "s' = snd (emitOwn env ?ev ?s)" by (auto simp: bindS_Inr_iff)
  then have "turnsOf s' = turnsOf (logEvent ?ev ?s)" by (simp add: emitOwn_turns)
  then show ?thesis by (auto simp: turnsOf_def logEvent_def openBoundary_def dueTurn_def)
qed

lemma beginUserTurn_due: "beginUserTurn env m s = (Inr i, s') \<Longrightarrow> dueTurn m s'"
  by (auto simp: beginUserTurn_def Let_def bindS_Inr_iff dueTurn_def split: option.splits if_splits dest: startUserTurn_due)

subsection \<open>The laws of a run\<close>

text \<open>The event concerns a user message only while its turn is under way.\<close>

lemma dueWhen_ended:
  "dueWhen U (MessageEnd m) s \<longleftrightarrow> (\<forall>u. m = UserMsg u \<longrightarrow> U u s)"
  by (cases m) (simp_all add: dueWhen_def)

locale harness_frame = await_frame env R free
  for env :: "('s, 'w) harnessEnv" and R :: "agent_event list \<Rightarrow> ('s, 'w) harness \<Rightarrow> bool" and free :: bool +
  assumes begin_turn: "framed tr s \<Longrightarrow> framed tr (snd (beginUserTurn env m s))"
    and commit_turn: "framed tr s \<Longrightarrow> dueTurn m s \<Longrightarrow> framed tr (snd (commitUserTurn env m i s))"
    and end_turn: "framed tr s \<Longrightarrow> framed tr (snd (terminalizeActiveUserTurn env r s))"
    and fail_turn: "framed tr s \<Longrightarrow> framed tr (snd (failUserTurnPreparation env m c s))"
    and reported: "R tr s \<Longrightarrow> free \<or> (\<forall>m. ev \<noteq> MessageEnd m) \<Longrightarrow> R (tr @ [ev]) s"
    and stored: "R tr s \<Longrightarrow> appendToSession env (\<lambda>now. appendMessage (heOps env) now x) s = (Inr i, s') \<Longrightarrow> R (tr @ [MessageEnd x]) s'"
    and unstored: "R tr s \<Longrightarrow> appendToSession env (\<lambda>now. appendMessage (heOps env) now x) s = (Inl e, s') \<Longrightarrow> R tr s'"
begin

lemma frame_begin: "preserves (framed tr) (beginUserTurn env m)"
  by (rule preservesI) (rule begin_turn)

lemma frame_end: "preserves (framed tr) (terminalizeActiveUserTurn env r)"
  by (rule preservesI) (rule end_turn)

lemma frame_fail: "preserves (framed tr) (failUserTurnPreparation env m c)"
  by (rule preservesI) (rule fail_turn)

lemma framedD: "preserves (framed tr) m \<Longrightarrow> framed tr s \<Longrightarrow> framed tr (snd (m s))"
  by (rule preservesD)

definition framedDue :: "agent_event list \<Rightarrow> userMessage \<Rightarrow> ('s, 'w) harness \<Rightarrow> bool" where
  "framedDue tr u s \<longleftrightarrow> framed tr s \<and> dueTurn u s"

lemma due_keeps: "preserves (framed tr) m \<Longrightarrow> (\<And>v. preserves (kept.framed v []) m) \<Longrightarrow> preserves (framedDue tr u) m"
  unfolding framedDue_def by (rule preserves_both) (simp_all add: kept_due)

lemma due_commit: "preservesTo (framedDue tr u) (framed tr) (commitUserTurn env u i)"
  by (simp add: preservesTo_def framedDue_def commit_turn)

lemma due_framed: "framedDue tr u s \<Longrightarrow> framed tr s"
  by (simp add: framedDue_def)

text \<open>After \<open>beginUserTurn\<close> the turn is under way.\<close>

lemma begin_then:
  assumes "\<And>i. preservesTo (framedDue tr u) (framed tr) (f i)"
  shows "preserves (framed tr) (bindS (beginUserTurn env u) f)"
proof (rule preservesI)
  fix s
  assume s: "framed tr s"
  show "framed tr (snd (bindS (beginUserTurn env u) f s))"
    using begin_turn [OF s, of u] beginUserTurn_due [of env u s] assms
    by (auto simp: bindS_def preservesTo_def framedDue_def split: prod.split sum.split)
qed

lemma framed_recordPrepared:
  "framed tr s \<Longrightarrow> framed tr (s\<lparr>hnPreparedProviderRequests := a, hnPreparedProviderReceipts := b,
    hnPreparedContextTransforms := x, hnPreparedProviderPayloads := y\<rparr>)"
  by (erule framed_same) (simp_all add: frame_simps)

lemma framed_ids: "free \<Longrightarrow> framed tr s \<Longrightarrow> framed tr (s\<lparr>hnPreparedUserEntryIds := ids\<rparr>)"
  unfolding framed_def using core [of tr s "s\<lparr>hnPreparedUserEntryIds := ids\<rparr>"] by (simp add: turnsOf_def storedOf_def)

lemma framed_suffix: "framed tr s \<Longrightarrow> framed tr (s\<lparr>hnSystemPromptSuffix := x\<rparr>)"
  by (erule framed_same) (simp_all add: frame_simps)

lemma frame_adopt: "free \<Longrightarrow> preserves (framed tr) (modifyS (adoptPrepared p))"
  unfolding adoptPrepared_def recordPrepared_def
  by (intro preserves_modify framed_ids framed_suffix framed_noDrain framed_recordPrepared)

lemma frame_runPreparation:
  assumes "free \<or> prepare = None"
  shows "preservesTo (framedDue tr m) (framed tr) (runPreparation env c m prepare ts)"
proof (cases prepare)
  case None
  have "preserves (framed tr) (modifyS (\<lambda>s. s\<lparr>hnInFlightDrain := None, hnSystemPromptSuffix := []\<rparr>))"
    by (intro preserves_modify framed_suffix framed_noDrain)
  then have "preserves (framed tr) (runPreparation env c m prepare ts)"
    unfolding runPreparation_def None option.case by (intro preserves_rules frame)
  then show ?thesis by (simp add: preservesTo_def preserves_def framedDue_def)
next
  case (Some f)
  then have free: free using assms by simp
  show ?thesis
    unfolding runPreparation_def Some option.case
    by (intro to_bind [OF due_keeps] due_framed to_end [OF due_commit] preserves_rules frame frame_prepareUserMessage [OF free]
      kept.frame_prepareUserMessage frame_adopt [OF free] TrueI)
qed

lemma due_nextTurnState: "preserves (framedDue tr u) (nextTurnState env c)"
  unfolding nextTurnState_def by (intro preserves_rules due_keeps frame kept.frame)

lemma frame_prepareDrained:
  assumes drain: "free \<or> drainFree d"
  shows "preserves (framed tr) (prepareDrained env c d m)"
  unfolding prepareDrained_def
proof (rule begin_then)
  have first: "free \<or> firstOf (drActivations d) = None" "free \<or> firstOf (drPreparations d) = None"
    using drain by (auto simp: drainFree_def firstOf_def split: list.split)
  have rest: "preservesTo (framedDue tr m) (framed tr) (bindS (nextTurnState env c) (runPreparation env c m p))"
    if "free \<or> p = None" for p
    by (intro to_bind due_nextTurnState due_framed frame_runPreparation that)
  show "preservesTo (framedDue tr m) (framed tr) (bindS (activateFollowUp env (firstOf (drActivations d))) (\<lambda>activated.
    bindS (nextTurnState env c) (runPreparation env c m (orPreparation activated (firstOf (drPreparations d))))))"
  proof (cases free)
    case True
    then show ?thesis by (intro to_bind [OF due_keeps] due_framed rest frame_activate kept.frame_activate) simp_all
  next
    case False
    then show ?thesis using first rest [of None] by (simp add: activateFollowUp_def bindS_ret orPreparation_def)
  qed
qed

lemma frame_prepareFollowUp: "preserves (framed tr) (prepareFollowUpTurn env c)"
  unfolding prepareFollowUpTurn_def
proof (rule preserves_bind [OF frame_throwIfAborted], rule preserves_read)
  fix a s
  assume s: "framed tr s"
  show "framed tr (snd ((case hnInFlightDrain s of None \<Rightarrow> prepareTurn env False
    | Some drain \<Rightarrow> let m = hd (drMessages drain) in
       catchS (prepareDrained env c drain m) (\<lambda>e.
         bindS (attemptS (failUserTurnPreparation env m c)) (\<lambda>lifecycleError.
         bindS (modifyS (\<lambda>s. (if isTerminalPreparation e then s else giveBack drain s)\<lparr>hnInFlightDrain := None\<rparr>)) (\<lambda>_.
         bindS (attemptS (emitQueueUpdate (emitOwn env))) (\<lambda>_.
         if lifecycleError \<noteq> None
         then throwS (AggregateFault ''Follow-up preparation and lifecycle finalization failed'')
         else throwS (normalizeHookError (terminalCause e))))))) s))"
  proof (cases "hnInFlightDrain s")
    case None
    then show ?thesis using preservesD [OF frame_prepareTurn s] by simp
  next
    case (Some d)
    then have d: "free \<or> drainFree d" using s by (auto simp: framed_def prepFree_def)
    have returned: "preserves (framed tr) (modifyS (\<lambda>s. (if b then s else giveBack d s)\<lparr>hnInFlightDrain := None\<rparr>))" for b
      by (intro preserves_modify framed_noDrain) (simp add: framed_giveBack [OF _ d])
    show ?thesis unfolding Some option.case
      by (rule framedD [OF _ s]) (intro preserves_rules frame frame_prepareDrained d frame_fail returned)
  qed
qed

subsection \<open>The handler of the loop's events\<close>

lemma framed_reported: "framed tr s \<Longrightarrow> free \<or> (\<forall>m. ev \<noteq> MessageEnd m) \<Longrightarrow> framed (tr @ [ev]) s"
  unfolding framed_def using reported by blast

lemma takePrepared_returns: "\<exists>p s'. takePreparedEntryId m s = (Inr p, s')"
  by (cases m; cases "hnPreparedUserEntryIds s") (simp_all add: takePreparedEntryId_def)

lemma frame_takePrepared: "preserves (framed tr) (takePreparedEntryId m)"
proof (rule preservesI)
  fix s
  assume s: "framed tr s"
  show "framed tr (snd (takePreparedEntryId m s))"
  proof (cases "free \<or> hnPreparedUserEntryIds s = []")
    case True
    then show ?thesis using s framed_ids [OF _ s] by (auto simp: takePreparedEntryId_def split: agent_message.split list.split)
  next
    case False
    then have False using s unfolding framed_def prepFree_def by blast
    then show ?thesis ..
  qed
qed

lemma takePrepared_free: "framed tr s \<Longrightarrow> takePreparedEntryId m s = (Inr (Some i), s') \<Longrightarrow> free"
  by (auto simp: takePreparedEntryId_def framed_def prepFree_def split: agent_message.splits list.splits)

lemma takePrepared_due: "preserves (dueTurn u) (takePreparedEntryId m)"
  by (rule preservesI) (auto simp: takePreparedEntryId_def dueTurn_def split: agent_message.split list.split)

lemma noteStored_framed:
  assumes "framed tr s" "\<forall>u. m = UserMsg u \<longrightarrow> dueTurn u s"
  shows "framed tr (snd (noteStored env m i s))"
proof (cases m)
  case (UserMsg u)
  then show ?thesis using assms commit_turn by (simp add: noteStored_def)
next
  case (AssistantMsg a)
  have "preserves (framed tr) (modifyS (\<lambda>s. if b1 then s\<lparr>hnFailureReason := x\<rparr> else if b2 then s\<lparr>hnFailureReason := y\<rparr> else s))" for b1 b2 x y
    by (rule framed_modify) (simp_all add: frame_simps)
  then show ?thesis unfolding noteStored_def AssistantMsg agent_message.case by (rule framedD [OF _ assms(1)])
qed (simp_all add: noteStored_def assms)

lemma append_framed:
  assumes s: "framed tr s" and run: "appendToSession env (\<lambda>now. appendMessage (heOps env) now m) s = (r, s')"
  shows "turnsOf s' = turnsOf s \<and> (case r of Inl _ \<Rightarrow> framed tr s' | Inr _ \<Rightarrow> framed (tr @ [MessageEnd m]) s')"
proof -
  have "turnsOf s' = turnsOf s \<and> (prepFree s \<longrightarrow> prepFree s')"
    using run by (auto simp: appendToSession_def onClock_def onSession_def bindS_def turnsOf_def prepFree_def split: prod.splits sum.splits)
  then show ?thesis using s run stored [of tr s m _ s'] unstored [of tr s m _ s'] by (cases r) (auto simp: framed_def)
qed

lemma message_end_framed:
  assumes s: "framed tr s" and due: "\<forall>u. m = UserMsg u \<longrightarrow> dueTurn u s" and run: "handleAgentEvent env (MessageEnd m) s = (r, s')"
  shows "framed (tr @ [MessageEnd m]) s' \<or> (framed tr s' \<and> (\<exists>e. r = Inl e))"
proof -
  let ?ev = "MessageEnd m"
  obtain p s1 where p: "takePreparedEntryId m s = (Inr p, s1)" using takePrepared_returns by blast
  have s1: "framed tr s1" by (rule preserves_outcome [OF frame_takePrepared s p])
  have due1: "\<forall>u. m = UserMsg u \<longrightarrow> dueTurn u s1" using due preserves_outcome [OF takePrepared_due _ p] by blast
  show ?thesis
  proof (cases p)
    case (Some i)
    then have "framed (tr @ [?ev]) s1" using framed_reported [OF s1] takePrepared_free [OF s] p by blast
    moreover have "emitOwn env (LoopEvent ?ev (Some i)) s1 = (r, s')" using run p Some by (simp add: handleAgentEvent_def)
    ultimately show ?thesis using preserves_outcome [OF frame_emitOwn [of "LoopEvent ?ev (Some i)"]] by fastforce
  next
    case None
    define body where "body = (\<lambda>i. bindS (noteStored env m i) (\<lambda>_. emitOwn env (LoopEvent ?ev (Some i))))"
    obtain a s2 where a: "appendToSession env (\<lambda>now. appendMessage (heOps env) now m) s1 = (a, s2)" by fastforce
    have run': "bindS (appendToSession env (\<lambda>now. appendMessage (heOps env) now m)) body s1 = (r, s')"
      using run p None by (simp add: handleAgentEvent_def body_def)
    note stored2 = append_framed [OF s1 a]
    show ?thesis
    proof (cases a)
      case (Inl e)
      then show ?thesis using stored2 run' a by auto
    next
      case (Inr i)
      then have s2: "framed (tr @ [?ev]) s2" and due2: "\<forall>u. m = UserMsg u \<longrightarrow> dueTurn u s2"
        using stored2 due1 dueTurn_turns [of s2 s1] by auto
      have "framed (tr @ [?ev]) (snd (body i s2))"
        unfolding body_def by (rule bind_at) (rule noteStored_framed [OF s2 due2], rule frame_emitOwn, simp)
      then show ?thesis using run' a Inr by simp
    qed
  qed
qed

lemma frame_otherEvents:
  assumes "\<forall>m. ev \<noteq> MessageEnd m"
  shows "preserves (framed tr) (handleAgentEvent env ev)"
proof -
  have own: "preserves (framed tr) (emitOwn env (LoopEvent ev None))" by (rule frame_emitOwn) simp
  show ?thesis
  proof (cases ev)
    case (AgentEnd ms)
    have flag: "preserves (framed tr) (modifyS (\<lambda>s. s\<lparr>hnFinalizationPending := True\<rparr>))"
      "preserves (framed tr) (modifyS (\<lambda>s. s\<lparr>hnFinalizationPending := False, hnPhase := PhaseIdle\<rparr>))"
      by (rule framed_modify; simp add: frame_simps)+
    show ?thesis unfolding handleAgentEvent_def AgentEnd agent_event.case
      by (intro preserves_rules frame flag frame_end frame_emitOwn) simp_all
  next
    case (TurnEnd a ts)
    show ?thesis unfolding handleAgentEvent_def TurnEnd agent_event.case
      by (intro preserves_rules frame frame_emitOwn) simp_all
  qed (use assms own in \<open>simp_all add: handleAgentEvent_def\<close>)
qed

text \<open>An event of the loop, whether the handler returns or throws.\<close>

lemma event_framed:
  assumes s: "framed tr s" and due: "dueWhen dueTurn ev s" and run: "handleAgentEvent env ev s = (r, s')"
  shows "framed (tr @ [ev]) s' \<or> (framed tr s' \<and> (\<exists>e. r = Inl e) \<and> (\<exists>m. ev = MessageEnd m))"
proof (cases "\<exists>m. ev = MessageEnd m")
  case True
  then obtain m where ev: "ev = MessageEnd m" by blast
  then show ?thesis using message_end_framed [OF s, of m r s'] run due by (simp add: dueWhen_ended)
next
  case False
  then show ?thesis using preserves_outcome [OF frame_otherEvents s run] framed_reported by blast
qed

subsection \<open>A harness frame is a frame of the agent loop\<close>

text \<open>What a failed run leaves: the messages whose end was reported are stored, but perhaps the last.\<close>

definition framedF :: "agent_event list \<Rightarrow> ('s, 'w) harness \<Rightarrow> bool" where
  "framedF tr s \<longleftrightarrow> (\<exists>tr0. framed tr0 s
     \<and> (endedMessages tr0 = endedMessages tr \<or> endedMessages tr0 = butlast (endedMessages tr)))"

lemma asOutside_cases:
  obtains (ok) a s' where "m s = (Inr a, s')" "asOutside m s = (Inr a, s')"
    | (failed) e s' where "m s = (Inl e, s')" "asOutside m s = (Inl (faultMessage e), if e = Diverged then s'\<lparr>hnDiverged := True\<rparr> else s')"
  by (cases "m s"; cases "fst (m s)") (auto simp: asOutside_def)

lemma run_sink:
  assumes s: "framed tr s" and due: "dueWhen dueTurn ev s" and run: "asOutside (handleAgentEvent env ev) s = (r, s')"
  shows "case r of Inr _ \<Rightarrow> framed (tr @ [ev]) s' | Inl _ \<Rightarrow> framedF (tr @ [ev]) s'"
proof (cases rule: asOutside_cases [of "handleAgentEvent env ev" s])
  case (ok a s1)
  then show ?thesis using event_framed [OF s due ok(1)] run by auto
next
  case (failed e s1)
  have "framedF (tr @ [ev]) s1"
    using event_framed [OF s due failed(1)] unfolding framedF_def by (elim disjE conjE exE) (fastforce simp: butlast_append)+
  then have "framedF (tr @ [ev]) (if e = Diverged then s1\<lparr>hnDiverged := True\<rparr> else s1)"
    unfolding framedF_def using framed_hung by auto
  then show ?thesis using run failed(2) by auto
qed

lemma run_start_due:
  assumes "dueTurn m s" "asOutside (handleAgentEvent env (MessageStart (UserMsg m))) s = (Inr (), s')"
  shows "dueTurn m s'"
proof -
  have "emitOwn env (LoopEvent (MessageStart (UserMsg m)) None) s = (Inr (), s')"
    using assms(2) by (cases rule: asOutside_cases [of "handleAgentEvent env (MessageStart (UserMsg m))" s]) (auto simp: handleAgentEvent_def)
  then have "turnsOf s' = turnsOf (logEvent (LoopEvent (MessageStart (UserMsg m)) None) s)"
    using emitOwn_turns [of env "LoopEvent (MessageStart (UserMsg m)) None" s] by simp
  then show ?thesis using assms(1) by (simp add: turnsOf_def logEvent_def dueTurn_def)
qed

lemma framedF_update:
  assumes "framedF tr s"
  shows "framedF (tr @ [ToolExecutionUpdate i n a r]) (snd (asOutside (handleAgentEvent env (ToolExecutionUpdate i n a r)) s))"
proof -
  obtain tr0 where tr0: "framed tr0 s" "endedMessages tr0 = endedMessages tr \<or> endedMessages tr0 = butlast (endedMessages tr)"
    using assms by (auto simp: framedF_def)
  have "framed tr0 (snd (asOutside (handleAgentEvent env (ToolExecutionUpdate i n a r)) s))"
    by (rule framed_asOutside [OF frame_otherEvents tr0(1)]) simp
  then show ?thesis using tr0(2) unfolding framedF_def by auto
qed

lemma framed_F: "framed tr s \<Longrightarrow> framedF tr s"
  by (auto simp: framedF_def)

end

sublocale harness_frame \<subseteq> run: loop_frame "loopHostOf env c" framed framedF dueTurn for c
proof unfold_locales
  fix tr s ev s'
  assume "framed tr s" "dueWhen dueTurn ev s" "hoEmit (loopHostOf env c) ev s = (Inr (), s')"
  then show "framed (tr @ [ev]) s'" using run_sink [of tr s ev "Inr ()" s'] by (simp add: loopHostOf_def)
next
  fix tr s m s'
  assume "dueTurn m s" "hoEmit (loopHostOf env c) (MessageStart (UserMsg m)) s = (Inr (), s')"
  then show "dueTurn m s'" using run_start_due by (simp add: loopHostOf_def)
next
  fix tr s ev e s'
  assume "framed tr s" "dueWhen dueTurn ev s" "hoEmit (loopHostOf env c) ev s = (Inl e, s')"
  then show "framedF (tr @ [ev]) s'" using run_sink [of tr s ev "Inl e" s'] by (simp add: loopHostOf_def)
next
  fix tr s i n a r
  assume "framedF tr s"
  then show "framedF (tr @ [ToolExecutionUpdate i n a r]) (snd (hoEmit (loopHostOf env c) (ToolExecutionUpdate i n a r) s))"
    by (simp add: loopHostOf_def framedF_update)
next
  fix tr s
  assume s: "framed tr s"
  show "framedF tr s" by (rule framed_F [OF s])
  show "framed tr (snd (hoStream (loopHostOf env c) m x o' s))" for m x o'
    by (simp add: loopHostOf_def framed_asOutside [OF frame_streamFn s])
  show "framed tr (snd (hoNow (loopHostOf env c) s))" "framed tr (snd (hoPick (loopHostOf env c) s))"
    using framed_outside [OF s] by (simp_all add: loopHostOf_def split: prod.split)
qed

context harness_frame
begin

lemma keeping_asOutside: "(\<And>tr. preserves (framed tr) m) \<Longrightarrow> run.keeping (asOutside m)"
  by (simp add: run.keeping_def framed_asOutside)

lemma keepingContext_created: "run.keepingContext (createContext env ts p)"
  unfolding run.keepingContext_def createContext_def
proof (clarsimp)
  fix t i args
  show "run.keeping (atExecute (liftTool env t) i args)"
    unfolding run.keeping_def liftTool_def
    by (auto split: prod.split intro!: framed_interleave framed_outside)
qed

lemma turnUpdateOf_context:
  "turnUpdateOf env ts s = (Inr (Some u), s') \<Longrightarrow> \<exists>p. tuContext u = Some (createContext env ts p)"
  by (auto simp: turnUpdateOf_def)

lemma prepareTurn_context:
  "prepareTurn env k s = (Inr (Some u), s') \<Longrightarrow> \<exists>ts p. tuContext u = Some (createContext env ts p)"
  unfolding prepareTurn_def bindS_Inr_iff by (blast dest: turnUpdateOf_context)

lemma runPreparation_context:
  "runPreparation env c m f ts s = (Inr (Some u), s') \<Longrightarrow> \<exists>ts p. tuContext u = Some (createContext env ts p)"
  unfolding runPreparation_def by (cases f) (simp_all add: bindS_Inr_iff, blast dest: turnUpdateOf_context, blast dest: turnUpdateOf_context)

lemma prepareFollowUp_context:
  assumes "prepareFollowUpTurn env c s = (Inr (Some u), s')"
  shows "\<exists>ts p. tuContext u = Some (createContext env ts p)"
proof -
  obtain s1 where s1: "(case hnInFlightDrain s1 of None \<Rightarrow> prepareTurn env False
    | Some drain \<Rightarrow> let m = hd (drMessages drain) in
       catchS (prepareDrained env c drain m) (\<lambda>e.
         bindS (attemptS (failUserTurnPreparation env m c)) (\<lambda>lifecycleError.
         bindS (modifyS (\<lambda>s. (if isTerminalPreparation e then s else giveBack drain s)\<lparr>hnInFlightDrain := None\<rparr>)) (\<lambda>_.
         bindS (attemptS (emitQueueUpdate (emitOwn env))) (\<lambda>_.
         if lifecycleError \<noteq> None
         then throwS (AggregateFault ''Follow-up preparation and lifecycle finalization failed'')
         else throwS (normalizeHookError (terminalCause e))))))) s1 = (Inr (Some u), s')"
    using assms by (auto simp: prepareFollowUpTurn_def bindS_Inr_iff getS_def)
  show ?thesis
  proof (cases "hnInFlightDrain s1")
    case None
    then show ?thesis using s1 prepareTurn_context by simp
  next
    case (Some d)
    then have "prepareDrained env c d (hd (drMessages d)) s1 = (Inr (Some u), s')"
      using s1 by (auto simp: catchS_def bindS_def Let_def split: prod.splits sum.splits if_splits)
    then show ?thesis unfolding prepareDrained_def bindS_Inr_iff by (blast dest: runPreparation_context)
  qed
qed

lemma keepingUpdate_asOutside:
  assumes "\<And>tr. preserves (framed tr) m" "\<And>s u s'. m s = (Inr (Some u), s') \<Longrightarrow> \<exists>ts p. tuContext u = Some (createContext env ts p)"
  shows "run.keepingUpdate (asOutside m)"
proof -
  have "run.keepingContext x" if u: "fst (asOutside m s) = Inr (Some u)" "tuContext u = Some x" for s u x
  proof -
    obtain s' where "m s = (Inr (Some u), s')" using u(1) by (cases rule: asOutside_cases [of m s]) auto
    then show ?thesis using assms(2) u(2) keepingContext_created by fastforce
  qed
  then show ?thesis unfolding run.keepingUpdate_def using keeping_asOutside [OF assms(1)] by blast
qed

lemma keeping_hook: "run.keeping (asOutside (emitHook env hs ev))"
  by (intro keeping_asOutside frame)

lemma keepingConfig_created: "run.keepingConfig (createLoopConfig env c ts)"
proof -
  have starts: "run.startsUser (Some (\<lambda>m. asOutside (bindS (beginUserTurn env m) (\<lambda>_. retS ())))) u" for u
  proof -
    have "dueTurn u s'" if "asOutside (bindS (beginUserTurn env u) (\<lambda>_. retS ())) s = (Inr (), s')" for s s'
      using that by (cases rule: asOutside_cases [of "bindS (beginUserTurn env u) (\<lambda>_. retS ())" s])
        (auto simp: bindS_Inr_iff dest: beginUserTurn_due)
    moreover have "run.keeping (asOutside (bindS (beginUserTurn env u) (\<lambda>_. retS ())))"
      by (intro keeping_asOutside preserves_rules frame_begin)
    ultimately show ?thesis by (auto simp: run.startsUser_def)
  qed
  have hooks: "run.keeping (asOutside (transformContext env ms))" "run.keeping (asOutside (drainSteering env))"
    "run.keeping (asOutside (drainFollowUpMessages env))" for ms
    by (intro keeping_asOutside frame)+
  have updates: "run.keepingUpdate (asOutside (prepareTurn env k))" "run.keepingUpdate (asOutside (prepareFollowUpTurn env c))" for k
    by (rule keepingUpdate_asOutside [OF frame_prepareTurn prepareTurn_context], assumption)
      (rule keepingUpdate_asOutside [OF frame_prepareFollowUp prepareFollowUp_context], assumption)
  have quiet: "run.keeping (Pair x)" for x :: "string + agent_message list" by (simp add: run.keeping_def)
  show ?thesis
    unfolding run.keepingConfig_def createLoopConfig_def
    using allI [OF starts] by (simp add: hooks updates keeping_hook quiet)
qed

text \<open>A run that returns, and one that throws.\<close>

lemma runLoopOn_framed:
  assumes s: "framed [] s" and run: "runLoopOn env c ts ms p s = (r, s')"
  shows "case r of Inr out \<Rightarrow> \<exists>tr. framed tr s' \<and> endedMessages tr = out \<and> take (length ms) out = ms
    | Inl _ \<Rightarrow> \<exists>tr. framed tr s'"
proof -
  let ?start = "\<lparr>lrTrace = [], lrWorld = s\<rparr>"
  let ?run = "runAgentLoop (loopHostOf env c) (heFuel env) (createLoopConfig env c ts) ms (createContext env ts p)"
  obtain x r' where x: "?run ?start = (x, r')" by fastforce
  have start: "framed (lrTrace ?start) (lrWorld ?start)" using s by simp
  note keeps = run.keeps_runAgentLoop [OF keepingConfig_created [of c ts] keepingContext_created [of ts p]]
  show ?thesis
  proof (cases x)
    case (Inr out)
    then have "framed (lrTrace r') (lrWorld r')" using keepsD [OF keeps start] x by blast
    moreover have "endedMessages (lrTrace r') = out \<and> take (length ms) out = ms"
      using agent_run_ended x Inr by fastforce
    ultimately show ?thesis using run x Inr by (auto simp: runLoopOn_def)
  next
    case (Inl e)
    then have "framedF (lrTrace r') (lrWorld r')" using keeps_failed [OF keeps start] x by blast
    then show ?thesis using run x Inl by (cases e) (auto simp: runLoopOn_def framedF_def)
  qed
qed

end

end
