(* ===== verification/HarnessExample.thy ===== *)
theory HarnessExample
  imports HarnessFrames
begin

section \<open>A harness at work\<close>

text \<open>
  A small environment on the in-memory storage: one listener, a stream that answers with one reply,
  and a client that sets the thinking level while the harness awaits its code.  The witnesses of
  the properties of the harness evaluate its operations here.
\<close>

definition exampleReply :: assistantMessage where
  "exampleReply = \<lparr>amContent = [TextBlock ''hello'' None], amApi = ''a'', amProvider = ''p'', amModel = ''m'', amResponseModel = None,
     amResponseId = None, amDiagnostics = None, amUsage = None, amStopReason = StopStop, amErrorMessage = None, amTimestamp = Some 1\<rparr>"

text \<open>The world counts what was awaited; the draws of the identifiers are far enough apart to differ.\<close>

definition exampleEnv :: "(memoryStorage, nat) harnessEnv" where
  "exampleEnv = \<lparr>heOps = memoryOps (\<lambda>_. ''00'') (\<lambda>n. ([], n * 65536)), heSha = (\<lambda>_. ''00''), heSessionId = ''s'',
     heNow = (\<lambda>w. (int w, Suc w)), heIsoNow = (\<lambda>w. (''now'', Suc w)), hePick = (\<lambda>w. (0, w)), heFuel = 3,
     heValidate = (\<lambda>_ a _. Inr a), heListeners = [\<lambda>_ w. (Inr (), Suc w)], heBeforeAgentStart = [], heContext = [], heToolCall = [],
     heToolResult = [], heBeforeProviderRequest = [], heBeforeCompact = [], heBeforeTree = [],
     heTransformSessionContext = None, heSystemPrompt = DefaultPrompt, heAuth = None,
     heStreamSimple = (\<lambda>_ _ _ _ _ _ _ w. (Inr ([StreamDone], exampleReply), Suc w)),
     heModelInfo = (\<lambda>_. \<lparr>miMaxTokens = 0, miContextWindow = 1, miReasoning = False\<rparr>),
     heComplete = (\<lambda>_ _ w. ((\<lambda>_. exampleReply), w)),
     heRequests = (\<lambda>w. if w = 3 then ([SetThinkingLevel ''high''], Suc w) else ([], w))\<rparr>"

definition exampleHarness :: "(memoryStorage, nat) harness" where
  "exampleHarness = newHarness emptyStorage \<lparr>lmId = ''m'', lmProvider = ''p'', lmSpec = JNull\<rparr> None
     \<lparr>hsTransport = None, hsTimeoutMs = None, hsMaxRetries = None, hsMaxRetryDelayMs = None, hsCacheRetention = None,
      hsHeaders = None, hsMetadata = None\<rparr> [] None None None 0"

subsection \<open>Evaluation\<close>

text \<open>The continuations of an action are left alone until it has been evaluated.\<close>

lemma catchS_lazy: "catchS m h = catchS m h"
  by (rule refl)

lemma finallyS_lazy: "finallyS m h = finallyS m h"
  by (rule refl)

lemma exampleEnv_simps [simp]:
  "heOps exampleEnv = memoryOps (\<lambda>_. ''00'') (\<lambda>n. ([], n * 65536))" "heSha exampleEnv = (\<lambda>_. ''00'')"
  "heSessionId exampleEnv = ''s''" "heNow exampleEnv = (\<lambda>w. (int w, Suc w))" "heIsoNow exampleEnv = (\<lambda>w. (''now'', Suc w))"
  "heFuel exampleEnv = 3" "heListeners exampleEnv = [\<lambda>_ w. (Inr (), Suc w)]" "heBeforeAgentStart exampleEnv = []"
  "heTransformSessionContext exampleEnv = None" "heSystemPrompt exampleEnv = DefaultPrompt" "heAuth exampleEnv = None"
  "heRequests exampleEnv = (\<lambda>w. if w = 3 then ([SetThinkingLevel ''high''], Suc w) else ([], w))"
  by (simp_all add: exampleEnv_def)

lemmas harness_evaluation = Let_def bindS_def retS_def throwS_def getS_def modifyS_def catchS_def finallyS_cases attemptS_def
  normalizeHarnessError_def normalizeHookError_def faultMessage_def onOutside_def onClock_def onSession_def readSession_def
  writeNow_def normalized_def logEvent_def tellListeners.simps emitDuring_def createUserMessage_def queueWrite_def asSessionError_def
  setThinkingLevel_def toolMap_def activeTools_def perform_def interleave_def markDiverged_def await_def awaitSession_def
  emitOwn_def runHandlers.simps emitHook_def given_def isAborted_def setBoundary_def throwUserTurnFinalizationError_def
  settleTerminal_def terminalizeUserTurn_def openBoundary_def startUserTurn_def beginUserTurn_def failUserTurnPreparation_def
  releaseTurnPhaseAfterFailure_def prepareUserMessage_def systemPromptOf_def createTurnState_def takeNextTurn_def setTurnState_def
  resetPrepared_def isTerminalPreparation_def effectiveTurnState_def newAbortController_def setRunController_def
  prepareUserTurn_def executeTurn_def startRun_def finishRunPromise_def failRun_def prompt_def
  exampleHarness_def newHarness_def memoryOps_def getBranch_def memGetLeafId_def emptyStorage_def memGetPathToRoot_def map_filter_simps

text \<open>A prompt whose preparation throws: the turn begins and is given up, and a request is performed meanwhile.\<close>

definition exampleStopped :: "(memoryStorage, nat) harness" where
  "exampleStopped = snd (prompt exampleEnv ''hi'' [] (Some (\<lambda>_ s w. (Inl (OtherFault ''no''), s, w))) exampleHarness)"

lemma exampleStopped_lives: "\<not> hnDiverged exampleStopped \<and> length (hnEvents exampleStopped) = 3"
  unfolding exampleStopped_def by (simp add: harness_evaluation cong: bindS_lazy catchS_lazy finallyS_lazy)

end
