(* ===== verification/HarnessTurns.thy ===== *)
theory HarnessTurns
  imports HarnessExample
begin

section \<open>User turns never overlap\<close>

text \<open>
  The protocol of the user-turn events that the harness promises its listeners: a turn begins
  (\<open>session_before_user_turn\<close>), is committed when its message has a durable entry, and ends; the next
  begins only then.  \<open>turnInv\<close> ties the events given to the listeners to the boundaries the harness
  keeps, and it is an instance of \<open>harness_frame\<close>, so whatever happens during a run preserves it.
\<close>

subsection \<open>The protocol\<close>

datatype turn_status = NoTurn | BegunTurn string | CommittedTurn string

fun turnStep :: "turn_status \<Rightarrow> harness_event \<Rightarrow> turn_status option" where
  "turnStep NoTurn (BeforeUserTurn t m) = Some (BegunTurn t)"
| "turnStep (BegunTurn t) (UserTurnCommitted t' i) = (if t' = t \<and> i \<noteq> [] then Some (CommittedTurn t) else None)"
| "turnStep (BegunTurn t) (UserTurnTerminal t' r) = (if t' = t \<and> r \<in> {PreparationFailed, Superseded} then Some NoTurn else None)"
| "turnStep (CommittedTurn t) (UserTurnTerminal t' r) = (if t' = t then Some NoTurn else None)"
| "turnStep st ev = (if isTurnEvent ev then None else Some st)"

primrec runTurns :: "turn_status \<Rightarrow> harness_event list \<Rightarrow> turn_status option" where
  "runTurns st [] = Some st"
| "runTurns st (ev # evs) = (case turnStep st ev of None \<Rightarrow> None | Some st' \<Rightarrow> runTurns st' evs)"

definition begunTurns :: "harness_event list \<Rightarrow> string list" where
  "begunTurns evs = List.map_filter (\<lambda>ev. case ev of BeforeUserTurn t _ \<Rightarrow> Some t | _ \<Rightarrow> None) evs"

lemma turnStep_other [simp]: "\<not> isTurnEvent ev \<Longrightarrow> turnStep st ev = Some st"
  by (cases "(st, ev)" rule: turnStep.cases) auto

lemma runTurns_filter: "runTurns st (filter isTurnEvent evs) = runTurns st evs"
  by (induction evs arbitrary: st) (auto split: option.split)

lemma runTurns_append: "runTurns st (xs @ ys) = (case runTurns st xs of None \<Rightarrow> None | Some st' \<Rightarrow> runTurns st' ys)"
  by (induction xs arbitrary: st) (auto split: option.split)

lemma begunTurns_append: "begunTurns (xs @ ys) = begunTurns xs @ begunTurns ys"
  by (simp add: begunTurns_def List.map_filter_def)

lemma begunTurns_filter: "begunTurns (filter isTurnEvent evs) = begunTurns evs"
  by (induction evs) (auto simp: begunTurns_def List.map_filter_simps isTurnEvent_def split: harness_event.split option.split)

lemma begunTurns_one: "begunTurns [ev] = (case ev of BeforeUserTurn t _ \<Rightarrow> [t] | _ \<Rightarrow> [])"
  by (simp add: begunTurns_def List.map_filter_simps split: harness_event.split)

subsection \<open>The invariant\<close>

definition boundaryOk :: "turn_status \<Rightarrow> userTurnBoundary \<Rightarrow> bool" where
  "boundaryOk st b \<longleftrightarrow> btFinalizationError b \<noteq> None \<or> (\<not> btTerminalDispatched b
     \<and> (if btCommitted b then btCommittedDispatched b \<and> given (btUserEntryId b) \<and> st = CommittedTurn (btToken b)
        else \<not> btCommittedDispatched b \<and> st = BegunTurn (btToken b)))"

definition tokenOf :: "nat \<Rightarrow> string" where
  "tokenOf n = ''boundary-'' @ natToString n"

definition turnsShape :: "nat \<Rightarrow> userTurnBoundary list \<Rightarrow> (userMessage \<Rightarrow> nat option) \<Rightarrow> nat option \<Rightarrow> harness_event list \<Rightarrow> bool" where
  "turnsShape n bs boundaryOf active evs \<longleftrightarrow>
     n = length bs \<and> map btToken bs = map (\<lambda>i. tokenOf (Suc i)) [0..<length bs] \<and> begunTurns evs = map btToken bs
   \<and> (\<forall>i < length bs. \<not> btTerminal (bs ! i) \<longrightarrow> active = Some i)
   \<and> (\<forall>m i. boundaryOf m = Some i \<longrightarrow> i < length bs)"

definition turnsStatus :: "turn_status \<Rightarrow> userTurnBoundary list \<Rightarrow> nat option \<Rightarrow> bool" where
  "turnsStatus st bs active \<longleftrightarrow> (case active of
     None \<Rightarrow> st = NoTurn
   | Some i \<Rightarrow> i < length bs \<and> \<not> btTerminal (bs ! i) \<and> boundaryOk st (bs ! i))"

definition turnsInv :: "nat \<Rightarrow> userTurnBoundary list \<Rightarrow> (userMessage \<Rightarrow> nat option) \<Rightarrow> nat option \<Rightarrow> harness_event list \<Rightarrow> bool" where
  "turnsInv n bs boundaryOf active evs \<longleftrightarrow> turnsShape n bs boundaryOf active evs
     \<and> (\<exists>st. runTurns NoTurn evs = Some st \<and> turnsStatus st bs active)"

text \<open>Once awaited code has not returned, the harness makes no promise.\<close>

definition turnInv :: "('s, 'w) harness \<Rightarrow> bool" where
  "turnInv s \<longleftrightarrow> hnDiverged s \<or> (case turnsOf s of (n, bs, boundaryOf, active, evs) \<Rightarrow> turnsInv n bs boundaryOf active evs)"

lemma turnInv_turns: "turnsOf s' = turnsOf s \<Longrightarrow> hnDiverged s' = hnDiverged s \<Longrightarrow> turnInv s' = turnInv s"
  by (simp add: turnInv_def)

lemma turnInv_hung: "hnDiverged s \<Longrightarrow> turnInv s"
  by (simp add: turnInv_def)

lemma turnInvI:
  "turnsOf s = (n, bs, boundaryOf, active, evs) \<Longrightarrow> turnsInv n bs boundaryOf active evs \<Longrightarrow> turnInv s"
  by (simp add: turnInv_def)

lemma tokens_update: "i < length bs \<Longrightarrow> btToken b = btToken (bs ! i) \<Longrightarrow> map btToken (bs[i := b]) = map btToken bs"
  by (metis list_update_id map_update nth_map)

lemma shape_update:
  assumes "turnsShape n bs bof active evs" "i < length bs" "btToken b = btToken (bs ! i)" "begunTurns evs' = []"
    and "\<And>j. j < length bs \<Longrightarrow> \<not> btTerminal (bs[i := b] ! j) \<Longrightarrow> active' = Some j"
  shows "turnsShape n (bs[i := b]) bof active' (evs @ evs')"
proof -
  note tokens = tokens_update [OF assms(2,3)]
  show ?thesis
    using assms(1,4,5) unfolding turnsShape_def tokens begunTurns_append by simp
qed

text \<open>An event about the active turn, and the boundary after it.\<close>

lemma turnsInv_update:
  assumes inv: "turnsInv n bs bof (Some i) evs" and b: "btToken b = btToken (bs ! i)" "\<not> btTerminal b"
    and step: "\<And>st. boundaryOk st (bs ! i) \<Longrightarrow> \<exists>st'. runTurns st evs' = Some st' \<and> boundaryOk st' b"
    and evs': "begunTurns evs' = []"
  shows "turnsInv n (bs[i := b]) bof (Some i) (evs @ evs')"
proof -
  obtain st where st: "runTurns NoTurn evs = Some st" "i < length bs" "boundaryOk st (bs ! i)" "turnsShape n bs bof (Some i) evs"
    using inv by (auto simp: turnsInv_def turnsStatus_def)
  have "turnsShape n (bs[i := b]) bof (Some i) (evs @ evs')"
  proof (rule shape_update [OF st(4,2) b(1) evs'])
    fix j
    assume "j < length bs" "\<not> btTerminal (bs[i := b] ! j)"
    then show "Some i = Some j" using st(4) unfolding turnsShape_def by (cases "j = i") auto
  qed
  moreover obtain st' where "runTurns st evs' = Some st'" "boundaryOk st' b" using step [OF st(3)] by blast
  ultimately show ?thesis
    using st(1,2) b(2) unfolding turnsInv_def turnsStatus_def by (simp add: runTurns_append)
qed

lemma turnsInv_close:
  assumes inv: "turnsInv n bs bof (Some i) evs" and b: "btToken b = btToken (bs ! i)" "btTerminal b"
    and step: "\<And>st. boundaryOk st (bs ! i) \<Longrightarrow> runTurns st evs' = Some NoTurn"
    and evs': "begunTurns evs' = []"
  shows "turnsInv n (bs[i := b]) bof None (evs @ evs')"
proof -
  obtain st where st: "runTurns NoTurn evs = Some st" "i < length bs" "boundaryOk st (bs ! i)" "turnsShape n bs bof (Some i) evs"
    using inv by (auto simp: turnsInv_def turnsStatus_def)
  have "turnsShape n (bs[i := b]) bof None (evs @ evs')"
  proof (rule shape_update [OF st(4,2) b(1) evs'])
    fix j
    assume "j < length bs" "\<not> btTerminal (bs[i := b] ! j)"
    then show "None = Some j" using st(4) b(2) unfolding turnsShape_def by (cases "j = i") auto
  qed
  then show ?thesis
    using st(1) step [OF st(3)] unfolding turnsInv_def turnsStatus_def by (simp add: runTurns_append)
qed

lemma turnsInv_open:
  assumes inv: "turnsInv n bs bof None evs" and b: "btToken b = tokenOf (Suc n)" "boundaryOk (BegunTurn (btToken b)) b" "\<not> btTerminal b"
  shows "turnsInv (Suc n) (bs @ [b]) (bof(m \<mapsto> length bs)) (Some (length bs)) (evs @ [BeforeUserTurn (btToken b) u])"
proof -
  have st: "runTurns NoTurn evs = Some NoTurn" and shape: "turnsShape n bs bof None evs"
    using inv by (auto simp: turnsInv_def turnsStatus_def)
  have "turnsShape (Suc n) (bs @ [b]) (bof(m \<mapsto> length bs)) (Some (length bs)) (evs @ [BeforeUserTurn (btToken b) u])"
    using shape b(1) unfolding turnsShape_def begunTurns_append begunTurns_one
    by (auto simp: nth_append less_Suc_eq)
  then show ?thesis using st b(2,3) unfolding turnsInv_def turnsStatus_def by (simp add: runTurns_append)
qed

subsection \<open>Awaiting that does not return\<close>

interpretation hung: await_frame env "\<lambda>_ s. hnDiverged s" True for env
proof unfold_locales
  show "hnDiverged (snd (queueWrite k s))" if "hnDiverged s" for k :: entry_kind and s :: "('a, 'b) harness"
    using that by (simp add: queueWrite_def modifyS_def)
next
  have entry: "hnDiverged (snd (writeEntry env k s)) = hnDiverged s" for k s
    by (cases k) (auto simp: writeEntry_def appendToSession_def onClock_def onSession_def bindS_def Let_def split: prod.split sum.split)
  show "hnDiverged (snd (writeNow env k s))" "hnDiverged (snd (flushOne env k s))" if "hnDiverged s" for k s
    using that entry [of k s] by (auto simp: writeNow_def flushOne_def bindS_def modifyS_def split: prod.splits sum.splits)
qed (auto simp: onSession_def split: prod.split sum.split)

lemma hung_iff: "hung.framed tr s = hnDiverged s"
  by (simp add: hung.framed_def)

lemma hung_preserved: "preserves (hung.framed []) m \<Longrightarrow> preserves hnDiverged m"
  by (simp add: preserves_def hung_iff)

lemma emitOwn_hung: "preserves hnDiverged (emitOwn env ev)"
  unfolding emitOwn_def
  by (intro preserves_bind preserves_modify hung_preserved hung.frame_tell) (simp add: logEvent_def)

lemma interleave_hung: "hnDiverged s \<Longrightarrow> hnDiverged (interleave env s)"
  using hung.framed_interleave [of "[]" s env] by (simp add: hung_iff)

lemma await_diverged: "await env f s = (Inl Diverged, s') \<Longrightarrow> hnDiverged s'"
  by (auto simp: await_def markDiverged_def split: prod.splits intro: interleave_hung)

lemma normalizeHook_diverged: "normalizeHookError e = Diverged \<longleftrightarrow> e = Diverged"
  by (simp add: normalizeHookError_def normalizeHarnessError_def split: harness_fault.split storage_error.split)

lemma normalized_diverged: "normalized m s = (Inl Diverged, s') \<longleftrightarrow> m s = (Inl Diverged, s')"
  by (auto simp: normalized_def catchS_def normalizeHook_diverged split: prod.splits sum.splits if_splits)

lemma tell_diverged: "tellListeners (await env) ls ev s = (Inl Diverged, s') \<Longrightarrow> hnDiverged s'"
proof (induction ls arbitrary: s)
  case (Cons l ls)
  then show ?case by (auto simp: bindS_Inl_iff normalized_diverged dest: await_diverged)
qed simp

text \<open>What becomes of an event: it is logged, and the turns are as they were.\<close>

lemma emitOwn_fate:
  assumes "emitOwn env ev s = (r, s')"
  shows "turnsOf s' = turnsOf (logEvent ev s) \<and> (hnDiverged s \<longrightarrow> hnDiverged s') \<and> (r = Inl Diverged \<longrightarrow> hnDiverged s')"
  using emitOwn_turns [of env ev s] preserves_outcome [OF emitOwn_hung _ assms] assms tell_diverged [of env "heListeners env" ev "logEvent ev s" s']
  by (auto simp: emitOwn_def)

subsection \<open>Committing\<close>

definition activeAt :: "nat \<Rightarrow> ('s, 'w) harness \<Rightarrow> bool" where
  "activeAt i s \<longleftrightarrow> turnInv s \<and> (hnDiverged s \<or> hnActiveUserTurn s = Some i)"

lemma turnInvD:
  "turnInv s \<Longrightarrow> \<not> hnDiverged s
    \<Longrightarrow> turnsInv (hnUserTurnCounter s) (hnBoundaries s) (hnBoundaryOf s) (hnActiveUserTurn s) (filter isTurnEvent (hnEvents s))"
  by (simp add: turnInv_def turnsOf_def)

lemma activeD:
  assumes "activeAt i s" "\<not> hnDiverged s"
  shows "turnsInv (hnUserTurnCounter s) (hnBoundaries s) (hnBoundaryOf s) (Some i) (filter isTurnEvent (hnEvents s))"
    and "i < length (hnBoundaries s)" and "\<not> btTerminal (hnBoundaries s ! i)"
    and "\<exists>st. boundaryOk st (hnBoundaries s ! i)"
  using assms turnInvD [of s] by (auto simp: activeAt_def turnsInv_def turnsStatus_def)

lemma active_token: "activeAt i s \<Longrightarrow> \<not> hnDiverged s \<Longrightarrow> btToken (hnBoundaries s ! i) = tokenOf (Suc i)"
proof -
  assume act: "activeAt i s" "\<not> hnDiverged s"
  have "map btToken (hnBoundaries s) ! i = tokenOf (Suc i)"
    using activeD(1,2) [OF act] by (simp add: turnsInv_def turnsShape_def)
  then show ?thesis using activeD(2) [OF act] by simp
qed

text \<open>The active boundary changes and an event goes out.\<close>

lemma activeAt_update:
  assumes act: "activeAt i s" and turns: "turnsOf s' = (hnUserTurnCounter s, (hnBoundaries s)[i := b], hnBoundaryOf s, Some i,
      filter isTurnEvent (hnEvents s) @ evs)"
    and hung: "hnDiverged s \<Longrightarrow> hnDiverged s'"
    and b: "btToken b = btToken (hnBoundaries s ! i)" "btTerminal b = btTerminal (hnBoundaries s ! i)" "begunTurns evs = []"
    and step: "\<And>st. boundaryOk st (hnBoundaries s ! i) \<Longrightarrow> \<exists>st'. runTurns st evs = Some st' \<and> boundaryOk st' b"
  shows "activeAt i s'"
proof (cases "hnDiverged s")
  case True
  then show ?thesis using hung turnInv_hung by (auto simp: activeAt_def)
next
  case False
  note active = activeD [OF act False]
  have "turnsInv (hnUserTurnCounter s) ((hnBoundaries s)[i := b]) (hnBoundaryOf s) (Some i) (filter isTurnEvent (hnEvents s) @ evs)"
    by (rule turnsInv_update [OF active(1) b(1) _ step b(3)]) (use active(3) b(2) in simp_all)
  then have "turnInv s'" by (rule turnInvI [OF turns])
  then show ?thesis using turns by (simp add: activeAt_def turnsOf_def)
qed

lemma hung_active: "hnDiverged s \<Longrightarrow> activeAt i s"
  by (simp add: activeAt_def turnInv_hung)

lemma emitUserTurnCommitted_hung: "preserves hnDiverged (emitUserTurnCommitted env i)"
  unfolding emitUserTurnCommitted_def throwUserTurnFinalizationError_def failUserTurnFinalization_def
  by (intro preserves_rules emitOwn_hung preserves_modify) (simp_all add: setBoundary_def settleCommitted_def)

lemma unlessFailed:
  "bindS (throwUserTurnFinalizationError i) f s
    = (case btFinalizationError (hnBoundaries s ! i) of None \<Rightarrow> f () s | Some e \<Rightarrow> (Inl e, s))"
  by (auto simp: throwUserTurnFinalizationError_def bindS_assoc bindS_ret split: option.split)

lemma emitUserTurnCommitted_inv:
  assumes act: "activeAt i s" and run: "emitUserTurnCommitted env i s = (r, s')"
  shows "activeAt i s' \<and> (r = Inr () \<longrightarrow> hnDiverged s' \<or> btCommitted (hnBoundaries s' ! i))"
proof (cases "hnDiverged s")
  case True
  then have "hnDiverged s'" by (rule preserves_outcome [OF emitUserTurnCommitted_hung _ run])
  then show ?thesis by (simp add: hung_active)
next
  case False
  define b where "b = hnBoundaries s ! i"
  note active = activeD [OF act False]
  define s1 where "s1 = setBoundary i (\<lambda>b. b\<lparr>btCommittedDispatched := True\<rparr>) s"
  define ev where "ev = UserTurnCommitted (btToken b) (the (btUserEntryId b))"
  obtain x s2 where x: "emitOwn env ev s1 = (x, s2)" by fastforce
  have s1: "hnBoundaries s1 = (hnBoundaries s)[i := b\<lparr>btCommittedDispatched := True\<rparr>]" "hnDiverged s1 = hnDiverged s"
    "turnsOf (logEvent ev s1) = (hnUserTurnCounter s, (hnBoundaries s)[i := b\<lparr>btCommittedDispatched := True\<rparr>], hnBoundaryOf s,
       hnActiveUserTurn s, filter isTurnEvent (hnEvents s) @ [ev])"
    by (simp_all add: s1_def setBoundary_def b_def turnsOf_def logEvent_def ev_def)
  have s2: "turnsOf s2 = turnsOf (logEvent ev s1)" "x = Inl Diverged \<Longrightarrow> hnDiverged s2" using emitOwn_fate [OF x] by simp_all
  have fields: "hnBoundaries s2 = (hnBoundaries s)[i := b\<lparr>btCommittedDispatched := True\<rparr>]" "hnActiveUserTurn s2 = Some i"
    "hnBoundaryOf s2 = hnBoundaryOf s" "hnUserTurnCounter s2 = hnUserTurnCounter s"
    "filter isTurnEvent (hnEvents s2) = filter isTurnEvent (hnEvents s) @ [ev]"
    using s2(1) act False unfolding s1(3) by (simp_all add: turnsOf_def activeAt_def)
  have begun: "begunTurns [ev] = []" by (simp add: ev_def begunTurns_one)
  consider (committed) "btCommitted b" "r = Inr ()" "s' = s"
    | (blocked) e where "r = Inl e" "s' = s"
    | (ok) "\<not> btCommitted b" "btFinalizationError b = None" "given (btUserEntryId b)" "\<not> btCommittedDispatched b"
        "x = Inr ()" "r = Inr ()" "s' = settleCommitted i s2"
    | (hang) "x = Inl Diverged" "r = Inl Diverged" "s' = s2"
    | (failed) e where "\<not> btCommitted b" "btFinalizationError b = None" "given (btUserEntryId b)" "\<not> btCommittedDispatched b"
        "x = Inl e" "r = Inl e" "s' = (setBoundary i (\<lambda>b. b\<lparr>btFinalizationError := Some e\<rparr>) s2)\<lparr>hnFinalizationPending := True\<rparr>"
    using run x by (auto simp: emitUserTurnCommitted_def unlessFailed failUserTurnFinalization_def catchS_def Let_def
      bindS_def [of "emitOwn _ _"] b_def [symmetric] ev_def [symmetric] s1_def [symmetric] modifyS_def [of "settleCommitted i"]
      split: if_splits option.splits sum.splits)
  then show ?thesis
  proof cases
    case committed
    then show ?thesis using act by (simp add: b_def)
  next
    case blocked
    then show ?thesis using act by simp
  next
    case ok
    define b' where "b' = b\<lparr>btCommittedDispatched := True, btCommitted := True\<rparr>"
    have turns: "turnsOf s' = (hnUserTurnCounter s, (hnBoundaries s)[i := b'], hnBoundaryOf s, Some i, filter isTurnEvent (hnEvents s) @ [ev])"
      using active(2) by (simp add: ok(7) turnsOf_def settleCommitted_def setBoundary_def fields b'_def)
    have "activeAt i s'"
    proof (rule activeAt_update [OF act turns _ _ _ begun])
      show "\<exists>st'. runTurns st [ev] = Some st' \<and> boundaryOk st' b'" if "boundaryOk st (hnBoundaries s ! i)" for st
        using that ok(1-4) by (auto simp: boundaryOk_def b_def [symmetric] b'_def ev_def given_def)
    qed (use False in \<open>simp_all add: b'_def b_def\<close>)
    moreover have "hnBoundaries s' ! i = b'" using turns active(2) by (simp add: turnsOf_def)
    ultimately show ?thesis by (simp add: b'_def)
  next
    case hang
    then show ?thesis using s2(2) by (simp add: hung_active)
  next
    case (failed e)
    define b' where "b' = b\<lparr>btCommittedDispatched := True, btFinalizationError := Some e\<rparr>"
    have turns: "turnsOf s' = (hnUserTurnCounter s, (hnBoundaries s)[i := b'], hnBoundaryOf s, Some i, filter isTurnEvent (hnEvents s) @ [ev])"
      using active(2) by (simp add: failed(7) turnsOf_def setBoundary_def fields b'_def)
    have "activeAt i s'"
    proof (rule activeAt_update [OF act turns _ _ _ begun])
      show "\<exists>st'. runTurns st [ev] = Some st' \<and> boundaryOk st' b'" if "boundaryOk st (hnBoundaries s ! i)" for st
        using that failed(1-4) by (auto simp: boundaryOk_def b_def [symmetric] b'_def ev_def given_def)
    qed (use False in \<open>simp_all add: b'_def b_def\<close>)
    then show ?thesis using failed by simp
  qed
qed

subsection \<open>Ending\<close>

lemma boundary_hung:
  "preserves hnDiverged (modifyS (setBoundary i f))" "preserves hnDiverged (modifyS (settleTerminal i))"
  "preserves hnDiverged (failUserTurnFinalization i e)" "preserves hnDiverged (throwUserTurnFinalizationError i)"
  unfolding failUserTurnFinalization_def throwUserTurnFinalizationError_def
  by (intro preserves_rules preserves_modify; simp add: setBoundary_def settleTerminal_def Let_def)+

lemma terminalize_hung: "preserves hnDiverged (terminalizeUserTurn env i reason)"
  unfolding terminalizeUserTurn_def by (intro preserves_rules emitOwn_hung boundary_hung emitUserTurnCommitted_hung)

lemma turnInv_closed:
  assumes act: "activeAt i s" "\<not> hnDiverged s"
    and turns: "turnsOf s' = (hnUserTurnCounter s, (hnBoundaries s)[i := b], hnBoundaryOf s, None, filter isTurnEvent (hnEvents s) @ evs)"
    and b: "btToken b = btToken (hnBoundaries s ! i)" "btTerminal b" "begunTurns evs = []"
    and step: "\<And>st. boundaryOk st (hnBoundaries s ! i) \<Longrightarrow> runTurns st evs = Some NoTurn"
  shows "turnInv s'"
  by (rule turnInvI [OF turns]) (rule turnsInv_close [OF activeD(1) [OF act] b(1,2) step b(3)])

text \<open>The boundary of a message that is stored is committed before its end is announced.\<close>

definition mayEnd :: "userTurnBoundary \<Rightarrow> terminal_reason \<Rightarrow> bool" where
  "mayEnd b reason \<longleftrightarrow> btCommitted b \<or> reason \<in> {PreparationFailed, Superseded}"

lemma announce_end:
  assumes act: "activeAt i s" and hung: "\<not> hnDiverged s" and b: "btFinalizationError (hnBoundaries s ! i) = None" "mayEnd (hnBoundaries s ! i) reason"
    and token: "t = btToken (hnBoundaries s ! i)"
    and run: "catchS (bindS (emitOwn env (UserTurnTerminal t reason)) (\<lambda>_. modifyS (settleTerminal i)))
      (failUserTurnFinalization i) (setBoundary i (\<lambda>b. b\<lparr>btTerminalDispatched := True\<rparr>) s) = (r, s')"
  shows "turnInv s' \<and> (r = Inr () \<longrightarrow> hnDiverged s' \<or> hnActiveUserTurn s' = None)"
proof -
  define ev where "ev = UserTurnTerminal t reason"
  define b1 where "b1 = (hnBoundaries s ! i)\<lparr>btTerminalDispatched := True\<rparr>"
  define s1 where "s1 = setBoundary i (\<lambda>b. b\<lparr>btTerminalDispatched := True\<rparr>) s"
  note active = activeD [OF act hung]
  obtain x s2 where x: "emitOwn env ev s1 = (x, s2)" by fastforce
  have s2: "turnsOf s2 = (hnUserTurnCounter s, (hnBoundaries s)[i := b1], hnBoundaryOf s, Some i, filter isTurnEvent (hnEvents s) @ [ev])"
    "x = Inl Diverged \<Longrightarrow> hnDiverged s2"
    using emitOwn_fate [OF x] act hung by (simp_all add: turnsOf_def s1_def setBoundary_def logEvent_def b1_def ev_def activeAt_def)
  have begun: "begunTurns [ev] = []" by (simp add: ev_def begunTurns_one)
  have step: "runTurns st [ev] = Some NoTurn" if "boundaryOk st (hnBoundaries s ! i)" for st
    using that b token by (auto simp: boundaryOk_def ev_def mayEnd_def split: if_splits)
  consider (ok) "x = Inr ()" "r = Inr ()" "s' = settleTerminal i s2" | (hang) "x = Inl Diverged" "s' = s2" "r = Inl Diverged"
    | (failed) e where "r = Inl e" "s' = (setBoundary i (\<lambda>b. b\<lparr>btFinalizationError := Some e\<rparr>) s2)\<lparr>hnFinalizationPending := True\<rparr>"
    using run x by (auto simp: failUserTurnFinalization_def catchS_def bindS_def [of "emitOwn _ _"] ev_def [symmetric]
      s1_def [symmetric] modifyS_def [of "settleTerminal i"] split: if_splits sum.splits)
  then show ?thesis
  proof cases
    case ok
    have "turnsOf s' = (hnUserTurnCounter s, (hnBoundaries s)[i := b1\<lparr>btTerminal := True\<rparr>], hnBoundaryOf s, None, filter isTurnEvent (hnEvents s) @ [ev])"
      using s2(1) active(2) by (simp add: ok(3) turnsOf_def settleTerminal_def setBoundary_def Let_def)
    then have "turnInv s'" "hnActiveUserTurn s' = None"
      by (auto intro: turnInv_closed [OF act hung _ _ _ begun step] simp: b1_def) (simp add: turnsOf_def)
    then show ?thesis by simp
  next
    case hang
    then show ?thesis using s2(2) by (simp add: turnInv_hung)
  next
    case (failed e)
    have turns: "turnsOf s' = (hnUserTurnCounter s, (hnBoundaries s)[i := b1\<lparr>btFinalizationError := Some e\<rparr>], hnBoundaryOf s, Some i, filter isTurnEvent (hnEvents s) @ [ev])"
      using s2(1) active(2) by (simp add: failed(2) turnsOf_def setBoundary_def)
    have "activeAt i s'"
      by (rule activeAt_update [OF act turns _ _ _ begun]) (use hung step in \<open>auto simp: b1_def boundaryOk_def\<close>)
    then show ?thesis using failed by (simp add: activeAt_def)
  qed
qed

lemma commitFirst_inv:
  assumes act: "activeAt i s" and hung: "\<not> hnDiverged s" and b: "b = hnBoundaries s ! i"
    and reason: "given (btUserEntryId b) \<or> reason \<in> {PreparationFailed, Superseded}"
    and run: "(if given (btUserEntryId b) \<and> \<not> btCommitted b then emitUserTurnCommitted env i else retS ()) s = (r, s1)"
  shows "activeAt i s1 \<and> (r = Inr () \<longrightarrow> hnDiverged s1 \<or> mayEnd (hnBoundaries s1 ! i) reason)"
proof (cases "given (btUserEntryId b) \<and> \<not> btCommitted b")
  case True
  then show ?thesis using emitUserTurnCommitted_inv [OF act, of env r s1] run by (auto simp: mayEnd_def)
next
  case False
  then show ?thesis using run act reason b by (auto simp: mayEnd_def)
qed

lemma terminalizeUserTurn_inv:
  assumes act: "activeAt i s" and reason: "given (btUserEntryId (hnBoundaries s ! i)) \<or> reason \<in> {PreparationFailed, Superseded}"
    and run: "terminalizeUserTurn env i reason s = (r, s')"
  shows "turnInv s' \<and> (r = Inr () \<longrightarrow> hnDiverged s' \<or> hnActiveUserTurn s' = None)"
proof (cases "hnDiverged s")
  case True
  then show ?thesis using preserves_outcome [OF terminalize_hung _ run] by (simp add: turnInv_hung)
next
  case False
  let ?b = "hnBoundaries s ! i"
  obtain x s1 where x: "(if given (btUserEntryId ?b) \<and> \<not> btCommitted ?b then emitUserTurnCommitted env i else retS ()) s = (x, s1)"
    by fastforce
  note s1 = commitFirst_inv [OF act False refl reason x]
  define rest where "rest = bindS (throwUserTurnFinalizationError i) (\<lambda>_. bindS getS (\<lambda>s'.
    if btTerminalDispatched (hnBoundaries s' ! i)
    then throwS (HarnessError InvalidStateCode ''User turn terminal event did not settle'')
    else bindS (modifyS (setBoundary i (\<lambda>b. b\<lparr>btTerminalDispatched := True\<rparr>))) (\<lambda>_.
      catchS (bindS (emitOwn env (UserTurnTerminal (btToken ?b) reason)) (\<lambda>_. modifyS (settleTerminal i)))
        (failUserTurnFinalization i))))"
  have hung_rest: "preserves hnDiverged rest"
    unfolding rest_def by (intro preserves_rules emitOwn_hung boundary_hung)
  consider (early) e where "r = Inl e" "s' = s" | (throws) e where "x = Inl e" "r = Inl e" "s' = s1"
    | (goes) "x = Inr ()" "rest s1 = (r, s')"
    using run x activeD(3) [OF act False] unfolding terminalizeUserTurn_def rest_def
    by (auto simp: Let_def unlessFailed bindS_def [of "if _ then _ else _"] split: option.splits sum.splits)
  then show ?thesis
  proof cases
    case goes
    show ?thesis
    proof (cases "hnDiverged s1")
      case True
      then show ?thesis using preserves_outcome [OF hung_rest _ goes(2)] by (simp add: turnInv_hung)
    next
      case live: False
      then have token: "btToken ?b = btToken (hnBoundaries s1 ! i)"
        using active_token [OF act False] active_token [of i s1] s1 by simp
      show ?thesis
        using announce_end [OF _ live _ _ token, of reason env r s'] s1 goes live unfolding rest_def
        by (auto simp: unlessFailed activeAt_def split: option.splits if_splits)
    qed
  qed (use act s1 in \<open>auto simp: activeAt_def\<close>)
qed

subsection \<open>Beginning, committing and giving up a turn\<close>

lemma due_active:
  assumes "turnInv s" "hnBoundaryOf s m = Some i" "\<not> btTerminal (hnBoundaries s ! i)"
  shows "activeAt i s"
  using assms turnInvD [of s] by (auto simp: activeAt_def turnsInv_def turnsShape_def)

lemma current_active:
  assumes "turnInv s" "hnActiveUserTurn s = Some i"
  shows "activeAt i s"
  using assms by (simp add: activeAt_def)

lemma terminalize_turnInv:
  assumes "activeAt i s" "given (btUserEntryId (hnBoundaries s ! i)) \<or> reason \<in> {PreparationFailed, Superseded}"
  shows "turnInv (snd (terminalizeUserTurn env i reason s))"
  using terminalizeUserTurn_inv [OF assms, of env] by (cases "terminalizeUserTurn env i reason s") simp

lemma terminalizeActive_inv: "preserves turnInv (terminalizeActiveUserTurn env reason)"
  unfolding terminalizeActiveUserTurn_def
  by (rule preserves_read) (auto split: option.split intro!: terminalize_turnInv dest: current_active)

lemma failPreparation_inv: "preserves turnInv (failUserTurnPreparation env m c)"
  unfolding failUserTurnPreparation_def
  by (rule preserves_read) (auto split: option.split intro!: terminalize_turnInv dest: due_active)

lemma commitUserTurn_inv:
  assumes inv: "turnInv s" and due: "dueTurn m s"
  shows "turnInv (snd (commitUserTurn env m x s))"
proof -
  obtain i where i: "hnBoundaryOf s m = Some i" "\<not> btTerminal (hnBoundaries s ! i)" using due by (auto simp: dueTurn_def)
  have act: "activeAt i s" by (rule due_active [OF inv i])
  let ?b = "hnBoundaries s ! i"
  define s1 where "s1 = setBoundary i (\<lambda>b. b\<lparr>btUserEntryId := Some x\<rparr>) s"
  show ?thesis
  proof (cases "given (btUserEntryId ?b) \<and> btUserEntryId ?b \<noteq> Some x")
    case True
    then show ?thesis using inv i by (simp add: commitUserTurn_def bindS_ret)
  next
    case False
    have "activeAt i s1"
    proof (cases "hnDiverged s")
      case live: False
      have turns: "turnsOf s1 = (hnUserTurnCounter s, (hnBoundaries s)[i := ?b\<lparr>btUserEntryId := Some x\<rparr>], hnBoundaryOf s, Some i,
          filter isTurnEvent (hnEvents s) @ [])"
        using act live by (simp add: s1_def setBoundary_def turnsOf_def activeAt_def)
      show ?thesis
        by (rule activeAt_update [OF act turns]) (use False live in \<open>auto simp: boundaryOk_def begunTurns_def List.map_filter_simps split: if_splits\<close>)
    qed (simp add: s1_def setBoundary_def hung_active)
    moreover have "commitUserTurn env m x s = (if btCommitted ?b then retS () else emitUserTurnCommitted env i) s1"
      using False i by (auto simp: commitUserTurn_def bindS_ret s1_def Let_def)
    ultimately show ?thesis
      using emitUserTurnCommitted_inv [of i s1 env] by (cases "emitUserTurnCommitted env i s1") (auto simp: activeAt_def)
  qed
qed

lemma startUserTurn_inv:
  assumes inv: "turnInv s" and none: "hnDiverged s \<or> hnActiveUserTurn s = None"
  shows "turnInv (snd (startUserTurn env m s))"
proof -
  let ?i = "length (hnBoundaries s)" and ?s1 = "openBoundary m s"
  let ?ev = "BeforeUserTurn (btToken (hnBoundaries ?s1 ! ?i)) m"
  obtain x s2 where x: "emitOwn env ?ev ?s1 = (x, s2)" by fastforce
  note fate = emitOwn_fate [OF x]
  have act: "activeAt ?i s2"
  proof (cases "hnDiverged s")
    case True
    then show ?thesis using fate by (simp add: openBoundary_def hung_active)
  next
    case False
    define b where "b = hnBoundaries ?s1 ! ?i"
    have open1: "turnsInv (Suc (hnUserTurnCounter s)) (hnBoundaries s @ [b]) ((hnBoundaryOf s)(m \<mapsto> ?i)) (Some ?i)
        (filter isTurnEvent (hnEvents s) @ [BeforeUserTurn (btToken b) m])"
    proof (rule turnsInv_open)
      show "turnsInv (hnUserTurnCounter s) (hnBoundaries s) (hnBoundaryOf s) None (filter isTurnEvent (hnEvents s))"
        using turnInvD [OF inv False] none False by simp
    qed (simp_all add: b_def openBoundary_def tokenOf_def boundaryOk_def)
    have turns: "turnsOf s2 = (Suc (hnUserTurnCounter s), hnBoundaries s @ [b], (hnBoundaryOf s)(m \<mapsto> ?i), Some ?i,
        filter isTurnEvent (hnEvents s) @ [BeforeUserTurn (btToken b) m])"
      using fate by (simp add: turnsOf_def logEvent_def b_def openBoundary_def)
    show ?thesis using turnInvI [OF turns open1] turns by (simp add: activeAt_def turnsOf_def)
  qed
  have rest: "turnInv (snd (bindS (attemptS (terminalizeUserTurn env ?i PreparationFailed)) (\<lambda>terminalError. case terminalError of
       Some _ \<Rightarrow> throwS (AggregateFault msg) | None \<Rightarrow> throwS e) s2))" for e msg
    by (rule bind_at) (use terminalize_turnInv [OF act, of PreparationFailed env] in
      \<open>auto simp: attemptS_def catchS_def bindS_def split: prod.splits sum.splits intro!: preserves_rules\<close>)
  show ?thesis
    using x act rest by (auto simp: startUserTurn_def Let_def catchS_def bindS_def [of "emitOwn _ _"] activeAt_def split: sum.split)
qed

lemma beginUserTurn_inv:
  fixes env :: "('s, 'w) harnessEnv"
  shows "preserves turnInv (beginUserTurn env m)"
proof (rule preservesI)
  fix s :: "('s, 'w) harness"
  assume inv: "turnInv s"
  define close where "close = (case hnActiveUserTurn s of None \<Rightarrow> retS ()
    | Some i \<Rightarrow> if btTerminal (hnBoundaries s ! i) then retS () else terminalizeUserTurn env i Superseded)"
  have closes: "turnInv s' \<and> (r = Inr () \<longrightarrow> hnDiverged s' \<or> hnActiveUserTurn s' = None)" if "close s = (r, s')" for r s'
  proof (cases "hnActiveUserTurn s")
    case None
    then show ?thesis using that inv by (simp add: close_def)
  next
    case (Some i)
    note act = current_active [OF inv Some]
    show ?thesis
    proof (cases "btTerminal (hnBoundaries s ! i)")
      case True
      then show ?thesis using that inv Some activeD(3) [OF act] by (auto simp: close_def)
    next
      case False
      then show ?thesis using terminalizeUserTurn_inv [OF act, of Superseded] that Some by (simp add: close_def)
    qed
  qed
  have "turnInv (snd (bindS close (\<lambda>_. startUserTurn env m) s))"
    using closes by (auto simp: bindS_def startUserTurn_inv split: prod.split sum.split)
  then show "turnInv (snd (beginUserTurn env m s))"
    using inv unfolding close_def by (simp add: beginUserTurn_def Let_def split: option.split)
qed

text \<open>So the invariant is a harness frame.\<close>

lemma stored_hung:
  "hnDiverged (snd (queueWrite k s)) = hnDiverged s"
  "hnDiverged (snd (writeNow env k s)) = hnDiverged s"
  "hnDiverged (snd (flushOne env k s)) = hnDiverged s"
  "hnDiverged (snd (onSession f s)) = hnDiverged s"
proof -
  have "hnDiverged (snd (writeEntry env k s)) = hnDiverged s"
    by (cases k) (auto simp: writeEntry_def appendToSession_def onClock_def onSession_def bindS_def Let_def split: prod.split sum.split)
  then show "hnDiverged (snd (queueWrite k s)) = hnDiverged s" "hnDiverged (snd (writeNow env k s)) = hnDiverged s"
    "hnDiverged (snd (flushOne env k s)) = hnDiverged s" "hnDiverged (snd (onSession f s)) = hnDiverged s"
    by (auto simp: queueWrite_def writeNow_def flushOne_def onSession_def bindS_def modifyS_def split: prod.splits sum.splits)
qed

lemma turnInv_stored:
  "turnInv (snd (queueWrite k s)) = turnInv s" "turnInv (snd (writeNow env k s)) = turnInv s"
  "turnInv (snd (flushOne env k s)) = turnInv s" "turnInv (snd (onSession f s)) = turnInv s" "turnInv (s\<lparr>hnSession := t\<rparr>) = turnInv s"
  by (rule turnInv_turns; simp add: stored_turns stored_hung)+

interpretation turns: await_frame env "\<lambda>_. turnInv" True for env
proof unfold_locales
  fix s s' :: "('a, 'b) harness"
  show "turnInv s'" if "turnInv s" "turnsOf s' = turnsOf s" "storedOf s' = storedOf s" "hnDiverged s' = hnDiverged s"
    using that turnInv_turns by blast
  show "turnInv (snd (queueWrite k s))" "turnInv (snd (writeNow env k s))" "turnInv (snd (flushOne env k s))"
    "turnInv (snd (onSession (opGetLeafId (heOps env)) s))" "turnInv (s\<lparr>hnSession := t\<rparr>)" if "turnInv s" for k t
    using that by (simp_all add: turnInv_stored)
qed (simp_all add: turnInv_hung)

lemma turns_iff: "turns.framed tr s = turnInv s"
  by (simp add: turns.framed_def)

interpretation turns: harness_frame env "\<lambda>_. turnInv" True for env
proof unfold_locales
  fix s s' :: "('a, 'b) harness" and x r
  assume inv: "turnInv s" "appendToSession env (\<lambda>now. appendMessage (heOps env) now x) s = (r, s')"
  then have "turnsOf s' = turnsOf s \<and> hnDiverged s' = hnDiverged s"
    by (auto simp: appendToSession_def onClock_def onSession_def bindS_def turnsOf_def split: prod.splits sum.splits)
  then show "turnInv s'" "turnInv s'" using inv turnInv_turns by blast+
qed (auto simp: turns_iff commitUserTurn_inv intro!: preservesD [OF beginUserTurn_inv] preservesD [OF terminalizeActive_inv] preservesD [OF failPreparation_inv])

subsection \<open>The public operations\<close>

lemma turns_frame: "(\<And>tr. preserves (turns.framed tr) m) \<Longrightarrow> preserves turnInv m"
  by (simp add: turns_iff [abs_def] preserves_def)

lemma turnInv_same: "turnsOf s' = turnsOf s \<Longrightarrow> hnDiverged s' = hnDiverged s \<Longrightarrow> turnInv s \<Longrightarrow> turnInv s'"
  using turnInv_turns by blast

lemma turnInv_modify: "(\<And>s. turnsOf (f s) = turnsOf s \<and> hnDiverged (f s) = hnDiverged s) \<Longrightarrow> preserves turnInv (modifyS f)"
  by (rule preserves_modify) (simp add: turnInv_same)

text \<open>After \<open>beginUserTurn\<close> of the message its turn is under way.\<close>

definition turnDue :: "userMessage \<Rightarrow> ('s, 'w) harness \<Rightarrow> bool" where
  "turnDue m s \<longleftrightarrow> turnInv s \<and> dueTurn m s"

lemma turnDue_frame:
  assumes "\<And>tr. preserves (turns.framed tr) f" "\<And>v. preserves (kept.framed v []) f"
  shows "preserves (turnDue m) f"
  unfolding turnDue_def by (rule preserves_both [OF turns_frame [OF assms(1)] kept_due [OF assms(2)]])

lemma begin_then_due:
  fixes env :: "('s, 'w) harnessEnv"
  assumes "\<And>i. preservesTo (turnDue m) turnInv (f i)"
  shows "preserves turnInv (bindS (beginUserTurn env m) f)"
proof (rule preservesI)
  fix s :: "('s, 'w) harness"
  assume "turnInv s"
  then show "turnInv (snd (bindS (beginUserTurn env m) f s))"
    using preservesD [OF beginUserTurn_inv, of s env m] beginUserTurn_due [of env m s] assms
    by (auto simp: bindS_def preservesTo_def turnDue_def split: prod.split sum.split)
qed

lemma commit_due: "preservesTo (turnDue m) turnInv (commitUserTurn env m i)"
  by (simp add: preservesTo_def turnDue_def commitUserTurn_inv)

lemma runLoopOn_inv:
  fixes env :: "('s, 'w) harnessEnv"
  shows "preserves turnInv (runLoopOn env c ts ms p)"
proof (rule preservesI)
  fix s :: "('s, 'w) harness"
  assume "turnInv s"
  then show "turnInv (snd (runLoopOn env c ts ms p s))"
    using turns.runLoopOn_framed [of s env c ts ms p] by (cases "runLoopOn env c ts ms p s") (auto simp: turns_iff split: sum.splits)
qed

lemma handleEvent_inv:
  fixes env :: "('s, 'w) harnessEnv"
  assumes due: "\<And>s :: ('s, 'w) harness. dueWhen dueTurn ev s"
  shows "preserves turnInv (handleAgentEvent env ev)"
proof (rule preservesI)
  fix s :: "('s, 'w) harness"
  assume "turnInv s"
  then show "turnInv (snd (handleAgentEvent env ev s))"
    using turns.event_framed [of "[]" s ev env, OF _ due] by (cases "handleAgentEvent env ev s") (auto simp: turns_iff)
qed

lemma emitRunFailure_inv: "preserves turnInv (emitRunFailure env model e stopped)"
  unfolding emitRunFailure_def createFailureMessage_def
  by (intro preserves_rules handleEvent_inv turns_frame [OF turns.frame_onClock]) (simp_all add: dueWhen_def)

lemma runOrReport_inv: "preserves turnInv (runOrReport env c ts ms p)"
  unfolding runOrReport_def by (intro preserves_rules runLoopOn_inv emitRunFailure_inv)

lemma lastAssistant_inv: "preserves P (lastAssistant ms)"
  unfolding lastAssistant_def by (intro preserves_rules)

lemma userMessage_inv: "preserves turnInv (createUserMessage env text images)" "preserves turnInv (takeNextTurn env)"
  "preserves turnInv (emitHook env hs ev)" "preserves turnInv (createTurnState env)" "preserves turnInv (setTurnState ts)"
  "preserves turnInv (throwIfAborted c)" "preserves turnInv (activateFollowUp env a)" "preserves turnInv (emitQueueUpdate (emitOwn env))"
  "preserves turnInv (flushPendingSessionWrites env)"
  by (intro turns_frame turns.frame turns.frame_activate; simp)+

lemma closeRun_inv: "preserves turnInv (closeRun env c)"
proof -
  have "preserves turnInv (modifyS (\<lambda>s. (resetPrepared s)\<lparr>hnInFlightDrain := None, hnRunAbortController := None\<rparr>))"
    by (rule turnInv_modify) (simp add: resetPrepared_def turnsOf_def)
  then show ?thesis unfolding closeRun_def by (intro preserves_rules terminalizeActive_inv userMessage_inv)
qed

lemma prepareUserTurn_inv: "preserves turnInv (prepareUserTurn env c ts ms m prepare)"
proof -
  have release: "preserves turnInv (modifyS (\<lambda>s. (resetPrepared s)\<lparr>hnRunAbortController := None\<rparr>))"
    by (rule turnInv_modify) (simp add: resetPrepared_def turnsOf_def)
  have prepares: "preserves turnInv (bindS (beginUserTurn env m) (\<lambda>_. bindS (prepareUserMessage env ts ms m f) (\<lambda>prepared.
      bindS (commitUserTurn env m (pdUserEntryId prepared)) (\<lambda>_. retS (Some prepared)))))" for f
    by (intro begin_then_due to_bind [where P = "turnDue m"] turnDue_frame to_end [OF commit_due] preserves_rules
      turns.frame_prepareUserMessage kept.frame_prepareUserMessage TrueI) (simp add: turnDue_def)
  show ?thesis unfolding prepareUserTurn_def
    by (intro prepares preserves_catch preserves_bind preserves_option preserves_if preserves_throw preserves_ret preserves_attempt
      failPreparation_inv release userMessage_inv)
qed

lemma controller_inv: "preserves turnInv newAbortController" "preserves turnInv (setRunController c)"
  unfolding setRunController_def
  by (rule preservesI, simp add: newAbortController_def, erule turnInv_same [rotated 2], simp_all add: turnsOf_def)
    (rule turnInv_modify, simp add: turnsOf_def)

lemma executeTurn_inv: "preserves turnInv (executeTurn env ts text images prepare queued controller)"
proof -
  have records: "preserves turnInv (modifyS (\<lambda>s. (recordPrepared p s)\<lparr>hnPreparedUserEntryIds := f s\<rparr>))"
    "preserves turnInv (modifyS (\<lambda>s. s\<lparr>hnRunAbortController := x, hnSystemPromptSuffix := y\<rparr>))" for p f x y
    by (rule turnInv_modify; simp add: recordPrepared_def turnsOf_def)+
  show ?thesis unfolding executeTurn_def
    by (intro preserves_rules userMessage_inv controller_inv prepareUserTurn_inv records runOrReport_inv lastAssistant_inv closeRun_inv)
qed

lemma putBack_inv: "preserves turnInv (modifyS (prependFollowUps ms ps as))"
  "preserves turnInv (modifyS (\<lambda>s. s\<lparr>hnFollowUpQueue := q, hnFollowUpPreparations := f s, hnFollowUpActivations := g s\<rparr>))"
  by (rule turnInv_modify; simp add: prependFollowUps_def turnsOf_def)+

lemma promoteOne_inv: "preserves turnInv (promoteOne env c m prepare activate)"
  unfolding promoteOne_def by (intro preserves_rules beginUserTurn_inv userMessage_inv executeTurn_inv)

lemma promote_inv: "preserves turnInv (promoteQueuedFollowUp env n)"
proof (induction n)
  case (Suc n)
  show ?case
    unfolding promoteQueuedFollowUp.simps
    by (intro preserves_rules putBack_inv userMessage_inv controller_inv promoteOne_inv failPreparation_inv Suc.IH)
      (simp_all add: putBack_inv)
qed (simp add: preserves_def)

lemma emitDuring_inv: "\<not> isTurnEvent ev \<Longrightarrow> preserves turnInv (emitDuring env ev)" "\<not> isTurnEvent ev \<Longrightarrow> preserves turnInv (emitOwn env ev)"
  by (rule turns_frame, erule turns.frame_emitDuring, rule turns_frame, erule turns.frame_emitOwn)

lemma finishRunPromise_inv:
  fixes env :: "('s, 'w) harnessEnv"
  shows "preserves turnInv (finishRunPromise env)"
proof (rule preservesI)
  fix s :: "('s, 'w) harness"
  assume "turnInv s"
  then have start: "turnInv (s\<lparr>hnRunPromise := False, hnAbortWaiters := []\<rparr>)"
    by (rule turnInv_same [rotated 2]) (simp_all add: turnsOf_def)
  have "preserves turnInv (case x of (a, b) \<Rightarrow> emitDuring env (AbortDone a b))" for x
    by (intro preserves_rules emitDuring_inv) simp
  from preserves_fold [of "hnAbortWaiters s" turnInv, OF this start]
  show "turnInv (snd (finishRunPromise env s))" by (simp add: finishRunPromise_def case_prod_unfold)
qed

lemma phases_inv: "preserves turnInv startRun" "preserves turnInv (startIdle phase message)" "preserves turnInv becomeIdle"
  "preserves turnInv (failRun e)"
proof -
  have set_phase: "preserves turnInv (modifyS (\<lambda>s. s\<lparr>hnPhase := p, hnRunPromise := r\<rparr>))" "preserves turnInv (modifyS (\<lambda>s. s\<lparr>hnPhase := p\<rparr>))"
    "preserves turnInv (modifyS (\<lambda>s. if hnFinalizationPending s then s else s\<lparr>hnPhase := PhaseIdle\<rparr>))" for p r
    by (rule turnInv_modify; simp add: turnsOf_def)+
  show "preserves turnInv startRun" "preserves turnInv (startIdle phase message)" "preserves turnInv becomeIdle" "preserves turnInv (failRun e)"
    unfolding startRun_def startIdle_def becomeIdle_def failRun_def releaseTurnPhaseAfterFailure_def
    by (intro preserves_rules set_phase)+
qed

lemmas run_inv = phases_inv userMessage_inv executeTurn_inv finishRunPromise_inv promote_inv

lemma readSession_inv: "preserves P (readSession f)"
  by (rule preservesI) (auto simp: readSession_def split: option.split sum.split)

lemma writeNow_inv: "preserves turnInv (writeNow env k)"
  by (rule preservesI) (simp add: turnInv_stored)

lemma prompt_inv: "preserves turnInv (prompt env text images prepare)"
  unfolding prompt_def by (intro preserves_rules run_inv)

lemma promptReturningEntryId_inv: "preserves turnInv (promptReturningEntryId env text images prepare)"
  unfolding promptReturningEntryId_def by (intro preserves_rules run_inv readSession_inv)

lemma promptWithCustomEntry_inv: "preserves turnInv (promptWithCustomEntry env customType data text images prepare)"
  unfolding promptWithCustomEntry_def by (intro preserves_rules run_inv writeNow_inv)

lemma abort_inv: "preserves turnInv (abort env)"
  unfolding abort_def by (intro preserves_rules turns_frame [OF turns.frame_startAbort] turns.frame_emitOwn emitDuring_inv) simp_all

lemma onSession_inv: "preserves turnInv (onSession f)"
  by (rule preservesI) (simp add: turnInv_stored)

lemma requireAuth_inv: "preserves turnInv (onClock g)" "preserves turnInv (requireAuth env model purpose)"
  unfolding requireAuth_def by (intro preserves_rules turns_frame turns.frame)+

lemma appendToSession_inv: "preserves turnInv (appendToSession env h)"
  unfolding appendToSession_def by (intro preserves_rules onSession_inv requireAuth_inv)

lemma liftResult_inv: "preserves P (liftResult f r)"
  unfolding liftResult_def by (intro preserves_rules)

lemma compact_inv: "preserves turnInv (harnessCompact env instructions)"
  unfolding harnessCompact_def compactionResultOf_def
  by (intro preserves_rules run_inv readSession_inv onSession_inv requireAuth_inv appendToSession_inv
    liftResult_inv emitDuring_inv) simp

lemma branchSummaryFor_inv: "preserves turnInv (branchSummaryFor env options hook entries)"
  unfolding branchSummaryFor_def
  by (intro preserves_rules requireAuth_inv) (auto split: sum.split branch_error.split branch_error_code.split intro!: preserves_rules)

lemma navigateTree_inv: "preserves turnInv (navigateTree env targetId options)"
  unfolding navigateTree_def by (intro preserves_rules run_inv readSession_inv onSession_inv appendToSession_inv branchSummaryFor_inv emitDuring_inv) simp

lemma newHarness_turns: "turnInv (newHarness session model level options tools activeNames steering followUps world)"
  by (simp add: turnInv_def newHarness_def turnsOf_def turnsInv_def turnsShape_def turnsStatus_def begunTurns_def List.map_filter_simps)

lemma step_turns: "harnessStep env s s' \<Longrightarrow> turnInv s \<Longrightarrow> turnInv s'"
proof (induction rule: harnessStep.induct)
  case (Call q s)
  have "preserves turnInv (perform env (emitOwn env) q)"
    by (rule turns_frame) (rule turns.frame_perform [OF turns.frame_emitOwn], simp_all)
  then show ?case using Call.prems by (rule preservesD)
next
  case (World s w)
  then show ?case by (rule turnInv_same [rotated 2]) (simp_all add: turnsOf_def)
qed (erule preservesD [OF prompt_inv] preservesD [OF promptReturningEntryId_inv] preservesD [OF promptWithCustomEntry_inv]
    preservesD [OF compact_inv] preservesD [OF navigateTree_inv] preservesD [OF abort_inv])+

lemma reaches_turns: "harnessReaches env s s' \<Longrightarrow> turnInv s \<Longrightarrow> turnInv s'"
  by (induction rule: harnessReaches.induct) (auto intro: step_turns)

text \<open>
  C4: User turns never overlap.  Whatever a client calls and whatever its listeners, hooks, tools and
  preparations do, the events a harness gives its listeners follow the protocol: a turn begins, is
  committed when its message has a durable entry, and ends, before the next one begins; a turn that
  was not committed ends as superseded or as failed in preparation; and the turns are numbered in the
  order they begin.  The only assumption is that awaited code came back.
\<close>

theorem user_turns_never_overlap:
  assumes "harnessReaches env (newHarness session model level options tools activeNames steering followUps world) s"
    and "\<not> hnDiverged s"
  shows "runTurns NoTurn (hnEvents s) \<noteq> None
    \<and> begunTurns (hnEvents s) = map (\<lambda>i. ''boundary-'' @ natToString (Suc i)) [0..<hnUserTurnCounter s]"
proof -
  have "turnInv s" by (rule reaches_turns [OF assms(1) newHarness_turns])
  then show ?thesis
    using turnInvD [OF _ assms(2)] unfolding turnsInv_def turnsShape_def runTurns_filter begunTurns_filter by (auto simp: tokenOf_def)
qed

theorem user_turns_never_overlap_witness:
  "length (hnEvents exampleStopped) = 3 \<and> runTurns NoTurn (hnEvents exampleStopped) \<noteq> None"
proof -
  have "harnessReaches exampleEnv exampleHarness exampleStopped"
    unfolding exampleStopped_def by (rule harnessReaches.Next [OF harnessReaches.Here harnessStep.Prompt])
  from user_turns_never_overlap [OF this [unfolded exampleHarness_def]] exampleStopped_lives show ?thesis by simp
qed

end
