(* ===== verification/HarnessPersistence.thy ===== *)
theory HarnessPersistence
  imports HarnessExample JsonlStorage
begin

section \<open>What a run stores\<close>

text \<open>
  The session of a harness over any storage that meets \<open>session_storage\<close>: from a starting state on,
  the file and the branch only grow, and what is added are the messages whose end was reported, the
  queued writes that were flushed, and the writes clients stored at once, each exactly once and each
  kind in its order.  The relation \<open>persisted\<close> is an instance of \<open>harness_frame\<close>; it needs that no
  preparation and no activation is in play, since these write to the session themselves.
\<close>

subsection \<open>Three lists merged into one\<close>

lemma shuffles_snoc_left: "zs \<in> shuffles xs ys \<Longrightarrow> zs @ [a] \<in> shuffles (xs @ [a]) ys"
proof (induction xs ys arbitrary: zs rule: shuffles.induct)
  case (1 ys)
  then have "zs = ys" by simp
  moreover have "ys @ [a] \<in> shuffles [a] ys" by (induction ys) (auto simp: Cons_in_shuffles_rightI)
  ultimately show ?case by simp
next
  case (2 xs)
  then show ?case by simp
next
  case (3 x xs y ys)
  from "3.prems" consider zs' where "zs = x # zs'" "zs' \<in> shuffles xs (y # ys)" | zs' where "zs = y # zs'" "zs' \<in> shuffles (x # xs) ys"
    by auto
  then show ?case
  proof cases
    case 1
    then show ?thesis using "3.IH"(1) by (auto intro: Cons_in_shuffles_leftI)
  next
    case 2
    then show ?thesis using "3.IH"(2) by (auto intro: Cons_in_shuffles_rightI)
  qed
qed

lemma shuffles_snoc_right: "zs \<in> shuffles xs ys \<Longrightarrow> zs @ [a] \<in> shuffles xs (ys @ [a])"
  using shuffles_snoc_left [of zs ys xs a] by (simp add: shuffles_commutes)

definition merged :: "'a list \<Rightarrow> 'a list \<Rightarrow> 'a list \<Rightarrow> 'a list \<Rightarrow> bool" where
  "merged xs ys zs ws \<longleftrightarrow> (\<exists>vs \<in> shuffles xs ys. ws \<in> shuffles vs zs)"

lemma merged_Nil [simp]: "merged [] [] [] ws \<longleftrightarrow> ws = []"
  by (simp add: merged_def)

lemma merged_snoc:
  assumes "merged xs ys zs ws"
  shows "merged (xs @ [a]) ys zs (ws @ [a])" "merged xs (ys @ [a]) zs (ws @ [a])" "merged xs ys (zs @ [a]) (ws @ [a])"
  using assms unfolding merged_def by (blast intro: shuffles_snoc_left shuffles_snoc_right)+

lemma merged_set: "merged xs ys zs ws \<Longrightarrow> set ws = set xs \<union> set ys \<union> set zs"
  by (auto simp: merged_def set_shuffles)

lemma merged_length: "merged xs ys zs ws \<Longrightarrow> length ws = length xs + length ys + length zs"
  by (auto simp: merged_def length_shuffles)

subsection \<open>Growing sessions\<close>

text \<open>The kind of entry a write is stored as: absent data of a custom entry is \<open>undefined\<close>.\<close>

definition storedKind :: "entry_kind \<Rightarrow> entry_kind" where
  "storedKind k = (case k of CustomEntry t d \<Rightarrow> CustomEntry t (Some (case d of None \<Rightarrow> JUndefined | Some x \<Rightarrow> x)) | _ \<Rightarrow> k)"

lemma storedKind_plain [simp]: "plainWrite k \<Longrightarrow> storedKind k = k"
  by (simp add: storedKind_def plainWrite_def split: entry_kind.splits)

definition grown :: "'s storageOps \<Rightarrow> 's \<Rightarrow> 's \<Rightarrow> entry list \<Rightarrow> bool" where
  "grown ops t t' es \<longleftrightarrow> opGetEntries ops t' = opGetEntries ops t @ es \<and> branchOf (opGetEntries ops t') = branchOf (opGetEntries ops t) @ es"

lemma grown_trans: "grown ops t t1 es \<Longrightarrow> grown ops t1 t2 es' \<Longrightarrow> grown ops t t2 (es @ es')"
  unfolding grown_def by (metis append.assoc)

lemma grown_refl: "grown ops t t []"
  by (simp add: grown_def)

text \<open>
  What the harness has stored since \<open>start\<close>: the messages \<open>ms\<close>, the writes that were pending or
  queued meanwhile as far as they are not pending still, and the direct writes.
\<close>

definition hasStored :: "'s storageOps \<Rightarrow> ('s, 'w) harness \<Rightarrow> agent_message list \<Rightarrow> ('s, 'w) harness \<Rightarrow> bool" where
  "hasStored ops start ms s \<longleftrightarrow> (\<exists>es flushed direct queued.
       grown ops (hnSession start) (hnSession s) es
     \<and> merged (map MessageEntry ms) flushed (map storedKind direct) (map eKind es)
     \<and> hnWrites s = hnWrites start @ queued
     \<and> flushed @ hnPendingSessionWrites s = hnPendingSessionWrites start @ queued
     \<and> hnDirectWrites s = hnDirectWrites start @ direct)"

lemma hasStored_start: "hasStored ops start [] start"
  unfolding hasStored_def by (rule exI [of _ "[]"], rule exI [of _ "[]"], rule exI [of _ "[]"]) (simp add: grown_refl)

text \<open>The entries \<open>es'\<close> are added: messages, flushed writes \<open>f\<close> or direct writes \<open>d'\<close>; the writes \<open>q'\<close> are queued.\<close>

lemma hasStored_more:
  assumes "hasStored ops start ms s" "grown ops (hnSession s) (hnSession s') es'"
    and merge: "\<And>fl d ws. merged (map MessageEntry ms) fl (map storedKind d) ws
      \<Longrightarrow> merged (map MessageEntry ms') (fl @ f) (map storedKind (d @ d')) (ws @ map eKind es')"
    and pending: "hnPendingSessionWrites s @ q' = f @ hnPendingSessionWrites s'"
    and logs: "hnWrites s' = hnWrites s @ q'" "hnDirectWrites s' = hnDirectWrites s @ d'"
  shows "hasStored ops start ms' s'"
proof -
  obtain es fl d q where s: "grown ops (hnSession start) (hnSession s) es" "merged (map MessageEntry ms) fl (map storedKind d) (map eKind es)"
    "hnWrites s = hnWrites start @ q" "fl @ hnPendingSessionWrites s = hnPendingSessionWrites start @ q"
    "hnDirectWrites s = hnDirectWrites start @ d" using assms(1) unfolding hasStored_def by blast
  have "(fl @ f) @ hnPendingSessionWrites s' = hnPendingSessionWrites start @ q @ q'"
    using s(4) pending by (metis append.assoc)
  moreover have "merged (map MessageEntry ms') (fl @ f) (map storedKind (d @ d')) (map eKind (es @ es'))" using merge [OF s(2)] by simp
  ultimately show ?thesis
    unfolding hasStored_def using grown_trans [OF s(1) assms(2)] s(3,5) logs by (metis append.assoc)
qed

lemma hasStored_same:
  "hasStored ops start ms s \<Longrightarrow> grown ops (hnSession s) (hnSession s') [] \<Longrightarrow> hnPendingSessionWrites s' = hnPendingSessionWrites s
    \<Longrightarrow> hnWrites s' = hnWrites s \<Longrightarrow> hnDirectWrites s' = hnDirectWrites s \<Longrightarrow> hasStored ops start ms s'"
  by (erule hasStored_more [where es' = "[]" and f = "[]" and q' = "[]" and d' = "[]"]) simp_all

lemma hasStored_message:
  "hasStored ops start ms s \<Longrightarrow> grown ops (hnSession s) (hnSession s') [e] \<Longrightarrow> eKind e = MessageEntry m
    \<Longrightarrow> hnPendingSessionWrites s' = hnPendingSessionWrites s \<Longrightarrow> hnWrites s' = hnWrites s \<Longrightarrow> hnDirectWrites s' = hnDirectWrites s
    \<Longrightarrow> hasStored ops start (ms @ [m]) s'"
  by (erule hasStored_more [where es' = "[e]" and f = "[]" and q' = "[]" and d' = "[]"]) (simp_all add: merged_snoc)

lemma hasStored_flushed:
  "hasStored ops start ms s \<Longrightarrow> grown ops (hnSession s) (hnSession s') [e] \<Longrightarrow> eKind e = k
    \<Longrightarrow> hnPendingSessionWrites s = k # hnPendingSessionWrites s' \<Longrightarrow> hnWrites s' = hnWrites s \<Longrightarrow> hnDirectWrites s' = hnDirectWrites s
    \<Longrightarrow> hasStored ops start ms s'"
  by (erule hasStored_more [where es' = "[e]" and f = "[k]" and q' = "[]" and d' = "[]"]) (simp_all add: merged_snoc)

lemma hasStored_direct:
  "hasStored ops start ms s \<Longrightarrow> grown ops (hnSession s) (hnSession s') [e] \<Longrightarrow> eKind e = storedKind k
    \<Longrightarrow> hnPendingSessionWrites s' = hnPendingSessionWrites s \<Longrightarrow> hnWrites s' = hnWrites s \<Longrightarrow> hnDirectWrites s' = hnDirectWrites s @ [k]
    \<Longrightarrow> hasStored ops start ms s'"
  by (erule hasStored_more [where es' = "[e]" and f = "[]" and q' = "[]" and d' = "[k]"]) (simp_all add: merged_snoc)

lemma hasStored_queued:
  "hasStored ops start ms s \<Longrightarrow> hnSession s' = hnSession s
    \<Longrightarrow> hnPendingSessionWrites s' = hnPendingSessionWrites s @ [k] \<Longrightarrow> hnWrites s' = hnWrites s @ [k]
    \<Longrightarrow> hnDirectWrites s' = hnDirectWrites s \<Longrightarrow> hasStored ops start ms s'"
  by (erule hasStored_more [where es' = "[]" and f = "[]" and q' = "[k]" and d' = "[]"]) (simp_all add: grown_refl)

subsection \<open>The session behind a harness\<close>

locale harness_session = session_storage "heOps env" sha inv
  for env :: "('s, 'w) harnessEnv" and sha :: "string \<Rightarrow> string" and inv :: "'s \<Rightarrow> bool" +
  assumes requests: "q \<in> set (fst (heRequests env w)) \<Longrightarrow> requestFree q"
begin

definition sound :: "'s \<Rightarrow> bool" where
  "sound t \<longleftrightarrow> inv t \<and> leafValid (opGetEntries (heOps env) t)"

text \<open>A step adds entries to the session and leaves the writes alone.\<close>

definition adds :: "('s, 'w) harness \<Rightarrow> ('s, 'w) harness \<Rightarrow> entry list \<Rightarrow> bool" where
  "adds s s' es \<longleftrightarrow> sound (hnSession s') \<and> grown (heOps env) (hnSession s) (hnSession s') es
     \<and> hnPendingSessionWrites s' = hnPendingSessionWrites s \<and> hnWrites s' = hnWrites s \<and> hnDirectWrites s' = hnDirectWrites s"

lemma below_leaf_adds:
  assumes s: "sound (hnSession s)" and kind: "\<forall>t. kind \<noteq> LeafEntry t"
    and run: "appendToSession env (\<lambda>now. appendBelowLeaf (heOps env) now kind) s = (r, s')"
  shows "case r of Inl _ \<Rightarrow> adds s s' [] | Inr _ \<Rightarrow> \<exists>e. eKind e = kind \<and> adds s s' [e]"
proof -
  obtain now w where now: "heIsoNow env (hnOutside s) = (now, w)" by fastforce
  obtain x t where x: "appendBelowLeaf (heOps env) now kind (hnSession s) = (x, t)" by fastforce
  have inv: "inv (hnSession s)" "leafValid (opGetEntries (heOps env) (hnSession s))" using s by (simp_all add: sound_def)
  have s': "s' = s\<lparr>hnOutside := w, hnSession := t\<rparr>" and r: "(\<exists>e. r = Inl e) = (\<exists>e. x = Inl e)"
    using run now x by (auto simp: appendToSession_def onClock_def onSession_def bindS_def split: sum.splits)
  show ?thesis
  proof (cases x)
    case (Inl e)
    have "inv t \<and> opGetEntries (heOps env) t = opGetEntries (heOps env) (hnSession s)"
      using appendBelowLeaf_outcome [OF inv, of now kind] x Inl by (simp add: appended_def)
    then show ?thesis using r Inl inv s' by (auto simp: adds_def sound_def grown_def)
  next
    case (Inr i)
    then obtain e where "eKind e = kind" "inv t" "leafValid (opGetEntries (heOps env) t)" "grown (heOps env) (hnSession s) t [e]"
      using appendBelowLeaf_branch [OF inv kind] x unfolding grown_def by blast
    then show ?thesis using r Inr s' by (auto simp: adds_def sound_def split: sum.split)
  qed
qed

lemma write_adds:
  assumes s: "sound (hnSession s)" and k: "plainWrite k \<or> (\<exists>t d. k = CustomEntry t d)" and run: "writeEntry env k s = (r, s')"
  shows "case r of Inl _ \<Rightarrow> adds s s' [] | Inr _ \<Rightarrow> \<exists>e. eKind e = storedKind k \<and> adds s s' [e]"
proof -
  have "writeEntry env k = bindS (appendToSession env (\<lambda>now. appendBelowLeaf (heOps env) now (storedKind k))) (\<lambda>_. retS ())"
    using k by (auto simp: writeEntry_def storedKind_def plainWrite_def appendMessage_def appendModelChange_def appendThinkingLevelChange_def
      appendCustomEntry_def split: entry_kind.splits)
  then obtain r' where run': "appendToSession env (\<lambda>now. appendBelowLeaf (heOps env) now (storedKind k)) s = (r', s')"
    and r: "(\<exists>e. r = Inl e) = (\<exists>e. r' = Inl e)"
    using run by (auto simp: bindS_def split: prod.splits sum.splits)
  have "\<forall>t. storedKind k \<noteq> LeafEntry t" using k by (auto simp: storedKind_def plainWrite_def split: entry_kind.splits)
  from below_leaf_adds [OF s this run'] r show ?thesis by (auto split: sum.splits)
qed

text \<open>The relation, for a run that follows the events \<open>earlier\<close>.\<close>

definition persisted :: "('s, 'w) harness \<Rightarrow> agent_event list \<Rightarrow> agent_event list \<Rightarrow> ('s, 'w) harness \<Rightarrow> bool" where
  "persisted start earlier tr s \<longleftrightarrow> sound (hnSession s) \<and> list_all plainWrite (hnPendingSessionWrites s)
     \<and> hasStored (heOps env) start (endedMessages (earlier @ tr)) s"

lemma persisted_same:
  assumes "persisted start pre tr s" "storedOf s' = storedOf s"
  shows "persisted start pre tr s'"
  using assms hasStored_same [of "heOps env" start _ s s'] by (auto simp: persisted_def storedOf_def grown_refl)

lemma persisted_adds:
  assumes s: "persisted start pre tr s" and adds: "adds s s' []"
  shows "persisted start pre tr s'"
  using s adds hasStored_same [of "heOps env" start _ s s'] by (auto simp: persisted_def adds_def)

lemma persisted_queued:
  assumes s: "persisted start pre tr s" and k: "plainWrite k"
  shows "persisted start pre tr (snd (queueWrite k s))"
  using s k hasStored_queued [of "heOps env" start _ s "snd (queueWrite k s)" k]
  by (simp add: persisted_def queueWrite_def modifyS_def)

lemma persisted_direct:
  assumes s: "persisted start pre tr s" and k: "plainWrite k \<or> (\<exists>t d. k = CustomEntry t d)"
  shows "persisted start pre tr (snd (writeNow env k s))"
proof -
  obtain r s1 where r: "writeEntry env k s = (r, s1)" by fastforce
  have written: "case r of Inl _ \<Rightarrow> adds s s1 [] | Inr _ \<Rightarrow> \<exists>e. eKind e = storedKind k \<and> adds s s1 [e]"
    by (rule write_adds [OF _ k r]) (use s in \<open>simp add: persisted_def\<close>)
  show ?thesis
  proof (cases r)
    case (Inl e)
    then have "snd (writeNow env k s) = s1" using r by (simp add: writeNow_def)
    then show ?thesis using persisted_adds [OF s] written Inl by simp
  next
    case (Inr u)
    define s2 where "s2 = s1\<lparr>hnDirectWrites := hnDirectWrites s1 @ [k]\<rparr>"
    have s2: "snd (writeNow env k s) = s2" using r Inr by (simp add: writeNow_def s2_def modifyS_def)
    obtain e where e: "eKind e = storedKind k" "adds s s1 [e]" using written Inr by auto
    have "hasStored (heOps env) start (endedMessages (pre @ tr)) s2"
      by (rule hasStored_direct [of _ _ _ s _ e k]) (use s e in \<open>auto simp: persisted_def adds_def s2_def\<close>)
    then show ?thesis unfolding s2 using s e by (simp add: persisted_def adds_def s2_def)
  qed
qed

lemma persisted_flushed:
  assumes s: "persisted start pre tr s" and pending: "hnPendingSessionWrites s = k # ks"
  shows "persisted start pre tr (snd (flushOne env k s))"
proof -
  obtain r s1 where r: "writeEntry env k s = (r, s1)" by fastforce
  have k: "plainWrite k" using s pending by (simp add: persisted_def)
  have written: "case r of Inl _ \<Rightarrow> adds s s1 [] | Inr _ \<Rightarrow> \<exists>e. eKind e = storedKind k \<and> adds s s1 [e]"
    by (rule write_adds [OF _ _ r]) (use s k in \<open>simp_all add: persisted_def\<close>)
  show ?thesis
  proof (cases r)
    case (Inl e)
    then have "snd (flushOne env k s) = s1" using r by (simp add: flushOne_def)
    then show ?thesis using persisted_adds [OF s] written Inl by simp
  next
    case (Inr u)
    define s2 where "s2 = s1\<lparr>hnPendingSessionWrites := tl (hnPendingSessionWrites s1)\<rparr>"
    have s2: "snd (flushOne env k s) = s2" using r Inr by (simp add: flushOne_def s2_def modifyS_def)
    obtain e where e: "eKind e = storedKind k" "adds s s1 [e]" using written Inr by auto
    have "hasStored (heOps env) start (endedMessages (pre @ tr)) s2"
      by (rule hasStored_flushed [of _ _ _ s _ e k]) (use s e k pending in \<open>auto simp: persisted_def adds_def s2_def\<close>)
    then show ?thesis unfolding s2 using s e pending by (simp add: persisted_def adds_def s2_def)
  qed
qed

lemma persisted_stored:
  assumes s: "persisted start pre tr s" and run: "appendToSession env (\<lambda>now. appendMessage (heOps env) now x) s = (r, s')"
  shows "case r of Inl _ \<Rightarrow> persisted start pre tr s' | Inr _ \<Rightarrow> persisted start pre (tr @ [MessageEnd x]) s'"
proof -
  have "case r of Inl _ \<Rightarrow> adds s s' [] | Inr _ \<Rightarrow> \<exists>e. eKind e = MessageEntry x \<and> adds s s' [e]"
    using below_leaf_adds [of s "MessageEntry x" r s'] s run by (simp add: appendMessage_def persisted_def)
  then show ?thesis
    using s persisted_adds [OF s, of s'] hasStored_message [of "heOps env" start "endedMessages (pre @ tr)" s s' _ x]
    by (cases r) (auto simp: persisted_def adds_def)
qed

lemma persisted_flush: "preserves (persisted start pre tr) (flushPendingSessionWrites env)"
  unfolding flushPendingSessionWrites_def by (intro preserves_rules preserves_flushWrites persisted_flushed)

lemma leaf_read: "persisted start pre tr s \<Longrightarrow> snd (onSession (opGetLeafId (heOps env)) s) = s"
  using getLeafId [of "hnSession s"] by (simp add: persisted_def sound_def onSession_def)

end

sublocale harness_session \<subseteq> persist: await_frame env "persisted start pre" False for start pre
proof unfold_locales
  fix tr and s s' :: "('s, 'w) harness"
  assume "persisted start pre tr s" "storedOf s' = storedOf s"
  then show "persisted start pre tr s'" by (rule persisted_same)
qed (auto simp: leaf_read persisted_queued persisted_direct persisted_flushed requests storedOf_def elim: persisted_same)

context harness_session
begin

text \<open>The user turns do not touch what is stored.\<close>

lemma turn_modify:
  assumes "\<And>s. storedOf (f s) = storedOf s" "\<And>s. prepFree s \<Longrightarrow> prepFree (f s)"
  shows "preserves (persist.framed start pre tr) (modifyS f)"
  by (rule preserves_modify) (use assms persisted_same in \<open>auto simp: persist.framed_def\<close>)

lemma turn_emit: "preserves (persist.framed start pre tr) (emitOwn env ev)"
  unfolding emitOwn_def by (intro preserves_rules persist.frame turn_modify) (simp_all add: logEvent_def storedOf_def prepFree_def)

lemma turn_steps:
  "preserves (persist.framed start pre tr) (modifyS (setBoundary i f))"
  "preserves (persist.framed start pre tr) (modifyS (settleCommitted i))"
  "preserves (persist.framed start pre tr) (modifyS (settleTerminal i))"
  "preserves (persist.framed start pre tr) (modifyS (openBoundary m))"
  "preserves (persist.framed start pre tr) (failUserTurnFinalization i e)"
  "preserves (persist.framed start pre tr) (throwUserTurnFinalizationError i)"
  unfolding failUserTurnFinalization_def throwUserTurnFinalizationError_def
  by (intro preserves_rules turn_modify;
      simp add: setBoundary_def settleCommitted_def settleTerminal_def openBoundary_def Let_def storedOf_def prepFree_def)+

lemma turn_commit: "preserves (persist.framed start pre tr) (emitUserTurnCommitted env i)"
  unfolding emitUserTurnCommitted_def by (intro preserves_rules turn_emit turn_steps)

lemma turn_end: "preserves (persist.framed start pre tr) (terminalizeUserTurn env i r)"
  unfolding terminalizeUserTurn_def by (intro preserves_rules turn_emit turn_steps turn_commit)

lemma turn_begin: "preserves (persist.framed start pre tr) (beginUserTurn env m)"
  unfolding beginUserTurn_def startUserTurn_def by (intro preserves_rules turn_emit turn_steps turn_end)

lemma turn_operations:
  "preserves (persist.framed start pre tr) (commitUserTurn env m x)"
  "preserves (persist.framed start pre tr) (terminalizeActiveUserTurn env r)"
  "preserves (persist.framed start pre tr) (failUserTurnPreparation env m c)"
  unfolding commitUserTurn_def terminalizeActiveUserTurn_def failUserTurnPreparation_def
  by (intro preserves_rules turn_begin turn_steps turn_commit turn_end)+

end

sublocale harness_session \<subseteq> persist: harness_frame env "persisted start pre" False for start pre
proof unfold_locales
  fix tr s m
  assume s: "persist.framed start pre tr s"
  show "persist.framed start pre tr (snd (beginUserTurn env m s))" by (rule preservesD [OF turn_begin s])
  show "persist.framed start pre tr (snd (commitUserTurn env m i s))" for i by (rule preservesD [OF turn_operations(1) s])
  show "persist.framed start pre tr (snd (terminalizeActiveUserTurn env r s))" for r by (rule preservesD [OF turn_operations(2) s])
  show "persist.framed start pre tr (snd (failUserTurnPreparation env m c s))" for c by (rule preservesD [OF turn_operations(3) s])
next
  fix tr s x s'
  assume s: "persisted start pre tr s"
  show "persisted start pre (tr @ [MessageEnd x]) s'"
    if "appendToSession env (\<lambda>now. appendMessage (heOps env) now x) s = (Inr i, s')" for i
    using persisted_stored [OF s that] by simp
  show "persisted start pre tr s'"
    if "appendToSession env (\<lambda>now. appendMessage (heOps env) now x) s = (Inl e, s')" for e
    using persisted_stored [OF s that] by simp
next
  fix tr s and ev :: agent_event
  assume "persisted start pre tr s" "False \<or> (\<forall>m. ev \<noteq> MessageEnd m)"
  then show "persisted start pre (tr @ [ev]) s" by (cases ev) (simp_all add: persisted_def)
qed

subsection \<open>Actions that return\<close>

definition yields :: "('s \<Rightarrow> bool) \<Rightarrow> ('s, harness_fault, 'a) action \<Rightarrow> ('a \<Rightarrow> 's \<Rightarrow> bool) \<Rightarrow> bool" where
  "yields P m Q \<longleftrightarrow> (\<forall>s a s'. P s \<and> m s = (Inr a, s') \<longrightarrow> Q a s')"

lemma yieldsI: "(\<And>s a s'. P s \<Longrightarrow> m s = (Inr a, s') \<Longrightarrow> Q a s') \<Longrightarrow> yields P m Q"
  unfolding yields_def by blast

lemma yieldsD: "yields P m Q \<Longrightarrow> P s \<Longrightarrow> m s = (Inr a, s') \<Longrightarrow> Q a s'"
  by (simp add: yields_def)

lemma yields_bind: "yields P m Q \<Longrightarrow> (\<And>a. yields (Q a) (f a) T) \<Longrightarrow> yields P (bindS m f) T"
  unfolding yields_def bindS_Inr_iff by blast

lemma yields_keep: "preserves P m \<Longrightarrow> (\<And>a. yields P (f a) T) \<Longrightarrow> yields P (bindS m f) T"
  by (rule yields_bind [of P m "\<lambda>_. P"]) (auto simp: yields_def dest: preserves_outcome)

lemma yields_read: "(\<And>s. yields P (f s) T) \<Longrightarrow> yields P (bindS getS f) T"
  by (rule yields_keep [OF preserves_get])

lemma yields_weaken: "yields P m Q \<Longrightarrow> (\<And>a s. Q a s \<Longrightarrow> T a s) \<Longrightarrow> yields P m T"
  unfolding yields_def by blast

lemma yields_fact: "(b \<Longrightarrow> yields P m T) \<Longrightarrow> yields (\<lambda>s. b \<and> P s) m T"
  by (auto simp: yields_def)

subsection \<open>A turn\<close>

definition assistantsOf :: "agent_message list \<Rightarrow> assistantMessage list" where
  "assistantsOf ms = List.map_filter (\<lambda>m. case m of AssistantMsg a \<Rightarrow> Some a | _ \<Rightarrow> None) ms"

lemma assistantsOf_append [simp]: "assistantsOf (xs @ ys) = assistantsOf xs @ assistantsOf ys"
  by (simp add: assistantsOf_def List.map_filter_def)

lemma assistantsOf_one [simp]: "assistantsOf [AssistantMsg a] = [a]"
  by (simp add: assistantsOf_def List.map_filter_simps)

text \<open>The messages end with the answer \<open>a\<close> of a run.\<close>

definition answeredBy :: "assistantMessage \<Rightarrow> agent_message list \<Rightarrow> bool" where
  "answeredBy a ms \<longleftrightarrow> (\<exists>as. assistantsOf ms = as @ [a])"

text \<open>The message of a turn: the queued one, or the prompt.\<close>

definition turnMessage :: "string \<Rightarrow> content_part list \<Rightarrow> userMessage option \<Rightarrow> userMessage \<Rightarrow> bool" where
  "turnMessage text images queued u \<longleftrightarrow> (case queued of Some m \<Rightarrow> u = m
     | None \<Rightarrow> umContent u = ContentParts (TextContent text None # images))"

lemma lastAssistant_Inr: "lastAssistant ms s = (Inr a, s') \<Longrightarrow> s' = s \<and> answeredBy a ms"
proof -
  assume run: "lastAssistant ms s = (Inr a, s')"
  have "List.map_filter f (rev ms) = rev (List.map_filter f ms)" for f :: "agent_message \<Rightarrow> assistantMessage option"
    by (simp add: List.map_filter_def rev_map rev_filter)
  then obtain as where "rev (assistantsOf ms) = a # as" "s' = s"
    using run by (auto simp: lastAssistant_def assistantsOf_def split: list.splits)
  then show ?thesis by (auto simp: answeredBy_def rev_eq_Cons_iff)
qed

lemma flushWrites_length:
  "flushWrites env n s = (Inr (), s') \<Longrightarrow> length (hnPendingSessionWrites s') = length (hnPendingSessionWrites s) - n"
proof (induction n arbitrary: s)
  case (Suc n)
  have kept: "hnPendingSessionWrites (snd (writeEntry env k s)) = hnPendingSessionWrites s" for k
    by (cases k) (auto simp: writeEntry_def appendToSession_def onClock_def onSession_def bindS_def Let_def split: prod.split sum.split)
  show ?case
  proof (cases "hnPendingSessionWrites s")
    case (Cons k ks)
    obtain s1 where s1: "writeEntry env k s = (Inr (), s1)" "flushWrites env n (s1\<lparr>hnPendingSessionWrites := tl (hnPendingSessionWrites s1)\<rparr>) = (Inr (), s')"
      using Suc.prems Cons by (auto simp: bindS_Inr_iff modifyS_def)
    then show ?thesis using Suc.IH [OF s1(2)] kept [of k] Cons by simp
  qed (use Suc.prems in simp)
qed simp

lemma flush_keeps_logs:
  "hnWrites (snd (flushWrites env n s)) = hnWrites s \<and> hnDirectWrites (snd (flushWrites env n s)) = hnDirectWrites s"
proof -
  have one: "hnWrites (snd (flushOne env k s)) = hnWrites s \<and> hnDirectWrites (snd (flushOne env k s)) = hnDirectWrites s" for k s
    by (cases k) (auto simp: flushOne_def writeEntry_def appendToSession_def onClock_def onSession_def bindS_def modifyS_def Let_def
      split: prod.split sum.split)
  show ?thesis
    by (rule preservesD [OF preserves_flushWrites, of "\<lambda>s'. hnWrites s' = hnWrites s \<and> hnDirectWrites s' = hnDirectWrites s"])
      (simp_all add: one)
qed

lemma flush_empties: "flushPendingSessionWrites env s = (Inr (), s') \<Longrightarrow> hnPendingSessionWrites s' = []"
  by (auto simp: flushPendingSessionWrites_def dest: flushWrites_length)

lemma finallyS_Inr: "finallyS m cleanup s = (Inr a, s') \<longleftrightarrow> (\<exists>s1 u. m s = (Inr a, s1) \<and> cleanup s1 = (Inr u, s'))"
  by (auto simp: finallyS_cases split: prod.splits sum.splits if_splits)

lemma finallyS_cleaned: "finallyS m cleanup s = (Inr a, s') \<Longrightarrow> \<exists>s1 u. cleanup s1 = (Inr u, s')"
  by (auto simp: finallyS_Inr)

lemma closeRun_empties: "closeRun env c s = (Inr (), s') \<Longrightarrow> hnPendingSessionWrites s' = []"
proof -
  assume run: "closeRun env c s = (Inr (), s')"
  then obtain s1 where s1: "finallyS (bindS getS (\<lambda>s. terminalizeActiveUserTurn env (if isAborted c s then RunAborted else ProviderFailed)))
      (flushPendingSessionWrites env) s = (Inr (), s1)" "s' = (resetPrepared s1)\<lparr>hnInFlightDrain := None, hnRunAbortController := None\<rparr>"
    by (auto simp: closeRun_def finallyS_Inr modifyS_def)
  then have "hnPendingSessionWrites s1 = []" by (auto simp: finallyS_Inr dest: flush_empties)
  then show ?thesis using s1(2) by (simp add: resetPrepared_def)
qed

lemma createFailure_Inr:
  "createFailureMessage env model e stopped s = (Inr a, s') \<Longrightarrow> amStopReason a \<in> {StopError, StopAborted}"
  by (auto simp: createFailureMessage_def bindS_Inr_iff)

context harness_frame
begin

text \<open>Whatever was stored, it was stored as the relation says.\<close>

definition someFramed :: "('s, 'w) harness \<Rightarrow> bool" where
  "someFramed s \<longleftrightarrow> (\<exists>tr. framed tr s)"

lemma some_preserved: "(\<And>tr. preserves (framed tr) m) \<Longrightarrow> preserves someFramed m"
  unfolding preserves_def someFramed_def by blast

lemma some_event:
  assumes due: "\<And>s :: ('s, 'w) harness. dueWhen dueTurn ev s"
  shows "preserves someFramed (handleAgentEvent env ev)"
proof (rule preservesI)
  fix s :: "('s, 'w) harness"
  assume "someFramed s"
  then obtain tr where "framed tr s" by (auto simp: someFramed_def)
  then show "someFramed (snd (handleAgentEvent env ev s))"
    using event_framed [of tr s ev, OF _ due] by (cases "handleAgentEvent env ev s") (auto simp: someFramed_def)
qed

lemma event_returns:
  assumes "framed tr s" "dueWhen dueTurn ev s" "handleAgentEvent env ev s = (Inr (), s')"
  shows "framed (tr @ [ev]) s'"
  using event_framed [OF assms] by auto

lemma frame_createFailure: "preserves (framed tr) (createFailureMessage env model e stopped)"
  unfolding createFailureMessage_def by (intro preserves_rules frame)

lemma some_runFailure: "preserves someFramed (emitRunFailure env model e stopped)"
  unfolding emitRunFailure_def
  by (intro preserves_rules some_preserved [OF frame_createFailure] some_event) (simp_all add: dueWhen_def)

lemma runFailure_framed:
  assumes s: "framed tr s" and run: "emitRunFailure env model e stopped s = (Inr out, s')"
  shows "\<exists>a tr'. out = [AssistantMsg a] \<and> amStopReason a \<in> {StopError, StopAborted} \<and> framed tr' s'
    \<and> endedMessages tr' = endedMessages tr @ [AssistantMsg a]"
proof -
  obtain a s0 s1 s2 s3 where a: "createFailureMessage env model e stopped s = (Inr a, s0)"
    "handleAgentEvent env (MessageStart (AssistantMsg a)) s0 = (Inr (), s1)" "handleAgentEvent env (MessageEnd (AssistantMsg a)) s1 = (Inr (), s2)"
    "handleAgentEvent env (TurnEnd a []) s2 = (Inr (), s3)" "handleAgentEvent env (AgentEnd [AssistantMsg a]) s3 = (Inr (), s')" "out = [AssistantMsg a]"
    using run by (auto simp: emitRunFailure_def bindS_Inr_iff Let_def)
  have "framed tr s0" by (rule preserves_outcome [OF frame_createFailure s a(1)])
  from event_returns [OF event_returns [OF event_returns [OF event_returns [OF this _ a(2)] _ a(3)] _ a(4)] _ a(5)]
  have "framed (tr @ [MessageStart (AssistantMsg a), MessageEnd (AssistantMsg a), TurnEnd a [], AgentEnd [AssistantMsg a]]) s'"
    by (simp add: dueWhen_def)
  then show ?thesis using a(6) createFailure_Inr [OF a(1)] by (intro exI conjI) auto
qed

end

context harness_session
begin

lemma framed_earlier: "persist.framed start pre tr s \<longleftrightarrow> persist.framed start [] (pre @ tr) s"
  by (simp add: persist.framed_def persisted_def)

abbreviation storing :: "('s, 'w) harness \<Rightarrow> ('s, 'w) harness \<Rightarrow> bool" where
  "storing start \<equiv> persist.someFramed start []"

lemma storing_run: "preserves (storing start) (runLoopOn env c ts ms p)"
proof (rule preservesI)
  fix s
  assume "storing start s"
  then obtain tr where "persist.framed start tr [] s" unfolding persist.someFramed_def using framed_earlier [of start _ "[]" s] by auto
  then obtain tr' where "persist.framed start tr tr' (snd (runLoopOn env c ts ms p s))"
    using persist.runLoopOn_framed [of start tr s c ts ms p] by (cases "runLoopOn env c ts ms p s") (auto split: sum.splits)
  then show "storing start (snd (runLoopOn env c ts ms p s))"
    unfolding persist.someFramed_def framed_earlier [of start tr] by blast
qed

lemma storing_runOrReport: "preserves (storing start) (runOrReport env c ts ms p)"
  unfolding runOrReport_def by (intro preserves_rules storing_run persist.some_runFailure)

lemma lastAssistant_preserves: "preserves P (lastAssistant ms)"
  unfolding lastAssistant_def by (intro preserves_rules)

lemma framed_closeRun: "preserves (persist.framed start pre tr) (closeRun env c)"
proof -
  have "preserves (persist.framed start pre tr) (modifyS (\<lambda>s. (resetPrepared s)\<lparr>hnInFlightDrain := None, hnRunAbortController := None\<rparr>))"
    by (rule turn_modify) (simp_all add: resetPrepared_def storedOf_def prepFree_def)
  then show ?thesis unfolding closeRun_def by (intro preserves_rules turn_operations persist.frame)
qed

text \<open>The steps of \<open>executeTurn\<close> before the run, without a preparation.\<close>

lemma framed_prepareNone: "preserves (persist.framed start pre tr) (prepareUserTurn env c ts ms m None)"
proof -
  have "preserves (persist.framed start pre tr) (modifyS (\<lambda>s. (resetPrepared s)\<lparr>hnRunAbortController := None\<rparr>))"
    by (rule turn_modify) (simp_all add: resetPrepared_def storedOf_def prepFree_def)
  then show ?thesis unfolding prepareUserTurn_def option.case
    by (intro preserves_rules turn_operations persist.frame)
qed

lemma framed_controller:
  "preserves (persist.framed start pre tr) (setRunController x)"
  "preserves (persist.framed start pre tr) (modifyS (\<lambda>s. s\<lparr>hnRunAbortController := x, hnSystemPromptSuffix := y\<rparr>))"
  unfolding setRunController_def by (rule turn_modify; simp add: storedOf_def prepFree_def)+

lemma framed_newController: "preserves (persist.framed start pre tr) newAbortController"
proof (rule preservesI)
  fix s
  assume s: "persist.framed start pre tr s"
  then show "persist.framed start pre tr (snd (newAbortController s))"
    using persisted_same [of start pre tr s "snd (newAbortController s)"]
    by (simp add: persist.framed_def newAbortController_def storedOf_def prepFree_def)
qed

lemma prepareNone_Inr: "prepareUserTurn env c ts ms m None s = (Inr p, s') \<Longrightarrow> p = None"
  by (auto simp: prepareUserTurn_def catchS_def bindS_ret bindS_Inr_iff bindS_def [of "attemptS _"] split: prod.splits sum.splits if_splits)

lemma storing_turn: "preserves (storing start) (executeTurn env ts text images None queued controller)"
proof -
  note some = persist.some_preserved [of start "[]"]
  have prepared: "preserves (storing start) (bindS (prepareUserTurn env c e ms m None) f)"
    if "preserves (storing start) (f None)" for c e ms m and f :: "preparedTurn option \<Rightarrow> ('s, 'w, assistantMessage) harnessM"
  proof (rule preservesI)
    fix s
    assume "storing start s"
    then have "storing start (snd (prepareUserTurn env c e ms m None s))" by (rule preservesD [OF some [OF framed_prepareNone]])
    then show "storing start (snd (bindS (prepareUserTurn env c e ms m None) f s))"
      using that prepareNone_Inr [of c e ms m s] by (auto simp: bindS_def preserves_def split: prod.split sum.split)
  qed
  show ?thesis
    unfolding executeTurn_def
    by (intro prepared preserves_rules storing_runOrReport lastAssistant_preserves some [OF framed_closeRun] some [OF framed_controller(1)]
      some [OF framed_controller(2)] some [OF framed_newController] some [OF persist.frame_createUserMessage] some [OF persist.frame_takeNextTurn]
      some [OF persist.frame_emitHook] some [OF persist.frame_setTurnState]) simp_all
qed

lemma takeNextTurn_Inr: "takeNextTurn env s = (Inr ms, s') \<Longrightarrow> ms = hnNextTurnQueue s"
  by (auto simp: takeNextTurn_def Let_def catchS_def bindS_def [of "emitQueueUpdate _"] split: if_splits prod.splits sum.splits)

lemma turnMessage_Inr:
  assumes "(case queued of Some m \<Rightarrow> retS m | None \<Rightarrow> createUserMessage env text images) s = (Inr u, s')"
  shows "hnNextTurnQueue s' = hnNextTurnQueue s \<and> (case queued of Some m \<Rightarrow> u = m
    | None \<Rightarrow> umContent u = ContentParts (TextContent text None # images))"
  using assms by (auto simp: createUserMessage_def bindS_def onClock_def split: option.splits prod.splits)

lemma runOrReport_stores:
  assumes s: "persist.framed start pre [] s" and run: "runOrReport env c ts ms p s = (Inr out, s')"
  shows "\<exists>tr. persist.framed start pre tr s' \<and> (\<forall>a. answeredBy a out \<longrightarrow> answeredBy a (endedMessages tr)
    \<and> (amStopReason a \<in> {StopError, StopAborted} \<or> (\<exists>rest. endedMessages tr = ms @ rest)))"
proof -
  consider (ran) "runLoopOn env c ts ms p s = (Inr out, s')"
    | (reported) e s1 where "runLoopOn env c ts ms p s = (Inl e, s1)" "emitRunFailure env (modelOfTurn s1) e (isAborted c s1) s1 = (Inr out, s')"
    using run by (auto simp: runOrReport_def catchS_def split: prod.splits sum.splits if_splits)
  then show ?thesis
  proof cases
    case ran
    then obtain tr where "persist.framed start pre tr s'" "endedMessages tr = out" "take (length ms) out = ms"
      using persist.runLoopOn_framed [OF s ran] by auto
    then show ?thesis by (metis append_take_drop_id)
  next
    case reported
    then obtain tr where "persist.framed start pre tr s1" using persist.runLoopOn_framed [OF s reported(1)] by auto
    then obtain a tr' where "out = [AssistantMsg a]" "amStopReason a \<in> {StopError, StopAborted}" "persist.framed start pre tr' s'"
      "endedMessages tr' = endedMessages tr @ [AssistantMsg a]"
      using persist.runFailure_framed [OF _ reported(2)] by blast
    then show ?thesis by (intro exI [of _ tr'] conjI allI impI) (auto simp: answeredBy_def)
  qed
qed

text \<open>What a turn that returns has stored.\<close>

definition turnStored :: "('s, 'w) harness \<Rightarrow> agent_event list \<Rightarrow> agent_message list \<Rightarrow> userMessage \<Rightarrow> assistantMessage \<Rightarrow> ('s, 'w) harness \<Rightarrow> bool" where
  "turnStored start pre queue u a s' \<longleftrightarrow> (\<exists>tr. persist.framed start pre tr s' \<and> hnPendingSessionWrites s' = [] \<and> answeredBy a (endedMessages tr)
    \<and> (amStopReason a \<in> {StopError, StopAborted} \<or> (\<exists>rest. endedMessages tr = queue @ UserMsg u # rest)))"

lemma run_yields:
  "yields (persist.framed start pre []) (finallyS (bindS (runOrReport env c ts (queue @ UserMsg u # ms) p) lastAssistant) (closeRun env c))
     (turnStored start pre queue u)"
proof (rule yieldsI)
  fix s a s'
  assume s: "persist.framed start pre [] s"
    and run: "finallyS (bindS (runOrReport env c ts (queue @ UserMsg u # ms) p) lastAssistant) (closeRun env c) s = (Inr a, s')"
  then obtain out s1 where out: "runOrReport env c ts (queue @ UserMsg u # ms) p s = (Inr out, s1)" "answeredBy a out" "closeRun env c s1 = (Inr (), s')"
    by (auto simp: finallyS_Inr bindS_Inr_iff dest: lastAssistant_Inr)
  then obtain tr where tr: "persist.framed start pre tr s1" "answeredBy a (endedMessages tr)"
    "amStopReason a \<in> {StopError, StopAborted} \<or> (\<exists>rest. endedMessages tr = (queue @ UserMsg u # ms) @ rest)"
    using runOrReport_stores [OF s out(1)] by blast
  moreover have "persist.framed start pre tr s'" by (rule preserves_outcome [OF framed_closeRun tr(1) out(3)])
  ultimately show "turnStored start pre queue u a s'"
    using closeRun_empties [OF out(3)] unfolding turnStored_def by (intro exI [of _ tr]) auto
qed

lemma turn_yields:
  "yields (\<lambda>s. persist.framed start pre [] s \<and> hnNextTurnQueue s = queue) (executeTurn env ts text images None queued controller)
     (\<lambda>a s'. \<exists>u. turnMessage text images queued u \<and> turnStored start pre queue u a s')"
proof -
  let ?F = "persist.framed start pre []"
  have message: "yields (\<lambda>s. ?F s \<and> hnNextTurnQueue s = queue) (case queued of Some m \<Rightarrow> retS m | None \<Rightarrow> createUserMessage env text images)
      (\<lambda>u s. turnMessage text images queued u \<and> ?F s \<and> hnNextTurnQueue s = queue)"
  proof (rule yieldsI)
    fix s u s'
    assume s: "?F s \<and> hnNextTurnQueue s = queue"
      and run: "(case queued of Some m \<Rightarrow> retS m | None \<Rightarrow> createUserMessage env text images) s = (Inr u, s')"
    have kept: "preserves ?F (case queued of Some m \<Rightarrow> retS m | None \<Rightarrow> createUserMessage env text images)"
      by (intro preserves_rules persist.frame)
    have "?F s'" by (rule preserves_outcome [OF kept _ run]) (use s in simp)
    then show "turnMessage text images queued u \<and> ?F s' \<and> hnNextTurnQueue s' = queue"
      using s turnMessage_Inr [OF run] by (simp add: turnMessage_def)
  qed
  have taken: "yields (\<lambda>s. ?F s \<and> hnNextTurnQueue s = queue) (takeNextTurn env) (\<lambda>qs s. qs = queue \<and> ?F s)"
    by (rule yieldsI) (auto dest: takeNextTurn_Inr preserves_outcome [OF persist.frame_takeNextTurn])
  have unprepared: "yields ?F (prepareUserTurn env c e ms m None) (\<lambda>p s. p = None \<and> ?F s)" for c e ms m
    by (rule yieldsI) (auto dest: prepareNone_Inr preserves_outcome [OF framed_prepareNone])
  note rest = run_yields [THEN yields_weaken, where T = "\<lambda>a s'. \<exists>u. turnMessage text images queued u \<and> turnStored start pre queue u a s'"]
  show ?thesis
    unfolding executeTurn_def Let_def append.assoc append_Cons append_Nil option.pred_inject(1) simp_thms if_False
    apply (rule yields_read)
    apply (simp only: is_none_simps simp_thms if_False)
    apply (rule yields_bind [OF message], rule yields_fact)
    apply (rule yields_bind [OF taken], rule yields_fact, hypsubst)
    apply (rule yields_keep [OF persist.frame_emitHook])
    apply (rule yields_read)
    apply (rule yields_keep [OF persist.frame_setTurnState])
    apply (rule yields_keep)
    apply (intro preserves_rules framed_newController)
    apply (rule yields_keep [OF framed_controller(1)])
    apply (rule yields_bind [OF unprepared], rule yields_fact)
    apply (rule yields_keep)
    apply (simp add: preserves_ret)
    apply (rule yields_keep [OF framed_controller(2)])
    apply (rule rest)
    apply blast
    done
qed

end

subsection \<open>The in-memory and the JSONL storage\<close>

text \<open>An environment on the given storage, whose clients queue no preparations and no activations.\<close>

definition plainEnv :: "'s storageOps \<Rightarrow> ('s, 'w) harnessEnv \<Rightarrow> ('s, 'w) harnessEnv" where
  "plainEnv ops env = env\<lparr>heOps := ops, heRequests := (\<lambda>w. case heRequests env w of (qs, w') \<Rightarrow> (filter requestFree qs, w'))\<rparr>"

lemma plainEnv_ops [simp]: "heOps (plainEnv ops env) = ops"
  by (simp add: plainEnv_def)

lemma plainEnv_requests: "q \<in> set (fst (heRequests (plainEnv ops env) w)) \<Longrightarrow> requestFree q"
  by (simp add: plainEnv_def split: prod.splits)

lemma plainEnv_same:
  assumes "heOps env = ops" "\<And>w q. q \<in> set (fst (heRequests env w)) \<Longrightarrow> requestFree q"
  shows "plainEnv ops env = env"
proof -
  have "filter requestFree qs = qs" if "heRequests env w = (qs, w')" for w qs w'
    using assms(2) [of _ w] that by (simp add: filter_id_conv)
  then have "(\<lambda>w. case heRequests env w of (qs, w') \<Rightarrow> (filter requestFree qs, w')) = heRequests env"
    by (intro ext) (simp split: prod.split)
  then show ?thesis using assms(1) by (simp add: plainEnv_def)
qed

interpretation onMemory: harness_session "plainEnv (memoryOps sha uuids) env" sha "memInv sha" for sha uuids env
  by (intro harness_session.intro harness_session_axioms.intro) (simp_all add: mem.session_storage_axioms plainEnv_requests)

interpretation onJsonl: harness_session "plainEnv (jsonlOps sha uuids) env" sha "jsonlInv sha" for sha uuids env
  by (intro harness_session.intro harness_session_axioms.intro) (simp_all add: jsonl.session_storage_axioms plainEnv_requests)

text \<open>A flush depends on the storage and the clock alone.\<close>

lemma flush_sameOps:
  assumes "heOps env' = heOps env" "heIsoNow env' = heIsoNow env"
  shows "flushPendingSessionWrites env' = flushPendingSessionWrites env"
proof -
  have entry: "writeEntry env' = writeEntry env"
  proof (rule ext)
    show "writeEntry env' k = writeEntry env k" for k using assms by (cases k) (simp_all add: writeEntry_def appendToSession_def)
  qed
  have "flushWrites env' n = flushWrites env n" for n by (induction n) (auto simp: entry intro!: ext split: list.split)
  then show ?thesis by (simp add: flushPendingSessionWrites_def)
qed

lemma memoryOps_entries: "opGetEntries (memoryOps sha uuids) = msEntries"
  by (simp add: memoryOps_def)

lemma memory_start:
  assumes "memInv sha (hnSession s)" "leafValid (msEntries (hnSession s))" "prepFree s" "list_all plainWrite (hnPendingSessionWrites s)"
  shows "onMemory.persist.framed sha uuids env s [] [] s"
  using assms hasStored_start [of "memoryOps sha uuids" s]
  by (simp add: onMemory.persist.framed_def onMemory.persisted_def onMemory.sound_def memoryOps_entries)


definition exampleTurn :: "nat turnState" where
  "exampleTurn = \<lparr>tsEntries = [], tsMessages = [], tsMessageEntryIds = [], tsLeafId = None,
     tsStreamOptions = hnStreamOptions exampleHarness, tsSessionId = ''s'', tsSystemPrompt = ''You are a helpful assistant.'',
     tsSystemPromptMetadata = None, tsModel = hnModel exampleHarness, tsThinkingLevel = ''off'', tsTools = [], tsActiveTools = []\<rparr>"


text \<open>
  C27: A flush loses nothing and repeats nothing.  The pending writes are stored from the front, one
  entry each in their order; if one fails, the flush throws, exactly those before it are in the
  session, and it and the rest are still pending.
\<close>

theorem flush_stores_in_order:
  assumes "heOps env = memoryOps sha uuids" "memInv sha (hnSession s)" "leafValid (msEntries (hnSession s))"
    and "list_all plainWrite (hnPendingSessionWrites s)" "flushPendingSessionWrites env s = (r, s')"
  shows "memInv sha (hnSession s') \<and> (\<exists>es. msEntries (hnSession s') = msEntries (hnSession s) @ es
    \<and> branchOf (msEntries (hnSession s')) = branchOf (msEntries (hnSession s)) @ es
    \<and> hnPendingSessionWrites s = map eKind es @ hnPendingSessionWrites s' \<and> (r = Inr () \<longrightarrow> hnPendingSessionWrites s' = []))"
proof -
  have run: "flushPendingSessionWrites (plainEnv (memoryOps sha uuids) env) s = (r, s')"
    using assms(5) flush_sameOps [of "plainEnv (memoryOps sha uuids) env" env] assms(1) by (simp add: plainEnv_def)
  have "onMemory.persisted sha uuids env s [] [] s"
    using assms(2-4) hasStored_start [of "memoryOps sha uuids" s] by (simp add: onMemory.persisted_def onMemory.sound_def memoryOps_entries)
  then have "onMemory.persisted sha uuids env s [] [] s'"
    using preserves_outcome [OF onMemory.persisted_flush _ run] by blast
  then have s': "memInv sha (hnSession s')" "hasStored (memoryOps sha uuids) s [] s'"
    by (simp_all add: onMemory.persisted_def onMemory.sound_def memoryOps_entries)
  have logs: "hnWrites s' = hnWrites s" "hnDirectWrites s' = hnDirectWrites s"
    using flush_keeps_logs [of env "length (hnPendingSessionWrites s)" s] assms(5) by (simp_all add: flushPendingSessionWrites_def)
  have "hnPendingSessionWrites s' = []" if "r = Inr ()" using flush_empties assms(5) that by blast
  then show ?thesis using s' logs by (auto simp: hasStored_def grown_def memoryOps_entries merged_def)
qed

definition examplePending :: "(memoryStorage, nat) harness" where
  "examplePending = exampleHarness\<lparr>hnPendingSessionWrites := [ThinkingLevelChangeEntry ''high'', ModelChangeEntry ''p'' ''m'']\<rparr>"

theorem flush_stores_in_order_witness:
  "\<exists>r s'. flushPendingSessionWrites exampleEnv examplePending = (r, s') \<and> memInv (\<lambda>_. ''00'') (hnSession s')"
proof -
  obtain r s' where run: "flushPendingSessionWrites exampleEnv examplePending = (r, s')" by fastforce
  have "memInv (\<lambda>_. ''00'') (hnSession examplePending)" "leafValid (msEntries (hnSession examplePending))"
    by (simp_all add: examplePending_def exampleHarness_def newHarness_def memInv_empty) (simp add: emptyStorage_def leafValid_def leafOf_def)
  from flush_stores_in_order [OF _ this _ run] have "memInv (\<lambda>_. ''00'') (hnSession s')" by (simp add: examplePending_def)
  with run show ?thesis by blast
qed

end
