(* ===== verification/HarnessPhases.thy ===== *)
theory HarnessPhases
  imports HarnessExample
begin

section \<open>The phase of a harness\<close>

text \<open>
  An operation that needs an idle harness is refused in any other phase and changes nothing.  One path
  leaves the phase behind: \<open>promptReturningEntryId\<close> reads the branch after it has taken the phase and
  before its \<open>try\<close> block, so when that read throws nothing gives the phase back.
\<close>

text \<open>Everything that starts from idle throws \<open>busy\<close> and leaves the harness as it is.\<close>

definition refusesAll :: "('s, 'w) harnessEnv \<Rightarrow> ('s, 'w) harness \<Rightarrow> bool" where
  "refusesAll env s \<longleftrightarrow>
     (\<forall>text images prepare. prompt env text images prepare s = (Inl (HarnessError BusyCode ''AgentHarness is busy''), s)
        \<and> promptReturningEntryId env text images prepare s = (Inl (HarnessError BusyCode ''AgentHarness is busy''), s))
   \<and> (\<forall>t d text images prepare. promptWithCustomEntry env t d text images prepare s = (Inl (HarnessError BusyCode ''AgentHarness is busy''), s))
   \<and> (\<forall>i. harnessCompact env i s = (Inl (HarnessError BusyCode ''compact() requires idle harness''), s))
   \<and> (\<forall>i x. navigateTree env i x s = (Inl (HarnessError BusyCode ''navigateTree() requires idle harness''), s))"

lemma busy_refuses:
  assumes "hnPhase s \<noteq> PhaseIdle"
  shows "refusesAll env s"
  using assms
  by (simp add: refusesAll_def prompt_def promptReturningEntryId_def promptWithCustomEntry_def harnessCompact_def navigateTree_def
    startRun_def startIdle_def bindS_def throwS_def getS_def)

text \<open>
  C28: A failed read of the branch blocks the harness.  When an idle harness is asked for
  \<open>promptReturningEntryId\<close> and its first read of the branch throws, the call throws that error as it
  is, and leaves the harness in a turn: its run promise stays open, and every later prompt, compaction
  and navigation is refused.  The other prompts give the phase back in the same situation.
\<close>

theorem failed_branch_read_blocks_harness:
  assumes "hnPhase s = PhaseIdle" "\<not> hnFinalizationPending s" "hnAbortWaiters s = []"
    and "getBranch (heOps env) None (hnSession s) = Some (Inl e)"
  shows "(\<exists>s'. promptReturningEntryId env text images prepare s = (Inl (StorageFault e), s') \<and> hnPhase s' = PhaseTurn
      \<and> hnRunPromise s' \<and> refusesAll env s')
    \<and> (\<exists>s'. prompt env text images prepare s = (Inl (normalizeHarnessError (StorageFault e) UnknownCode), s')
      \<and> hnPhase s' = PhaseIdle \<and> \<not> hnRunPromise s')"
proof
  let ?s = "s\<lparr>hnPhase := PhaseTurn, hnRunPromise := True\<rparr>"
  have start: "startRun s = (Inr (), ?s)" using assms(1) by (simp add: startRun_def modifyS_def)
  have read: "readSession (getBranch (heOps env) None) ?s = (Inl (StorageFault e), ?s)" using assms(4) by (simp add: readSession_def)
  have "promptReturningEntryId env text images prepare s = (Inl (StorageFault e), ?s)"
    using start read by (simp add: promptReturningEntryId_def bindS_def)
  moreover have "refusesAll env ?s" by (rule busy_refuses) simp
  ultimately show "\<exists>s'. promptReturningEntryId env text images prepare s = (Inl (StorageFault e), s') \<and> hnPhase s' = PhaseTurn
      \<and> hnRunPromise s' \<and> refusesAll env s'" by (intro exI [of _ ?s]) simp
  have "createTurnState env ?s = (Inl (StorageFault e), ?s)" using read by (simp add: createTurnState_def bindS_def)
  then show "\<exists>s'. prompt env text images prepare s = (Inl (normalizeHarnessError (StorageFault e) UnknownCode), s')
      \<and> hnPhase s' = PhaseIdle \<and> \<not> hnRunPromise s'"
    using start assms(2,3)
    by (simp add: prompt_def bindS_def finallyS_cases catchS_def isTerminalPreparation_def failRun_def releaseTurnPhaseAfterFailure_def
      modifyS_def throwS_def finishRunPromise_def normalizeHarnessError_def split: storage_error.split)
qed

text \<open>A session whose leaf is no entry of it.\<close>

definition exampleLost :: "(memoryStorage, nat) harness" where
  "exampleLost = exampleHarness\<lparr>hnSession := emptyStorage\<lparr>msLeafId := Some ''x''\<rparr>\<rparr>"

theorem failed_branch_read_blocks_harness_witness:
  "\<exists>s'. promptReturningEntryId exampleEnv ''hi'' [] None exampleLost
     = (Inl (StorageFault (SessionError InvalidSession ''Entry x not found'')), s') \<and> refusesAll exampleEnv s'"
  using failed_branch_read_blocks_harness [of exampleLost exampleEnv "SessionError InvalidSession ''Entry x not found''" "''hi''" "[]" None]
  by (auto simp: exampleLost_def exampleHarness_def newHarness_def getBranch_def memoryOps_def memGetLeafId_def emptyStorage_def)

end
