(* ===== verification/Utf16.thy ===== *)
theory Utf16
  imports Prelude "HOL-Library.Word"
begin

unbundle bit_operations_syntax

section \<open>UTF-16 strings and their UTF-8 encoding\<close>

text \<open>
  A JavaScript string as the code sees it where surrogates and byte lengths matter: a list of
  16-bit code units.  The theory models what Node's \<open>Buffer\<close> does with such a string (standard
  library: encode the code points as UTF-8, an unpaired surrogate as U+FFFD) and proves the facts
  the truncation routines rest on: an encoded code point begins with a byte that is not a
  continuation byte and has only continuation bytes after it, decoding inverts encoding, and the
  byte length is additive at a code unit that is not a low surrogate (in particular at a newline).
\<close>

type_synonym jsText = "16 word list"

subsection \<open>Code points\<close>

definition isHighSurrogate :: "16 word \<Rightarrow> bool" where
  "isHighSurrogate c \<longleftrightarrow> 0xD800 \<le> c \<and> c \<le> 0xDBFF"

definition isLowSurrogate :: "16 word \<Rightarrow> bool" where
  "isLowSurrogate c \<longleftrightarrow> 0xDC00 \<le> c \<and> c \<le> 0xDFFF"

definition codePointOf :: "16 word \<Rightarrow> nat" where
  "codePointOf c = (if isHighSurrogate c \<or> isLowSurrogate c then 0xFFFD else unat c)"

definition pairCodePoint :: "16 word \<Rightarrow> 16 word \<Rightarrow> nat" where
  "pairCodePoint c d = 0x10000 + (unat c - 0xD800) * 0x400 + (unat d - 0xDC00)"

fun codePoints :: "jsText \<Rightarrow> nat list" where
  "codePoints [] = []"
| "codePoints [c] = [codePointOf c]"
| "codePoints (c # d # cs) =
    (if isHighSurrogate c \<and> isLowSurrogate d then pairCodePoint c d # codePoints cs
     else codePointOf c # codePoints (d # cs))"

definition unitsOf :: "nat \<Rightarrow> jsText" where
  "unitsOf p = (if p < 0x10000 then [of_nat p]
     else [of_nat (0xD800 + (p - 0x10000) div 0x400), of_nat (0xDC00 + (p - 0x10000) mod 0x400)])"

definition scalarValue :: "nat \<Rightarrow> bool" where
  "scalarValue p \<longleftrightarrow> p < 0xD800 \<or> 0xE000 \<le> p \<and> p < 0x110000"

lemma surrogate_bounds:
  "isHighSurrogate c \<longleftrightarrow> 0xD800 \<le> unat c \<and> unat c \<le> 0xDBFF"
  "isLowSurrogate c \<longleftrightarrow> 0xDC00 \<le> unat c \<and> unat c \<le> 0xDFFF"
  by (simp_all add: isHighSurrogate_def isLowSurrogate_def word_le_nat_alt)

lemma high_not_low: "isHighSurrogate c \<Longrightarrow> \<not> isLowSurrogate c"
  by (simp add: surrogate_bounds)

lemma unat_unit_bound: "unat (c :: 16 word) < 0x10000"
  using unsigned_less [of c] by simp

lemma scalar_codePointOf [simp]: "scalarValue (codePointOf c)"
  using unat_unit_bound [of c]
  by (auto simp: codePointOf_def scalarValue_def surrogate_bounds)

lemma pairCodePoint_bounds:
  assumes "isHighSurrogate c" "isLowSurrogate d"
  shows "0x10000 \<le> pairCodePoint c d" "pairCodePoint c d < 0x110000"
proof -
  have "(unat c - 0xD800) * 0x400 \<le> 0x3FF * 0x400" "unat d - 0xDC00 \<le> 0x3FF"
    using assms by (auto simp: surrogate_bounds intro!: mult_le_mono1)
  then show "0x10000 \<le> pairCodePoint c d" "pairCodePoint c d < 0x110000"
    by (simp_all add: pairCodePoint_def)
qed

lemma scalar_pair: "isHighSurrogate c \<Longrightarrow> isLowSurrogate d \<Longrightarrow> scalarValue (pairCodePoint c d)"
  using pairCodePoint_bounds [of c d] by (simp add: scalarValue_def)

lemma codePoints_scalar: "p \<in> set (codePoints s) \<Longrightarrow> scalarValue p"
  by (induction s rule: codePoints.induct) (auto simp: scalar_pair split: if_splits)

lemma codePoints_Cons_unpaired:
  "\<not> isHighSurrogate c \<or> (\<forall>d ds. cs = d # ds \<longrightarrow> \<not> isLowSurrogate d) \<Longrightarrow>
    codePoints (c # cs) = codePointOf c # codePoints cs"
  by (cases cs) auto

definition splitsPair :: "jsText \<Rightarrow> jsText \<Rightarrow> bool" where
  "splitsPair as bs \<longleftrightarrow> as \<noteq> [] \<and> bs \<noteq> [] \<and> isHighSurrogate (last as) \<and> isLowSurrogate (hd bs)"

lemma codePoints_append:
  "\<not> splitsPair as bs \<Longrightarrow> codePoints (as @ bs) = codePoints as @ codePoints bs"
proof (induction as rule: codePoints.induct)
  case (2 c)
  then show ?case by (cases bs) (auto simp: splitsPair_def)
next
  case (3 c d cs)
  then show ?case by (auto simp: splitsPair_def high_not_low split: if_splits)
qed (simp add: splitsPair_def)

lemma not_splitsPair_hd: "\<not> isLowSurrogate (hd bs) \<Longrightarrow> \<not> splitsPair as bs"
  by (simp add: splitsPair_def)

lemma codePoints_eq_Nil [simp]: "codePoints s = [] \<longleftrightarrow> s = []"
  by (induction s rule: codePoints.induct) auto

lemma unitsOf_pair:
  assumes "isHighSurrogate c" "isLowSurrogate d"
  shows "unitsOf (pairCodePoint c d) = [c, d]"
proof -
  obtain h l where h: "unat c = 0xD800 + h" and l: "unat d = 0xDC00 + l" "l < 0x400"
    using assms by (auto simp: surrogate_bounds le_iff_add)
  have off: "pairCodePoint c d - 0x10000 = l + h * 0x400" by (simp add: pairCodePoint_def h l)
  have split: "(l + h * 0x400) div 0x400 = h" "(l + h * 0x400) mod 0x400 = l"
    using l(2) by simp_all
  have units: "of_nat (unat c) = c" "of_nat (unat d) = d" by simp_all
  show ?thesis
    using pairCodePoint_bounds(1) [OF assms] units
    unfolding unitsOf_def off split h l(1) by simp
qed

subsection \<open>UTF-8 bytes\<close>

definition byteOf :: "nat \<Rightarrow> 8 word" where
  "byteOf n = of_nat n"

definition utf8Bytes :: "nat \<Rightarrow> 8 word list" where
  "utf8Bytes p =
    (if p < 0x80 then [byteOf p]
     else if p < 0x800 then [byteOf (0xC0 + p div 0x40), byteOf (0x80 + p mod 0x40)]
     else if p < 0x10000 then
       [byteOf (0xE0 + p div 0x1000), byteOf (0x80 + p div 0x40 mod 0x40), byteOf (0x80 + p mod 0x40)]
     else [byteOf (0xF0 + p div 0x40000), byteOf (0x80 + p div 0x1000 mod 0x40),
       byteOf (0x80 + p div 0x40 mod 0x40), byteOf (0x80 + p mod 0x40)])"

definition bufferFrom :: "jsText \<Rightarrow> 8 word list" where
  "bufferFrom s = concat (map utf8Bytes (codePoints s))"

definition bufferByteLength :: "jsText \<Rightarrow> nat" where
  "bufferByteLength s = length (bufferFrom s)"

definition continuationByte :: "8 word \<Rightarrow> bool" where
  "continuationByte b \<longleftrightarrow> b AND 0xC0 = 0x80"

text \<open>
  \<open>toString("utf-8")\<close>.  Only slices that begin at a code point of an encoded text are decoded by
  the code; on other bytes the standard decoder also yields U+FFFD, one per malformed byte here.
\<close>

fun utf8Decode :: "8 word list \<Rightarrow> nat list" where
  "utf8Decode [] = []"
| "utf8Decode (a # bs) =
    (if unat a < 0x80 then unat a # utf8Decode bs
     else if 0xC0 \<le> unat a \<and> unat a < 0xE0 \<and> 1 \<le> length bs then
       ((unat a - 0xC0) * 0x40 + (unat (bs ! 0) - 0x80)) # utf8Decode (drop 1 bs)
     else if 0xE0 \<le> unat a \<and> unat a < 0xF0 \<and> 2 \<le> length bs then
       ((unat a - 0xE0) * 0x1000 + (unat (bs ! 0) - 0x80) * 0x40 + (unat (bs ! 1) - 0x80)) # utf8Decode (drop 2 bs)
     else if 0xF0 \<le> unat a \<and> 3 \<le> length bs then
       ((unat a - 0xF0) * 0x40000 + (unat (bs ! 0) - 0x80) * 0x1000 + (unat (bs ! 1) - 0x80) * 0x40
         + (unat (bs ! 2) - 0x80)) # utf8Decode (drop 3 bs)
     else 0xFFFD # utf8Decode bs)"

declare utf8Decode.simps(2) [simp del]

definition bufferToString :: "8 word list \<Rightarrow> jsText" where
  "bufferToString bs = concat (map unitsOf (utf8Decode bs))"

lemma continuationByte_unat: "continuationByte b \<longleftrightarrow> unat b div 0x40 = 2"
proof -
  have "\<forall>b \<in> set (map of_nat [0..<256]). (b :: 8 word) AND 0xC0 = 0x80 \<longleftrightarrow> unat b div 0x40 = 2"
    by code_simp
  moreover have "b \<in> set (map of_nat [0..<256])"
    using unsigned_less [of b] by (auto intro!: image_eqI [of _ _ "unat b"] simp del: upt.simps)
  ultimately show ?thesis unfolding continuationByte_def by (rule bspec)
qed

lemma unat_byteOf [simp]: "n < 256 \<Longrightarrow> unat (byteOf n) = n"
  by (simp add: byteOf_def unat_of_nat)

lemma continuation_byteOf [simp]: "n < 256 \<Longrightarrow> continuationByte (byteOf n) \<longleftrightarrow> n div 0x40 = 2"
  by (simp add: continuationByte_unat)

lemma low_bits_byte: "0x80 + n mod 0x40 < (256 :: nat)" "(0x80 + n mod 0x40) div 0x40 = (2 :: nat)"
proof -
  have m: "n mod 0x40 < 0x40" by simp
  then show "0x80 + n mod 0x40 < (256 :: nat)" by linarith
  have "0x80 + n mod 0x40 = n mod 0x40 + 2 * 0x40" by simp
  then show "(0x80 + n mod 0x40) div 0x40 = (2 :: nat)"
    using m by (simp only: div_mult_self1 div_less)
qed

lemma lead_byte:
  fixes p :: nat
  shows "p < 0x800 \<Longrightarrow> p div 0x40 < 0x20" "p < 0x10000 \<Longrightarrow> p div 0x1000 < 0x10"
    "p < 0x110000 \<Longrightarrow> p div 0x40000 < 0x10"
  by (rule less_mult_imp_div_less, simp)+

lemma utf8Bytes_length: "length (utf8Bytes p) = (if p < 0x80 then 1 else if p < 0x800 then 2 else if p < 0x10000 then 3 else 4)"
  by (simp add: utf8Bytes_def)

lemma utf8Bytes_neq_Nil [simp]: "utf8Bytes p \<noteq> []"
  by (simp add: utf8Bytes_def)

lemma scalar_bound: "scalarValue p \<Longrightarrow> p < 0x110000"
  by (auto simp: scalarValue_def)

lemma utf8Bytes_head:
  assumes "scalarValue p"
  shows "\<not> continuationByte (hd (utf8Bytes p))"
proof -
  have lead: "\<not> continuationByte (byteOf n)" if "0xC0 \<le> n" "n < 256" for n
  proof -
    have "0xC0 div 0x40 \<le> n div 0x40" using that(1) by (rule div_le_mono)
    then have "3 \<le> n div 0x40" by simp
    with that(2) show ?thesis by simp
  qed
  consider "p < 0x80" | "0x80 \<le> p" "p < 0x800" | "0x800 \<le> p" "p < 0x10000" | "0x10000 \<le> p" "p < 0x110000"
    using scalar_bound [OF assms] by (meson not_less)
  then show ?thesis
  proof cases
    case 1
    then have "p div 0x40 < 2" by (intro less_mult_imp_div_less) simp
    with 1 show ?thesis by (simp add: utf8Bytes_def)
  next
    case 2
    then show ?thesis using lead_byte(1) [of p] by (simp add: utf8Bytes_def lead)
  next
    case 3
    then show ?thesis using lead_byte(2) [of p] by (simp add: utf8Bytes_def lead)
  next
    case 4
    then show ?thesis using lead_byte(3) [of p] by (simp add: utf8Bytes_def lead)
  qed
qed

lemma utf8Bytes_tail: "b \<in> set (tl (utf8Bytes p)) \<Longrightarrow> continuationByte b"
  by (auto simp: utf8Bytes_def low_bits_byte split: if_splits)

lemma div_mod_digits:
  fixes p :: nat
  shows "p div 0x40 * 0x40 + p mod 0x40 = p"
    "p div 0x1000 * 0x1000 + p div 0x40 mod 0x40 * 0x40 + p mod 0x40 = p"
    "p div 0x40000 * 0x40000 + p div 0x1000 mod 0x40 * 0x1000 + p div 0x40 mod 0x40 * 0x40 + p mod 0x40 = p"
proof -
  have 1: "q div 0x40 * 0x40 + q mod 0x40 = q" for q :: nat by (rule div_mult_mod_eq)
  have d: "p div 0x1000 = p div 0x40 div 0x40" "p div 0x40000 = p div 0x40 div 0x40 div 0x40"
    by (simp_all flip: div_mult2_eq)
  show "p div 0x40 * 0x40 + p mod 0x40 = p" by (rule 1)
  then show "p div 0x1000 * 0x1000 + p div 0x40 mod 0x40 * 0x40 + p mod 0x40 = p"
    using 1 [of "p div 0x40"] unfolding d by linarith
  then show "p div 0x40000 * 0x40000 + p div 0x1000 mod 0x40 * 0x1000 + p div 0x40 mod 0x40 * 0x40 + p mod 0x40 = p"
    using 1 [of "p div 0x40 div 0x40"] unfolding d by linarith
qed

lemma utf8Decode_utf8Bytes:
  assumes "scalarValue p"
  shows "utf8Decode (utf8Bytes p @ bs) = p # utf8Decode bs"
proof -
  consider "p < 0x80" | "0x80 \<le> p" "p < 0x800" | "0x800 \<le> p" "p < 0x10000" | "0x10000 \<le> p" "p < 0x110000"
    using scalar_bound [OF assms] by (meson not_less)
  then show ?thesis
  proof cases
    case 1
    then show ?thesis by (simp add: utf8Bytes_def utf8Decode.simps(2))
  next
    case 2
    then show ?thesis using lead_byte(1) [of p]
      by (simp add: utf8Bytes_def utf8Decode.simps(2) low_bits_byte div_mod_digits)
  next
    case 3
    then show ?thesis using lead_byte(2) [of p]
      by (simp add: utf8Bytes_def utf8Decode.simps(2) low_bits_byte div_mod_digits numeral_2_eq_2)
  next
    case 4
    then show ?thesis using lead_byte(3) [of p]
      by (simp add: utf8Bytes_def utf8Decode.simps(2) low_bits_byte div_mod_digits numeral_2_eq_2 numeral_3_eq_3)
  qed
qed

lemma utf8Decode_encoded:
  "(\<And>p. p \<in> set ps \<Longrightarrow> scalarValue p) \<Longrightarrow> utf8Decode (concat (map utf8Bytes ps)) = ps"
  by (induction ps) (simp_all add: utf8Decode_utf8Bytes)

lemma bufferByteLength_sum: "bufferByteLength s = sum_list (map (length \<circ> utf8Bytes) (codePoints s))"
  by (simp add: bufferByteLength_def bufferFrom_def length_concat)

lemma bufferByteLength_append:
  "\<not> splitsPair as bs \<Longrightarrow> bufferByteLength (as @ bs) = bufferByteLength as + bufferByteLength bs"
  by (simp add: bufferByteLength_sum codePoints_append)

lemma bufferByteLength_Nil [simp]: "bufferByteLength [] = 0"
  by (simp add: bufferByteLength_sum)

lemma bufferByteLength_eq_0 [simp]: "bufferByteLength s = 0 \<longleftrightarrow> s = []"
  by (cases "codePoints s") (auto simp: bufferByteLength_sum)

end
