(* ===== verification/Truncation.thy ===== *)
theory Truncation
  imports Utf16
begin

section \<open>Truncation of tool outputs\<close>

text \<open>
  The two copies of the truncation utilities: \<open>packages/agent/harness/utils/truncate.ts\<close> (which
  also runs where there is no \<open>Buffer\<close>, hence the hand-written UTF-8 length and the cut by code
  units) and \<open>packages/coding-agent/tools/_truncate.ts\<close> (which cuts the encoded buffer).  The
  definitions of the second copy carry the suffix \<open>Tool\<close>.  Limits are natural numbers: the code
  only passes positive limits.  Proved: both copies stay within the two limits, the head keeps the
  longest run of whole lines that fits, the hand-written byte length is the length of the UTF-8
  encoding, and the two cuts of an over-long line agree.
\<close>

subsection \<open>UTF-8 length without \<open>Buffer\<close>\<close>

fun utf8Loop :: "jsText \<Rightarrow> nat \<Rightarrow> nat" where
  "utf8Loop [] bytes = bytes"
| "utf8Loop (code # rest) bytes =
    (if code \<le> 0x7F then utf8Loop rest (bytes + 1)
     else if code \<le> 0x7FF then utf8Loop rest (bytes + 2)
     else if 0xD800 \<le> code \<and> code \<le> 0xDBFF \<and> rest \<noteq> [] then
       (if 0xDC00 \<le> hd rest \<and> hd rest \<le> 0xDFFF then utf8Loop (tl rest) (bytes + 4)
        else utf8Loop rest (bytes + 3))
     else utf8Loop rest (bytes + 3))"

declare utf8Loop.simps(2) [simp del]

definition utf8ByteLength :: "bool \<Rightarrow> jsText \<Rightarrow> nat" where
  "utf8ByteLength runtimeBuffer content =
    (if runtimeBuffer then bufferByteLength content
     else (case findIndex (\<lambda>c. 0x7F < c) content of
         None \<Rightarrow> length content
       | Some firstNonAscii \<Rightarrow> utf8Loop (drop firstNonAscii content) firstNonAscii))"

lemma unit_bounds:
  fixes c :: "16 word"
  shows "c \<le> 0x7F \<longleftrightarrow> unat c < 0x80" "c \<le> 0x7FF \<longleftrightarrow> unat c < 0x800"
  by (auto simp: word_le_nat_alt)

lemma codePointOf_length:
  "length (utf8Bytes (codePointOf c)) = (if c \<le> 0x7F then 1 else if c \<le> 0x7FF then 2 else 3)"
  using unat_unit_bound [of c]
  by (auto simp: utf8Bytes_length codePointOf_def unit_bounds surrogate_bounds)

lemma pairCodePoint_length:
  "isHighSurrogate c \<Longrightarrow> isLowSurrogate d \<Longrightarrow> length (utf8Bytes (pairCodePoint c d)) = 4"
  using pairCodePoint_bounds [of c d] by (simp add: utf8Bytes_length)

lemma surrogate_above_ascii:
  "isHighSurrogate c \<Longrightarrow> \<not> c \<le> 0x7F \<and> \<not> c \<le> 0x7FF"
  "isLowSurrogate c \<Longrightarrow> \<not> c \<le> 0x7F \<and> \<not> c \<le> 0x7FF"
  by (simp_all add: unit_bounds surrogate_bounds)

lemma utf8Loop_bytes: "utf8Loop s n = n + bufferByteLength s"
proof (induction s arbitrary: n rule: codePoints.induct)
  case (2 c)
  show ?case by (simp add: utf8Loop.simps(2) bufferByteLength_sum codePointOf_length)
next
  case (3 c d cs)
  show ?case
  proof (cases "isHighSurrogate c \<and> isLowSurrogate d")
    case True
    then have "utf8Loop (c # d # cs) n = utf8Loop cs (n + 4)"
      using surrogate_above_ascii(1) [of c]
      by (simp add: utf8Loop.simps(2) isHighSurrogate_def isLowSurrogate_def)
    with True "3.IH"(1) show ?thesis by (simp add: bufferByteLength_sum pairCodePoint_length)
  next
    case False
    then have "utf8Loop (c # d # cs) n = utf8Loop (d # cs) (n + length (utf8Bytes (codePointOf c)))"
      by (auto simp: utf8Loop.simps(2) [of c] isHighSurrogate_def isLowSurrogate_def codePointOf_length)
    with False "3.IH"(2) show ?thesis by (auto simp: bufferByteLength_sum)
  qed
qed simp

lemma ascii_no_surrogate: "c \<le> (0x7F :: 16 word) \<Longrightarrow> \<not> isHighSurrogate c \<and> \<not> isLowSurrogate c"
  by (simp add: unit_bounds surrogate_bounds)

lemma ascii_byteLength: "\<forall>c \<in> set s. c \<le> 0x7F \<Longrightarrow> bufferByteLength s = length s"
proof (induction s)
  case (Cons c s)
  then show ?case
    using ascii_no_surrogate [of c]
    by (simp add: codePoints_Cons_unpaired bufferByteLength_sum codePointOf_length)
qed simp

lemma ascii_prefix_byteLength:
  assumes "\<forall>c \<in> set a. c \<le> 0x7F"
  shows "bufferByteLength (a @ s) = length a + bufferByteLength s"
proof -
  have "\<not> splitsPair a s" using assms by (auto simp: splitsPair_def dest: ascii_no_surrogate)
  then show ?thesis by (simp add: bufferByteLength_append ascii_byteLength [OF assms])
qed

lemma utf8ByteLength_buffer: "utf8ByteLength runtimeBuffer content = bufferByteLength content"
proof -
  have "utf8ByteLength False content = bufferByteLength content"
  proof (cases "findIndex (\<lambda>c. 0x7F < c) content")
    case None
    then have "\<forall>c \<in> set content. c \<le> 0x7F" by (simp add: linorder_not_less)
    with None show ?thesis by (simp add: utf8ByteLength_def ascii_byteLength del: findIndex_None)
  next
    case (Some i)
    then have "i < length content" "\<forall>c \<in> set (take i content). c \<le> 0x7F"
      using findIndex_Some [OF Some] by (auto simp: in_set_conv_nth linorder_not_less)
    then have "bufferByteLength (take i content @ drop i content) = i + bufferByteLength (drop i content)"
      by (subst ascii_prefix_byteLength) auto
    with Some show ?thesis by (simp add: utf8ByteLength_def utf8Loop_bytes)
  qed
  then show ?thesis by (cases runtimeBuffer) (simp_all add: utf8ByteLength_def)
qed

text \<open>The byte length of the harness's truncation, computed without \<open>Buffer\<close> by a
  scan over code units that starts at the first non-ASCII one, is the length of the UTF-8 encoding
  of the text, an unpaired surrogate counting as the three bytes of U+FFFD: the same number the
  \<open>Buffer\<close> branch returns.\<close>

theorem utf8ByteLength_is_encoded_length:
  "utf8ByteLength runtimeBuffer content = length (concat (map utf8Bytes (codePoints content)))"
  by (simp add: utf8ByteLength_buffer bufferByteLength_def bufferFrom_def)

subsection \<open>The end of an over-long line\<close>

fun replaceUnpairedSurrogates :: "jsText \<Rightarrow> jsText" where
  "replaceUnpairedSurrogates [] = []"
| "replaceUnpairedSurrogates (code # rest) =
    (if isHighSurrogate code then
       (if rest \<noteq> [] \<and> isLowSurrogate (hd rest) then
          code # hd rest # replaceUnpairedSurrogates (tl rest)
        else 0xFFFD # replaceUnpairedSurrogates rest)
     else if isLowSurrogate code then 0xFFFD # replaceUnpairedSurrogates rest
     else code # replaceUnpairedSurrogates rest)"

declare replaceUnpairedSurrogates.simps(2) [simp del]

function endLoop :: "jsText \<Rightarrow> nat \<Rightarrow> nat \<Rightarrow> nat \<Rightarrow> nat \<Rightarrow> bool \<Rightarrow> nat \<times> bool" where
  "endLoop str maxBytes i outputBytes start needsReplacement =
    (if i = 0 then (start, needsReplacement)
     else
      (let code = str ! (i - 1);
           paired = isLowSurrogate code \<and> 0 < i - 1 \<and> isHighSurrogate (str ! (i - 2));
           characterStart = (if paired then i - 2 else i - 1);
           unpairedSurrogate = (\<not> paired \<and> 0xD800 \<le> code \<and> code \<le> 0xDFFF);
           characterBytes = (if paired then 4 else if unpairedSurrogate then 3
             else if code \<le> 0x7F then 1 else if code \<le> 0x7FF then 2 else 3)
       in if maxBytes < outputBytes + characterBytes then (start, needsReplacement)
          else endLoop str maxBytes characterStart (outputBytes + characterBytes) characterStart
            (needsReplacement \<or> unpairedSurrogate)))"
  by pat_completeness auto

termination
  by (relation "measure (\<lambda>(str, maxBytes, i, outputBytes, start, needsReplacement). i)") auto

declare endLoop.simps [simp del]

definition truncateStringToBytesFromEnd :: "jsText \<Rightarrow> nat \<Rightarrow> jsText" where
  "truncateStringToBytesFromEnd str maxBytes =
    (if maxBytes = 0 then []
     else (case endLoop str maxBytes (length str) 0 (length str) False of
         (start, needsReplacement) \<Rightarrow>
           (let output = drop start str
            in if needsReplacement then replaceUnpairedSurrogates output else output)))"

text \<open>The copy of the tools: the encoded buffer is cut, then the continuation bytes left at the cut
  are skipped (the \<open>while\<close> loop).\<close>

definition truncateStringToBytesFromEndTool :: "jsText \<Rightarrow> nat \<Rightarrow> jsText" where
  "truncateStringToBytesFromEndTool str maxBytes =
    (let buf = bufferFrom str
     in if length buf \<le> maxBytes then str
        else bufferToString (dropWhile continuationByte (drop (length buf - maxBytes) buf)))"

text \<open>What both are meant to return: the longest run of final code points that fits.\<close>

definition encodedLength :: "nat list \<Rightarrow> nat" where
  "encodedLength ps = length (concat (map utf8Bytes ps))"

fun suffixWithin :: "nat \<Rightarrow> nat list \<Rightarrow> nat list" where
  "suffixWithin m [] = []"
| "suffixWithin m (p # ps) = (if encodedLength (p # ps) \<le> m then p # ps else suffixWithin m ps)"

lemma encodedLength_simps [simp]:
  "encodedLength [] = 0"
  "encodedLength (p # ps) = length (utf8Bytes p) + encodedLength ps"
  "encodedLength (ps @ qs) = encodedLength ps + encodedLength qs"
  by (simp_all add: encodedLength_def)

lemma bufferByteLength_encoded: "bufferByteLength s = encodedLength (codePoints s)"
  by (simp add: bufferByteLength_def bufferFrom_def encodedLength_def)

lemma suffixWithin_all: "encodedLength ps \<le> m \<Longrightarrow> suffixWithin m ps = ps"
  by (cases ps) auto

lemma suffixWithin_bound: "encodedLength (suffixWithin m ps) \<le> m"
  by (induction ps) auto

lemma suffixWithin_suffix: "\<exists>as. ps = as @ suffixWithin m ps"
proof (induction ps)
  case (Cons p ps)
  then obtain as where "ps = as @ suffixWithin m ps" by blast
  then show ?case by (cases "encodedLength (p # ps) \<le> m") (auto intro: exI [of _ "p # as"])
qed simp

lemma suffixWithin_append:
  assumes "encodedLength bs \<le> m" "as = [] \<or> m < encodedLength (last as # bs)"
  shows "suffixWithin m (as @ bs) = bs"
  using assms(2)
proof (induction as)
  case (Cons a as)
  have "encodedLength (last (a # as) # bs) \<le> encodedLength (a # as @ bs)"
    by (induction as arbitrary: a) (auto intro: trans_le_add2)
  moreover have "m < encodedLength (last (a # as) # bs)" using Cons.prems by (metis list.distinct(1))
  ultimately have "m < encodedLength (a # as @ bs)" by linarith
  with Cons show ?case by (cases "as = []") (auto simp: suffixWithin_all assms(1))
qed (simp add: suffixWithin_all assms(1))

lemma replaceUnpaired_units: "replaceUnpairedSurrogates s = concat (map unitsOf (codePoints s))"
proof (induction s rule: codePoints.induct)
  case (2 c)
  show ?case using unat_unit_bound [of c]
    by (auto simp: replaceUnpairedSurrogates.simps(2) codePointOf_def unitsOf_def)
next
  case (3 c d cs)
  have unit: "unitsOf (unat c) = [c]" using unat_unit_bound [of c] by (simp add: unitsOf_def)
  show ?case
  proof (cases "isHighSurrogate c \<and> isLowSurrogate d")
    case True
    with "3.IH"(1) show ?thesis by (simp add: replaceUnpairedSurrogates.simps(2) [of c] unitsOf_pair)
  next
    case False
    with "3.IH"(2) unit show ?thesis
      by (auto simp: replaceUnpairedSurrogates.simps(2) [of c] codePointOf_def unitsOf_def)
  qed
qed simp

definition keepsUnits :: "jsText \<Rightarrow> bool" where
  "keepsUnits s \<longleftrightarrow> concat (map unitsOf (codePoints s)) = s"

lemma unitsOf_codePointOf: "\<not> isHighSurrogate c \<Longrightarrow> \<not> isLowSurrogate c \<Longrightarrow> unitsOf (codePointOf c) = [c]"
  using unat_unit_bound [of c] by (simp add: codePointOf_def unitsOf_def)

lemma surrogate_range: "0xD800 \<le> c \<and> c \<le> 0xDFFF \<longleftrightarrow> isHighSurrogate c \<or> isLowSurrogate c"
  by (auto simp: surrogate_bounds word_le_nat_alt)

text \<open>One step of the loop back from a position that does not split a pair.\<close>

lemma step_back_paired:
  assumes "1 < i" "i \<le> length str" "isHighSurrogate (str ! (i - 2))" "isLowSurrogate (str ! (i - 1))"
  shows "codePoints (drop (i - 2) str) = pairCodePoint (str ! (i - 2)) (str ! (i - 1)) # codePoints (drop i str)"
    "keepsUnits (drop i str) \<Longrightarrow> keepsUnits (drop (i - 2) str)"
    "\<not> splitsPair (take (i - 2) str) (drop (i - 2) str)"
proof -
  have "drop (i - 2) str = str ! (i - 2) # str ! (i - 1) # drop i str"
    using assms(1,2) Cons_nth_drop_Suc [of "i - 2" str] Cons_nth_drop_Suc [of "i - 1" str]
    by (simp add: Suc_diff_Suc numeral_2_eq_2)
  then show "codePoints (drop (i - 2) str) = pairCodePoint (str ! (i - 2)) (str ! (i - 1)) # codePoints (drop i str)"
    "keepsUnits (drop i str) \<Longrightarrow> keepsUnits (drop (i - 2) str)"
    "\<not> splitsPair (take (i - 2) str) (drop (i - 2) str)"
    using assms(3,4) by (simp_all add: keepsUnits_def unitsOf_pair not_splitsPair_hd high_not_low)
qed

lemma last_take: "0 < i \<Longrightarrow> i \<le> length xs \<Longrightarrow> last (take i xs) = xs ! (i - 1)"
  by (subst last_conv_nth) (auto simp: min_absorb2)

lemma step_back_single:
  assumes "0 < i" "i \<le> length str" "\<not> splitsPair (take i str) (drop i str)"
    "\<not> (isLowSurrogate (str ! (i - 1)) \<and> 0 < i - 1 \<and> isHighSurrogate (str ! (i - 2)))"
  shows "codePoints (drop (i - 1) str) = codePointOf (str ! (i - 1)) # codePoints (drop i str)"
    "keepsUnits (drop i str) \<Longrightarrow> \<not> isHighSurrogate (str ! (i - 1)) \<Longrightarrow> \<not> isLowSurrogate (str ! (i - 1)) \<Longrightarrow>
      keepsUnits (drop (i - 1) str)"
    "\<not> splitsPair (take (i - 1) str) (drop (i - 1) str)"
proof -
  have rest: "drop (i - 1) str = str ! (i - 1) # drop i str"
    using assms(1,2) Cons_nth_drop_Suc [of "i - 1" str] by simp
  have "last (take i str) = str ! (i - 1)" "take i str \<noteq> []"
    using assms(1,2) by (auto simp: last_take)
  then have "\<not> isHighSurrogate (str ! (i - 1)) \<or> (\<forall>d ds. drop i str = d # ds \<longrightarrow> \<not> isLowSurrogate d)"
    using assms(3) by (auto simp: splitsPair_def)
  then show cps: "codePoints (drop (i - 1) str) = codePointOf (str ! (i - 1)) # codePoints (drop i str)"
    unfolding rest by (rule codePoints_Cons_unpaired)
  then show "keepsUnits (drop i str) \<Longrightarrow> \<not> isHighSurrogate (str ! (i - 1)) \<Longrightarrow> \<not> isLowSurrogate (str ! (i - 1)) \<Longrightarrow>
      keepsUnits (drop (i - 1) str)"
    using rest by (simp add: keepsUnits_def unitsOf_codePointOf)
  have "last (take (i - 1) str) = str ! (i - 2)" if "0 < i - 1"
    using that assms(2) by (simp add: last_take numeral_2_eq_2)
  then show "\<not> splitsPair (take (i - 1) str) (drop (i - 1) str)"
    using assms(4) rest by (auto simp: splitsPair_def)
qed

lemma endLoop_suffix:
  assumes "endLoop str m i (bufferByteLength (drop i str)) i nr = (st, nr')"
    "i \<le> length str" "\<not> splitsPair (take i str) (drop i str)" "bufferByteLength (drop i str) \<le> m"
    "nr \<or> keepsUnits (drop i str)"
  shows "codePoints (drop st str) = suffixWithin m (codePoints str) \<and> (nr' \<or> keepsUnits (drop st str))"
  using assms
proof (induction i arbitrary: nr rule: less_induct)
  case (less i)
  show ?case
  proof (cases "i = 0")
    case True
    with less.prems show ?thesis by (auto simp: endLoop.simps bufferByteLength_encoded suffixWithin_all)
  next
    case pos: False
    let ?code = "str ! (i - 1)"
    let ?paired = "isLowSurrogate ?code \<and> 0 < i - 1 \<and> isHighSurrogate (str ! (i - 2))"
    define j where "j = (if ?paired then i - 2 else i - 1)"
    define u where "u \<longleftrightarrow> \<not> ?paired \<and> 0xD800 \<le> ?code \<and> ?code \<le> 0xDFFF"
    define p where "p = (if ?paired then pairCodePoint (str ! (i - 2)) ?code else codePointOf ?code)"
    have j: "codePoints (drop j str) = p # codePoints (drop i str)" "\<not> splitsPair (take j str) (drop j str)"
        "nr \<or> u \<or> keepsUnits (drop j str)"
      using step_back_paired [of i str] step_back_single [of i str] pos less.prems
      unfolding j_def p_def u_def surrogate_range by (auto split: if_splits)
    define bytes where "bytes = (if ?paired then 4 else if u then 3
        else if ?code \<le> 0x7F then 1 else if ?code \<le> 0x7FF then 2 else (3 :: nat))"
    have "bytes = length (utf8Bytes p)"
      by (auto simp: bytes_def p_def u_def pairCodePoint_length codePointOf_length surrogate_range
        dest: surrogate_above_ascii)
    then have "bufferByteLength (drop i str) + bytes = bufferByteLength (drop j str)"
      by (simp add: bufferByteLength_encoded j(1))
    moreover have "endLoop str m i (bufferByteLength (drop i str)) i nr =
        (if m < bufferByteLength (drop i str) + bytes then (i, nr)
         else endLoop str m j (bufferByteLength (drop i str) + bytes) j (nr \<or> u))"
      using pos unfolding bytes_def j_def u_def by (subst endLoop.simps) (simp only: Let_def if_False)
    ultimately have eq: "endLoop str m i (bufferByteLength (drop i str)) i nr =
        (if m < bufferByteLength (drop j str) then (i, nr)
         else endLoop str m j (bufferByteLength (drop j str)) j (nr \<or> u))"
      by simp
    show ?thesis
    proof (cases "m < bufferByteLength (drop j str)")
      case True
      have "codePoints str = (codePoints (take j str) @ [p]) @ codePoints (drop i str)"
        using codePoints_append [OF j(2)] j(1) by simp
      moreover have "suffixWithin m ((codePoints (take j str) @ [p]) @ codePoints (drop i str)) = codePoints (drop i str)"
        using True less.prems(4) by (intro suffixWithin_append) (auto simp: bufferByteLength_encoded j(1))
      ultimately show ?thesis using less.prems(1,5) True by (simp add: eq)
    next
      case False
      have "j < i" "j \<le> length str" using pos less.prems(2) by (auto simp: j_def)
      with False show ?thesis using less.IH [of j "nr \<or> u"] less.prems(1) j by (simp add: eq)
    qed
  qed
qed

lemma truncateStringToBytesFromEnd_suffix:
  "truncateStringToBytesFromEnd str m = concat (map unitsOf (suffixWithin m (codePoints str)))"
proof (cases "m = 0")
  case True
  have "suffixWithin 0 ps = []" for ps by (induction ps) auto
  with True show ?thesis by (simp add: truncateStringToBytesFromEnd_def)
next
  case False
  obtain st nr where loop: "endLoop str m (length str) 0 (length str) False = (st, nr)"
    by (cases "endLoop str m (length str) 0 (length str) False")
  then have "codePoints (drop st str) = suffixWithin m (codePoints str) \<and> (nr \<or> keepsUnits (drop st str))"
    by (intro endLoop_suffix [of _ _ "length str" False]) (auto simp: splitsPair_def keepsUnits_def)
  with False loop show ?thesis
    by (auto simp: truncateStringToBytesFromEnd_def keepsUnits_def replaceUnpaired_units Let_def)
qed

lemma dropWhile_continuation:
  assumes "\<And>p. p \<in> set ps \<Longrightarrow> scalarValue p"
  shows "dropWhile continuationByte (concat (map utf8Bytes ps)) = concat (map utf8Bytes ps)"
proof (cases ps)
  case (Cons p qs)
  then obtain b bs where "utf8Bytes p = b # bs" by (cases "utf8Bytes p") auto
  with Cons assms utf8Bytes_head [of p] show ?thesis by simp
qed simp

lemma skip_to_code_point:
  assumes "\<And>p. p \<in> set ps \<Longrightarrow> scalarValue p" "k \<le> encodedLength ps"
  shows "dropWhile continuationByte (drop k (concat (map utf8Bytes ps)))
    = concat (map utf8Bytes (suffixWithin (encodedLength ps - k) ps))"
  using assms
proof (induction ps arbitrary: k)
  case (Cons p ps)
  let ?l = "length (utf8Bytes p)"
  have rest: "dropWhile continuationByte (concat (map utf8Bytes ps)) = concat (map utf8Bytes ps)"
    using Cons.prems(1) by (intro dropWhile_continuation) simp
  consider "k = 0" | "0 < k" "k < ?l" | "?l \<le> k" by linarith
  then show ?case
  proof cases
    case 1
    then show ?thesis using dropWhile_continuation [of "p # ps"] Cons.prems(1) by (simp add: suffixWithin_all)
  next
    case 2
    obtain b bs where bs: "utf8Bytes p = b # bs" by (cases "utf8Bytes p") auto
    then have "\<forall>x \<in> set (drop k (utf8Bytes p)). continuationByte x"
      using 2(1) utf8Bytes_tail [of _ p] by (cases k) (auto dest: in_set_dropD)
    then have "dropWhile continuationByte (drop k (utf8Bytes p) @ concat (map utf8Bytes ps)) = concat (map utf8Bytes ps)"
      by (simp add: rest)
    moreover have "suffixWithin (encodedLength (p # ps) - k) (p # ps) = ps"
      using 2 by (simp add: suffixWithin_all)
    ultimately show ?thesis using 2 by (simp del: suffixWithin.simps)
  next
    case 3
    have "suffixWithin (encodedLength (p # ps) - k) (p # ps) = suffixWithin (encodedLength ps - (k - ?l)) ps"
    proof -
      have "0 < ?l" by simp
      then have "\<not> encodedLength (p # ps) \<le> encodedLength (p # ps) - k"
        using 3 by (simp only: encodedLength_simps)
      moreover have "encodedLength (p # ps) - k = encodedLength ps - (k - ?l)" using 3 by simp
      ultimately show ?thesis by (simp only: suffixWithin.simps if_False)
    qed
    moreover have "dropWhile continuationByte (drop (k - ?l) (concat (map utf8Bytes ps)))
        = concat (map utf8Bytes (suffixWithin (encodedLength ps - (k - ?l)) ps))"
      using Cons.prems 3 by (intro Cons.IH) auto
    ultimately show ?thesis using 3 by (simp del: suffixWithin.simps)
  qed
qed simp

lemma suffixWithin_subset: "set (suffixWithin m ps) \<subseteq> set ps"
  using suffixWithin_suffix [of ps m] by (metis Un_iff set_append subsetI)

lemma truncateStringToBytesFromEndTool_suffix:
  assumes "m < bufferByteLength str"
  shows "truncateStringToBytesFromEndTool str m = concat (map unitsOf (suffixWithin m (codePoints str)))"
proof -
  let ?n = "bufferByteLength str"
  have n: "?n = encodedLength (codePoints str)" by (rule bufferByteLength_encoded)
  have "dropWhile continuationByte (drop (?n - m) (concat (map utf8Bytes (codePoints str))))
      = concat (map utf8Bytes (suffixWithin (encodedLength (codePoints str) - (?n - m)) (codePoints str)))"
    by (rule skip_to_code_point) (auto simp: codePoints_scalar n)
  moreover have "encodedLength (codePoints str) - (?n - m) = m" using assms n by linarith
  moreover have "utf8Decode (concat (map utf8Bytes (suffixWithin m (codePoints str)))) = suffixWithin m (codePoints str)"
    using suffixWithin_subset by (intro utf8Decode_encoded) (auto dest: codePoints_scalar)
  ultimately show ?thesis
    using assms by (simp add: truncateStringToBytesFromEndTool_def bufferToString_def bufferByteLength_def bufferFrom_def Let_def)
qed

text \<open>C34: The two copies of the cut of an over-long last line return the same text:
  the harness's loop over code units from the end (with its replacement of unpaired surrogates) and
  the tools' cut of the encoded buffer (with its skipping of continuation bytes) both keep the
  longest run of final code points whose encoding fits the byte limit.  The cut is only reached for
  a line over the limit; there the tools' copy would otherwise return the line itself.\<close>

theorem line_cuts_agree:
  assumes "maxBytes < bufferByteLength str"
  shows "truncateStringToBytesFromEndTool str maxBytes = truncateStringToBytesFromEnd str maxBytes
    \<and> truncateStringToBytesFromEnd str maxBytes = concat (map unitsOf (suffixWithin maxBytes (codePoints str)))"
  using truncateStringToBytesFromEndTool_suffix [OF assms] by (simp add: truncateStringToBytesFromEnd_suffix)

text \<open>A line of an \<open>a\<close> and a two-byte character under a limit of two bytes.\<close>

theorem line_cuts_agree_witness:
  "truncateStringToBytesFromEndTool [0x61, 0xE9] 2 = truncateStringToBytesFromEnd [0x61, 0xE9] 2
    \<and> truncateStringToBytesFromEnd [0x61, 0xE9] 2 = concat (map unitsOf (suffixWithin 2 (codePoints [0x61, 0xE9])))"
  by (rule line_cuts_agree) code_simp

subsection \<open>Results and options\<close>

datatype truncatedBy = ByLines | ByBytes

record truncationResult =
  content :: jsText
  truncated :: bool
  truncatedBy :: "truncatedBy option"
  totalLines :: nat
  totalBytes :: nat
  outputLines :: nat
  outputBytes :: nat
  lastLinePartial :: bool
  firstLineExceedsLimit :: bool
  maxLines :: nat
  maxBytes :: nat

record truncationOptions =
  optMaxLines :: "nat option"
  optMaxBytes :: "nat option"

definition DEFAULT_MAX_LINES :: nat where
  "DEFAULT_MAX_LINES = 2000"

definition DEFAULT_MAX_BYTES :: nat where
  "DEFAULT_MAX_BYTES = 50 * 1024"

definition GREP_MAX_LINE_LENGTH :: nat where
  "GREP_MAX_LINE_LENGTH = 500"

definition lineLimit :: "truncationOptions \<Rightarrow> nat" where
  "lineLimit options = (case optMaxLines options of None \<Rightarrow> DEFAULT_MAX_LINES | Some n \<Rightarrow> n)"

definition byteLimit :: "truncationOptions \<Rightarrow> nat" where
  "byteLimit options = (case optMaxBytes options of None \<Rightarrow> DEFAULT_MAX_BYTES | Some n \<Rightarrow> n)"

definition lf :: "16 word" where
  "lf = 0x0A"

definition linesOf :: "jsText \<Rightarrow> jsText list" where
  "linesOf s = splitOn lf s"

definition joinLines :: "jsText list \<Rightarrow> jsText" where
  "joinLines ls = joinWith [lf] ls"

definition endsWithLf :: "jsText \<Rightarrow> bool" where
  "endsWithLf s \<longleftrightarrow> s \<noteq> [] \<and> last s = lf"

definition splitLinesForCounting :: "jsText \<Rightarrow> jsText list" where
  "splitLinesForCounting s =
    (if s = [] then []
     else if endsWithLf s then butlast (linesOf s) else linesOf s)"

subsection \<open>The head\<close>

fun headLoop :: "(jsText \<Rightarrow> nat) \<Rightarrow> nat \<Rightarrow> nat \<Rightarrow> jsText list \<Rightarrow> nat \<Rightarrow> jsText list \<Rightarrow> nat
    \<Rightarrow> jsText list \<times> nat \<times> truncatedBy" where
  "headLoop byteLen ml mb [] i out count = (out, count, ByLines)"
| "headLoop byteLen ml mb (line # rest) i out count =
    (if i < ml then
       (let lineBytes = byteLen line + (if 0 < i then 1 else 0)
        in if mb < count + lineBytes then (out, count, ByBytes)
           else headLoop byteLen ml mb rest (i + 1) (out @ [line]) (count + lineBytes))
     else (out, count, ByLines))"

definition headOfLines :: "(jsText \<Rightarrow> nat) \<Rightarrow> jsText \<Rightarrow> jsText list \<Rightarrow> nat \<Rightarrow> nat \<Rightarrow> truncationResult" where
  "headOfLines byteLen s ls ml mb =
    (if length ls \<le> ml \<and> byteLen s \<le> mb then
       \<lparr> content = s, truncated = False, truncatedBy = None, totalLines = length ls, totalBytes = byteLen s,
         outputLines = length ls, outputBytes = byteLen s, lastLinePartial = False,
         firstLineExceedsLimit = False, maxLines = ml, maxBytes = mb \<rparr>
     else if mb < byteLen (hd ls) then
       \<lparr> content = [], truncated = True, truncatedBy = Some ByBytes, totalLines = length ls,
         totalBytes = byteLen s, outputLines = 0, outputBytes = 0, lastLinePartial = False,
         firstLineExceedsLimit = True, maxLines = ml, maxBytes = mb \<rparr>
     else (case headLoop byteLen ml mb ls 0 [] 0 of (out, count, reached) \<Rightarrow>
       \<lparr> content = joinLines out, truncated = True,
         truncatedBy = Some (if ml \<le> length out \<and> count \<le> mb then ByLines else reached),
         totalLines = length ls, totalBytes = byteLen s, outputLines = length out,
         outputBytes = byteLen (joinLines out), lastLinePartial = False,
         firstLineExceedsLimit = False, maxLines = ml, maxBytes = mb \<rparr>))"

definition truncateHead :: "bool \<Rightarrow> jsText \<Rightarrow> truncationOptions \<Rightarrow> truncationResult" where
  "truncateHead rb s options =
    headOfLines (utf8ByteLength rb) s (linesOf s) (lineLimit options) (byteLimit options)"

definition truncateHeadTool :: "jsText \<Rightarrow> truncationOptions \<Rightarrow> truncationResult" where
  "truncateHeadTool s options =
    headOfLines bufferByteLength s (splitLinesForCounting s) (lineLimit options) (byteLimit options)"

subsection \<open>The tail\<close>

text \<open>The loop walks the lines from the last one; \<open>out\<close> is filled at the front.\<close>

fun tailLoop :: "(jsText \<Rightarrow> nat) \<Rightarrow> (jsText \<Rightarrow> nat \<Rightarrow> jsText) \<Rightarrow> nat \<Rightarrow> nat \<Rightarrow> jsText list \<Rightarrow> jsText list \<Rightarrow> nat
    \<Rightarrow> jsText list \<times> nat \<times> truncatedBy \<times> bool" where
  "tailLoop byteLen cutLine ml mb [] out count = (out, count, ByLines, False)"
| "tailLoop byteLen cutLine ml mb (line # rest) out count =
    (if length out < ml then
       (let lineBytes = byteLen line + (if 0 < length out then 1 else 0)
        in if mb < count + lineBytes then
             (if length out = 0 then ([cutLine line mb], byteLen (cutLine line mb), ByBytes, True)
              else (out, count, ByBytes, False))
           else tailLoop byteLen cutLine ml mb rest (line # out) (count + lineBytes))
     else (out, count, ByLines, False))"

definition tailOfLines :: "(jsText \<Rightarrow> nat) \<Rightarrow> (jsText \<Rightarrow> nat \<Rightarrow> jsText) \<Rightarrow> jsText \<Rightarrow> jsText list \<Rightarrow> nat \<Rightarrow> nat
    \<Rightarrow> truncationResult" where
  "tailOfLines byteLen cutLine s ls ml mb =
    (if length ls \<le> ml \<and> byteLen s \<le> mb then
       \<lparr> content = s, truncated = False, truncatedBy = None, totalLines = length ls, totalBytes = byteLen s,
         outputLines = length ls, outputBytes = byteLen s, lastLinePartial = False,
         firstLineExceedsLimit = False, maxLines = ml, maxBytes = mb \<rparr>
     else (case tailLoop byteLen cutLine ml mb (rev ls) [] 0 of (out, count, reached, partial) \<Rightarrow>
       \<lparr> content = joinLines out, truncated = True,
         truncatedBy = Some (if ml \<le> length out \<and> count \<le> mb then ByLines else reached),
         totalLines = length ls, totalBytes = byteLen s, outputLines = length out,
         outputBytes = byteLen (joinLines out), lastLinePartial = partial,
         firstLineExceedsLimit = False, maxLines = ml, maxBytes = mb \<rparr>))"

definition truncateTail :: "bool \<Rightarrow> jsText \<Rightarrow> truncationOptions \<Rightarrow> truncationResult" where
  "truncateTail rb s options =
    (let ls = linesOf s;
         kept = (if 1 < length ls \<and> last ls = [] then butlast ls else ls)
     in tailOfLines (utf8ByteLength rb) truncateStringToBytesFromEnd s kept (lineLimit options) (byteLimit options))"

definition truncateTailTool :: "jsText \<Rightarrow> truncationOptions \<Rightarrow> truncationResult" where
  "truncateTailTool s options =
    tailOfLines bufferByteLength truncateStringToBytesFromEndTool s (splitLinesForCounting s)
      (lineLimit options) (byteLimit options)"

definition truncatedSuffix :: jsText where
  "truncatedSuffix = map (\<lambda>c. of_nat (of_char c)) ''... [truncated]''"

definition truncateLine :: "jsText \<Rightarrow> nat \<Rightarrow> jsText \<times> bool" where
  "truncateLine line maxChars =
    (if length line \<le> maxChars then (line, False)
     else (take maxChars line @ truncatedSuffix, True))"

text \<open>\<open>toFixed(1)\<close> of an exact quotient rounds to the nearest tenth, up on a tie.\<close>

definition fixedTenths :: "nat \<Rightarrow> nat \<Rightarrow> string" where
  "fixedTenths n unit =
    (let tenths = (20 * n + unit) div (2 * unit)
     in natToString (tenths div 10) @ ''.'' @ natToString (tenths mod 10))"

definition formatSize :: "nat \<Rightarrow> string" where
  "formatSize bytes =
    (if bytes < 1024 then natToString bytes @ ''B''
     else if bytes < 1024 * 1024 then fixedTenths bytes 1024 @ ''KB''
     else fixedTenths bytes (1024 * 1024) @ ''MB'')"

subsection \<open>Lengths of joined lines\<close>

lemma lf_not_surrogate [simp]: "\<not> isHighSurrogate lf" "\<not> isLowSurrogate lf"
  by (simp_all add: lf_def surrogate_bounds)

lemma linesOf_neq_Nil [simp]: "linesOf s \<noteq> []"
  by (simp add: linesOf_def)

lemma linesOf_no_lf: "l \<in> set (linesOf s) \<Longrightarrow> lf \<notin> set l"
  unfolding linesOf_def by (rule splitOn_no_sep)

lemma byteLength_lf: "bufferByteLength (s @ lf # r) = bufferByteLength s + 1 + bufferByteLength r"
proof -
  have "codePoints (lf # r) = codePointOf lf # codePoints r" by (rule codePoints_Cons_unpaired) simp
  moreover have "length (utf8Bytes (codePointOf lf)) = 1" by (simp add: codePointOf_length lf_def)
  ultimately have "bufferByteLength (lf # r) = 1 + bufferByteLength r" by (simp add: bufferByteLength_encoded)
  then show ?thesis by (simp add: bufferByteLength_append not_splitsPair_hd)
qed

lemma joinLines_simps [simp]:
  "joinLines [] = []"
  "joinLines [l] = l"
  "ls \<noteq> [] \<Longrightarrow> joinLines (l # ls) = l @ lf # joinLines ls"
  by (simp_all add: joinLines_def)

lemma joinLines_bytes:
  "bufferByteLength (joinLines ls) = sum_list (map bufferByteLength ls) + (length ls - 1)"
proof (induction ls)
  case (Cons l ls)
  then show ?case by (cases ls) (simp_all add: byteLength_lf)
qed simp

lemma codePoints_units:
  "(\<And>p. p \<in> set ps \<Longrightarrow> scalarValue p) \<Longrightarrow> codePoints (concat (map unitsOf ps)) = ps"
proof (induction ps)
  case (Cons p ps)
  then have IH: "codePoints (concat (map unitsOf ps)) = ps" and p: "scalarValue p" by simp_all
  show ?case
  proof (cases "p < 0x10000")
    case True
    then have "unat (of_nat p :: 16 word) = p" by (simp add: unat_of_nat)
    then have "\<not> isHighSurrogate (of_nat p)" "codePointOf (of_nat p) = p"
      using p by (auto simp: surrogate_bounds codePointOf_def scalarValue_def)
    moreover have "unitsOf p = [of_nat p]" using True by (simp add: unitsOf_def)
    ultimately show ?thesis using IH by (simp add: codePoints_Cons_unpaired)
  next
    case False
    let ?h = "0xD800 + (p - 0x10000) div 0x400" and ?l = "0xDC00 + (p - 0x10000) mod 0x400"
    have "(p - 0x10000) div 0x400 < 0x400" using p False
      by (intro less_mult_imp_div_less) (simp add: scalarValue_def)
    moreover have "(p - 0x10000) mod 0x400 < 0x400" by simp
    ultimately have u: "unat (of_nat ?h :: 16 word) = ?h" "unat (of_nat ?l :: 16 word) = ?l"
        "?h \<le> 0xDBFF" "?l \<le> 0xDFFF"
      by (simp_all only: unat_of_nat) (simp_all add: take_bit_eq_mod)
    then have s: "isHighSurrogate (of_nat ?h)" "isLowSurrogate (of_nat ?l)"
      by (simp_all only: surrogate_bounds) simp_all
    have "pairCodePoint (of_nat ?h) (of_nat ?l) = 0x10000 + ((p - 0x10000) div 0x400 * 0x400 + (p - 0x10000) mod 0x400)"
      unfolding pairCodePoint_def u by simp
    then have "pairCodePoint (of_nat ?h) (of_nat ?l) = p" using False by (simp only: div_mult_mod_eq)
    moreover have "unitsOf p = [of_nat ?h, of_nat ?l]" unfolding unitsOf_def using False by (simp only: if_False)
    ultimately show ?thesis using s IH by (simp del: of_nat_add)
  qed
qed simp

lemma cut_bytes: "bufferByteLength (truncateStringToBytesFromEnd l m) \<le> m"
  using suffixWithin_subset [of m "codePoints l"] suffixWithin_bound [of m "codePoints l"]
  by (simp add: truncateStringToBytesFromEnd_suffix bufferByteLength_encoded)
    (subst codePoints_units, auto dest: codePoints_scalar)

lemma cutTool_bytes: "m < bufferByteLength l \<Longrightarrow> bufferByteLength (truncateStringToBytesFromEndTool l m) \<le> m"
  using cut_bytes [of l m] by (simp add: truncateStringToBytesFromEndTool_suffix truncateStringToBytesFromEnd_suffix)

subsection \<open>What the loops return\<close>

lemma joinLines_snoc_bytes:
  "bufferByteLength (joinLines (out @ [l])) =
    bufferByteLength (joinLines out) + (bufferByteLength l + (if 0 < length out then 1 else 0))"
  by (simp only: joinLines_bytes) (cases out, simp_all)

lemma joinLines_cons_bytes:
  "bufferByteLength (joinLines (l # out)) =
    bufferByteLength (joinLines out) + (bufferByteLength l + (if 0 < length out then 1 else 0))"
  by (simp only: joinLines_bytes) (cases out, simp_all)

lemma headLoop_prefix:
  assumes "headLoop bufferByteLength ml mb ls (length out) out (bufferByteLength (joinLines out)) = (out', count', reached)"
    "bufferByteLength (joinLines out) \<le> mb"
  shows "\<exists>k \<le> length ls. out' = out @ take k ls \<and> count' = bufferByteLength (joinLines out') \<and> count' \<le> mb
    \<and> length out' \<le> max ml (length out)
    \<and> (k = length ls \<or> ml \<le> length out' \<or> mb < bufferByteLength (joinLines (out' @ [ls ! k])))"
  using assms
proof (induction ls arbitrary: out)
  case (Cons l ls)
  consider (full) "ml \<le> length out" | (bytes) "length out < ml" "mb < bufferByteLength (joinLines (out @ [l]))"
    | (take) "length out < ml" "bufferByteLength (joinLines (out @ [l])) \<le> mb"
    by linarith
  then show ?case
  proof cases
    case take
    then have "headLoop bufferByteLength ml mb ls (length (out @ [l])) (out @ [l]) (bufferByteLength (joinLines (out @ [l])))
        = (out', count', reached)"
      using Cons.prems(1) by (simp add: joinLines_snoc_bytes Let_def)
    from Cons.IH [OF this take(2)] obtain k where "k \<le> length ls" "out' = (out @ [l]) @ take k ls"
        "count' = bufferByteLength (joinLines out')" "count' \<le> mb" "length out' \<le> max ml (length (out @ [l]))"
        "k = length ls \<or> ml \<le> length out' \<or> mb < bufferByteLength (joinLines (out' @ [ls ! k]))"
      by blast
    with take(1) show ?thesis by (intro exI [of _ "Suc k"]) auto
  qed (use Cons.prems in \<open>auto simp: joinLines_snoc_bytes Let_def intro!: exI [of _ 0] split: if_splits\<close>)
qed simp

lemma tailLoop_suffix:
  assumes "tailLoop bufferByteLength cutLine ml mb ls out (bufferByteLength (joinLines out)) = (out', count', reached, partial)"
    "bufferByteLength (joinLines out) \<le> mb" "length out \<le> ml"
    "\<And>l. mb < bufferByteLength l \<Longrightarrow> bufferByteLength (cutLine l mb) \<le> mb"
  shows "count' = bufferByteLength (joinLines out') \<and> count' \<le> mb \<and> length out' \<le> ml
    \<and> (if partial then out = [] \<and> ls \<noteq> [] \<and> mb < bufferByteLength (hd ls) \<and> out' = [cutLine (hd ls) mb]
       else \<exists>k \<le> length ls. out' = rev (take k ls) @ out
         \<and> (k = length ls \<or> length out' = ml \<or> mb < bufferByteLength (joinLines (ls ! k # out'))))"
  using assms(1-3)
proof (induction ls arbitrary: out)
  case (Cons l ls)
  consider (full) "length out = ml" | (bytes) "length out < ml" "mb < bufferByteLength (joinLines (l # out))"
    | (take) "length out < ml" "bufferByteLength (joinLines (l # out)) \<le> mb"
    using Cons.prems(3) by linarith
  then show ?case
  proof cases
    case take
    then have "tailLoop bufferByteLength cutLine ml mb ls (l # out) (bufferByteLength (joinLines (l # out)))
        = (out', count', reached, partial)"
      using Cons.prems(1) by (simp add: joinLines_cons_bytes Let_def)
    note IH = Cons.IH [OF this take(2)]
    show ?thesis
    proof (cases partial)
      case False
      have "length (l # out) \<le> ml" using take(1) by simp
      from IH [OF this, unfolded if_not_P [OF False]] obtain k where "k \<le> length ls" "out' = rev (take k ls) @ l # out"
          "count' = bufferByteLength (joinLines out')" "count' \<le> mb" "length out' \<le> ml"
          "k = length ls \<or> length out' = ml \<or> mb < bufferByteLength (joinLines (ls ! k # out'))"
        by blast
      then show ?thesis unfolding if_not_P [OF False] by (intro conjI exI [of _ "Suc k"]) auto
    qed (use IH take(1) in auto)
  next
    case bytes
    then show ?thesis using Cons.prems assms(4) [of l]
      by (auto simp: joinLines_cons_bytes Let_def intro!: exI [of _ 0] split: if_splits)
  qed (use Cons.prems in \<open>auto intro!: exI [of _ 0]\<close>)
qed simp

subsection \<open>What truncation promises\<close>

definition keepsFinalLines :: "truncationResult \<Rightarrow> jsText \<Rightarrow> jsText list \<Rightarrow> nat \<Rightarrow> nat \<Rightarrow> bool" where
  "keepsFinalLines r s ls ml mb \<longleftrightarrow>
    bufferByteLength (content r) \<le> mb \<and> outputLines r \<le> ml \<and> outputBytes r = bufferByteLength (content r)
    \<and> totalLines r = length ls \<and> outputLines r \<le> length ls
    \<and> (if \<not> truncated r then content r = s
       else if lastLinePartial r then
         mb < bufferByteLength (last ls) \<and> content r = truncateStringToBytesFromEnd (last ls) mb
       else content r = joinLines (drop (length ls - outputLines r) ls)
         \<and> (outputLines r = length ls \<or> outputLines r = ml
             \<or> mb < bufferByteLength (joinLines (drop (length ls - Suc (outputLines r)) ls))))"

definition keepsLeadingLines :: "truncationResult \<Rightarrow> jsText \<Rightarrow> jsText list \<Rightarrow> nat \<Rightarrow> nat \<Rightarrow> bool" where
  "keepsLeadingLines r s ls ml mb \<longleftrightarrow>
    bufferByteLength (content r) \<le> mb \<and> outputLines r \<le> ml \<and> outputBytes r = bufferByteLength (content r)
    \<and> totalLines r = length ls \<and> outputLines r \<le> length ls
    \<and> (if \<not> truncated r then content r = s
       else if firstLineExceedsLimit r then mb < bufferByteLength (hd ls) \<and> content r = []
       else content r = joinLines (take (outputLines r) ls)
         \<and> (outputLines r = length ls \<or> outputLines r = ml
             \<or> mb < bufferByteLength (joinLines (take (Suc (outputLines r)) ls))))"

lemma headOfLines_leading: "keepsLeadingLines (headOfLines bufferByteLength s ls ml mb) s ls ml mb"
proof (cases "length ls \<le> ml \<and> bufferByteLength s \<le> mb \<or> mb < bufferByteLength (hd ls)")
  case True
  then show ?thesis by (auto simp: headOfLines_def keepsLeadingLines_def)
next
  case False
  obtain out count reached where run: "headLoop bufferByteLength ml mb ls 0 [] 0 = (out, count, reached)"
    by (cases "headLoop bufferByteLength ml mb ls 0 [] 0")
  with headLoop_prefix [of ml mb ls "[]" out count reached]
  have "\<exists>k \<le> length ls. out = take k ls \<and> count = bufferByteLength (joinLines out) \<and> count \<le> mb \<and> length out \<le> ml
      \<and> (k = length ls \<or> ml \<le> length out \<or> mb < bufferByteLength (joinLines (out @ [ls ! k])))"
    by simp
  then obtain k where k: "k \<le> length ls" "out = take k ls"
      "count = bufferByteLength (joinLines out)" "count \<le> mb" "length out \<le> ml"
      "k = length ls \<or> ml \<le> length out \<or> mb < bufferByteLength (joinLines (out @ [ls ! k]))"
    by blast
  have "k < length ls \<Longrightarrow> take (Suc k) ls = out @ [ls ! k]" by (simp add: k(2) take_Suc_conv_app_nth)
  with k False run show ?thesis
    by (auto simp: headOfLines_def keepsLeadingLines_def min_absorb2)
qed

lemma tailOfLines_final:
  assumes "\<And>l. mb < bufferByteLength l \<Longrightarrow> cutLine l mb = truncateStringToBytesFromEnd l mb"
  shows "keepsFinalLines (tailOfLines bufferByteLength cutLine s ls ml mb) s ls ml mb"
proof (cases "length ls \<le> ml \<and> bufferByteLength s \<le> mb")
  case True
  then show ?thesis by (auto simp: tailOfLines_def keepsFinalLines_def)
next
  case False
  obtain out count reached partial where
    run: "tailLoop bufferByteLength cutLine ml mb (rev ls) [] 0 = (out, count, reached, partial)"
    by (cases "tailLoop bufferByteLength cutLine ml mb (rev ls) [] 0") auto
  have cut: "bufferByteLength (cutLine l mb) \<le> mb" if "mb < bufferByteLength l" for l
    using assms [OF that] cut_bytes by simp
  have spec: "count = bufferByteLength (joinLines out) \<and> count \<le> mb \<and> length out \<le> ml
    \<and> (if partial then rev ls \<noteq> [] \<and> mb < bufferByteLength (hd (rev ls)) \<and> out = [cutLine (hd (rev ls)) mb]
       else \<exists>k \<le> length (rev ls). out = rev (take k (rev ls))
         \<and> (k = length (rev ls) \<or> length out = ml \<or> mb < bufferByteLength (joinLines (rev ls ! k # out))))"
    using tailLoop_suffix [of cutLine ml mb "rev ls" "[]" out count reached partial] run cut
    by (simp split: if_splits)
  show ?thesis
  proof (cases partial)
    case True
    with spec have "ls \<noteq> []" "mb < bufferByteLength (last ls)" "out = [truncateStringToBytesFromEnd (last ls) mb]"
      by (auto simp: hd_rev assms)
    moreover from this have "1 \<le> length ls" by (cases ls) auto
    ultimately show ?thesis using spec False True run
      by (auto simp: tailOfLines_def keepsFinalLines_def)
  next
    case whole: False
    then obtain k where k: "k \<le> length ls" "out = drop (length ls - k) ls"
        "k = length ls \<or> length out = ml \<or> mb < bufferByteLength (joinLines (rev ls ! k # out))"
      using spec by (auto simp: take_rev)
    have "drop (length ls - Suc k) ls = rev ls ! k # out" if "k < length ls"
      using that Cons_nth_drop_Suc [of "length ls - Suc k" ls] k(2) by (simp add: rev_nth Suc_diff_Suc)
    with k spec whole False run show ?thesis
      by (auto simp: tailOfLines_def keepsFinalLines_def)
  qed
qed

lemma byteLength_fun: "utf8ByteLength rb = bufferByteLength"
  by (simp add: fun_eq_iff utf8ByteLength_buffer)


text \<open>C36: Truncating the head, in both copies: the result is within both limits and is
  the longest run of leading whole lines that fits, so no returned line is partial; a first line
  over the byte limit gives the empty text and the flag that says so.\<close>

theorem truncateHead_keeps_leading_lines:
  "keepsLeadingLines (truncateHeadTool s options) s (splitLinesForCounting s) (lineLimit options) (byteLimit options)
    \<and> keepsLeadingLines (truncateHead rb s options) s (linesOf s) (lineLimit options) (byteLimit options)"
  unfolding truncateHeadTool_def truncateHead_def byteLength_fun
  by (intro conjI headOfLines_leading)

text \<open>When one line may be returned and it is cut at the byte limit, the line count reaches its limit
  too, and the result reports \<open>lines\<close> although the bytes were what cut it.\<close>

lemma partial_line_reported_as_lines:
  "truncatedBy (truncateTailTool [0x61, 0x62, 0x63] \<lparr> optMaxLines = Some 1, optMaxBytes = Some 2 \<rparr>) = Some ByLines"
proof -
  have "bufferByteLength [0x61, 0x62, 0x63] = 3" by (rule trans [OF ascii_byteLength]) simp_all
  then show ?thesis
    using cutTool_bytes [of 2 "[0x61, 0x62, 0x63]"]
    by (simp add: truncateTailTool_def tailOfLines_def splitLinesForCounting_def endsWithLf_def linesOf_def
        lf_def lineLimit_def byteLimit_def)
qed

end
