(* ===== verification/PtyRingBuffer.thy ===== *)
theory PtyRingBuffer
  imports Truncation
begin

section \<open>The output buffer of a terminal session\<close>

text \<open>
  \<open>packages/coding-agent/agent-pty-ring-buffer.ts\<close>: the text a pseudo-terminal has printed, capped
  by lines and by bytes.  The object is a record, \<open>append\<close> the only operation that changes it.
  Proved for every sequence of appended chunks: the text is a final part of everything printed, and
  it is within both caps.  A cut at the byte cap can begin in the middle of a surrogate pair.
\<close>

record agentPtyRingBuffer =
  bufMaxBytes :: nat
  bufMaxLines :: nat
  bufText :: jsText

definition newRingBuffer :: "nat \<Rightarrow> nat \<Rightarrow> agentPtyRingBuffer" where
  "newRingBuffer mb ml = \<lparr> bufMaxBytes = max 1 mb, bufMaxLines = max 1 ml, bufText = [] \<rparr>"

definition trimToLineCap :: "agentPtyRingBuffer \<Rightarrow> agentPtyRingBuffer" where
  "trimToLineCap b =
    (let hasTrailingNewline = endsWithLf (bufText b);
         ls = (if hasTrailingNewline then butlast (linesOf (bufText b)) else linesOf (bufText b))
     in if length ls \<le> bufMaxLines b then b
        else b \<lparr> bufText := joinLines (drop (length ls - bufMaxLines b) ls) @ (if hasTrailingNewline then [lf] else []) \<rparr>)"

definition dropFirstLine :: "jsText \<Rightarrow> jsText" where
  "dropFirstLine s =
    (case indexOf s lf of
       Some newlineIndex \<Rightarrow> if newlineIndex < length s - 1 then drop (newlineIndex + 1) s else drop 1 s
     | None \<Rightarrow> drop 1 s)"

function byteLoop :: "nat \<Rightarrow> jsText \<Rightarrow> jsText" where
  "byteLoop mb s = (if s \<noteq> [] \<and> mb < bufferByteLength s then byteLoop mb (dropFirstLine s) else s)"
  by pat_completeness auto

termination
  by (relation "measure (\<lambda>(mb, s). length s)") (auto simp: dropFirstLine_def split: option.split)

declare byteLoop.simps [simp del]

definition trimToByteCap :: "agentPtyRingBuffer \<Rightarrow> agentPtyRingBuffer" where
  "trimToByteCap b =
    (if bufferByteLength (bufText b) \<le> bufMaxBytes b then b
     else b \<lparr> bufText := byteLoop (bufMaxBytes b) (bufText b) \<rparr>)"

definition appendChunk :: "jsText \<Rightarrow> agentPtyRingBuffer \<Rightarrow> agentPtyRingBuffer" where
  "appendChunk t b =
    (if t = [] then b
     else trimToByteCap (trimToLineCap (b \<lparr> bufText := bufText b @ t \<rparr>)))"

definition bufLineCount :: "agentPtyRingBuffer \<Rightarrow> nat" where
  "bufLineCount b =
    (if bufText b = [] then 0
     else if endsWithLf (bufText b) then length (linesOf (bufText b)) - 1 else length (linesOf (bufText b)))"

definition bufByteLength :: "agentPtyRingBuffer \<Rightarrow> nat" where
  "bufByteLength b = bufferByteLength (bufText b)"

subsection \<open>Lines\<close>

definition lineCountOf :: "jsText \<Rightarrow> nat" where
  "lineCountOf s = (if s = [] then 0 else if endsWithLf s then count_list s lf else Suc (count_list s lf))"

lemma length_splitOn: "length (splitOn c s) = Suc (count_list s c)"
  by (induction s) (auto split: list.split)

lemma bufLineCount_eq: "bufLineCount b = lineCountOf (bufText b)"
  by (simp add: bufLineCount_def lineCountOf_def linesOf_def length_splitOn)

lemma joinWith_splitOn: "joinWith [c] (splitOn c s) = s"
proof (induction s)
  case (Cons x s)
  then show ?case by (cases "splitOn c s") (auto split: if_splits)
qed simp

lemma joinLines_linesOf [simp]: "joinLines (linesOf s) = s"
  by (simp add: joinLines_def linesOf_def joinWith_splitOn)

lemma splitOn_snoc: "splitOn c (s @ [c]) = splitOn c s @ [[]]"
  by (induction s) (auto split: list.split)

lemma butlast_linesOf:
  assumes "endsWithLf s"
  obtains u where "s = u @ [lf]" "butlast (linesOf s) = linesOf u"
proof -
  from assms obtain u where "s = u @ [lf]" by (metis append_butlast_last_id endsWithLf_def)
  moreover from this have "butlast (linesOf s) = linesOf u" by (simp add: linesOf_def splitOn_snoc)
  ultimately show thesis by (rule that)
qed

lemma joinLines_suffix: "\<exists>d. joinLines ls = d @ joinLines (drop k ls)"
proof (induction ls arbitrary: k)
  case (Cons l ls)
  show ?case
  proof (cases k)
    case (Suc j)
    obtain d where "joinLines ls = d @ joinLines (drop j ls)" using Cons by blast
    with Suc show ?thesis by (cases "ls = []") (auto intro: exI [of _ "l @ lf # d"])
  qed simp
qed simp

lemma count_joinLines: "(\<forall>l \<in> set ls. lf \<notin> set l) \<Longrightarrow> count_list (joinLines ls) lf = length ls - 1"
proof (induction ls)
  case (Cons l ls)
  then show ?case by (cases ls) auto
qed simp

lemma lineCountOf_suffix: "lineCountOf s \<le> lineCountOf (d @ s)"
  by (auto simp: lineCountOf_def endsWithLf_def)

subsection \<open>Trimming\<close>

definition finalPart :: "jsText \<Rightarrow> jsText \<Rightarrow> bool" where
  "finalPart s t \<longleftrightarrow> (\<exists>d. t = d @ s)"

lemma finalPart_refl [simp, intro]: "finalPart s s"
  by (auto simp: finalPart_def)

lemma finalPart_trans: "finalPart r s \<Longrightarrow> finalPart s t \<Longrightarrow> finalPart r t"
  by (auto simp: finalPart_def)

lemma finalPart_append: "finalPart s t \<Longrightarrow> finalPart (s @ u) (t @ u)"
  by (auto simp: finalPart_def)

lemma finalPart_drop [simp]: "finalPart (drop k s) s"
  unfolding finalPart_def by (metis append_take_drop_id)

lemma finalPart_lines: "finalPart s t \<Longrightarrow> lineCountOf s \<le> lineCountOf t"
  by (auto simp: finalPart_def lineCountOf_suffix)

lemma trimToLineCap_spec:
  assumes "0 < bufMaxLines b"
  shows "finalPart (bufText (trimToLineCap b)) (bufText b)
    \<and> lineCountOf (bufText (trimToLineCap b)) \<le> bufMaxLines b
    \<and> bufMaxLines (trimToLineCap b) = bufMaxLines b \<and> bufMaxBytes (trimToLineCap b) = bufMaxBytes b"
proof -
  define e where "e = endsWithLf (bufText b)"
  define ls where "ls = (if e then butlast (linesOf (bufText b)) else linesOf (bufText b))"
  define tail where "tail = (if e then [lf] else [])"
  define kept where "kept = drop (length ls - bufMaxLines b) ls"
  have whole: "bufText b = joinLines ls @ tail" and ne: "ls \<noteq> []"
    by (cases e; auto simp: ls_def e_def tail_def elim!: butlast_linesOf)+
  have no_lf: "\<forall>l \<in> set ls. lf \<notin> set l"
    by (auto simp: ls_def linesOf_no_lf dest: in_set_butlastD)
  have run: "trimToLineCap b = (if length ls \<le> bufMaxLines b then b else b \<lparr> bufText := joinLines kept @ tail \<rparr>)"
    by (simp add: trimToLineCap_def ls_def e_def tail_def kept_def Let_def)
  have count: "lineCountOf (joinLines xs @ tail) \<le> length xs"
    if "\<forall>l \<in> set xs. lf \<notin> set l" "xs \<noteq> [] \<or> \<not> e" for xs
    using that count_joinLines [OF that(1)] by (cases xs) (auto simp: lineCountOf_def tail_def endsWithLf_def)
  show ?thesis
  proof (cases "length ls \<le> bufMaxLines b")
    case True
    with ne count [OF no_lf] show ?thesis by (simp add: run whole)
  next
    case False
    then have "kept \<noteq> []" "length kept = bufMaxLines b" using assms by (auto simp: kept_def)
    moreover have "\<forall>l \<in> set kept. lf \<notin> set l" using no_lf by (auto simp: kept_def dest: in_set_dropD)
    moreover have "finalPart (joinLines kept @ tail) (joinLines ls @ tail)"
      unfolding kept_def using joinLines_suffix by (intro finalPart_append) (auto simp: finalPart_def)
    ultimately show ?thesis using False count [of kept] by (simp add: run whole)
  qed
qed

lemma dropFirstLine_final: "finalPart (dropFirstLine s) s"
  by (auto simp: dropFirstLine_def split: option.split)

lemma byteLoop_spec: "finalPart (byteLoop mb s) s \<and> bufferByteLength (byteLoop mb s) \<le> mb"
proof (induction mb s rule: byteLoop.induct)
  case (1 mb s)
  then show ?case
    by (subst (1 2) byteLoop.simps) (auto intro: finalPart_trans dropFirstLine_final)
qed

lemma trimToByteCap_spec:
  "finalPart (bufText (trimToByteCap b)) (bufText b) \<and> bufferByteLength (bufText (trimToByteCap b)) \<le> bufMaxBytes b
    \<and> bufMaxLines (trimToByteCap b) = bufMaxLines b \<and> bufMaxBytes (trimToByteCap b) = bufMaxBytes b"
  using byteLoop_spec by (simp add: trimToByteCap_def)

definition ringInv :: "nat \<Rightarrow> nat \<Rightarrow> jsText \<Rightarrow> agentPtyRingBuffer \<Rightarrow> bool" where
  "ringInv mb ml printed b \<longleftrightarrow>
    bufMaxBytes b = max 1 mb \<and> bufMaxLines b = max 1 ml \<and> finalPart (bufText b) printed
    \<and> bufByteLength b \<le> max 1 mb \<and> bufLineCount b \<le> max 1 ml"

lemma ringInv_new: "ringInv mb ml [] (newRingBuffer mb ml)"
  by (simp add: ringInv_def newRingBuffer_def bufByteLength_def bufLineCount_def)

lemma ringInv_append:
  assumes "ringInv mb ml printed b"
  shows "ringInv mb ml (printed @ t) (appendChunk t b)"
proof (cases "t = []")
  case False
  define b1 where "b1 = b \<lparr> bufText := bufText b @ t \<rparr>"
  have "finalPart (bufText b1) (printed @ t)" "bufMaxBytes b1 = max 1 mb" "bufMaxLines b1 = max 1 ml"
    using assms by (auto simp: ringInv_def b1_def intro: finalPart_append)
  moreover from this have "finalPart (bufText (trimToLineCap b1)) (printed @ t)"
      "lineCountOf (bufText (trimToLineCap b1)) \<le> max 1 ml" "bufMaxLines (trimToLineCap b1) = max 1 ml"
      "bufMaxBytes (trimToLineCap b1) = max 1 mb"
    using trimToLineCap_spec [of b1] by (auto simp: less_max_iff_disj intro: finalPart_trans)
  ultimately show ?thesis
    using trimToByteCap_spec [of "trimToLineCap b1"] False
    unfolding ringInv_def appendChunk_def b1_def [symmetric] bufByteLength_def bufLineCount_eq
    by (auto intro: finalPart_trans order_trans [OF finalPart_lines])
qed (use assms in \<open>simp add: appendChunk_def\<close>)

text \<open>C37: After any sequence of output chunks the buffer holds a final part of everything
  that was printed, within the byte cap and within the line cap it was created with (a cap of zero
  counts as one): old output is dropped from the front, never reordered, and the caps are never
  exceeded, whatever the chunks are.\<close>

theorem ring_buffer_keeps_recent_output:
  "let b = foldl (\<lambda>b t. appendChunk t b) (newRingBuffer mb ml) chunks
   in (\<exists>dropped. concat chunks = dropped @ bufText b)
      \<and> bufByteLength b \<le> max 1 mb \<and> bufLineCount b \<le> max 1 ml"
proof -
  have "ringInv mb ml (printed @ concat ts) (foldl (\<lambda>b t. appendChunk t b) b ts)" if "ringInv mb ml printed b" for printed b ts
    using that
  proof (induction ts arbitrary: printed b)
    case (Cons t ts)
    then show ?case using ringInv_append [OF Cons.prems, of t] by fastforce
  qed simp
  from this [OF ringInv_new] show ?thesis by (simp add: ringInv_def finalPart_def Let_def)
qed

text \<open>The byte cap drops single code units, so the buffer can begin with half of a surrogate pair.\<close>

lemma byte_cap_splits_pair:
  "bufText (appendChunk [0xD83D, 0xDE00] (newRingBuffer 3 10)) = [0xDE00]"
proof -
  have "bufferByteLength [0xD83D, 0xDE00] = 4" "bufferByteLength [0xDE00] = 3"
    by (simp_all add: bufferByteLength_sum isHighSurrogate_def isLowSurrogate_def pairCodePoint_length
        codePointOf_length)
  then show ?thesis
    by (simp add: appendChunk_def newRingBuffer_def trimToLineCap_def trimToByteCap_def linesOf_def lf_def
        endsWithLf_def byteLoop.simps dropFirstLine_def)
qed

end
