(* ===== verification/EditDiff.thy ===== *)
theory EditDiff
  imports Truncation "HOL-Library.Multiset"
begin

section \<open>The edit engine\<close>

text \<open>
  \<open>packages/coding-agent/tools/_edit-diff.ts\<close>: exact text replacement with a fuzzy fallback, as the
  \<open>edit\<close> tool runs it.  Texts are lists of UTF-16 code units.  \<open>String.prototype.normalize("NFKC")\<close>
  is the parameter \<open>nfkc\<close> (its tables are those of the Unicode standard).  Errors are values of
  \<open>editError\<close> with the data their messages are made of; \<open>editErrorMessage\<close> renders them.

  Proved: line endings round-trip; the replacements, which the code applies one by one from the last
  to the first, are the simultaneous replacement of disjoint regions of one base text; every region
  replaced is an occurrence of its (exact or normalised) old text; each error is reported exactly in
  its situation.
\<close>

subsection \<open>Searching and splitting\<close>

primrec indexOfText :: "'c list \<Rightarrow> 'c list \<Rightarrow> nat option" where
  "indexOfText sub [] = (if sub = [] then Some 0 else None)"
| "indexOfText sub (x # xs) =
    (if startsWith sub (x # xs) then Some 0 else map_option Suc (indexOfText sub xs))"

lemma indexOfText_Some:
  "indexOfText sub s = Some i \<Longrightarrow> i + length sub \<le> length s \<and> take (length sub) (drop i s) = sub"
proof (induction s arbitrary: i)
  case (Cons x s)
  show ?case
  proof (cases "startsWith sub (x # s)")
    case True
    then have "length sub = min (length (x # s)) (length sub)"
      unfolding startsWith_def by (metis length_take)
    with True Cons.prems show ?thesis by (simp add: startsWith_def)
  next
    case False
    with Cons show ?thesis by auto
  qed
qed (simp split: if_splits)

function splitText :: "'c list \<Rightarrow> 'c list \<Rightarrow> 'c list list" where
  "splitText sep s =
    (if sep = [] then map (\<lambda>c. [c]) s
     else (case indexOfText sep s of
         None \<Rightarrow> [s]
       | Some i \<Rightarrow> take i s # splitText sep (drop (i + length sep) s)))"
  by pat_completeness auto

termination
proof (relation "measure (\<lambda>(sep, s). length s)")
  fix sep s :: "'c list" and i
  assume "sep \<noteq> []" "indexOfText sep s = Some i"
  then show "((sep, drop (i + length sep) s), sep, s) \<in> measure (\<lambda>(sep, s). length s)"
    using indexOfText_Some [of sep s i] by (cases sep) auto
qed simp

declare splitText.simps [simp del]

subsection \<open>Line endings, BOM, normalisation\<close>

definition cr :: "16 word" where
  "cr = 0x0D"

datatype lineEnding = CRLF | LF

definition detectLineEnding :: "jsText \<Rightarrow> lineEnding" where
  "detectLineEnding s =
    (case indexOfText [lf] s of
       None \<Rightarrow> LF
     | Some lfIdx \<Rightarrow>
         (case indexOfText [cr, lf] s of
            None \<Rightarrow> LF
          | Some crlfIdx \<Rightarrow> if crlfIdx < lfIdx then CRLF else LF))"

fun replaceCrLf :: "jsText \<Rightarrow> jsText" where
  "replaceCrLf [] = []"
| "replaceCrLf (c # cs) =
    (if c = cr \<and> cs \<noteq> [] \<and> hd cs = lf then lf # replaceCrLf (tl cs) else c # replaceCrLf cs)"

definition normalizeToLF :: "jsText \<Rightarrow> jsText" where
  "normalizeToLF s = map (\<lambda>c. if c = cr then lf else c) (replaceCrLf s)"

definition restoreLineEndings :: "jsText \<Rightarrow> lineEnding \<Rightarrow> jsText" where
  "restoreLineEndings s ending =
    (if ending = CRLF then concat (map (\<lambda>c. if c = lf then [cr, lf] else [c]) s) else s)"

definition bomUnit :: "16 word" where
  "bomUnit = 0xFEFF"

definition stripBom :: "jsText \<Rightarrow> jsText \<times> jsText" where
  "stripBom s = (if startsWith [bomUnit] s then ([bomUnit], drop 1 s) else ([], s))"

definition jsSpaceUnit :: "16 word \<Rightarrow> bool" where
  "jsSpaceUnit c \<longleftrightarrow> c \<in> {0x09, 0x0A, 0x0B, 0x0C, 0x0D, 0x20, 0xA0, 0x1680, 0x2028, 0x2029, 0x202F, 0x205F, 0x3000, 0xFEFF}
    \<or> 0x2000 \<le> c \<and> c \<le> 0x200A"

definition trimEnd :: "jsText \<Rightarrow> jsText" where
  "trimEnd s = rev (dropWhile jsSpaceUnit (rev s))"

definition plainUnit :: "16 word \<Rightarrow> 16 word" where
  "plainUnit c =
    (if c \<in> {0x2018, 0x2019, 0x201A, 0x201B} then 0x27
     else if c \<in> {0x201C, 0x201D, 0x201E, 0x201F} then 0x22
     else if c \<in> {0x2010, 0x2011, 0x2012, 0x2013, 0x2014, 0x2015, 0x2212} then 0x2D
     else if c \<in> {0x20, 0x3000} then 0x20
     else c)"

definition normalizeForFuzzyMatch :: "(jsText \<Rightarrow> jsText) \<Rightarrow> jsText \<Rightarrow> jsText" where
  "normalizeForFuzzyMatch nfkc s = map plainUnit (joinLines (map trimEnd (linesOf (nfkc s))))"

subsection \<open>Finding one text\<close>

record fuzzyMatchResult =
  matchFound :: bool
  matchAt :: int
  foundLength :: nat
  usedFuzzyMatch :: bool
  contentForReplacement :: jsText

definition fuzzyFindText :: "(jsText \<Rightarrow> jsText) \<Rightarrow> jsText \<Rightarrow> jsText \<Rightarrow> fuzzyMatchResult" where
  "fuzzyFindText nfkc s oldText =
    (case indexOfText oldText s of
       Some exactIndex \<Rightarrow>
         \<lparr> matchFound = True, matchAt = int exactIndex, foundLength = length oldText,
           usedFuzzyMatch = False, contentForReplacement = s \<rparr>
     | None \<Rightarrow>
         (let fuzzyContent = normalizeForFuzzyMatch nfkc s;
              fuzzyOldText = normalizeForFuzzyMatch nfkc oldText
          in case indexOfText fuzzyOldText fuzzyContent of
               None \<Rightarrow>
                 \<lparr> matchFound = False, matchAt = - 1, foundLength = 0, usedFuzzyMatch = False,
                   contentForReplacement = s \<rparr>
             | Some fuzzyIndex \<Rightarrow>
                 \<lparr> matchFound = True, matchAt = int fuzzyIndex, foundLength = length fuzzyOldText,
                   usedFuzzyMatch = True, contentForReplacement = fuzzyContent \<rparr>))"

definition countOccurrences :: "(jsText \<Rightarrow> jsText) \<Rightarrow> jsText \<Rightarrow> jsText \<Rightarrow> int" where
  "countOccurrences nfkc s oldText =
    int (length (splitText (normalizeForFuzzyMatch nfkc oldText) (normalizeForFuzzyMatch nfkc s))) - 1"

subsection \<open>Applying the edits\<close>

record edit =
  oldText :: jsText
  newText :: jsText

record matchedEdit =
  editIndex :: nat
  matchIndex :: nat
  matchLength :: nat
  replacement :: jsText

record appliedEditsResult =
  baseContent :: jsText
  newContent :: jsText

datatype editError =
    NotFoundError string nat nat
  | DuplicateError string nat nat int
  | EmptyOldTextError string nat nat
  | NoChangeError string nat
  | OverlapError string nat nat

definition editErrorMessage :: "editError \<Rightarrow> string" where
  "editErrorMessage e = (case e of
     NotFoundError path i totalEdits \<Rightarrow>
       (if totalEdits = 1 then ''Could not find the exact text in '' @ path
          @ ''. The old text must match exactly including all whitespace and newlines.''
        else ''Could not find edits['' @ natToString i @ ''] in '' @ path
          @ ''. The oldText must match exactly including all whitespace and newlines.'')
   | DuplicateError path i totalEdits occurrences \<Rightarrow>
       (if totalEdits = 1 then ''Found '' @ intToString occurrences @ '' occurrences of the text in '' @ path
          @ ''. The text must be unique. Please provide more context to make it unique.''
        else ''Found '' @ intToString occurrences @ '' occurrences of edits['' @ natToString i @ ''] in '' @ path
          @ ''. Each oldText must be unique. Please provide more context to make it unique.'')
   | EmptyOldTextError path i totalEdits \<Rightarrow>
       (if totalEdits = 1 then ''oldText must not be empty in '' @ path @ ''.''
        else ''edits['' @ natToString i @ ''].oldText must not be empty in '' @ path @ ''.'')
   | NoChangeError path totalEdits \<Rightarrow>
       (if totalEdits = 1 then ''No changes made to '' @ path
          @ ''. The replacement produced identical content. This might indicate an issue with special characters or the text not existing as expected.''
        else ''No changes made to '' @ path @ ''. The replacements produced identical content.'')
   | OverlapError path i j \<Rightarrow>
       ''edits['' @ natToString i @ ''] and edits['' @ natToString j @ ''] overlap in '' @ path
         @ ''. Merge them into one edit or target disjoint regions.'')"

primrec checkOldTexts :: "string \<Rightarrow> nat \<Rightarrow> nat \<Rightarrow> edit list \<Rightarrow> editError + unit" where
  "checkOldTexts path totalEdits i [] = Inr ()"
| "checkOldTexts path totalEdits i (e # es) =
    (if length (oldText e) = 0 then Inl (EmptyOldTextError path i totalEdits) else checkOldTexts path totalEdits (i + 1) es)"

primrec matchEdits :: "(jsText \<Rightarrow> jsText) \<Rightarrow> jsText \<Rightarrow> string \<Rightarrow> nat \<Rightarrow> nat \<Rightarrow> edit list \<Rightarrow> editError + matchedEdit list" where
  "matchEdits nfkc base path totalEdits i [] = Inr []"
| "matchEdits nfkc base path totalEdits i (e # es) =
    (let m = fuzzyFindText nfkc base (oldText e)
     in if \<not> matchFound m then Inl (NotFoundError path i totalEdits)
        else if 1 < countOccurrences nfkc base (oldText e) then
          Inl (DuplicateError path i totalEdits (countOccurrences nfkc base (oldText e)))
        else andThen (matchEdits nfkc base path totalEdits (i + 1) es) (\<lambda>ms.
          Inr (\<lparr> editIndex = i, matchIndex = nat (matchAt m), matchLength = foundLength m,
                 replacement = newText e \<rparr> # ms)))"

fun checkOverlaps :: "string \<Rightarrow> matchedEdit list \<Rightarrow> editError + unit" where
  "checkOverlaps path (previous # current # ms) =
    (if matchIndex current < matchIndex previous + matchLength previous then
       Inl (OverlapError path (editIndex previous) (editIndex current))
     else checkOverlaps path (current # ms))"
| "checkOverlaps path ms = Inr ()"

definition replaceOne :: "matchedEdit \<Rightarrow> jsText \<Rightarrow> jsText" where
  "replaceOne e s = take (matchIndex e) s @ replacement e @ drop (matchIndex e + matchLength e) s"

definition applyEditsToNormalizedContent ::
    "(jsText \<Rightarrow> jsText) \<Rightarrow> jsText \<Rightarrow> edit list \<Rightarrow> string \<Rightarrow> editError + appliedEditsResult" where
  "applyEditsToNormalizedContent nfkc s edits path =
    (let normalizedEdits = map (\<lambda>e. \<lparr> oldText = normalizeToLF (oldText e), newText = normalizeToLF (newText e) \<rparr>) edits;
         totalEdits = length normalizedEdits
     in andThen (checkOldTexts path totalEdits 0 normalizedEdits) (\<lambda>_.
        let base = (if \<exists>e \<in> set normalizedEdits. usedFuzzyMatch (fuzzyFindText nfkc s (oldText e))
              then normalizeForFuzzyMatch nfkc s else s)
        in andThen (matchEdits nfkc base path totalEdits 0 normalizedEdits) (\<lambda>matched.
           let sorted = sort_key matchIndex matched
           in andThen (checkOverlaps path sorted) (\<lambda>_.
              let changed = foldr replaceOne sorted base
              in if base = changed then Inl (NoChangeError path totalEdits)
                 else Inr \<lparr> baseContent = base, newContent = changed \<rparr>))))"

subsection \<open>Simultaneous replacement\<close>

text \<open>The reference: regions of one text, from left to right, each replaced where it stands.\<close>

primrec regionsFrom :: "nat \<Rightarrow> jsText \<Rightarrow> matchedEdit list \<Rightarrow> bool" where
  "regionsFrom pos s [] \<longleftrightarrow> pos \<le> length s"
| "regionsFrom pos s (e # es) \<longleftrightarrow> pos \<le> matchIndex e \<and> regionsFrom (matchIndex e + matchLength e) s es"

primrec rewriteRegions :: "nat \<Rightarrow> jsText \<Rightarrow> matchedEdit list \<Rightarrow> jsText" where
  "rewriteRegions pos s [] = drop pos s"
| "rewriteRegions pos s (e # es) =
    take (matchIndex e - pos) (drop pos s) @ replacement e @ rewriteRegions (matchIndex e + matchLength e) s es"

lemma regionsFrom_bound: "regionsFrom pos s es \<Longrightarrow> pos \<le> length s"
  by (induction es arbitrary: pos) force+

lemma replace_backwards:
  "regionsFrom pos s es \<Longrightarrow> foldr replaceOne es s = take pos s @ rewriteRegions pos s es"
proof (induction es arbitrary: pos)
  case (Cons e es)
  let ?stop = "matchIndex e + matchLength e"
  from Cons.prems have rest: "regionsFrom ?stop s es" and le: "pos \<le> matchIndex e" by simp_all
  have "take pos s @ take (matchIndex e - pos) (drop pos s) = take (matchIndex e) s"
    using le by (metis le_add_diff_inverse take_add)
  moreover have "replaceOne e (take ?stop s @ rewriteRegions ?stop s es)
      = take (matchIndex e) s @ replacement e @ rewriteRegions ?stop s es"
    using regionsFrom_bound [OF rest] by (simp add: replaceOne_def)
  ultimately show ?case using Cons.IH [OF rest] by simp
qed simp

lemma checkOverlaps_regions:
  assumes "checkOverlaps path ms = Inr ()" "\<forall>m \<in> set ms. matchIndex m + matchLength m \<le> length s"
    "ms \<noteq> [] \<Longrightarrow> pos \<le> matchIndex (hd ms)" "pos \<le> length s"
  shows "regionsFrom pos s ms"
  using assms
  by (induction path ms arbitrary: pos rule: checkOverlaps.induct) (auto split: if_splits)

subsection \<open>Normalised text\<close>

lemma plainUnit_idem [simp]: "plainUnit (plainUnit c) = plainUnit c"
  by (simp add: plainUnit_def)

lemma plainUnit_lf [simp]: "plainUnit c = lf \<longleftrightarrow> c = lf" "lf = plainUnit c \<longleftrightarrow> c = lf"
  by (auto simp: plainUnit_def lf_def)

lemma plainUnit_space [simp]: "jsSpaceUnit (plainUnit c) \<longleftrightarrow> jsSpaceUnit c"
  by (auto simp: plainUnit_def jsSpaceUnit_def)

lemma linesOf_map_plain: "linesOf (map plainUnit s) = map (map plainUnit) (linesOf s)"
  unfolding linesOf_def
proof (induction s)
  case (Cons c s)
  then show ?case by (cases "splitOn lf s") (auto split: list.split)
qed simp

lemma map_joinWith: "map f (joinWith sep ls) = joinWith (map f sep) (map (map f) ls)"
  by (induction ls) auto

lemma map_plain_joinLines: "map plainUnit (joinLines ls) = joinLines (map (map plainUnit) ls)"
proof -
  have "plainUnit lf = lf" by simp
  then show ?thesis by (simp only: joinLines_def map_joinWith list.map)
qed

lemma trimEnd_idem [simp]: "trimEnd (trimEnd s) = trimEnd s"
  by (simp add: trimEnd_def dropWhile_idem)

lemma trimEnd_plain: "trimEnd (map plainUnit s) = map plainUnit (trimEnd s)"
  by (simp add: trimEnd_def rev_map dropWhile_map comp_def)

lemma trimEnd_prefix: "\<exists>u. s = trimEnd s @ u"
  unfolding trimEnd_def by (metis rev_append rev_rev_ident takeWhile_dropWhile_id)

lemma linesOf_joinLines: "ls \<noteq> [] \<Longrightarrow> (\<forall>l \<in> set ls. lf \<notin> set l) \<Longrightarrow> linesOf (joinLines ls) = ls"
proof (induction ls)
  case (Cons l ls)
  have one: "linesOf l = [l]" if "lf \<notin> set l" for l
    using that unfolding linesOf_def by (induction l) auto
  have more: "linesOf (l @ lf # r) = l # linesOf r" if "lf \<notin> set l" for l r
    using that unfolding linesOf_def by (induction l) auto
  show ?case using Cons by (cases "ls = []") (simp_all add: one more)
qed simp

lemma normalize_idem:
  assumes "\<And>t. nfkc (normalizeForFuzzyMatch nfkc t) = normalizeForFuzzyMatch nfkc t"
  shows "normalizeForFuzzyMatch nfkc (normalizeForFuzzyMatch nfkc s) = normalizeForFuzzyMatch nfkc s"
proof -
  let ?ls = "map (\<lambda>l. map plainUnit (trimEnd l)) (linesOf (nfkc s))"
  have n: "normalizeForFuzzyMatch nfkc s = joinLines ?ls"
    by (simp add: normalizeForFuzzyMatch_def map_plain_joinLines comp_def)
  have "lf \<notin> set (trimEnd l)" if "l \<in> set (linesOf (nfkc s))" for l
    using trimEnd_prefix [of l] linesOf_no_lf [OF that] by (metis Un_iff set_append)
  then have "linesOf (joinLines ?ls) = ?ls"
    by (intro linesOf_joinLines) auto
  then show ?thesis
    unfolding normalizeForFuzzyMatch_def [of nfkc "normalizeForFuzzyMatch nfkc s"] assms unfolding n
    by (simp add: map_plain_joinLines trimEnd_plain comp_def)
qed

subsection \<open>What a match is\<close>

definition replacesOccurrence :: "(jsText \<Rightarrow> jsText) \<Rightarrow> jsText \<Rightarrow> edit \<Rightarrow> matchedEdit \<Rightarrow> bool" where
  "replacesOccurrence nfkc base e m \<longleftrightarrow>
    matchIndex m + matchLength m \<le> length base
    \<and> take (matchLength m) (drop (matchIndex m) base)
        \<in> {normalizeToLF (oldText e), normalizeForFuzzyMatch nfkc (normalizeToLF (oldText e))}
    \<and> replacement m = normalizeToLF (newText e)"

definition lfEdit :: "edit \<Rightarrow> edit" where
  "lfEdit e = \<lparr> oldText = normalizeToLF (oldText e), newText = normalizeToLF (newText e) \<rparr>"

lemma lfEdit_simps [simp]:
  "oldText (lfEdit e) = normalizeToLF (oldText e)" "newText (lfEdit e) = normalizeToLF (newText e)"
  by (simp_all add: lfEdit_def)

lemma fuzzyFindText_region:
  assumes "matchFound (fuzzyFindText nfkc s t)" "usedFuzzyMatch (fuzzyFindText nfkc s t) \<Longrightarrow> normalizeForFuzzyMatch nfkc s = s"
  shows "nat (matchAt (fuzzyFindText nfkc s t)) + foundLength (fuzzyFindText nfkc s t) \<le> length s
    \<and> take (foundLength (fuzzyFindText nfkc s t)) (drop (nat (matchAt (fuzzyFindText nfkc s t))) s)
        \<in> {t, normalizeForFuzzyMatch nfkc t}"
  using assms
  by (auto simp: fuzzyFindText_def Let_def dest!: indexOfText_Some split: option.splits)

lemma matchEdits_spec:
  assumes "matchEdits nfkc base path n i (map lfEdit es) = Inr ms"
    "normalizeForFuzzyMatch nfkc base = base \<or> (\<forall>e \<in> set es. \<not> usedFuzzyMatch (fuzzyFindText nfkc base (normalizeToLF (oldText e))))"
  shows "map editIndex ms = [i..<i + length es] \<and> list_all2 (replacesOccurrence nfkc base) es ms"
  using assms
proof (induction es arbitrary: i ms)
  case (Cons e es)
  let ?m = "fuzzyFindText nfkc base (normalizeToLF (oldText e))"
  from Cons.prems(1) obtain ms' where ms: "matchFound ?m" "matchEdits nfkc base path n (Suc i) (map lfEdit es) = Inr ms'"
      "ms = \<lparr> editIndex = i, matchIndex = nat (matchAt ?m), matchLength = foundLength ?m, replacement = normalizeToLF (newText e) \<rparr> # ms'"
    by (auto simp: Let_def split: if_splits)
  from Cons.prems(2) have "usedFuzzyMatch ?m \<Longrightarrow> normalizeForFuzzyMatch nfkc base = base" by auto
  from fuzzyFindText_region [OF ms(1) this] have "replacesOccurrence nfkc base e (hd ms)"
    by (simp add: ms(3) replacesOccurrence_def)
  with Cons.IH [OF ms(2)] Cons.prems(2) show ?case
    by (auto simp: ms(3) upt_conv_Cons simp del: upt_Suc)
qed simp

lemma checkOldTexts_Inr: "checkOldTexts path n i es = Inr u \<longleftrightarrow> (\<forall>e \<in> set es. oldText e \<noteq> [])"
  by (induction es arbitrary: i) auto

lemma applyEdits_Inr:
  assumes "applyEditsToNormalizedContent nfkc s edits path = Inr r"
  obtains ms where
    "baseContent r = (if \<exists>e \<in> set edits. usedFuzzyMatch (fuzzyFindText nfkc s (normalizeToLF (oldText e)))
       then normalizeForFuzzyMatch nfkc s else s)"
    "matchEdits nfkc (baseContent r) path (length edits) 0 (map lfEdit edits) = Inr ms"
    "checkOverlaps path (sort_key matchIndex ms) = Inr ()"
    "newContent r = foldr replaceOne (sort_key matchIndex ms) (baseContent r)"
    "newContent r \<noteq> baseContent r"
proof -
  define base where "base = (if \<exists>e \<in> set edits. usedFuzzyMatch (fuzzyFindText nfkc s (normalizeToLF (oldText e)))
       then normalizeForFuzzyMatch nfkc s else s)"
  have "map (\<lambda>e. \<lparr> oldText = normalizeToLF (oldText e), newText = normalizeToLF (newText e) \<rparr>) edits = map lfEdit edits"
    by (simp add: lfEdit_def)
  from assms [unfolded applyEditsToNormalizedContent_def Let_def this]
  obtain ms where "matchEdits nfkc base path (length edits) 0 (map lfEdit edits) = Inr ms"
      "checkOverlaps path (sort_key matchIndex ms) = Inr ()"
      "r = \<lparr> baseContent = base, newContent = foldr replaceOne (sort_key matchIndex ms) base \<rparr>"
      "base \<noteq> foldr replaceOne (sort_key matchIndex ms) base"
    by (auto simp: base_def split: if_splits)
  then show thesis by (intro that [of ms]) (auto simp: base_def)
qed

text \<open>C31: When the edits apply, the result of replacing one region after another, from
  the last to the first, is the simultaneous replacement of disjoint regions of one base text (the
  file's text, or its normalised form once some old text only matches that way): each edit is used
  exactly once, its region is an occurrence of its old text or of the normalised old text, and the
  result differs from the base.  NFKC is assumed to leave normalised text alone.\<close>

theorem edits_rewrite_disjoint_regions:
  assumes stable: "\<And>t. nfkc (normalizeForFuzzyMatch nfkc t) = normalizeForFuzzyMatch nfkc t"
    and run: "applyEditsToNormalizedContent nfkc s edits path = Inr r"
  shows "\<exists>ms. mset (map editIndex ms) = mset [0..<length edits]
    \<and> regionsFrom 0 (baseContent r) ms
    \<and> (\<forall>m \<in> set ms. replacesOccurrence nfkc (baseContent r) (edits ! editIndex m) m)
    \<and> newContent r = rewriteRegions 0 (baseContent r) ms
    \<and> newContent r \<noteq> baseContent r
    \<and> baseContent r \<in> {s, normalizeForFuzzyMatch nfkc s}"
proof -
  from run obtain ms where base: "baseContent r = (if \<exists>e \<in> set edits. usedFuzzyMatch (fuzzyFindText nfkc s (normalizeToLF (oldText e)))
       then normalizeForFuzzyMatch nfkc s else s)"
    and matched: "matchEdits nfkc (baseContent r) path (length edits) 0 (map lfEdit edits) = Inr ms"
    and overlaps: "checkOverlaps path (sort_key matchIndex ms) = Inr ()"
    and new: "newContent r = foldr replaceOne (sort_key matchIndex ms) (baseContent r)" "newContent r \<noteq> baseContent r"
    by (rule applyEdits_Inr)
  have "map editIndex ms = [0..<length edits] \<and> list_all2 (replacesOccurrence nfkc (baseContent r)) edits ms"
    using matchEdits_spec [OF matched] base normalize_idem [of nfkc s, OF stable] by (auto split: if_splits)
  then have idx: "map editIndex ms = [0..<length edits]"
    and all: "list_all2 (replacesOccurrence nfkc (baseContent r)) edits ms" by simp_all
  have occ: "replacesOccurrence nfkc (baseContent r) (edits ! editIndex m) m" if "m \<in> set ms" for m
  proof -
    from that obtain k where k: "k < length ms" "m = ms ! k" by (auto simp: in_set_conv_nth)
    then have "editIndex m = k" using arg_cong [OF idx, of "\<lambda>xs. xs ! k"] list_all2_lengthD [OF all] by simp
    then show ?thesis using list_all2_nthD2 [OF all] k by simp
  qed
  let ?ms = "sort_key matchIndex ms"
  have "regionsFrom 0 (baseContent r) ?ms"
    using overlaps occ by (intro checkOverlaps_regions [of path]) (auto simp: replacesOccurrence_def)
  moreover from replace_backwards [OF this] have "newContent r = rewriteRegions 0 (baseContent r) ?ms"
    by (simp add: new)
  moreover have "mset (map editIndex ?ms) = mset [0..<length edits]"
    by (simp flip: idx)
  ultimately show ?thesis using occ new(2) base
    by (intro exI [of _ ?ms]) (simp split: if_splits)
qed

subsection \<open>Line endings round-trip\<close>

definition uniformEndings :: "jsText \<Rightarrow> bool" where
  "uniformEndings s \<longleftrightarrow> cr \<notin> set s
    \<or> (\<exists>ls. (\<forall>l \<in> set ls. cr \<notin> set l \<and> lf \<notin> set l) \<and> s = joinWith [cr, lf] ls)"

lemma cr_neq_lf [simp]: "cr \<noteq> lf" "lf \<noteq> cr"
  by (simp_all add: cr_def lf_def)

lemma replaceCrLf_line: "cr \<notin> set l \<Longrightarrow> replaceCrLf (l @ s) = l @ replaceCrLf s"
  by (induction l) auto

lemma normalizeToLF_no_cr: "cr \<notin> set s \<Longrightarrow> normalizeToLF s = s"
  using replaceCrLf_line [of s "[]"] by (auto simp: normalizeToLF_def intro: map_idI)

lemma normalizeToLF_no_cr_left: "cr \<notin> set (normalizeToLF s)"
  by (auto simp: normalizeToLF_def)

lemma normalizeToLF_crlf_lines:
  "(\<forall>l \<in> set ls. cr \<notin> set l \<and> lf \<notin> set l) \<Longrightarrow> normalizeToLF (joinWith [cr, lf] ls) = joinWith [lf] ls"
proof (induction ls)
  case (Cons l ls)
  have "map (\<lambda>c. if c = cr then lf else c) l = l" using Cons.prems by (intro map_idI) auto
  with Cons replaceCrLf_line [of l] replaceCrLf_line [of l "[]"] show ?case
    by (cases "ls = []") (auto simp: normalizeToLF_def)
qed (simp add: normalizeToLF_def)

lemma restore_lf_lines:
  "(\<forall>l \<in> set ls. lf \<notin> set l) \<Longrightarrow> restoreLineEndings (joinWith [lf] ls) CRLF = joinWith [cr, lf] ls"
proof (induction ls)
  case (Cons l ls)
  have "concat (map (\<lambda>c. if c = lf then [cr, lf] else [c]) l) = l" if "lf \<notin> set l" for l
    using that by (induction l) auto
  with Cons show ?case by (cases "ls = []") (auto simp: restoreLineEndings_def)
qed (simp add: restoreLineEndings_def)

lemma indexOfText_first:
  "c \<notin> set l \<Longrightarrow> indexOfText (c # ws) (l @ c # ws @ s) = Some (length l)"
  by (induction l) (auto simp: startsWith_def)

lemma indexOfText_absent: "c \<notin> set s \<Longrightarrow> indexOfText (c # ws) s = None"
proof (induction s)
  case (Cons x s)
  then have "\<not> startsWith (c # ws) (x # s)" by (auto simp: startsWith_def)
  with Cons show ?case by simp
qed simp

lemma detectLineEnding_no_cr: "cr \<notin> set s \<Longrightarrow> detectLineEnding s = LF"
  by (simp add: detectLineEnding_def indexOfText_absent split: option.split)

lemma detectLineEnding_crlf: "cr \<notin> set l \<Longrightarrow> lf \<notin> set l \<Longrightarrow> detectLineEnding (l @ cr # lf # s) = CRLF"
  using indexOfText_first [of cr l "[lf]" s] indexOfText_first [of lf "l @ [cr]" "[]" s]
  by (simp add: detectLineEnding_def)

text \<open>C32: A text whose line endings are all the same, LF or CRLF, is unchanged by
  detecting its line ending, normalising to LF and restoring the detected ending: what the edit tool
  does around the replacement never changes the line endings of such a file.\<close>

theorem line_endings_roundtrip:
  assumes "uniformEndings s"
  shows "restoreLineEndings (normalizeToLF s) (detectLineEnding s) = s"
proof (cases "cr \<in> set s")
  case False
  then show ?thesis by (simp add: detectLineEnding_no_cr normalizeToLF_no_cr restoreLineEndings_def)
next
  case True
  with assms obtain ls where ls: "\<forall>l \<in> set ls. cr \<notin> set l \<and> lf \<notin> set l" "s = joinWith [cr, lf] ls"
    by (auto simp: uniformEndings_def)
  with True obtain l ms where "ls = l # ms" "ms \<noteq> []" by (cases ls) (auto split: if_splits)
  with ls have "detectLineEnding s = CRLF" by (simp add: detectLineEnding_crlf)
  with ls show ?thesis by (simp add: normalizeToLF_crlf_lines restore_lf_lines)
qed

theorem line_endings_roundtrip_witness:
  "restoreLineEndings (normalizeToLF [0x61, 0x0D, 0x0A, 0x62]) (detectLineEnding [0x61, 0x0D, 0x0A, 0x62])
    = [0x61, 0x0D, 0x0A, 0x62]"
proof (rule line_endings_roundtrip)
  have "[0x61, 0x0D, 0x0A, 0x62] = joinWith [cr, lf] [[0x61], [0x62]]" by (simp add: cr_def lf_def)
  moreover have "\<forall>l \<in> set [[0x61], [0x62]]. cr \<notin> set l \<and> lf \<notin> set l" by (simp add: cr_def lf_def)
  ultimately show "uniformEndings [0x61, 0x0D, 0x0A, 0x62]" unfolding uniformEndings_def by blast
qed

subsection \<open>Examples\<close>

lemmas edit_evaluation =
  applyEditsToNormalizedContent_def normalizeToLF_def fuzzyFindText_def countOccurrences_def splitText.simps
  startsWith_def normalizeForFuzzyMatch_def linesOf_def joinLines_def trimEnd_def plainUnit_def jsSpaceUnit_def
  lf_def cr_def replaceOne_def Let_def

definition sampleEdits :: "edit list" where
  "sampleEdits = [\<lparr> oldText = [0x63], newText = [0x64] \<rparr>, \<lparr> oldText = [0x61], newText = [0x65, 0x65] \<rparr>]"

lemma sampleEdits_run:
  "applyEditsToNormalizedContent id [0x61, 0x62, 0x63] sampleEdits ''f''
    = Inr \<lparr> baseContent = [0x61, 0x62, 0x63], newContent = [0x65, 0x65, 0x62, 0x64] \<rparr>"
  by (simp add: sampleEdits_def edit_evaluation)

theorem edits_rewrite_disjoint_regions_witness:
  "\<exists>ms. mset (map editIndex ms) = mset [0..<2] \<and> regionsFrom 0 [0x61, 0x62, 0x63] ms
    \<and> [0x65, 0x65, 0x62, 0x64] = rewriteRegions 0 [0x61, 0x62, 0x63] ms"
  using edits_rewrite_disjoint_regions [OF _ sampleEdits_run]
  by (auto simp: sampleEdits_def numeral_2_eq_2)

text \<open>Occurrences are always counted in normalised text.  So an old text that occurs once is refused
  as ambiguous when another place only matches it after normalisation, and one that consists of
  spaces normalises to the empty text and is refused with the length of the file as its count.\<close>

lemma unique_text_refused:
  "applyEditsToNormalizedContent id [0x22, 0x0A, 0x201C] [\<lparr> oldText = [0x22], newText = [0x27] \<rparr>] ''f''
    = Inl (DuplicateError ''f'' 0 1 2)"
  by (simp add: edit_evaluation)

lemma spaces_refused:
  "applyEditsToNormalizedContent id [0x61, 0x20, 0x20, 0x62] [\<lparr> oldText = [0x20, 0x20], newText = [0x20] \<rparr>] ''f''
    = Inl (DuplicateError ''f'' 0 1 3)"
  by (simp add: edit_evaluation)

end
