(* ===== verification/TransformMessages.thy ===== *)
theory TransformMessages
  imports SessionTypes
begin

section \<open>Replaying a conversation to a model\<close>

text \<open>
  \<open>packages/ai/providers/transform-messages.ts\<close>: what every provider does to the messages before it
  sends them.  Images are replaced where the model takes none, blocks that only their own model
  understands are dropped or turned into text, tool call ids are normalised, and calls without a
  result get a synthetic one.  The target model is the record \<open>targetModel\<close>, the provider's id
  normaliser an optional function, and \<open>now n\<close> the clock read when the \<open>n\<close>-th message of the result is
  a synthetic one.  Proved: in the result every tool call is answered before the next user or
  assistant message, whatever the input; a complete conversation of the same model is sent
  unchanged; no image reaches a model without image input.
\<close>

record targetModel =
  tmId :: string
  tmProvider :: string
  tmApi :: string
  tmInput :: "string list"

definition NON_VISION_USER_IMAGE_PLACEHOLDER :: string where
  "NON_VISION_USER_IMAGE_PLACEHOLDER = ''(image omitted: model does not support images)''"

definition NON_VISION_TOOL_IMAGE_PLACEHOLDER :: string where
  "NON_VISION_TOOL_IMAGE_PLACEHOLDER = ''(tool image omitted: model does not support images)''"

subsection \<open>Images\<close>

primrec placeholderLoop :: "string \<Rightarrow> bool \<Rightarrow> content_part list \<Rightarrow> content_part list" where
  "placeholderLoop placeholder previousWasPlaceholder [] = []"
| "placeholderLoop placeholder previousWasPlaceholder (block # blocks) =
    (case block of
       ImageContent _ _ \<Rightarrow>
         (if previousWasPlaceholder then [] else [TextContent placeholder None])
           @ placeholderLoop placeholder True blocks
     | TextContent t _ \<Rightarrow> block # placeholderLoop placeholder (t = placeholder) blocks)"

definition replaceImagesWithPlaceholder :: "content_part list \<Rightarrow> string \<Rightarrow> content_part list" where
  "replaceImagesWithPlaceholder parts placeholder = placeholderLoop placeholder False parts"

definition downgradeMessage :: "agent_message \<Rightarrow> agent_message" where
  "downgradeMessage m = (case m of
     UserMsg u \<Rightarrow> (case umContent u of
         ContentParts ps \<Rightarrow>
           UserMsg (u \<lparr> umContent := ContentParts (replaceImagesWithPlaceholder ps NON_VISION_USER_IMAGE_PLACEHOLDER) \<rparr>)
       | ContentText _ \<Rightarrow> m)
   | ToolResultMsg t \<Rightarrow>
       ToolResultMsg (t \<lparr> trContent := replaceImagesWithPlaceholder (trContent t) NON_VISION_TOOL_IMAGE_PLACEHOLDER \<rparr>)
   | _ \<Rightarrow> m)"

definition downgradeUnsupportedImages :: "agent_message list \<Rightarrow> targetModel \<Rightarrow> agent_message list" where
  "downgradeUnsupportedImages ms model =
    (if ''image'' \<in> set (tmInput model) then ms else map downgradeMessage ms)"

subsection \<open>First pass: blocks and ids\<close>

type_synonym idNormalizer = "(string \<Rightarrow> targetModel \<Rightarrow> assistantMessage \<Rightarrow> string) option"
type_synonym idMap = "(string \<times> string) list"

definition truthy :: "string option \<Rightarrow> bool" where
  "truthy v \<longleftrightarrow> v \<noteq> None \<and> v \<noteq> Some []"

definition sameModel :: "targetModel \<Rightarrow> assistantMessage \<Rightarrow> bool" where
  "sameModel model a \<longleftrightarrow> amProvider a = tmProvider model \<and> amApi a = tmApi model \<and> amModel a = tmId model"

definition transformThinking :: "bool \<Rightarrow> string \<Rightarrow> string option \<Rightarrow> bool option \<Rightarrow> assistant_block list" where
  "transformThinking same t sig redacted =
    (if redacted = Some True then (if same then [ThinkingBlock t sig redacted] else [])
     else if same \<and> truthy sig then [ThinkingBlock t sig redacted]
     else if t = [] \<or> trim t = [] then []
     else if same then [ThinkingBlock t sig redacted]
     else [TextBlock t None])"

definition transformToolCall :: "targetModel \<Rightarrow> idNormalizer \<Rightarrow> assistantMessage \<Rightarrow> idMap \<Rightarrow> toolCall \<Rightarrow> idMap \<times> toolCall" where
  "transformToolCall model normalizer a ids c =
    (let same = sameModel model a;
         normalized = (if \<not> same \<and> truthy (tcThoughtSignature c) then c \<lparr> tcThoughtSignature := None \<rparr> else c)
     in case normalizer of
          None \<Rightarrow> (ids, normalized)
        | Some norm \<Rightarrow>
            (if same then (ids, normalized)
             else (let normalizedId = norm (tcId c) model a
                   in if normalizedId \<noteq> tcId c
                      then (alistSet (tcId c) normalizedId ids, normalized \<lparr> tcId := normalizedId \<rparr>)
                      else (ids, normalized))))"

primrec transformBlocks :: "targetModel \<Rightarrow> idNormalizer \<Rightarrow> assistantMessage \<Rightarrow> idMap \<Rightarrow> assistant_block list
    \<Rightarrow> idMap \<times> assistant_block list" where
  "transformBlocks model normalizer a ids [] = (ids, [])"
| "transformBlocks model normalizer a ids (b # bs) =
    (let (ids', out) = (case b of
         ThinkingBlock t sig redacted \<Rightarrow> (ids, transformThinking (sameModel model a) t sig redacted)
       | TextBlock t sig \<Rightarrow> (ids, [if sameModel model a then b else TextBlock t None])
       | ToolCallBlock c \<Rightarrow> (case transformToolCall model normalizer a ids c of (ids', c') \<Rightarrow> (ids', [ToolCallBlock c'])));
         (ids'', rest) = transformBlocks model normalizer a ids' bs
     in (ids'', out @ rest))"

definition transformMessage :: "targetModel \<Rightarrow> idNormalizer \<Rightarrow> idMap \<Rightarrow> agent_message \<Rightarrow> idMap \<times> agent_message" where
  "transformMessage model normalizer ids m = (case m of
     ToolResultMsg t \<Rightarrow> (case map_of ids (trToolCallId t) of
         Some normalizedId \<Rightarrow>
           (ids, if normalizedId \<noteq> [] \<and> normalizedId \<noteq> trToolCallId t
                 then ToolResultMsg (t \<lparr> trToolCallId := normalizedId \<rparr>) else m)
       | None \<Rightarrow> (ids, m))
   | AssistantMsg a \<Rightarrow> (case transformBlocks model normalizer a ids (amContent a) of
         (ids', blocks) \<Rightarrow> (ids', AssistantMsg (a \<lparr> amContent := blocks \<rparr>)))
   | _ \<Rightarrow> (ids, m))"

primrec transformPass :: "targetModel \<Rightarrow> idNormalizer \<Rightarrow> idMap \<Rightarrow> agent_message list \<Rightarrow> agent_message list" where
  "transformPass model normalizer ids [] = []"
| "transformPass model normalizer ids (m # ms) =
    (case transformMessage model normalizer ids m of
       (ids', m') \<Rightarrow> m' # transformPass model normalizer ids' ms)"

subsection \<open>Second pass: calls without a result\<close>

record replayState =
  replayed :: "agent_message list"
  pendingToolCalls :: "toolCall list"
  existingToolResultIds :: "string set"

definition syntheticResult :: "(nat \<Rightarrow> jsTime) \<Rightarrow> nat \<Rightarrow> toolCall \<Rightarrow> agent_message" where
  "syntheticResult now n tc = ToolResultMsg
    \<lparr> trToolCallId = tcId tc, trToolName = tcName tc, trContent = [TextContent ''No result provided'' None],
      trDetails = None, trIsError = True, trTimestamp = now n \<rparr>"

definition pushSynthetic :: "(nat \<Rightarrow> jsTime) \<Rightarrow> string set \<Rightarrow> agent_message list \<Rightarrow> toolCall \<Rightarrow> agent_message list" where
  "pushSynthetic now existing out tc =
    (if tcId tc \<notin> existing then out @ [syntheticResult now (length out) tc] else out)"

definition insertSyntheticToolResults :: "(nat \<Rightarrow> jsTime) \<Rightarrow> replayState \<Rightarrow> replayState" where
  "insertSyntheticToolResults now st =
    (if pendingToolCalls st \<noteq> [] then
       st \<lparr> replayed := foldl (pushSynthetic now (existingToolResultIds st)) (replayed st) (pendingToolCalls st),
           pendingToolCalls := [], existingToolResultIds := {} \<rparr>
     else st)"

definition replayedCalls :: "assistantMessage \<Rightarrow> toolCall list" where
  "replayedCalls a = concat (map (\<lambda>b. case b of ToolCallBlock c \<Rightarrow> [c] | _ \<Rightarrow> []) (amContent a))"

definition pushReplayed :: "agent_message \<Rightarrow> replayState \<Rightarrow> replayState" where
  "pushReplayed m st = st \<lparr> replayed := replayed st @ [m] \<rparr>"

definition replayMessage :: "(nat \<Rightarrow> jsTime) \<Rightarrow> replayState \<Rightarrow> agent_message \<Rightarrow> replayState" where
  "replayMessage now st m = (case m of
     AssistantMsg a \<Rightarrow>
       (let st = insertSyntheticToolResults now st
        in if amStopReason a = StopError \<or> amStopReason a = StopAborted then st
           else (let calls = replayedCalls a;
                     st = (if calls \<noteq> [] then st \<lparr> pendingToolCalls := calls, existingToolResultIds := {} \<rparr> else st)
                 in pushReplayed m st))
   | ToolResultMsg t \<Rightarrow>
       pushReplayed m (st \<lparr> existingToolResultIds := insert (trToolCallId t) (existingToolResultIds st) \<rparr>)
   | UserMsg _ \<Rightarrow> pushReplayed m (insertSyntheticToolResults now st)
   | _ \<Rightarrow> pushReplayed m st)"

definition replayPass :: "(nat \<Rightarrow> jsTime) \<Rightarrow> agent_message list \<Rightarrow> agent_message list" where
  "replayPass now ms =
    replayed (insertSyntheticToolResults now
      (foldl (replayMessage now) \<lparr> replayed = [], pendingToolCalls = [], existingToolResultIds = {} \<rparr> ms))"

definition transformMessages :: "(nat \<Rightarrow> jsTime) \<Rightarrow> agent_message list \<Rightarrow> targetModel \<Rightarrow> idNormalizer \<Rightarrow> agent_message list" where
  "transformMessages now ms model normalizer =
    replayPass now (transformPass model normalizer [] (downgradeUnsupportedImages ms model))"

subsection \<open>Every call is answered\<close>

text \<open>The reference: scanning a conversation, which calls of the last assistant message are still
  open; \<open>None\<close> once a user or assistant message came while some were.\<close>

definition openAfter :: "string set option \<Rightarrow> agent_message \<Rightarrow> string set option" where
  "openAfter st m = (case st of None \<Rightarrow> None | Some ids \<Rightarrow> (case m of
     AssistantMsg a \<Rightarrow> if ids = {} then Some (tcId ` set (replayedCalls a)) else None
   | ToolResultMsg t \<Rightarrow> Some (ids - {trToolCallId t})
   | UserMsg _ \<Rightarrow> if ids = {} then Some {} else None
   | _ \<Rightarrow> Some ids))"

definition unansweredCalls :: "agent_message list \<Rightarrow> string set option" where
  "unansweredCalls ms = foldl openAfter (Some {}) ms"

definition callsAnswered :: "agent_message list \<Rightarrow> bool" where
  "callsAnswered ms \<longleftrightarrow> unansweredCalls ms = Some {}"

lemma unansweredCalls_simps [simp]:
  "unansweredCalls [] = Some {}"
  "unansweredCalls (ms @ [m]) = openAfter (unansweredCalls ms) m"
  by (simp_all add: unansweredCalls_def)

lemma pushSynthetic_open:
  "unansweredCalls out = Some ids \<Longrightarrow>
    unansweredCalls (foldl (pushSynthetic now existing) out tcs) = Some (ids - (tcId ` set tcs - existing))"
proof (induction tcs arbitrary: out ids)
  case (Cons tc tcs)
  show ?case
  proof (cases "tcId tc \<in> existing")
    case True
    then show ?thesis using Cons.IH [OF Cons.prems] by (simp add: pushSynthetic_def insert_Diff_if)
  next
    case False
    then have "unansweredCalls (pushSynthetic now existing out tc) = Some (ids - {tcId tc})"
      using Cons.prems by (simp add: pushSynthetic_def openAfter_def syntheticResult_def)
    from Cons.IH [OF this] False show ?thesis by (simp add: insert_Diff_if Diff_insert2 [symmetric] set_diff_eq) blast
  qed
qed simp

definition openInv :: "replayState \<Rightarrow> bool" where
  "openInv st \<longleftrightarrow> unansweredCalls (replayed st) = Some (tcId ` set (pendingToolCalls st) - existingToolResultIds st)"

lemma openInv_insert:
  assumes "openInv st"
  shows "openInv (insertSyntheticToolResults now st)" "unansweredCalls (replayed (insertSyntheticToolResults now st)) = Some {}"
    "pendingToolCalls (insertSyntheticToolResults now st) = []"
  using assms pushSynthetic_open [of "replayed st" _ now "existingToolResultIds st" "pendingToolCalls st"]
  by (auto simp: openInv_def insertSyntheticToolResults_def)

lemma openInv_replay:
  assumes "openInv st"
  shows "openInv (replayMessage now st m)"
proof (cases m)
  case (AssistantMsg a)
  have "replayedCalls a = [] \<Longrightarrow> tcId ` set (replayedCalls a) = {}" by simp
  then show ?thesis
    using openInv_insert [OF assms, of now]
    by (auto simp: AssistantMsg replayMessage_def pushReplayed_def openInv_def openAfter_def Let_def)
next
  case (UserMsg u)
  then show ?thesis
    using openInv_insert [OF assms, of now]
    by (auto simp: replayMessage_def pushReplayed_def openInv_def openAfter_def)
qed (use assms in \<open>auto simp: replayMessage_def pushReplayed_def openInv_def openAfter_def\<close>)

lemma replayPass_answered: "callsAnswered (replayPass now ms)"
proof -
  have "openInv (foldl (replayMessage now) \<lparr> replayed = [], pendingToolCalls = [], existingToolResultIds = {} \<rparr> ms)"
    by (rule foldl_inv) (simp add: openInv_def, rule openInv_replay)
  then show ?thesis by (simp add: replayPass_def callsAnswered_def openInv_insert)
qed

text \<open>C29: Whatever the conversation, the target model and the id normaliser: in the messages
  sent to the model every tool call of an assistant message has a result before the next user or
  assistant message and before the end, as the providers' interfaces require.\<close>

theorem transformed_calls_answered:
  "callsAnswered (transformMessages now ms model normalizer)"
  unfolding transformMessages_def by (rule replayPass_answered)

subsection \<open>A complete conversation of the same model\<close>

definition emptyThinking :: "assistant_block \<Rightarrow> bool" where
  "emptyThinking b = (case b of
     ThinkingBlock t sig redacted \<Rightarrow> redacted \<noteq> Some True \<and> \<not> truthy sig \<and> trim t = []
   | _ \<Rightarrow> False)"

definition hasImage :: "content_part list \<Rightarrow> bool" where
  "hasImage ps \<longleftrightarrow> (\<exists>p \<in> set ps. case p of ImageContent _ _ \<Rightarrow> True | _ \<Rightarrow> False)"

definition imageIn :: "agent_message \<Rightarrow> bool" where
  "imageIn m = (case m of
     UserMsg u \<Rightarrow> (case umContent u of ContentParts ps \<Rightarrow> hasImage ps | ContentText _ \<Rightarrow> False)
   | ToolResultMsg t \<Rightarrow> hasImage (trContent t)
   | _ \<Rightarrow> False)"

definition replayable :: "targetModel \<Rightarrow> agent_message \<Rightarrow> bool" where
  "replayable model m \<longleftrightarrow> (''image'' \<in> set (tmInput model) \<or> \<not> imageIn m) \<and> (case m of
     AssistantMsg a \<Rightarrow> sameModel model a \<and> amStopReason a \<notin> {StopError, StopAborted}
       \<and> (\<forall>b \<in> set (amContent a). \<not> emptyThinking b)
   | _ \<Rightarrow> True)"

lemma placeholderLoop_no_image: "\<not> hasImage ps \<Longrightarrow> placeholderLoop placeholder prev ps = ps"
  by (induction ps arbitrary: prev) (auto simp: hasImage_def split: content_part.splits)

lemma placeholderLoop_removes: "\<not> hasImage (placeholderLoop placeholder prev ps)"
  by (induction ps arbitrary: prev) (auto simp: hasImage_def split: content_part.splits)

lemma downgrade_no_image: "\<not> imageIn m \<Longrightarrow> downgradeMessage m = m"
  by (auto simp: imageIn_def downgradeMessage_def replaceImagesWithPlaceholder_def placeholderLoop_no_image
      split: agent_message.splits user_content.splits)

lemma downgrade_removes: "\<not> imageIn (downgradeMessage m)"
  by (auto simp: imageIn_def downgradeMessage_def replaceImagesWithPlaceholder_def placeholderLoop_removes
      split: agent_message.splits user_content.splits)

lemma downgrade_replayable:
  assumes "\<forall>m \<in> set ms. replayable model m"
  shows "downgradeUnsupportedImages ms model = ms"
  using assms by (auto simp: downgradeUnsupportedImages_def replayable_def downgrade_no_image intro: map_idI)

lemma transformBlocks_same:
  assumes "sameModel model a" "\<forall>b \<in> set bs. \<not> emptyThinking b"
  shows "transformBlocks model normalizer a ids bs = (ids, bs)"
  using assms(2)
proof (induction bs)
  case (Cons b bs)
  have "trim [] = []" by (simp add: trim_def)
  with Cons assms(1) show ?case
    by (cases b) (auto simp: transformThinking_def emptyThinking_def transformToolCall_def Let_def split: option.split)
qed simp

lemma transformPass_replayable:
  assumes "\<forall>m \<in> set ms. replayable model m"
  shows "transformPass model normalizer [] ms = ms"
  using assms
proof (induction ms)
  case (Cons m ms)
  then show ?case
    by (cases m) (auto simp: transformMessage_def replayable_def transformBlocks_same)
qed simp

lemma pushSynthetic_none: "tcId ` set tcs \<subseteq> existing \<Longrightarrow> foldl (pushSynthetic now existing) out tcs = out"
  by (induction tcs) (auto simp: pushSynthetic_def)

lemma insert_nothing:
  assumes "openInv st" "unansweredCalls (replayed st) = Some {}"
  shows "replayed (insertSyntheticToolResults now st) = replayed st"
  using assms by (auto simp: openInv_def insertSyntheticToolResults_def intro!: pushSynthetic_none)

lemma replayMessage_appends:
  assumes "openInv st" "openAfter (unansweredCalls (replayed st)) m \<noteq> None"
    "case m of AssistantMsg a \<Rightarrow> amStopReason a \<notin> {StopError, StopAborted} | _ \<Rightarrow> True"
  shows "replayed (replayMessage now st m) = replayed st @ [m]"
  using assms insert_nothing [OF assms(1), of now]
  by (cases m) (auto simp: replayMessage_def pushReplayed_def openAfter_def Let_def split: if_splits option.splits)

lemma openAfter_None [simp]: "foldl openAfter None ms = None"
  by (induction ms) (simp_all add: openAfter_def)

lemma replay_complete:
  assumes "foldl openAfter (unansweredCalls (replayed st)) ms = Some {}" "openInv st" "\<forall>m \<in> set ms. replayable model m"
  shows "replayed (foldl (replayMessage now) st ms) = replayed st @ ms
    \<and> openInv (foldl (replayMessage now) st ms)"
  using assms
proof (induction ms arbitrary: st)
  case (Cons m ms)
  have "openAfter (unansweredCalls (replayed st)) m \<noteq> None"
    using Cons.prems(1) by (metis foldl_Cons openAfter_None option.distinct(1))
  moreover have "case m of AssistantMsg a \<Rightarrow> amStopReason a \<notin> {StopError, StopAborted} | _ \<Rightarrow> True"
    using Cons.prems(3) by (cases m) (auto simp: replayable_def)
  ultimately have "replayed (replayMessage now st m) = replayed st @ [m]"
    using Cons.prems(2) by (intro replayMessage_appends)
  with Cons.IH [of "replayMessage now st m"] Cons.prems openInv_replay show ?case by auto
qed simp

text \<open>C30: A complete conversation of the target model itself is sent unchanged: when every
  call is answered, no assistant turn failed or was aborted, no thinking block is empty, and no image
  goes to a model without image input, the transformation is the identity.\<close>

theorem complete_conversation_unchanged:
  assumes "callsAnswered ms" "\<forall>m \<in> set ms. replayable model m"
  shows "transformMessages now ms model normalizer = ms"
proof -
  let ?init = "\<lparr> replayed = [], pendingToolCalls = [], existingToolResultIds = {} \<rparr>"
  define st where "st = foldl (replayMessage now) ?init ms"
  have "openInv ?init" by (simp add: openInv_def)
  then have "replayed st = ms \<and> openInv st"
    using replay_complete [of ?init ms model now] assms by (simp add: callsAnswered_def unansweredCalls_def st_def)
  then have "replayed (insertSyntheticToolResults now st) = ms"
    using insert_nothing [of st now] assms(1) by (simp add: callsAnswered_def)
  with assms(2) show ?thesis
    by (simp add: transformMessages_def replayPass_def downgrade_replayable transformPass_replayable st_def)
qed

definition sampleTarget :: targetModel where
  "sampleTarget = \<lparr> tmId = ''m'', tmProvider = ''p'', tmApi = ''a'', tmInput = [''text''] \<rparr>"

definition sampleCall :: toolCall where
  "sampleCall = \<lparr> tcId = ''c1'', tcName = ''read'', tcArguments = JNull, tcThoughtSignature = None \<rparr>"

definition sampleTurn :: "stop_reason \<Rightarrow> assistant_block list \<Rightarrow> agent_message" where
  "sampleTurn stop blocks = AssistantMsg \<lparr> amContent = blocks, amApi = ''a'', amProvider = ''p'', amModel = ''m'',
     amResponseModel = None, amResponseId = None, amDiagnostics = None, amUsage = None, amStopReason = stop,
     amErrorMessage = None, amTimestamp = Some 1 \<rparr>"

definition sampleAnswer :: agent_message where
  "sampleAnswer = ToolResultMsg \<lparr> trToolCallId = ''c1'', trToolName = ''read'', trContent = [TextContent ''ok'' None],
     trDetails = None, trIsError = False, trTimestamp = Some 2 \<rparr>"

definition sampleQuestion :: agent_message where
  "sampleQuestion = UserMsg \<lparr> umContent = ContentText ''hi'', umTimestamp = Some 0 \<rparr>"

lemmas sample_conversation = sampleTarget_def sampleCall_def sampleTurn_def sampleAnswer_def sampleQuestion_def

theorem complete_conversation_unchanged_witness:
  "transformMessages (\<lambda>n. Some 0) [sampleQuestion, sampleTurn StopToolUse [ToolCallBlock sampleCall], sampleAnswer]
     sampleTarget None = [sampleQuestion, sampleTurn StopToolUse [ToolCallBlock sampleCall], sampleAnswer]"
  by (rule complete_conversation_unchanged)
    (simp_all add: sample_conversation callsAnswered_def unansweredCalls_def openAfter_def replayedCalls_def replayable_def
      imageIn_def hasImage_def sameModel_def emptyThinking_def)

text \<open>An unanswered call gets its synthetic result before the next user message.\<close>

lemma unanswered_call_closed:
  "transformMessages (\<lambda>n. Some 7) [sampleTurn StopToolUse [ToolCallBlock sampleCall], sampleQuestion] sampleTarget None
    = [sampleTurn StopToolUse [ToolCallBlock sampleCall], syntheticResult (\<lambda>n. Some 7) 1 sampleCall, sampleQuestion]"
  by (simp add: sample_conversation transformMessages_def replayPass_def replayMessage_def downgradeUnsupportedImages_def
      downgradeMessage_def transformMessage_def transformToolCall_def sameModel_def Let_def replayedCalls_def
      insertSyntheticToolResults_def pushReplayed_def pushSynthetic_def)

text \<open>The turn of a failed assistant message is dropped, its tool results are not: such a result is sent
  without the call it answers.\<close>

lemma result_of_dropped_turn_kept:
  "transformMessages (\<lambda>n. Some 7) [sampleTurn StopAborted [ToolCallBlock sampleCall], sampleAnswer] sampleTarget None
    = [sampleAnswer]"
  by (simp add: sample_conversation transformMessages_def replayPass_def replayMessage_def downgradeUnsupportedImages_def
      downgradeMessage_def transformMessage_def transformToolCall_def sameModel_def Let_def replayedCalls_def
      insertSyntheticToolResults_def pushReplayed_def replaceImagesWithPlaceholder_def)

subsection \<open>No image for a model without image input\<close>

lemma imageIn_transformMessage: "imageIn (snd (transformMessage model normalizer ids m)) = imageIn m"
  by (cases m) (auto simp: transformMessage_def imageIn_def split: option.split prod.split)

lemma imageIn_transformPass:
  "\<forall>m \<in> set ms. \<not> imageIn m \<Longrightarrow> m \<in> set (transformPass model normalizer ids ms) \<Longrightarrow> \<not> imageIn m"
proof (induction ms arbitrary: ids)
  case (Cons x ms)
  then show ?case
    using imageIn_transformMessage [of model normalizer ids x]
    by (cases "transformMessage model normalizer ids x") auto
qed simp

lemma synthetic_no_image: "\<not> imageIn (syntheticResult now n tc)"
  by (simp add: syntheticResult_def imageIn_def hasImage_def)

lemma pushSynthetic_no_image:
  "\<forall>m \<in> set out. \<not> imageIn m \<Longrightarrow> \<forall>m \<in> set (foldl (pushSynthetic now existing) out tcs). \<not> imageIn m"
proof (induction tcs arbitrary: out)
  case (Cons tc tcs)
  then have "\<forall>m \<in> set (pushSynthetic now existing out tc). \<not> imageIn m"
    by (auto simp: pushSynthetic_def synthetic_no_image)
  from Cons.IH [OF this] show ?case by simp
qed simp

lemma replayMessage_no_image:
  "\<forall>x \<in> set (replayed st). \<not> imageIn x \<Longrightarrow> \<not> imageIn m \<Longrightarrow> \<forall>x \<in> set (replayed (replayMessage now st m)). \<not> imageIn x"
  using pushSynthetic_no_image [of "replayed st" now "existingToolResultIds st" "pendingToolCalls st"]
  by (cases m) (auto simp: replayMessage_def pushReplayed_def insertSyntheticToolResults_def Let_def)

lemma replayPass_no_image: "\<forall>m \<in> set ms. \<not> imageIn m \<Longrightarrow> \<forall>m \<in> set (replayPass now ms). \<not> imageIn m"
proof -
  assume ms: "\<forall>m \<in> set ms. \<not> imageIn m"
  have "\<forall>x \<in> set (replayed (foldl (replayMessage now)
      \<lparr> replayed = [], pendingToolCalls = [], existingToolResultIds = {} \<rparr> ms)). \<not> imageIn x"
    by (rule foldl_inv) (simp, rule replayMessage_no_image, auto simp: ms)
  then show ?thesis
    using pushSynthetic_no_image by (auto simp: replayPass_def insertSyntheticToolResults_def)
qed

text \<open>A model whose input does not include images is never sent one, in a user message or
  in a tool result.\<close>

theorem no_image_for_text_model:
  assumes "''image'' \<notin> set (tmInput model)" "m \<in> set (transformMessages now ms model normalizer)"
  shows "\<not> imageIn m"
proof -
  have "\<forall>m \<in> set (downgradeUnsupportedImages ms model). \<not> imageIn m"
    using assms(1) by (auto simp: downgradeUnsupportedImages_def downgrade_removes)
  then have "\<forall>m \<in> set (transformPass model normalizer [] (downgradeUnsupportedImages ms model)). \<not> imageIn m"
    using imageIn_transformPass by blast
  from replayPass_no_image [OF this] assms(2) show ?thesis by (auto simp: transformMessages_def)
qed

definition sampleImage :: agent_message where
  "sampleImage = UserMsg \<lparr> umContent = ContentParts [ImageContent ''d'' ''image/png'', ImageContent ''e'' ''image/png''],
     umTimestamp = Some 0 \<rparr>"

theorem no_image_for_text_model_witness:
  "\<not> imageIn (UserMsg \<lparr> umContent = ContentParts [TextContent NON_VISION_USER_IMAGE_PLACEHOLDER None], umTimestamp = Some 0 \<rparr>)"
  by (rule no_image_for_text_model [of sampleTarget _ "\<lambda>n. Some 0" "[sampleImage]" None])
    (simp_all add: sampleTarget_def sampleImage_def transformMessages_def replayPass_def replayMessage_def
      downgradeUnsupportedImages_def downgradeMessage_def replaceImagesWithPlaceholder_def transformMessage_def
      insertSyntheticToolResults_def pushReplayed_def)

end
