(* ===== verification/LayoutTree.thy ===== *)
theory LayoutTree
  imports Prelude Complex_Main "HOL-Library.Multiset"
begin

section \<open>The layout tree of a tab\<close>

text \<open>
  \<open>frontend/layout/lib/layoutNode.ts\<close> and \<open>layoutTree.ts\<close>: the tree of rows and columns whose leaves
  are the panes of a tab, and the operations the reducer of the layout model runs on it.  A node is
  the datatype \<open>layoutNode\<close>; the code mutates nodes in place, which is an update of the node with the
  given id here: the two agree on trees whose ids are distinct (\<open>crypto.randomUUID\<close>), which is what
  the theorems assume.  Ids drawn by an operation are its arguments \<open>u1 u2\<close>.  A thrown error leaves the state
  reached so far.  Console messages, the walk callbacks and the pixel layout are left out.

  Proved here: balancing accepts every valid tree, returns a valid tree and keeps the panes and their
  order; splitting puts the new pane next to its target.  \<open>LayoutMoves\<close> proves that moves and swaps keep
  the panes, \<open>LayoutDrops\<close> that every drop of a pane does.
\<close>

subsection \<open>Nodes\<close>

datatype flexDirection = Row | Column

datatype 'd layoutNode = LayoutNode
  (nodeId: string) (flexDir: flexDirection) (nodeSize: rat)
  (childNodes: "'d layoutNode list option") (nodeData: "'d option")

datatype layoutError = InvalidNodeError | InvalidInsertError | TypeErr

definition reverseFlexDirection :: "flexDirection \<Rightarrow> flexDirection" where
  "reverseFlexDirection f = (if f = Row then Column else Row)"

definition DefaultNodeSize :: rat where
  "DefaultNodeSize = 10"

definition setId :: "string \<Rightarrow> 'd layoutNode \<Rightarrow> 'd layoutNode" where
  "setId i n = LayoutNode i (flexDir n) (nodeSize n) (childNodes n) (nodeData n)"

definition setFlex :: "flexDirection \<Rightarrow> 'd layoutNode \<Rightarrow> 'd layoutNode" where
  "setFlex f n = LayoutNode (nodeId n) f (nodeSize n) (childNodes n) (nodeData n)"

definition setSize :: "rat \<Rightarrow> 'd layoutNode \<Rightarrow> 'd layoutNode" where
  "setSize s n = LayoutNode (nodeId n) (flexDir n) s (childNodes n) (nodeData n)"

definition setChildren :: "'d layoutNode list \<Rightarrow> 'd layoutNode \<Rightarrow> 'd layoutNode" where
  "setChildren cs n = LayoutNode (nodeId n) (flexDir n) (nodeSize n) (Some cs) (nodeData n)"

lemma set_simps [simp]:
  "nodeId (setId i n) = i" "flexDir (setId i n) = flexDir n" "childNodes (setId i n) = childNodes n" "nodeData (setId i n) = nodeData n"
  "nodeId (setFlex f n) = nodeId n" "flexDir (setFlex f n) = f" "childNodes (setFlex f n) = childNodes n" "nodeData (setFlex f n) = nodeData n"
  "nodeId (setSize s n) = nodeId n" "flexDir (setSize s n) = flexDir n" "childNodes (setSize s n) = childNodes n" "nodeData (setSize s n) = nodeData n"
  "nodeId (setChildren cs n) = nodeId n" "flexDir (setChildren cs n) = flexDir n" "childNodes (setChildren cs n) = Some cs" "nodeData (setChildren cs n) = nodeData n"
  by (simp_all add: setId_def setFlex_def setSize_def setChildren_def)

definition validateNode :: "'d layoutNode \<Rightarrow> bool" where
  "validateNode n \<longleftrightarrow> (childNodes n = None) \<noteq> (nodeData n = None) \<and> childNodes n \<noteq> Some []"

definition newLayoutNode ::
    "string \<Rightarrow> flexDirection option \<Rightarrow> rat option \<Rightarrow> 'd layoutNode list option \<Rightarrow> 'd option \<Rightarrow> layoutError + 'd layoutNode" where
  "newLayoutNode uuid f s cs d =
    (let n = LayoutNode uuid (case f of None \<Rightarrow> Row | Some f \<Rightarrow> f) (case s of None \<Rightarrow> DefaultNodeSize | Some s \<Rightarrow> s) cs d
     in if validateNode n then Inr n else Inl InvalidNodeError)"

definition addIntermediateNode :: "string \<Rightarrow> string \<Rightarrow> 'd layoutNode \<Rightarrow> layoutError + 'd layoutNode" where
  "addIntermediateNode u1 u2 n =
    (if nodeData n \<noteq> None then
       andThen (newLayoutNode u1 (Some (reverseFlexDirection (flexDir n))) None None (nodeData n)) (\<lambda>intermediate.
         Inr (LayoutNode (nodeId intermediate) (flexDir n) (nodeSize n) (Some [setId (nodeId n) intermediate]) None))
     else
       andThen (newLayoutNode u1 (Some (flexDir n)) None (childNodes n) None) (\<lambda>inner.
       andThen (newLayoutNode u2 (Some (reverseFlexDirection (flexDir n))) None (Some [inner]) None) (\<lambda>intermediate.
         Inr (LayoutNode (nodeId intermediate) (flexDir n) (nodeSize n) (Some [setId (nodeId n) intermediate]) (nodeData n)))))"

definition childrenToAdd :: "flexDirection \<Rightarrow> 'd layoutNode list \<Rightarrow> 'd layoutNode list" where
  "childrenToAdd f ns = concat (map (\<lambda>v.
     if flexDir v \<noteq> f then [v]
     else (case childNodes v of Some cs \<Rightarrow> cs | None \<Rightarrow> [setFlex (reverseFlexDirection f) v])) ns)"

definition spliceIn :: "int \<Rightarrow> 'a list \<Rightarrow> 'a list \<Rightarrow> 'a list" where
  "spliceIn idx new xs =
    (if int (length xs) \<le> idx then xs @ new
     else if 0 \<le> idx then take (nat idx) xs @ new @ drop (nat idx) xs
     else xs)"

definition addChildAt :: "string \<Rightarrow> string \<Rightarrow> 'd layoutNode \<Rightarrow> int \<Rightarrow> 'd layoutNode list \<Rightarrow> layoutError + 'd layoutNode" where
  "addChildAt u1 u2 n idx ns =
    (if ns = [] then Inr n
     else andThen (if childNodes n = None then addIntermediateNode u1 u2 n else Inr n) (\<lambda>n.
       case childNodes n of
         None \<Rightarrow> Inl TypeErr
       | Some cs \<Rightarrow> Inr (setChildren (spliceIn idx (childrenToAdd (flexDir n) ns) cs) n)))"

definition removeFirstFrom :: "nat \<Rightarrow> string \<Rightarrow> 'd layoutNode list \<Rightarrow> 'd layoutNode list" where
  "removeFirstFrom start i cs =
    (case findIndex (\<lambda>c. nodeId c = i) (drop start cs) of
       None \<Rightarrow> cs
     | Some k \<Rightarrow> take (start + k) cs @ drop (Suc (start + k)) cs)"

definition removeChild :: "string \<Rightarrow> nat \<Rightarrow> 'd layoutNode \<Rightarrow> 'd layoutNode" where
  "removeChild i start parent =
    (case childNodes parent of None \<Rightarrow> parent | Some cs \<Rightarrow> setChildren (removeFirstFrom start i cs) parent)"

primrec firstSome :: "'a option list \<Rightarrow> 'a option" where
  "firstSome [] = None"
| "firstSome (x # xs) = (case x of Some r \<Rightarrow> Some r | None \<Rightarrow> firstSome xs)"

fun findNode :: "string \<Rightarrow> 'd layoutNode \<Rightarrow> 'd layoutNode option" where
  "findNode k (LayoutNode i f s None d) = (if i = k then Some (LayoutNode i f s None d) else None)"
| "findNode k (LayoutNode i f s (Some cs) d) =
    (if i = k then Some (LayoutNode i f s (Some cs) d) else firstSome (map (findNode k) cs))"

fun findParent :: "string \<Rightarrow> 'd layoutNode \<Rightarrow> 'd layoutNode option" where
  "findParent k (LayoutNode i f s None d) = None"
| "findParent k (LayoutNode i f s (Some cs) d) =
    (if i = k then None
     else firstSome (map (\<lambda>c. if nodeId c = k then Some (LayoutNode i f s (Some cs) d) else findParent k c) cs))"

text \<open>Mutating the node with a given id in place.\<close>

fun updateNode :: "string \<Rightarrow> ('d layoutNode \<Rightarrow> 'd layoutNode) \<Rightarrow> 'd layoutNode \<Rightarrow> 'd layoutNode" where
  "updateNode k g (LayoutNode i f s None d) =
    (if i = k then g (LayoutNode i f s None d) else LayoutNode i f s None d)"
| "updateNode k g (LayoutNode i f s (Some cs) d) =
    (if i = k then g (LayoutNode i f s (Some cs) d)
     else LayoutNode i f s (Some (map (updateNode k g) cs)) d)"

subsection \<open>Balancing\<close>

definition hoist :: "flexDirection \<Rightarrow> 'd layoutNode \<Rightarrow> 'd layoutNode list" where
  "hoist f c =
    (let c = (if flexDir c = f then setFlex (reverseFlexDirection f) c else c)
     in case childNodes c of
          Some [g] \<Rightarrow> (case childNodes g of Some gs \<Rightarrow> gs | None \<Rightarrow> [c])
        | Some [] \<Rightarrow> []
        | _ \<Rightarrow> [c])"

definition collapse :: "'d layoutNode \<Rightarrow> 'd layoutNode list \<Rightarrow> 'd layoutNode" where
  "collapse n ks = (case ks of
     [k] \<Rightarrow> (if childNodes k = None then LayoutNode (nodeId k) (flexDir n) (nodeSize n) None (nodeData k) else setChildren ks n)
   | _ \<Rightarrow> setChildren ks n)"

lemma mapE_cong [fundef_cong]:
  "xs = ys \<Longrightarrow> (\<And>x. x \<in> set ys \<Longrightarrow> f x = g x) \<Longrightarrow> mapE f xs = mapE g ys"
  by (induction ys arbitrary: xs) auto

lemma size_child: "childNodes n = Some cs \<Longrightarrow> c \<in> set cs \<Longrightarrow> size c < size n"
proof -
  assume "childNodes n = Some cs" "c \<in> set cs"
  moreover from this have "size c \<le> size_list size cs" by (simp add: size_list_estimation')
  ultimately show ?thesis by (cases n) simp
qed

lemma size_setFlex [simp]: "size (setFlex f n) = size n"
  by (cases n) (simp add: setFlex_def)

lemma hoist_cases:
  assumes "k \<in> set (hoist f c)"
  obtains (same) "k = c" | (turned) "k = setFlex (reverseFlexDirection f) c"
    | (hoisted) g gs where "childNodes c = Some [g]" "childNodes g = Some gs" "k \<in> set gs"
proof (cases "\<exists>g gs. childNodes c = Some [g] \<and> childNodes g = Some gs")
  case True
  with assms hoisted show thesis by (auto simp: hoist_def Let_def split: if_splits)
next
  case False
  with assms same turned show thesis
    by (auto simp: hoist_def Let_def split: if_splits option.splits list.splits)
qed

lemma size_hoist: "k \<in> set (hoist f c) \<Longrightarrow> size k \<le> size c"
  by (elim hoist_cases) (auto dest!: size_child)

function balanceNode :: "'d layoutNode \<Rightarrow> layoutError + 'd layoutNode" where
  "balanceNode n =
    (if \<not> validateNode n then Inl InvalidNodeError
     else (case childNodes n of
         None \<Rightarrow> Inr n
       | Some cs \<Rightarrow> andThen (mapE balanceNode (concat (map (hoist (flexDir n)) cs))) (\<lambda>ks. Inr (collapse n ks))))"
  by pat_completeness auto

termination
proof (relation "measure size")
  fix n :: "'d layoutNode" and cs k
  assume "childNodes n = Some cs" "k \<in> set (concat (map (hoist (flexDir n)) cs))"
  then obtain c where "c \<in> set cs" "k \<in> set (hoist (flexDir n) c)" by auto
  then show "(k, n) \<in> measure size"
    using size_hoist [of k "flexDir n" c] size_child [OF \<open>childNodes n = Some cs\<close>] by fastforce
qed simp

declare balanceNode.simps [simp del]

subsection \<open>Panes, ids and validity\<close>

fun leaves :: "'d layoutNode \<Rightarrow> (string \<times> 'd option) list" where
  "leaves (LayoutNode i f s None d) = [(i, d)]"
| "leaves (LayoutNode i f s (Some cs) d) = concat (map leaves cs)"

fun nodeIds :: "'d layoutNode \<Rightarrow> string list" where
  "nodeIds (LayoutNode i f s None d) = [i]"
| "nodeIds (LayoutNode i f s (Some cs) d) = i # concat (map nodeIds cs)"

fun allValid :: "'d layoutNode \<Rightarrow> bool" where
  "allValid (LayoutNode i f s None d) \<longleftrightarrow> validateNode (LayoutNode i f s None d)"
| "allValid (LayoutNode i f s (Some cs) d) \<longleftrightarrow>
    validateNode (LayoutNode i f s (Some cs) d) \<and> list_all allValid cs"

lemma layout_induct [case_names leaf group]:
  assumes "\<And>i f s d. P (LayoutNode i f s None d)"
    "\<And>i f s cs d. (\<And>c. c \<in> set cs \<Longrightarrow> P c) \<Longrightarrow> P (LayoutNode i f s (Some cs) d)"
  shows "P n"
proof (induction n)
  case (LayoutNode i f s cs d)
  then show ?case using assms by (cases cs) auto
qed

lemma leaves_eq: "leaves n = (case childNodes n of None \<Rightarrow> [(nodeId n, nodeData n)] | Some cs \<Rightarrow> concat (map leaves cs))"
  by (cases n rule: leaves.cases) auto

lemma nodeIds_eq: "nodeIds n = nodeId n # (case childNodes n of None \<Rightarrow> [] | Some cs \<Rightarrow> concat (map nodeIds cs))"
  by (cases n rule: nodeIds.cases) auto

lemma allValid_eq: "allValid n \<longleftrightarrow> validateNode n \<and> (case childNodes n of None \<Rightarrow> True | Some cs \<Rightarrow> list_all allValid cs)"
  by (cases n rule: allValid.cases) auto

lemma leaves_setters [simp]:
  "leaves (setFlex f n) = leaves n" "leaves (setSize s n) = leaves n"
  "leaves (setChildren cs n) = concat (map leaves cs)"
  by (simp_all add: leaves_eq split: option.split)

lemma nodeIds_setters [simp]:
  "nodeIds (setFlex f n) = nodeIds n" "nodeIds (setSize s n) = nodeIds n"
  "nodeIds (setChildren cs n) = nodeId n # concat (map nodeIds cs)"
  by (simp_all add: nodeIds_eq)

lemma allValid_setters [simp]:
  "allValid (setFlex f n) \<longleftrightarrow> allValid n" "allValid (setSize s n) \<longleftrightarrow> allValid n"
  "allValid (setChildren cs n) \<longleftrightarrow> nodeData n = None \<and> cs \<noteq> [] \<and> list_all allValid cs"
  by (auto simp: allValid_eq validateNode_def)

lemma allValid_children: "allValid n \<Longrightarrow> childNodes n = Some cs \<Longrightarrow> nodeData n = None \<and> cs \<noteq> [] \<and> list_all allValid cs"
  by (auto simp: allValid_eq validateNode_def)

lemma leaves_nonempty: "allValid n \<Longrightarrow> leaves n \<noteq> []"
proof (induction n rule: layout_induct)
  case (group i f s cs d)
  from allValid_children [OF group.prems] obtain c cs' where "cs = c # cs'" "allValid c"
    by (cases cs) auto
  with group.IH show ?case by auto
qed simp

subsection \<open>Balancing keeps the panes\<close>

lemma hoist_valid:
  assumes "allValid c"
  shows "concat (map leaves (hoist f c)) = leaves c" "list_all allValid (hoist f c)" "hoist f c \<noteq> []"
proof -
  have "concat (map leaves (hoist f c)) = leaves c \<and> list_all allValid (hoist f c) \<and> hoist f c \<noteq> []"
    using assms allValid_children [OF assms]
    by (auto simp: hoist_def Let_def leaves_eq [of c] split: option.split list.split if_splits
        dest: allValid_children) (simp_all add: leaves_eq)
  then show "concat (map leaves (hoist f c)) = leaves c" "list_all allValid (hoist f c)" "hoist f c \<noteq> []"
    by simp_all
qed

lemma hoist_kids:
  assumes "list_all allValid cs"
  shows "concat (map leaves (concat (map (hoist f) cs))) = concat (map leaves cs)
    \<and> list_all allValid (concat (map (hoist f) cs)) \<and> (cs \<noteq> [] \<longrightarrow> concat (map (hoist f) cs) \<noteq> [])"
  using assms by (induction cs) (auto simp: hoist_valid)

lemma mapE_all2:
  "(\<And>x. x \<in> set xs \<Longrightarrow> \<exists>y. f x = Inr y \<and> P x y) \<Longrightarrow> \<exists>ys. mapE f xs = Inr ys \<and> list_all2 P xs ys"
proof (induction xs)
  case (Cons x xs)
  then obtain y ys where "f x = Inr y" "P x y" "mapE f xs = Inr ys" "list_all2 P xs ys" by force
  then show ?case by auto
qed simp

lemma collapse_valid:
  assumes "list_all allValid ks" "ks \<noteq> []" "nodeData n = None"
  shows "allValid (collapse n ks) \<and> leaves (collapse n ks) = concat (map leaves ks)"
  using assms
  by (auto simp: collapse_def leaves_eq allValid_eq validateNode_def split: list.split)

lemma balanced_kids:
  assumes "list_all2 (\<lambda>k m. allValid m \<and> leaves m = leaves k) ks ms"
  shows "list_all allValid ms \<and> concat (map leaves ms) = concat (map leaves ks) \<and> (ms = [] \<longleftrightarrow> ks = [])"
  using assms by (induction rule: list_all2_induct) auto

lemma balanceNode_valid:
  "allValid n \<Longrightarrow> \<exists>m. balanceNode n = Inr m \<and> allValid m \<and> leaves m = leaves n"
proof (induction n rule: balanceNode.induct)
  case (1 n)
  then have valid: "validateNode n" by (simp add: allValid_eq)
  show ?case
  proof (cases "childNodes n")
    case None
    with valid "1.prems" show ?thesis by (subst balanceNode.simps) simp
  next
    case (Some cs)
    let ?kids = "concat (map (hoist (flexDir n)) cs)"
    note cs = allValid_children [OF "1.prems" Some]
    have kids: "concat (map leaves ?kids) = concat (map leaves cs)" "list_all allValid ?kids" "?kids \<noteq> []"
      using cs hoist_kids [of cs "flexDir n"] by simp_all
    have "\<exists>m. balanceNode k = Inr m \<and> allValid m \<and> leaves m = leaves k" if "k \<in> set ?kids" for k
      using "1.IH" [OF _ Some that] valid kids(2) that by (auto simp: list_all_iff)
    from mapE_all2 [of ?kids balanceNode "\<lambda>k m. allValid m \<and> leaves m = leaves k", OF this]
    obtain ms where ms: "mapE balanceNode ?kids = Inr ms" "list_all2 (\<lambda>k m. allValid m \<and> leaves m = leaves k) ?kids ms"
      by auto
    from ms(2) have "list_all allValid ms" "concat (map leaves ms) = concat (map leaves ?kids)" "ms \<noteq> []"
      using kids(3) balanced_kids [OF ms(2)] by auto
    with collapse_valid [of ms n] cs kids(1) ms(1) valid Some show ?thesis
      by (subst balanceNode.simps) (simp add: leaves_eq [of n])
  qed
qed

text \<open>C38: Balancing accepts every tree whose nodes are valid (panes or non-empty groups, never
  both), never throws on it, and returns such a tree again with the same panes in the same order:
  merging single-child groups and turning directions never loses or reorders a pane.\<close>

theorem balance_keeps_panes:
  assumes "allValid n"
  shows "\<exists>m. balanceNode n = Inr m \<and> allValid m \<and> leaves m = leaves n"
  using assms by (rule balanceNode_valid)

definition samplePane :: "string \<Rightarrow> string layoutNode" where
  "samplePane k = LayoutNode k Column 10 None (Some k)"

definition sampleRow :: "string layoutNode" where
  "sampleRow = LayoutNode ''r'' Row 10 (Some [samplePane ''a'', samplePane ''b'']) None"

theorem balance_keeps_panes_witness:
  "\<exists>m. balanceNode sampleRow = Inr m \<and> allValid m \<and> leaves m = leaves sampleRow"
  by (rule balance_keeps_panes) (simp add: sampleRow_def samplePane_def validateNode_def)

subsection \<open>The tree state and its operations\<close>

record 'd layoutTreeState =
  rootNode :: "'d layoutNode option"
  focusedNodeId :: "string option"
  magnifiedNodeId :: "string option"
  leafOrder :: "(string \<times> string) list option"

type_synonym 'd layoutAction = "('d layoutTreeState, layoutError, unit) action"

datatype position = Before | After

definition finish :: "'d layoutAction" where
  "finish s = (Inr (), s)"

definition focusIf :: "bool \<Rightarrow> string \<Rightarrow> 'd layoutTreeState \<Rightarrow> 'd layoutTreeState" where
  "focusIf focused i s = (if focused then s \<lparr> focusedNodeId := Some i \<rparr> else s)"

definition childIndex :: "string \<Rightarrow> 'd layoutNode \<Rightarrow> nat option" where
  "childIndex k p = (case childNodes p of None \<Rightarrow> None | Some cs \<Rightarrow> findIndex (\<lambda>c. nodeId c = k) cs)"

definition kidsOf :: "'d layoutNode \<Rightarrow> 'd layoutNode list" where
  "kidsOf p = (case childNodes p of None \<Rightarrow> [] | Some cs \<Rightarrow> cs)"

definition deleteNode :: "string \<Rightarrow> 'd layoutAction" where
  "deleteNode i s =
    (if i = [] then finish s
     else (case rootNode s of
         None \<Rightarrow> finish s
       | Some tree \<Rightarrow>
           (if nodeId tree = i then finish (s \<lparr> rootNode := None \<rparr>)
            else (case findParent i tree of
                None \<Rightarrow> finish s
              | Some parent \<Rightarrow>
                  finish (s \<lparr> rootNode := Some (updateNode (nodeId parent) (removeChild i 0) tree),
                         focusedNodeId := (if focusedNodeId s = Some i then None else focusedNodeId s) \<rparr>)))))"

definition focusNode :: "string \<Rightarrow> 'd layoutAction" where
  "focusNode i s = (if i = [] then finish s else finish (s \<lparr> focusedNodeId := Some i \<rparr>))"

definition magnifyNodeToggle :: "string \<Rightarrow> 'd layoutAction" where
  "magnifyNodeToggle i s =
    (if i = [] then finish s
     else (case rootNode s of
         None \<Rightarrow> (Inl TypeErr, s)
       | Some tree \<Rightarrow>
           (if nodeId tree = i then finish s
            else if magnifiedNodeId s = Some i then finish (s \<lparr> magnifiedNodeId := None \<rparr>)
            else finish (s \<lparr> magnifiedNodeId := Some i, focusedNodeId := Some i \<rparr>))))"

definition clearTree :: "'d layoutAction" where
  "clearTree s = finish (s \<lparr> rootNode := None, leafOrder := None, focusedNodeId := None, magnifiedNodeId := None \<rparr>)"

primrec resizeNode :: "(string \<times> rat) list \<Rightarrow> 'd layoutAction" where
  "resizeNode [] s = finish s"
| "resizeNode (r # rs) s =
    (if fst r = [] \<or> snd r < 0 \<or> 100 < snd r then finish s
     else (case rootNode s of
         None \<Rightarrow> (Inl TypeErr, s)
       | Some tree \<Rightarrow>
           (if findNode (fst r) tree = None then (Inl TypeErr, s)
            else resizeNode rs (s \<lparr> rootNode := Some (updateNode (fst r) (setSize (snd r)) tree) \<rparr>))))"

definition replaceNode :: "string \<Rightarrow> 'd layoutNode \<Rightarrow> bool \<Rightarrow> 'd layoutAction" where
  "replaceNode target new focused s =
    (case rootNode s of
       None \<Rightarrow> (Inl TypeErr, s)
     | Some tree \<Rightarrow>
         (if nodeId tree = target then
            finish (focusIf focused (nodeId new) (s \<lparr> rootNode := Some (setSize (nodeSize tree) new) \<rparr>))
          else (case findParent target tree of
              None \<Rightarrow> finish s
            | Some parent \<Rightarrow>
                (case childIndex target parent of
                   None \<Rightarrow> finish s
                 | Some i \<Rightarrow>
                     (let new = setSize (nodeSize (kidsOf parent ! i)) new
                      in finish (focusIf focused (nodeId new)
                           (s \<lparr> rootNode := Some (updateNode (nodeId parent) (setChildren ((kidsOf parent)[i := new])) tree) \<rparr>)))))))"

definition splitNode :: "flexDirection \<Rightarrow> string \<Rightarrow> string \<Rightarrow> 'd layoutNode \<Rightarrow> position \<Rightarrow> bool \<Rightarrow> 'd layoutAction" where
  "splitNode f u1 target new pos focused s =
    (case (case rootNode s of None \<Rightarrow> None | Some tree \<Rightarrow> findNode target tree) of
       None \<Rightarrow> finish s
     | Some targetNode \<Rightarrow>
         (let tree = the (rootNode s)
          in case findParent target tree of
               Some parent \<Rightarrow>
                 (case childIndex target parent of
                    None \<Rightarrow> finish s
                  | Some i \<Rightarrow>
                      (if flexDir parent = f then
                         (let insertIndex = (if pos = Before then i else i + 1);
                              kids = take insertIndex (kidsOf parent) @ [new] @ drop insertIndex (kidsOf parent)
                          in finish (focusIf focused (nodeId new)
                               (s \<lparr> rootNode := Some (updateNode (nodeId parent) (setChildren kids) tree) \<rparr>)))
                       else
                         (case newLayoutNode u1 (Some f) (Some (nodeSize targetNode)) (Some [targetNode]) None of
                            Inl e \<Rightarrow> (Inl e, s)
                          | Inr groupNode \<Rightarrow>
                              (let groupNode = setChildren (if pos = Before then [new, targetNode] else [targetNode, new]) groupNode
                               in finish (focusIf focused (nodeId new)
                                    (s \<lparr> rootNode := Some (updateNode (nodeId parent) (setChildren ((kidsOf parent)[i := groupNode])) tree) \<rparr>))))))
             | None \<Rightarrow>
                 (case newLayoutNode u1 (Some f) (Some (nodeSize targetNode)) (Some [targetNode]) None of
                    Inl e \<Rightarrow> (Inl e, s)
                  | Inr groupNode \<Rightarrow>
                      (let groupNode = setChildren (if pos = Before then [new, targetNode] else [targetNode, new]) groupNode
                       in finish (focusIf focused (nodeId new) (s \<lparr> rootNode := Some groupNode \<rparr>))))))"

definition splitHorizontal :: "string \<Rightarrow> string \<Rightarrow> 'd layoutNode \<Rightarrow> position \<Rightarrow> bool \<Rightarrow> 'd layoutAction" where
  "splitHorizontal = splitNode Row"

definition splitVertical :: "string \<Rightarrow> string \<Rightarrow> 'd layoutNode \<Rightarrow> position \<Rightarrow> bool \<Rightarrow> 'd layoutAction" where
  "splitVertical = splitNode Column"

definition swapNode :: "string \<Rightarrow> string \<Rightarrow> 'd layoutAction" where
  "swapNode id1 id2 s =
    (if id1 = [] \<or> id2 = [] then finish s
     else (case rootNode s of
         None \<Rightarrow> (Inl TypeErr, s)
       | Some tree \<Rightarrow>
           (if id1 = nodeId tree \<or> id2 = nodeId tree \<or> id1 = id2 then finish s
            else (case (findParent id1 tree, findParent id2 tree) of
                (Some p1, Some p2) \<Rightarrow>
                  (case (childIndex id1 p1, childIndex id2 p2) of
                     (Some i1, Some i2) \<Rightarrow>
                       (let n1 = kidsOf p1 ! i1; n2 = kidsOf p2 ! i2;
                            n1' = setSize (nodeSize n2) n1; n2' = setSize (nodeSize n1) n2;
                            put = (\<lambda>i n p. setChildren ((kidsOf p)[i := n]) p)
                        in finish (s \<lparr> rootNode :=
                             Some (updateNode (nodeId p2) (put i2 n1') (updateNode (nodeId p1) (put i1 n2') tree)) \<rparr>))
                   | _ \<Rightarrow> (Inl TypeErr, s))
              | _ \<Rightarrow> (Inl TypeErr, s)))))"

subsection \<open>Inserting\<close>

definition DEFAULT_MAX_CHILDREN :: nat where
  "DEFAULT_MAX_CHILDREN = 5"

text \<open>An insert location: the node's id, the index and the depth.\<close>

type_synonym insertLoc = "string \<times> nat \<times> nat"

definition locWeight :: "nat \<Rightarrow> insertLoc \<Rightarrow> nat" where
  "locWeight maxChildren l = (case l of (i, index, depth) \<Rightarrow> depth ^ (index + maxChildren))"

fun findNextInsertLocationHelper :: "nat \<Rightarrow> nat \<Rightarrow> 'd layoutNode \<Rightarrow> insertLoc option" where
  "findNextInsertLocationHelper maxChildren curDepth (LayoutNode i f s None d) = Some (i, 1, curDepth)"
| "findNextInsertLocationHelper maxChildren curDepth (LayoutNode i f s (Some cs) d) =
    (let insertLocs = (if length cs < maxChildren then [(i, length cs, curDepth)] else [])
           @ List.map_filter id (rev (map (findNextInsertLocationHelper maxChildren (curDepth + 1)) cs))
     in case sort_key (locWeight maxChildren) insertLocs of [] \<Rightarrow> None | l # ls \<Rightarrow> Some l)"

definition normalizeIndex :: "'d layoutNode \<Rightarrow> int \<Rightarrow> int" where
  "normalizeIndex n index =
    (let childrenLength = (case childNodes n of None \<Rightarrow> 1 | Some cs \<Rightarrow> int (length cs))
     in if index < 0 then childrenLength - max index (- childrenLength) else min index (childrenLength - 1))"

text \<open>A negative index is meant to count from the end; the subtraction goes past the last child.\<close>

lemma negative_index_overshoots:
  "childNodes n = Some cs \<Longrightarrow> cs \<noteq> [] \<Longrightarrow> normalizeIndex n (- 1) = int (length cs) + 1"
  by (cases cs) (auto simp: normalizeIndex_def Let_def max_def)

fun findInsertLocationFromIndexArr :: "'d layoutNode \<Rightarrow> int list \<Rightarrow> layoutError + (string \<times> int) option" where
  "findInsertLocationFromIndexArr n [] = Inr None"
| "findInsertLocationFromIndexArr n (k # ks) =
    (let nextIndex = normalizeIndex n k
     in case childNodes n of
          None \<Rightarrow> Inr (Some (nodeId n, nextIndex))
        | Some cs \<Rightarrow>
            (if ks = [] then Inr (Some (nodeId n, nextIndex))
             else if 0 \<le> nextIndex \<and> nextIndex < int (length cs) then findInsertLocationFromIndexArr (cs ! nat nextIndex) ks
             else Inl TypeErr))"

definition updateE :: "string \<Rightarrow> ('d layoutNode \<Rightarrow> layoutError + 'd layoutNode) \<Rightarrow> 'd layoutNode \<Rightarrow> layoutError + 'd layoutNode" where
  "updateE k g tree = (case findNode k tree of
     None \<Rightarrow> Inl TypeErr
   | Some n \<Rightarrow> andThen (g n) (\<lambda>n'. Inr (updateNode k (\<lambda>_. n') tree)))"

definition focusInserted :: "bool \<Rightarrow> bool \<Rightarrow> string \<Rightarrow> 'd layoutTreeState \<Rightarrow> 'd layoutTreeState" where
  "focusInserted magnified focused i s =
    focusIf focused i (if magnified then s \<lparr> magnifiedNodeId := Some i, focusedNodeId := Some i \<rparr> else s)"

definition insertNode :: "string \<Rightarrow> string \<Rightarrow> 'd layoutNode \<Rightarrow> bool \<Rightarrow> bool \<Rightarrow> 'd layoutAction" where
  "insertNode u1 u2 new magnified focused s =
    (case rootNode s of
       None \<Rightarrow> finish (focusIf focused (nodeId new) (s \<lparr> rootNode := Some new \<rparr>))
     | Some tree \<Rightarrow>
         (case findNextInsertLocationHelper DEFAULT_MAX_CHILDREN 1 tree of
            None \<Rightarrow> (Inl TypeErr, s)
          | Some (i, index, depth) \<Rightarrow>
              (case updateE i (\<lambda>n. addChildAt u1 u2 n (int index) [new]) tree of
                 Inl e \<Rightarrow> (Inl e, s)
               | Inr tree' \<Rightarrow>
                   finish (focusInserted magnified focused (nodeId new) (s \<lparr> rootNode := Some tree' \<rparr>)))))"

definition insertNodeAtIndex :: "string \<Rightarrow> string \<Rightarrow> 'd layoutNode \<Rightarrow> int list \<Rightarrow> bool \<Rightarrow> bool \<Rightarrow> 'd layoutAction" where
  "insertNodeAtIndex u1 u2 new indexArr magnified focused s =
    (case rootNode s of
       None \<Rightarrow> finish (focusIf focused (nodeId new) (s \<lparr> rootNode := Some new \<rparr>))
     | Some tree \<Rightarrow>
         (case findInsertLocationFromIndexArr tree indexArr of
            Inl e \<Rightarrow> (Inl e, s)
          | Inr None \<Rightarrow> finish s
          | Inr (Some (i, index)) \<Rightarrow>
              (case updateE i (\<lambda>n. addChildAt u1 u2 n (index + 1) [new]) tree of
                 Inl e \<Rightarrow> (Inl e, s)
               | Inr tree' \<Rightarrow>
                   finish (focusInserted magnified focused (nodeId new) (s \<lparr> rootNode := Some tree' \<rparr>)))))"

subsection \<open>Moving\<close>

record 'd moveOperation =
  moveIndex :: int
  moveParentId :: "string option"
  insertAtRoot :: bool
  moveTarget :: "'d layoutNode"

text \<open>
  The moved node is placed at its new position and removed from its old one; in between the same
  object is a child of both, so what \<open>addChildAt\<close> changes in it (a pane is turned to cross its new
  parent's direction) and the reset size show at both places.  The code would build a cycle when a
  node is moved below itself; the theorems exclude that.  Where both parents are one node, the search for the old position
  starts behind the new one when that comes first.
\<close>

text \<open>What the move changes in the node itself: the size is reset unless it is kept, and a pane is
  turned to cross the direction of the node it is placed under.\<close>

definition movedNode :: "bool \<Rightarrow> 'd layoutNode \<Rightarrow> 'd layoutNode \<Rightarrow> 'd layoutNode" where
  "movedNode keepSize target n =
    (let n = (if keepSize then n else setSize DefaultNodeSize n)
     in if childNodes n = None \<and> flexDir n = flexDir target then setFlex (reverseFlexDirection (flexDir target)) n else n)"

definition moveNode :: "string \<Rightarrow> string \<Rightarrow> 'd moveOperation \<Rightarrow> 'd layoutAction" where
  "moveNode u1 u2 op s =
    (case rootNode s of
       None \<Rightarrow> (Inl TypeErr, s)
     | Some tree \<Rightarrow>
         (if moveParentId op \<noteq> None \<and> moveParentId op \<noteq> Some [] \<and> insertAtRoot op then finish s
          else
            (let i = nodeId (moveTarget op);
                 node = (case findNode i tree of Some n \<Rightarrow> n | None \<Rightarrow> moveTarget op);
                 parent = (case moveParentId op of None \<Rightarrow> None | Some p \<Rightarrow> findNode p tree);
                 oldParent = findParent i tree;
                 sameParent = (case (oldParent, parent) of (Some a, Some b) \<Rightarrow> nodeId a = nodeId b | _ \<Rightarrow> False);
                 keepSize = (oldParent = None \<or> parent = None \<or> sameParent);
                 startingIndex = (case parent of
                     Some b \<Rightarrow> (if sameParent \<and> moveIndex op \<le> (case childIndex i b of None \<Rightarrow> - 1 | Some k \<Rightarrow> int k)
                        then moveIndex op + 1 else 0)
                   | None \<Rightarrow> 0);
                 resized = updateNode i (\<lambda>_. if keepSize then node else setSize DefaultNodeSize node) tree;
                 node = movedNode keepSize (case parent of Some b \<Rightarrow> b | None \<Rightarrow> tree) node;
                 tree = updateNode i (\<lambda>_. node) tree;
                 place = (\<lambda>n. addChildAt u1 u2 n (moveIndex op) [node]);
                 placed = (case parent of
                     Some b \<Rightarrow> updateE (nodeId b) place tree
                   | None \<Rightarrow> if insertAtRoot op then place tree else Inl InvalidInsertError)
             in case placed of
                  Inl e \<Rightarrow> (Inl e, s \<lparr> rootNode := Some resized \<rparr>)
                | Inr tree' \<Rightarrow>
                    finish (s \<lparr> rootNode := Some (case oldParent of
                        None \<Rightarrow> tree'
                      | Some a \<Rightarrow> updateNode (nodeId a) (removeChild i (nat startingIndex)) tree') \<rparr>))))"

subsection \<open>Looking up and updating one node\<close>

lemma findNode_eq: "findNode k n = (if nodeId n = k then Some n else (case childNodes n of None \<Rightarrow> None | Some cs \<Rightarrow> firstSome (map (findNode k) cs)))"
  by (cases "(k, n)" rule: findNode.cases) auto

lemma updateNode_eq: "updateNode k g n = (if nodeId n = k then g n else (case childNodes n of None \<Rightarrow> n
    | Some cs \<Rightarrow> setChildren (map (updateNode k g) cs) n))"
  by (cases "(k, g, n)" rule: updateNode.cases) (auto simp: setChildren_def)

lemma nodeId_in_ids [simp]: "nodeId n \<in> set (nodeIds n)"
  by (simp add: nodeIds_eq [of n])

lemma firstSome_None [simp]: "firstSome xs = None \<longleftrightarrow> (\<forall>x \<in> set xs. x = None)"
  by (induction xs) (auto split: option.split)

lemma firstSome_map_None: "firstSome (map f cs) = None \<longleftrightarrow> (\<forall>c \<in> set cs. f c = None)"
  by simp

lemma firstSome_map_Some:
  "firstSome (map f cs) = Some r \<Longrightarrow> \<exists>as c bs. cs = as @ c # bs \<and> f c = Some r \<and> (\<forall>a \<in> set as. f a = None)"
proof (induction cs)
  case (Cons c cs)
  show ?case
  proof (cases "f c")
    case None
    with Cons obtain as c' bs where "cs = as @ c' # bs" "f c' = Some r" "\<forall>a \<in> set as. f a = None" by auto
    with None show ?thesis by (intro exI [of _ "c # as"] exI [of _ c'] exI [of _ bs]) simp
  next
    case (Some r')
    with Cons.prems show ?thesis by (intro exI [of _ "[]"] exI [of _ c] exI [of _ cs]) simp
  qed
qed simp

lemma findNode_None: "findNode k n = None \<longleftrightarrow> k \<notin> set (nodeIds n)"
  by (induction n rule: layout_induct) auto

lemma updateNode_absent: "k \<notin> set (nodeIds n) \<Longrightarrow> updateNode k g n = n"
  by (induction n rule: layout_induct) (auto intro: map_idI)

lemma findNode_id: "findNode k n = Some m \<Longrightarrow> nodeId m = k"
proof (induction n rule: layout_induct)
  case (group i f s cs d)
  show ?case
  proof (cases "i = k")
    case False
    with group.prems obtain as c bs where "cs = as @ c # bs" "findNode k c = Some m"
      by (auto dest!: firstSome_map_Some)
    then show ?thesis using group.IH [of c] by simp
  qed (use group.prems in auto)
qed (auto split: if_splits)

text \<open>Where an id occurs once, an update there changes the leaves and the ids of that node only.\<close>

definition plugged :: "string \<Rightarrow> 'd layoutNode \<Rightarrow> 'd layoutNode \<Rightarrow> (string \<times> 'd option) list \<Rightarrow> (string \<times> 'd option) list
    \<Rightarrow> string list \<Rightarrow> string list \<Rightarrow> bool" where
  "plugged k t n pre post ip iq \<longleftrightarrow>
    leaves t = pre @ leaves n @ post \<and> nodeIds t = ip @ nodeIds n @ iq
    \<and> (\<forall>g. leaves (updateNode k g t) = pre @ leaves (g n) @ post
         \<and> nodeIds (updateNode k g t) = ip @ nodeIds (g n) @ iq
         \<and> (allValid t \<and> allValid (g n) \<longrightarrow> allValid (updateNode k g t)))
    \<and> (allValid t \<longrightarrow> allValid n)"

lemma plugged_self: "nodeId n = k \<Longrightarrow> plugged k n n [] [] [] []"
  by (simp add: plugged_def updateNode_eq [of k _ n])

lemma plugged_child:
  assumes "plugged k c n pre post ip iq" "i \<noteq> k" "\<forall>a \<in> set as \<union> set bs. k \<notin> set (nodeIds a)"
  shows "plugged k (LayoutNode i f s (Some (as @ c # bs)) d) n
    (concat (map leaves as) @ pre) (post @ concat (map leaves bs))
    (i # concat (map nodeIds as) @ ip) (iq @ concat (map nodeIds bs))"
proof -
  have "map (updateNode k g) as = as" "map (updateNode k g) bs = bs" for g
    using assms(3) by (auto simp: updateNode_absent intro!: map_idI)
  then show ?thesis using assms(1,2) by (auto simp: plugged_def validateNode_def)
qed

lemma count_concat_one:
  assumes "count_list (concat (map f (as @ c # bs))) k = (1 :: nat)" "k \<in> set (f c)"
  shows "count_list (f c) k = 1" "\<forall>a \<in> set as \<union> set bs. k \<notin> set (f a)"
proof -
  have "0 < count_list (f c) k" using assms(2) by (metis count_list_0_iff gr0I)
  then have "count_list (f c) k = 1" "count_list (concat (map f as)) k = 0" "count_list (concat (map f bs)) k = 0"
    using assms(1) by simp_all
  then show "count_list (f c) k = 1" "\<forall>a \<in> set as \<union> set bs. k \<notin> set (f a)"
    by (auto simp: count_list_0_iff)
qed

lemma plug_exists:
  assumes "count_list (nodeIds t) k = 1" "findNode k t = Some n"
  shows "\<exists>pre post ip iq. plugged k t n pre post ip iq"
  using assms
proof (induction t rule: layout_induct)
  case (leaf i f s d)
  then have "n = LayoutNode i f s None d" "nodeId n = k" by (auto split: if_splits)
  then show ?case using plugged_self [of n k] by blast
next
  case (group i f s cs d)
  show ?case
  proof (cases "i = k")
    case True
    with group.prems have "n = LayoutNode i f s (Some cs) d" "nodeId n = k" by auto
    then show ?thesis using plugged_self [of n k] by blast
  next
    case False
    with group.prems(2) obtain as c bs where cs: "cs = as @ c # bs" "findNode k c = Some n"
      by (auto dest!: firstSome_map_Some)
    from cs(2) have "k \<in> set (nodeIds c)" using findNode_None [of k c] by auto
    moreover have "count_list (concat (map nodeIds (as @ c # bs))) k = 1"
      using group.prems(1) False unfolding cs(1) by (simp only: nodeIds.simps count_list.simps if_False)
    ultimately have one: "count_list (nodeIds c) k = 1" "\<forall>a \<in> set as \<union> set bs. k \<notin> set (nodeIds a)"
      using count_concat_one [of nodeIds as c bs k] by blast+
    have "c \<in> set cs" by (simp add: cs(1))
    from group.IH [OF this one(1) cs(2)] obtain pre post ip iq where "plugged k c n pre post ip iq" by blast
    from plugged_child [OF this False one(2)] show ?thesis unfolding cs(1) by blast
  qed
qed

lemma distinct_count_one: "distinct xs \<Longrightarrow> x \<in> set xs \<Longrightarrow> count_list xs x = 1"
  by (induction xs) (auto simp: count_list_0_iff)

definition parentOf :: "string \<Rightarrow> 'd layoutNode \<Rightarrow> 'd layoutNode \<Rightarrow> 'd layoutNode list \<Rightarrow> 'd layoutNode \<Rightarrow> 'd layoutNode list \<Rightarrow> bool" where
  "parentOf k t p as n bs \<longleftrightarrow>
    findNode (nodeId p) t = Some p \<and> childNodes p = Some (as @ n # bs) \<and> nodeId n = k \<and> findNode k t = Some n
    \<and> (\<forall>a \<in> set as \<union> set bs. nodeId a \<noteq> k)"

lemma firstSome_at:
  "f c = Some r \<Longrightarrow> \<forall>a \<in> set as. f a = None \<Longrightarrow> firstSome (map f (as @ c # bs)) = Some r"
  by (induction as) auto

lemma distinct_siblings:
  assumes "distinct (concat (map nodeIds (as @ c # bs)))" "k \<in> set (nodeIds c)" "a \<in> set as \<union> set bs"
  shows "k \<notin> set (nodeIds a)"
  using assms by auto

lemma findParent_inside: "findParent k t = Some p \<Longrightarrow> k \<in> set (nodeIds t) \<and> k \<noteq> nodeId t"
proof (induction t rule: layout_induct)
  case (group i f s cs d)
  then have "i \<noteq> k" by (auto split: if_splits)
  with group.prems obtain as c bs where c: "cs = as @ c # bs"
      "(if nodeId c = k then Some (LayoutNode i f s (Some cs) d) else findParent k c) = Some p"
    by (auto dest!: firstSome_map_Some)
  have "k \<in> set (nodeIds c)"
    using c(2) group.IH [of c] by (auto simp: c(1) split: if_splits)
  with \<open>i \<noteq> k\<close> show ?case by (simp add: c(1))
qed simp

lemma findParent_parentOf:
  assumes "distinct (nodeIds t)" "findParent k t = Some p"
  shows "\<exists>as n bs. parentOf k t p as n bs"
  using assms
proof (induction t rule: layout_induct)
  case (group i f s cs d)
  let ?t = "LayoutNode i f s (Some cs) d"
  from group.prems(2) have ik: "i \<noteq> k" by (auto split: if_splits)
  with group.prems(2) obtain as c bs where c: "cs = as @ c # bs"
      "(if nodeId c = k then Some ?t else findParent k c) = Some p"
    by (auto dest!: firstSome_map_Some)
  have dist: "distinct (concat (map nodeIds (as @ c # bs)))" and cc: "c \<in> set cs"
    using group.prems(1) c(1) by simp_all
  show ?case
  proof (cases "nodeId c = k")
    case True
    then have kc: "k \<in> set (nodeIds c)" by auto
    have other: "k \<notin> set (nodeIds a)" if "a \<in> set as \<union> set bs" for a
      by (rule distinct_siblings [OF dist kc that])
    have "findNode k c = Some c" using True by (simp add: findNode_eq [of k c])
    then have "findNode k ?t = Some c"
      using ik other by (simp add: c(1) findNode_None firstSome_at [of "findNode k" c] del: map_append)
    moreover have "nodeId a \<noteq> k" if "a \<in> set as \<union> set bs" for a using other [OF that] by auto
    ultimately have "parentOf k ?t ?t as c bs" using True by (simp add: parentOf_def c(1))
    moreover have "p = ?t" using True c(2) by simp
    ultimately show ?thesis by blast
  next
    case False
    with c(2) have fp: "findParent k c = Some p" by simp
    have "distinct (nodeIds c)" using dist by simp
    from group.IH [OF cc this fp] obtain as' n bs' where po: "parentOf k c p as' n bs'" by blast
    have find: "findNode q ?t = Some m" if "findNode q c = Some m" "q \<noteq> i" for q m
    proof -
      have "q \<in> set (nodeIds c)" using that(1) findNode_None [of q c] by auto
      then have "findNode q a = None" if "a \<in> set as" for a
        using distinct_siblings [OF dist, of q a] that by (simp add: findNode_None)
      then show ?thesis using that by (simp add: c(1) firstSome_at [of "findNode q" c] del: map_append)
    qed
    have "nodeId p \<noteq> i"
    proof -
      have "nodeId p \<in> set (nodeIds c)" using po findNode_None [of "nodeId p" c] by (auto simp: parentOf_def)
      then show ?thesis using group.prems(1) by (auto simp: c(1))
    qed
    with po find ik have "parentOf k ?t p as' n bs'" by (auto simp: parentOf_def)
    then show ?thesis by blast
  qed
qed simp

lemma parentOf_childIndex: "parentOf k t p as n bs \<Longrightarrow> childIndex k p = Some (length as) \<and> kidsOf p = as @ n # bs"
proof -
  assume p: "parentOf k t p as n bs"
  then have "\<forall>a \<in> set as. nodeId a \<noteq> k" "nodeId n = k" "childNodes p = Some (as @ n # bs)" by (auto simp: parentOf_def)
  then show ?thesis
    using findIndex_append_notin [of as "\<lambda>c. nodeId c = k" "n # bs"] by (simp add: childIndex_def kidsOf_def)
qed

lemma findParent_None:
  "findParent k t = None \<Longrightarrow> k \<in> set (nodeIds t) \<Longrightarrow> nodeId t = k"
proof (induction t rule: layout_induct)
  case (group i f s cs d)
  show ?case
  proof (rule ccontr)
    assume "nodeId (LayoutNode i f s (Some cs) d) \<noteq> k"
    then have ik: "i \<noteq> k" by simp
    have none: "nodeId c \<noteq> k \<and> findParent k c = None" if "c \<in> set cs" for c
      using group.prems(1) ik that
      by (simp only: findParent.simps firstSome_map_None if_False) (metis option.distinct(1))
    from ik group.prems(2) obtain c where "c \<in> set cs" "k \<in> set (nodeIds c)" by auto
    with group.IH [of c] none [of c] show False by auto
  qed
qed simp

subsection \<open>Splitting places the new pane\<close>

definition wellFormed :: "'d layoutNode \<Rightarrow> bool" where
  "wellFormed t \<longleftrightarrow> allValid t \<and> distinct (nodeIds t)"

lemma mset_distinct: "mset xs = mset ys + mset zs \<Longrightarrow> distinct ys \<Longrightarrow> distinct zs \<Longrightarrow> set zs \<inter> set ys = {} \<Longrightarrow> distinct xs"
  using mset_eq_imp_distinct_iff [of xs "ys @ zs"] by auto

lemma plug_wellFormed:
  assumes "plugged k t p pre post ip iq" "wellFormed t" "allValid (g p)"
    "mset (nodeIds (g p)) = mset (nodeIds p) + mset extra" "distinct extra" "set extra \<inter> set (nodeIds t) = {}"
  shows "wellFormed (updateNode k g t)"
proof -
  have ids: "nodeIds t = ip @ nodeIds p @ iq" "nodeIds (updateNode k g t) = ip @ nodeIds (g p) @ iq"
    and valid: "allValid (updateNode k g t)"
    using assms(1-3) by (auto simp: plugged_def wellFormed_def)
  have "mset (nodeIds (updateNode k g t)) = mset (nodeIds t) + mset extra"
    unfolding ids using assms(4) by simp
  from mset_distinct [OF this _ assms(5,6)] assms(2) valid show ?thesis by (simp add: wellFormed_def)
qed

lemma plug_at:
  assumes "wellFormed t" "findNode k t = Some n"
  obtains pre post ip iq where "plugged k t n pre post ip iq"
proof -
  have "k \<in> set (nodeIds t)" using assms(2) findNode_None [of k t] by auto
  then have "count_list (nodeIds t) k = 1" using assms(1) by (simp add: wellFormed_def distinct_count_one)
  from plug_exists [OF this assms(2)] that show thesis by blast
qed

definition beside :: "position \<Rightarrow> 'a list \<Rightarrow> 'a list \<Rightarrow> 'a list" where
  "beside pos new old = (if pos = Before then new @ old else old @ new)"

definition splitKids :: "flexDirection \<Rightarrow> string \<Rightarrow> 'd layoutNode \<Rightarrow> position \<Rightarrow> 'd layoutNode \<Rightarrow> 'd layoutNode list \<Rightarrow> nat \<Rightarrow> 'd layoutNode list" where
  "splitKids f u1 new pos p cs i =
    (if flexDir p = f then (let j = (if pos = Before then i else i + 1) in take j cs @ [new] @ drop j cs)
     else cs[i := LayoutNode u1 f (nodeSize (cs ! i)) (Some (beside pos [new] [cs ! i])) None])"

lemma newLayoutNode_group:
  "newLayoutNode u (Some f) (Some sz) (Some [n]) None = Inr (LayoutNode u f sz (Some [n]) None)"
  by (simp add: newLayoutNode_def validateNode_def)

lemma splitNode_run:
  assumes "rootNode s = Some t" "findNode target t = Some n" "distinct (nodeIds t)"
  shows "splitNode f u1 target new pos focused s = (Inr (), focusIf focused (nodeId new) (s \<lparr> rootNode := Some
    (case findParent target t of
       None \<Rightarrow> LayoutNode u1 f (nodeSize n) (Some (beside pos [new] [n])) None
     | Some p \<Rightarrow> updateNode (nodeId p) (setChildren (splitKids f u1 new pos p (kidsOf p) (the (childIndex target p)))) t) \<rparr>))"
proof (cases "findParent target t")
  case None
  with assms show ?thesis
    by (simp add: splitNode_def newLayoutNode_group setChildren_def beside_def finish_def)
next
  case (Some p)
  from findParent_parentOf [OF assms(3) Some] obtain as m bs where po: "parentOf target t p as m bs" by blast
  then have "m = n" using assms(2) by (simp add: parentOf_def)
  with Some parentOf_childIndex [OF po] assms show ?thesis
    by (simp add: splitNode_def newLayoutNode_group setChildren_def beside_def finish_def splitKids_def Let_def
        del: updateNode.simps)
qed

lemma splitKids_effect:
  assumes "cs = as @ n # bs" "list_all allValid cs" "allValid new"
  shows "concat (map leaves (splitKids f u1 new pos p cs (length as)))
      = concat (map leaves as) @ beside pos (leaves new) (leaves n) @ concat (map leaves bs)"
    "list_all allValid (splitKids f u1 new pos p cs (length as)) \<and> splitKids f u1 new pos p cs (length as) \<noteq> []"
    "mset (concat (map nodeIds (splitKids f u1 new pos p cs (length as))))
      = mset (concat (map nodeIds cs)) + mset (nodeIds new @ (if flexDir p = f then [] else [u1]))"
  using assms(2,3)
  by (auto simp: splitKids_def assms(1) beside_def Let_def validateNode_def)

text \<open>C39: Splitting a pane or group, horizontally or vertically, in a tree of valid nodes
  with distinct ids: it succeeds, the panes of the new node stand directly before or after those of
  the target, every other pane keeps its place, and the tree is again valid with distinct ids,
  whether the parent already runs in that direction or a new group has to wrap the target.\<close>

theorem split_places_pane:
  assumes "rootNode s = Some t" "wellFormed t" "findNode target t = Some n" "wellFormed new"
    "set (nodeIds new) \<inter> set (nodeIds t) = {}" "u1 \<notin> set (nodeIds t) \<union> set (nodeIds new)"
  shows "\<exists>t' pre post. splitNode f u1 target new pos focused s
        = (Inr (), focusIf focused (nodeId new) (s \<lparr> rootNode := Some t' \<rparr>))
    \<and> wellFormed t' \<and> leaves t = pre @ leaves n @ post
    \<and> leaves t' = pre @ beside pos (leaves new) (leaves n) @ post"
proof (cases "findParent target t")
  case None
  then have "nodeId t = target" using findParent_None [of target t] assms(3) findNode_None [of target t] by auto
  then have "t = n" using assms(3) by (simp add: findNode_eq [of target t])
  let ?t = "LayoutNode u1 f (nodeSize n) (Some (beside pos [new] [n])) None"
  have "wellFormed ?t" "leaves ?t = beside pos (leaves new) (leaves n)"
    using assms \<open>t = n\<close> by (auto simp: wellFormed_def beside_def validateNode_def)
  then show ?thesis
    using splitNode_run [OF assms(1,3)] assms(2) None \<open>t = n\<close>
    by (intro exI [of _ ?t] exI [of _ "[]"]) (simp add: wellFormed_def)
next
  case (Some p)
  have dist: "distinct (nodeIds t)" using assms(2) by (simp add: wellFormed_def)
  from findParent_parentOf [OF dist Some] obtain as m bs where po: "parentOf target t p as m bs" by blast
  then have m: "m = n" and kids: "childNodes p = Some (as @ n # bs)" "findNode (nodeId p) t = Some p"
    using assms(3) by (auto simp: parentOf_def)
  from plug_at [OF assms(2) kids(2)] obtain pre post ip iq where pl: "plugged (nodeId p) t p pre post ip iq" .
  then have p: "nodeData p = None" "list_all allValid (as @ n # bs)"
    using assms(2) allValid_children [OF _ kids(1)] by (auto simp: plugged_def wellFormed_def)
  let ?ks = "splitKids f u1 new pos p (as @ n # bs) (length as)"
  have new: "allValid new" "distinct (nodeIds new)" using assms(4) by (simp_all add: wellFormed_def)
  note eff = splitKids_effect [OF refl p(2) new(1), of f u1 pos p]
  let ?t = "updateNode (nodeId p) (setChildren ?ks) t"
  have "nodeIds p = nodeId p # concat (map nodeIds (as @ n # bs))" by (simp add: nodeIds_eq [of p] kids(1))
  then have "mset (nodeIds (setChildren ?ks p)) = mset (nodeIds p) + mset (nodeIds new @ (if flexDir p = f then [] else [u1]))"
    using eff(3) by simp
  moreover have "distinct (nodeIds new @ (if flexDir p = f then [] else [u1]))"
      "set (nodeIds new @ (if flexDir p = f then [] else [u1])) \<inter> set (nodeIds t) = {}"
    using assms(5,6) new(2) by auto
  moreover have "allValid (setChildren ?ks p)" using eff(2) p(1) by simp
  ultimately have "wellFormed ?t" using pl assms(2) by (intro plug_wellFormed)
  moreover have "leaves t = (pre @ concat (map leaves as)) @ leaves n @ (concat (map leaves bs) @ post)"
    using pl by (simp add: plugged_def leaves_eq [of p] kids(1))
  moreover have "leaves ?t = (pre @ concat (map leaves as)) @ beside pos (leaves new) (leaves n) @ (concat (map leaves bs) @ post)"
    using pl eff(1) by (simp add: plugged_def)
  moreover have "splitNode f u1 target new pos focused s = (Inr (), focusIf focused (nodeId new) (s \<lparr> rootNode := Some ?t \<rparr>))"
    using splitNode_run [OF assms(1,3) dist] Some parentOf_childIndex [OF po] m by simp
  ultimately show ?thesis by blast
qed

theorem split_places_pane_witness:
  "let s = \<lparr> rootNode = Some sampleRow, focusedNodeId = None, magnifiedNodeId = None, leafOrder = None \<rparr>
   in \<exists>t' pre post. splitNode Column ''u'' ''a'' (samplePane ''c'') Before True s
        = (Inr (), focusIf True ''c'' (s \<lparr> rootNode := Some t' \<rparr>))
    \<and> wellFormed t' \<and> leaves sampleRow = pre @ leaves (samplePane ''a'') @ post
    \<and> leaves t' = pre @ beside Before (leaves (samplePane ''c'')) (leaves (samplePane ''a'')) @ post"
  unfolding Let_def
  using split_places_pane [where s = "\<lparr> rootNode = Some sampleRow, focusedNodeId = None, magnifiedNodeId = None, leafOrder = None \<rparr>"
      and t = sampleRow and n = "samplePane ''a''" and new = "samplePane ''c''" and target = "''a''" and ?u1.0 = "''u''"
      and f = Column and pos = Before and focused = True]
  by (simp add: sampleRow_def samplePane_def wellFormed_def validateNode_def)

end
