(* ===== verification/LayoutMoves.thy ===== *)
theory LayoutMoves
  imports LayoutTree
begin

section \<open>Moving panes\<close>

text \<open>
  What \<open>moveNode\<close> and \<open>swapNode\<close> of \<open>frontend/layout/lib/layoutTree.ts\<close> do to the panes and ids of a tree.
  A move places the node at its new position and then removes it from its old parent; in between the
  tree holds it twice, which is why the lemmas speak of a node whose id occurs once (\<open>plugged\<close>) and
  of the multiset of leaves and ids.
\<close>

subsection \<open>Lookups after an update\<close>

lemma findNode_ids: "findNode q t = Some m \<Longrightarrow> set (nodeIds m) \<subseteq> set (nodeIds t)"
proof (induction t rule: layout_induct)
  case (group i f s cs d)
  show ?case
  proof (cases "i = q")
    case False
    with group.prems obtain as c bs where "cs = as @ c # bs" "findNode q c = Some m"
      by (auto dest!: firstSome_map_Some)
    then show ?thesis using group.IH [of c] by auto
  qed (use group.prems in auto)
qed (auto split: if_splits)

lemma firstSome_map_option: "firstSome (map (\<lambda>c. map_option u (f c)) cs) = map_option u (firstSome (map f cs))"
  by (induction cs) (auto split: option.split)

text \<open>A node outside the updated one is found again, with the update inside it.\<close>

lemma findNode_update_outside:
  assumes "distinct (nodeIds t)" "findNode kb t = Some b" "ka \<notin> set (nodeIds b)" "ka \<notin> set (nodeIds (g b))"
  shows "findNode ka (updateNode kb g t) = map_option (updateNode kb g) (findNode ka t)"
  using assms(1,2)
proof (induction t rule: layout_induct)
  case (leaf i f s d)
  then show ?case using assms(3,4) by (auto simp: findNode_None split: if_splits)
next
  case (group i f s cs d)
  show ?case
  proof (cases "i = kb")
    case True
    with group.prems(2) have "b = LayoutNode i f s (Some cs) d" by simp
    with True assms(3,4) show ?thesis by (auto simp: findNode_None [THEN iffD2])
  next
    case False
    with group.prems(2) obtain as c bs where cs: "cs = as @ c # bs" "findNode kb c = Some b"
      by (auto dest!: firstSome_map_Some)
    have kc: "kb \<in> set (nodeIds c)" using cs(2) findNode_None [of kb c] by auto
    have dist: "distinct (concat (map nodeIds (as @ c # bs)))" using group.prems(1) cs(1) by simp
    have each: "findNode ka (updateNode kb g x) = map_option (updateNode kb g) (findNode ka x)" if "x \<in> set cs" for x
    proof (cases "x = c")
      case True
      then show ?thesis using group.IH [of c] dist cs by simp
    next
      case False
      then have out: "kb \<notin> set (nodeIds x)" using distinct_siblings [OF dist kc, of x] that cs(1) by auto
      then have "updateNode kb g m = m" if "findNode ka x = Some m" for m
        using findNode_ids [OF that] by (intro updateNode_absent) auto
      with out show ?thesis by (cases "findNode ka x") (simp_all add: updateNode_absent)
    qed
    have "firstSome (map (\<lambda>x. findNode ka (updateNode kb g x)) cs) = map_option (updateNode kb g) (firstSome (map (findNode ka) cs))"
      using each firstSome_map_option [of "updateNode kb g" "findNode ka" cs] by (simp cong: map_cong)
    then show ?thesis using False by (auto simp: comp_def)
  qed
qed

text \<open>A node inside the replaced one is looked up in what replaces it.\<close>

lemma child_with:
  assumes "distinct (nodeIds (LayoutNode i f s (Some cs) d))" "findNode kb (LayoutNode i f s (Some cs) d) = Some b" "i \<noteq> kb"
  obtains as c bs where "cs = as @ c # bs" "findNode kb c = Some b" "distinct (nodeIds c)" "set (nodeIds b) \<subseteq> set (nodeIds c)"
    "i \<notin> set (nodeIds c)" "\<And>x k. x \<in> set as \<union> set bs \<Longrightarrow> k \<in> set (nodeIds c) \<Longrightarrow> k \<notin> set (nodeIds x)"
proof -
  from assms(2,3) obtain as c bs where cs: "cs = as @ c # bs" "findNode kb c = Some b"
    by (auto dest!: firstSome_map_Some)
  have "distinct (concat (map nodeIds (as @ c # bs)))" "distinct (nodeIds c)" "i \<notin> set (nodeIds c)"
    using assms(1) cs(1) by simp_all
  with cs that [of as c bs] findNode_ids [OF cs(2)] distinct_siblings [of as c bs] show thesis by blast
qed

lemma findNode_inside:
  assumes "distinct (nodeIds t)" "findNode kb t = Some b" "ka \<in> set (nodeIds b)"
  shows "findNode ka t = findNode ka b"
  using assms(1,2)
proof (induction t rule: layout_induct)
  case (group i f s cs d)
  show ?case
  proof (cases "i = kb")
    case False
    from child_with [OF group.prems False] obtain as c bs where c: "cs = as @ c # bs" "findNode kb c = Some b"
      "distinct (nodeIds c)" "set (nodeIds b) \<subseteq> set (nodeIds c)" "i \<notin> set (nodeIds c)"
      "\<And>x k. x \<in> set as \<union> set bs \<Longrightarrow> k \<in> set (nodeIds c) \<Longrightarrow> k \<notin> set (nodeIds x)" by metis
    have ka: "ka \<in> set (nodeIds c)" using c(4) assms(3) by auto
    then have "\<forall>a \<in> set as. findNode ka a = None" using c(6) by (auto simp: findNode_None)
    moreover obtain r where "findNode ka c = Some r" using ka findNode_None [of ka c] by auto
    ultimately have "findNode ka (LayoutNode i f s (Some cs) d) = findNode ka c"
      using ka c(5) firstSome_at [of "findNode ka" c r as bs] by (auto simp: c(1))
    with group.IH [of c] c show ?thesis by simp
  qed (use group.prems in auto)
qed (auto split: if_splits)

lemma findNode_update_inside:
  assumes "distinct (nodeIds t)" "findNode kb t = Some b" "ka \<in> set (nodeIds b)" "ka \<in> set (nodeIds m)"
  shows "findNode ka (updateNode kb (\<lambda>_. m) t) = findNode ka m"
  using assms(1,2)
proof (induction t rule: layout_induct)
  case (group i f s cs d)
  show ?case
  proof (cases "i = kb")
    case False
    from child_with [OF group.prems False] obtain as c bs where c: "cs = as @ c # bs" "findNode kb c = Some b"
      "distinct (nodeIds c)" "set (nodeIds b) \<subseteq> set (nodeIds c)" "i \<notin> set (nodeIds c)"
      "\<And>x k. x \<in> set as \<union> set bs \<Longrightarrow> k \<in> set (nodeIds c) \<Longrightarrow> k \<notin> set (nodeIds x)" by metis
    have ka: "ka \<in> set (nodeIds c)" and kb: "kb \<in> set (nodeIds c)"
      using c(2,4) assms(3) findNode_None [of kb c] by auto
    have as: "map (updateNode kb g) as = as" "map (updateNode kb g) bs = bs" for g :: "'a layoutNode \<Rightarrow> 'a layoutNode"
      using c(6) kb by (auto intro!: map_idI updateNode_absent)
    have "findNode ka (updateNode kb (\<lambda>_. m) c) = findNode ka m" using group.IH [of c] c by simp
    moreover obtain r where "findNode ka m = Some r" using assms(4) findNode_None [of ka m] by auto
    moreover have "\<forall>a \<in> set as. findNode ka a = None" using c(6) ka by (auto simp: findNode_None)
    ultimately show ?thesis
      using ka c(5) False firstSome_at [of "findNode ka" "updateNode kb (\<lambda>_. m) c" r as bs]
      by (auto simp: c(1) as)
  qed (use group.prems in auto)
qed (use assms in \<open>auto split: if_splits\<close>)

text \<open>Adding to and removing from the children of one node.\<close>

lemma mset_concat_map: "mset xs = mset ys \<Longrightarrow> mset (concat (map f xs)) = mset (concat (map f ys))"
  by (simp add: mset_concat flip: sum_mset_sum_list)

lemma spliceIn_mset: "0 \<le> idx \<Longrightarrow> mset (spliceIn idx new xs) = mset new + mset xs"
proof -
  assume "0 \<le> idx"
  moreover have "mset (take k xs @ new @ drop k xs) = mset new + mset (take k xs @ drop k xs)" for k
    by (simp only: mset_append add.left_commute)
  ultimately show ?thesis by (simp add: spliceIn_def)
qed

lemma childrenToAdd_effect:
  "allValid v \<Longrightarrow> concat (map leaves (childrenToAdd f [v])) = leaves v
    \<and> set (concat (map nodeIds (childrenToAdd f [v]))) \<subseteq> set (nodeIds v)
    \<and> (distinct (nodeIds v) \<longrightarrow> distinct (concat (map nodeIds (childrenToAdd f [v]))))
    \<and> list_all allValid (childrenToAdd f [v]) \<and> childrenToAdd f [v] \<noteq> []"
  using allValid_children [of v]
  by (auto simp: childrenToAdd_def leaves_eq [of v] nodeIds_eq [of v] split: option.split)

text \<open>What placing \<open>v\<close> in \<open>b\<close> makes of it; \<open>u\<close> is the id an intermediate node draws.\<close>

definition grownBy :: "'d layoutNode \<Rightarrow> 'd layoutNode \<Rightarrow> string \<Rightarrow> 'd layoutNode \<Rightarrow> bool" where
  "grownBy b b1 u v \<longleftrightarrow> mset (leaves b1) = mset (leaves b) + mset (leaves v) \<and> nodeId b1 \<in> {nodeId b, u}
    \<and> (allValid b \<longrightarrow> allValid b1)
    \<and> (\<exists>extra. mset (nodeIds b1) = mset (nodeIds b) + mset extra \<and> set extra \<subseteq> insert u (set (nodeIds v))
        \<and> (distinct (u # nodeIds v) \<longrightarrow> distinct extra))"

lemma spliced_children:
  fixes cs new :: "'d layoutNode list"
  assumes "childNodes b = Some cs" "0 \<le> idx"
  shows "mset (leaves (setChildren (spliceIn idx new cs) b)) = mset (leaves b) + mset (concat (map leaves new))"
    "mset (nodeIds (setChildren (spliceIn idx new cs) b)) = mset (nodeIds b) + mset (concat (map nodeIds new))"
    "allValid b \<Longrightarrow> list_all allValid new \<Longrightarrow> allValid (setChildren (spliceIn idx new cs) b)"
proof -
  have perm: "mset (spliceIn idx new cs) = mset (new @ cs)" using spliceIn_mset [OF assms(2), of new cs] by simp
  show "mset (leaves (setChildren (spliceIn idx new cs) b)) = mset (leaves b) + mset (concat (map leaves new))"
    using mset_concat_map [OF perm, of leaves] assms(1) by (simp add: leaves_eq [of b])
  show "mset (nodeIds (setChildren (spliceIn idx new cs) b)) = mset (nodeIds b) + mset (concat (map nodeIds new))"
    using mset_concat_map [OF perm, of nodeIds] assms(1) by (simp add: nodeIds_eq [of b])
  assume "allValid b" "list_all allValid new"
  then show "allValid (setChildren (spliceIn idx new cs) b)"
    using allValid_children [of b cs] assms(1) arg_cong [OF perm, of set_mset]
    by (auto simp: list_all_iff)
qed

lemma addChildAt_group:
  assumes "childNodes b = Some cs" "0 \<le> idx" "allValid v"
  shows "addChildAt u1 u2 b idx [v] = Inr (setChildren (spliceIn idx (childrenToAdd (flexDir b) [v]) cs) b)"
    "grownBy b (setChildren (spliceIn idx (childrenToAdd (flexDir b) [v]) cs) b) u1 v"
proof -
  let ?new = "childrenToAdd (flexDir b) [v]"
  note new = childrenToAdd_effect [OF assms(3), of "flexDir b"]
  show "addChildAt u1 u2 b idx [v] = Inr (setChildren (spliceIn idx ?new cs) b)"
    using assms(1) by (simp add: addChildAt_def)
  show "grownBy b (setChildren (spliceIn idx ?new cs) b) u1 v"
    unfolding grownBy_def using spliced_children [OF assms(1,2), of ?new] new
    by (intro conjI exI [of _ "concat (map nodeIds ?new)"]) auto
qed

lemma addChildAt_leaf:
  assumes "childNodes b = None" "allValid b" "0 \<le> idx" "allValid v"
  shows "\<exists>b1. addChildAt u1 u2 b idx [v] = Inr b1 \<and> grownBy b b1 u1 v"
proof -
  obtain d where d: "nodeData b = Some d" using assms(1,2) by (auto simp: allValid_eq validateNode_def)
  let ?inner = "LayoutNode (nodeId b) (reverseFlexDirection (flexDir b)) DefaultNodeSize None (Some d)"
  let ?b0 = "LayoutNode u1 (flexDir b) (nodeSize b) (Some [?inner]) None"
  let ?new = "childrenToAdd (flexDir b) [v]"
  let ?b1 = "setChildren (spliceIn idx ?new [?inner]) ?b0"
  note new = childrenToAdd_effect [OF assms(4), of "flexDir b"]
  have b0: "childNodes ?b0 = Some [?inner]" "allValid ?b0" by (simp_all add: validateNode_def)
  have ids: "leaves ?b0 = leaves b" "nodeIds ?b0 = u1 # nodeIds b"
    using assms(1) d by (simp_all add: leaves_eq [of b] nodeIds_eq [of b])
  have "addChildAt u1 u2 b idx [v] = addChildAt u1 u2 ?b0 idx [v]"
    using assms(1) d by (simp add: addChildAt_def addIntermediateNode_def newLayoutNode_def validateNode_def setId_def)
  also have "\<dots> = Inr ?b1" by (simp add: addChildAt_def)
  finally have run: "addChildAt u1 u2 b idx [v] = Inr ?b1" .
  have "grownBy b ?b1 u1 v"
    unfolding grownBy_def using spliced_children [OF b0(1) assms(3), of ?new] new b0(2) ids
    by (intro conjI exI [of _ "u1 # concat (map nodeIds ?new)"]) auto
  with run show ?thesis by blast
qed

text \<open>Where the old child is after the placement, at or behind the index the search starts from.\<close>

definition occursFrom :: "nat \<Rightarrow> 'd layoutNode \<Rightarrow> 'd layoutNode list \<Rightarrow> bool" where
  "occursFrom st n xs \<longleftrightarrow> (\<exists>j < length xs. st \<le> j \<and> nodeId (xs ! j) = nodeId n)
    \<and> (\<forall>x \<in> set xs. nodeId x = nodeId n \<longrightarrow> leaves x = leaves n \<and> nodeIds x = nodeIds n)"

lemma removeFirstFrom_effect:
  assumes "occursFrom st n xs"
  shows "\<exists>x ys zs. xs = ys @ x # zs \<and> removeFirstFrom st (nodeId n) xs = ys @ zs \<and> leaves x = leaves n \<and> nodeIds x = nodeIds n"
proof -
  obtain j where j: "j < length xs" "st \<le> j" "nodeId (xs ! j) = nodeId n"
    and same: "\<And>x. x \<in> set xs \<Longrightarrow> nodeId x = nodeId n \<Longrightarrow> leaves x = leaves n \<and> nodeIds x = nodeIds n"
    using assms by (auto simp: occursFrom_def)
  have "xs ! j \<in> set (drop st xs)"
    using j(1,2) nth_mem [of "j - st" "drop st xs"] by simp
  then obtain k where k: "findIndex (\<lambda>c. nodeId c = nodeId n) (drop st xs) = Some k"
    using j(3) by (cases "findIndex (\<lambda>c. nodeId c = nodeId n) (drop st xs)") auto
  then have at: "st + k < length xs" "nodeId (xs ! (st + k)) = nodeId n"
    using findIndex_Some [OF k] by auto
  with same [of "xs ! (st + k)"] id_take_nth_drop [OF at(1)] show ?thesis
    by (intro exI [of _ "xs ! (st + k)"] exI [of _ "take (st + k) xs"] exI [of _ "drop (Suc (st + k)) xs"])
      (simp add: removeFirstFrom_def k)
qed

lemma remove_occurrence:
  assumes "count_list (nodeIds t) ka = 1" "findNode ka t = Some a" "childNodes a = Some xs" "occursFrom st n xs"
  defines "r \<equiv> updateNode ka (removeChild (nodeId n) st) t"
  shows "mset (leaves r) + mset (leaves n) = mset (leaves t)"
    "mset (nodeIds r) + mset (nodeIds n) = mset (nodeIds t)"
    "allValid t \<Longrightarrow> 2 \<le> length xs \<Longrightarrow> allValid r"
proof -
  obtain pre post ip iq where pl: "plugged ka t a pre post ip iq" using plug_exists [OF assms(1,2)] by blast
  obtain x ys zs where xs: "xs = ys @ x # zs" "removeFirstFrom st (nodeId n) xs = ys @ zs" "leaves x = leaves n" "nodeIds x = nodeIds n"
    using removeFirstFrom_effect [OF assms(4)] by blast
  have rem: "removeChild (nodeId n) st a = setChildren (ys @ zs) a" by (simp add: removeChild_def assms(3) xs(2))
  have a: "leaves a = concat (map leaves (ys @ x # zs))" "nodeIds a = nodeId a # concat (map nodeIds (ys @ x # zs))"
    using assms(3) xs(1) by (simp_all add: leaves_eq [of a] nodeIds_eq [of a])
  show "mset (leaves r) + mset (leaves n) = mset (leaves t)" "mset (nodeIds r) + mset (nodeIds n) = mset (nodeIds t)"
    using pl rem a xs(3,4) by (simp_all add: plugged_def r_def)
  assume valid: "allValid t" "2 \<le> length xs"
  then have "allValid a" using pl by (simp add: plugged_def)
  from allValid_children [OF this assms(3)] valid(2) have "allValid (removeChild (nodeId n) st a)"
    by (auto simp: rem xs(1) list_all_iff)
  with pl valid(1) show "allValid r" by (simp add: plugged_def r_def)
qed

text \<open>The tree after the placement and before the removal: where the old parent and its child are.\<close>

lemma grownBy_ids: "grownBy b b1 u v \<Longrightarrow> set (nodeIds b1) \<subseteq> set (nodeIds b) \<union> insert u (set (nodeIds v))"
  unfolding grownBy_def by (metis mset_append set_append set_mset_mset Un_mono order_refl)

lemma grownBy_count:
  assumes "plugged pid t b pre post ip iq" "grownBy b b1 u v" "q \<noteq> u" "q \<notin> set (nodeIds v)"
  shows "count_list (nodeIds (updateNode pid (\<lambda>_. b1) t)) q = count_list (nodeIds t) q"
proof -
  obtain extra where e: "mset (nodeIds b1) = mset (nodeIds b) + mset extra" "set extra \<subseteq> insert u (set (nodeIds v))"
    using assms(2) by (auto simp: grownBy_def)
  have "q \<notin> set extra" using e(2) assms(3,4) by auto
  then have "count (mset (nodeIds b1)) q = count (mset (nodeIds b)) q" by (simp add: e(1) count_mset_0_iff)
  then have "count_list (nodeIds b1) q = count_list (nodeIds b) q" by (simp add: count_mset)
  with assms(1) show ?thesis by (simp add: plugged_def)
qed

lemma childNodes_update:
  "nodeId a \<noteq> k \<Longrightarrow> childNodes a = Some cs \<Longrightarrow> childNodes (updateNode k g a) = Some (map (updateNode k g) cs)"
  by (simp add: updateNode_eq [of k g a])

lemma nodeId_update: "nodeId (updateNode k g x) = (if nodeId x = k then nodeId (g x) else nodeId x)"
  by (simp add: updateNode_eq [of k g x] split: option.split)

text \<open>The old parent apart from the new one: outside it, or somewhere inside it.\<close>

lemma old_parent_outside:
  assumes "distinct (nodeIds t)" "parentOf i t a as n bs" "findNode pid t = Some b"
    "nodeId a \<notin> set (nodeIds b)" "nodeId a \<notin> set (nodeIds b1)" "pid \<notin> set (nodeIds n)" "nodeId b1 \<noteq> i" "i \<noteq> pid"
  shows "\<exists>a1 as1 bs1. findNode (nodeId a) (updateNode pid (\<lambda>_. b1) t) = Some a1
    \<and> childNodes a1 = Some (as1 @ n # bs1) \<and> length as1 = length as \<and> length bs1 = length bs
    \<and> (\<forall>x \<in> set as1 \<union> set bs1. nodeId x \<noteq> i)"
proof -
  let ?u = "updateNode pid (\<lambda>_. b1)"
  have "findNode (nodeId a) (?u t) = Some (?u a)"
    using findNode_update_outside [OF assms(1,3), of "nodeId a" "\<lambda>_. b1"] assms(2,4,5) by (simp add: parentOf_def)
  moreover have "nodeId a \<noteq> pid" using assms(3,4) findNode_id [OF assms(3)] nodeId_in_ids [of b] by auto
  then have "childNodes (?u a) = Some (map ?u as @ n # map ?u bs)"
    using assms(2,6) by (simp add: parentOf_def childNodes_update updateNode_absent)
  moreover have "nodeId x \<noteq> i" if "x \<in> set (map ?u as) \<union> set (map ?u bs)" for x
    using that assms(2,7) by (auto simp: nodeId_update parentOf_def split: if_splits)
  ultimately show ?thesis
    by (intro exI [of _ "?u a"] exI [of _ "map ?u as"] exI [of _ "map ?u bs"]) simp
qed

lemma firstSome_new:
  assumes "0 \<le> idx" "\<And>x. x \<in> set new \<Longrightarrow> f x = None"
  shows "firstSome (map f (spliceIn idx new cs)) = firstSome (map f cs)"
proof -
  have app: "firstSome (map f (xs @ ys)) = (case firstSome (map f xs) of None \<Rightarrow> firstSome (map f ys) | Some r \<Rightarrow> Some r)" for xs ys
    by (induction xs) (simp_all split: option.split del: firstSome_None)
  have new: "firstSome (map f new) = None" using assms(2) by simp
  have parts: "firstSome (map f cs) = (case firstSome (map f (take (nat idx) cs)) of
      None \<Rightarrow> firstSome (map f (drop (nat idx) cs)) | Some r \<Rightarrow> Some r)"
    using app [of "take (nat idx) cs" "drop (nat idx) cs"] by (simp only: append_take_drop_id)
  show ?thesis
  proof (cases "int (length cs) \<le> idx")
    case True
    then show ?thesis by (simp only: spliceIn_def if_True app new) (simp split: option.split del: firstSome_None)
  next
    case False
    with assms(1) show ?thesis by (simp only: spliceIn_def if_False if_True app new option.case parts)
  qed
qed

lemma old_parent_inside:
  assumes "distinct (nodeIds t)" "parentOf i t a as n bs" "findNode pid t = Some b" "childNodes b = Some cs"
    "nodeId a \<in> set (nodeIds b)" "nodeId a \<noteq> pid" "0 \<le> idx" "\<And>x. x \<in> set new \<Longrightarrow> nodeId a \<notin> set (nodeIds x)"
  shows "findNode (nodeId a) (updateNode pid (\<lambda>_. setChildren (spliceIn idx new cs) b) t) = Some a"
proof -
  let ?b1 = "setChildren (spliceIn idx new cs) b"
  have b: "nodeId b = pid" by (rule findNode_id [OF assms(3)])
  have "findNode (nodeId a) ?b1 = firstSome (map (findNode (nodeId a)) (spliceIn idx new cs))"
    using assms(6) b by (simp add: findNode_eq [of _ ?b1])
  also have "\<dots> = firstSome (map (findNode (nodeId a)) cs)"
    using assms(7,8) by (intro firstSome_new) (simp_all add: findNode_None)
  also have "\<dots> = findNode (nodeId a) b" using assms(4,6) b by (simp add: findNode_eq [of _ b])
  also have "\<dots> = Some a"
    using findNode_inside [OF assms(1,3,5)] assms(2) by (simp add: parentOf_def)
  finally have in_b1: "findNode (nodeId a) ?b1 = Some a" .
  then have "nodeId a \<in> set (nodeIds ?b1)" using findNode_None [of "nodeId a" ?b1] by auto
  from findNode_update_inside [OF assms(1,3,5) this] in_b1 show ?thesis by simp
qed

lemma findNode_size: "findNode q t = Some m \<Longrightarrow> size m \<le> size t"
proof (induction t rule: layout_induct)
  case (group i f s cs d)
  show ?case
  proof (cases "i = q")
    case False
    with group.prems obtain as c bs where c: "cs = as @ c # bs" "findNode q c = Some m"
      by (auto dest!: firstSome_map_Some)
    then have "size m \<le> size c" using group.IH [of c] by simp
    also have "size c < size (LayoutNode i f s (Some cs) d)" using c(1) by (intro size_child [of _ cs]) auto
    finally show ?thesis by simp
  qed (use group.prems in auto)
qed (auto split: if_splits)

lemma parent_not_inside:
  assumes "distinct (nodeIds t)" "parentOf i t a as n bs"
  shows "nodeId a \<notin> set (nodeIds n)"
proof
  assume "nodeId a \<in> set (nodeIds n)"
  from findNode_inside [OF assms(1) _ this, of i] assms(2) have "findNode (nodeId a) n = Some a"
    by (simp add: parentOf_def)
  from findNode_size [OF this] size_child [of a "as @ n # bs" n] assms(2) show False
    by (simp add: parentOf_def)
qed

lemma added_child_same:
  "distinct (nodeIds n) \<Longrightarrow> x \<in> set (childrenToAdd f [n]) \<Longrightarrow> nodeId x = nodeId n \<Longrightarrow> leaves x = leaves n \<and> nodeIds x = nodeIds n"
  using nodeId_in_ids [of x] by (auto simp: childrenToAdd_def nodeIds_eq [of n] split: option.splits if_splits)

lemma occursFrom_0: "\<forall>x \<in> set as \<union> set bs. nodeId x \<noteq> nodeId n \<Longrightarrow> occursFrom 0 n (as @ n # bs)"
  unfolding occursFrom_def by (auto intro: exI [of _ "length as"])

lemma occursFrom_splice:
  assumes "\<forall>x \<in> set as \<union> set bs. nodeId x \<noteq> nodeId n" "0 \<le> idx" "new \<noteq> []"
    "\<forall>x \<in> set new. nodeId x = nodeId n \<longrightarrow> leaves x = leaves n \<and> nodeIds x = nodeIds n"
  shows "occursFrom (if idx \<le> int (length as) then nat (idx + 1) else 0) n (spliceIn idx new (as @ n # bs))"
proof -
  let ?cs = "as @ n # bs" and ?xs = "spliceIn idx new (as @ n # bs)"
  have elems: "set ?xs = set new \<union> set ?cs"
    using arg_cong [OF spliceIn_mset [OF assms(2), of new ?cs], of set_mset] by simp
  have "\<exists>j < length ?xs. (if idx \<le> int (length as) then nat (idx + 1) else 0) \<le> j \<and> nodeId (?xs ! j) = nodeId n"
  proof (cases "idx \<le> int (length as)")
    case True
    then have xs: "?xs = take (nat idx) ?cs @ new @ drop (nat idx) ?cs" using assms(2) by (simp add: spliceIn_def)
    have "?xs ! (length as + length new) = n" "length as + length new < length ?xs"
      unfolding xs using True by (auto simp: nth_append min_def)
    moreover have "nat (idx + 1) \<le> length as + length new" using True assms(2,3) by (cases new) auto
    ultimately show ?thesis using True by (intro exI [of _ "length as + length new"]) simp
  next
    case False
    have "n \<in> set ?xs" by (simp add: elems)
    with False show ?thesis by (auto simp: in_set_conv_nth)
  qed
  with assms(1,4) elems show ?thesis unfolding occursFrom_def by auto
qed

lemma occursFrom_le: "occursFrom st n xs \<Longrightarrow> st' \<le> st \<Longrightarrow> occursFrom st' n xs"
  unfolding occursFrom_def by (metis (no_types, lifting) le_trans)

lemma placed_same_parent:
  assumes wf: "wellFormed t" and po: "parentOf i t a as n bs" and b: "findNode (nodeId a) t = Some b"
    and idx: "0 \<le> idx" and st: "st \<le> (if idx \<le> int (length as) then nat (idx + 1) else 0)"
  shows "\<exists>a1 xs. findNode (nodeId a) (updateNode (nodeId a) (\<lambda>_. setChildren (spliceIn idx (childrenToAdd (flexDir b) [n]) (as @ n # bs)) b) t) = Some a1
    \<and> childNodes a1 = Some xs \<and> occursFrom st n xs \<and> length (as @ n # bs) \<le> length xs"
proof -
  have dist: "distinct (nodeIds t)" using wf by (simp add: wellFormed_def)
  have ni: "nodeId n = i" and fn: "findNode i t = Some n" and others: "\<forall>x \<in> set as \<union> set bs. nodeId x \<noteq> nodeId n"
    using po by (auto simp: parentOf_def)
  obtain pre post ip iq where "plugged i t n pre post ip iq" by (rule plug_at [OF wf fn])
  then have valid: "allValid n" and dn: "distinct (nodeIds n)" using wf by (auto simp: plugged_def wellFormed_def)
  note new = childrenToAdd_effect [OF valid, of "flexDir b"]
  define b1 where "b1 = setChildren (spliceIn idx (childrenToAdd (flexDir b) [n]) (as @ n # bs)) b"
  have idb: "nodeId b = nodeId a" by (rule findNode_id [OF b])
  have "findNode (nodeId a) (updateNode (nodeId a) (\<lambda>_. b1) t) = findNode (nodeId a) b1"
    using idb nodeId_in_ids [of b] by (intro findNode_update_inside [OF dist b]) (auto simp: b1_def)
  also have "\<dots> = Some b1" using idb by (simp add: findNode_eq [of _ b1]) (simp add: b1_def)
  finally have found: "findNode (nodeId a) (updateNode (nodeId a) (\<lambda>_. b1) t) = Some b1" .
  have "occursFrom (if idx \<le> int (length as) then nat (idx + 1) else 0) n
      (spliceIn idx (childrenToAdd (flexDir b) [n]) (as @ n # bs))"
    using occursFrom_splice [OF others idx, of "childrenToAdd (flexDir b) [n]"] new added_child_same [OF dn]
    by (auto simp: ni)
  moreover have "length (as @ n # bs) \<le> length (spliceIn idx (childrenToAdd (flexDir b) [n]) (as @ n # bs))"
    by (auto simp: spliceIn_def)
  ultimately show ?thesis using occursFrom_le [OF _ st] found unfolding b1_def by auto
qed

lemma placed_other_parent:
  assumes wf: "wellFormed t" and po: "parentOf i t a as n bs" and b: "findNode pid t = Some b"
    and out: "pid \<notin> set (nodeIds n)" and idx: "0 \<le> idx" and fresh: "u1 \<notin> set (nodeIds t)" and gr: "grownBy b b1 u1 n"
    and kids: "\<And>cs. childNodes b = Some cs \<Longrightarrow> b1 = setChildren (spliceIn idx (childrenToAdd (flexDir b) [n]) cs) b"
    and other: "nodeId a \<noteq> pid"
  shows "\<exists>a1 xs. findNode (nodeId a) (updateNode pid (\<lambda>_. b1) t) = Some a1
    \<and> childNodes a1 = Some xs \<and> occursFrom 0 n xs \<and> length (as @ n # bs) \<le> length xs"
proof -
  have dist: "distinct (nodeIds t)" using wf by (simp add: wellFormed_def)
  have fa: "findNode (nodeId a) t = Some a" and ka: "childNodes a = Some (as @ n # bs)" and ni: "nodeId n = i"
    and fn: "findNode i t = Some n" and others: "\<forall>x \<in> set as \<union> set bs. nodeId x \<noteq> nodeId n"
    using po by (auto simp: parentOf_def)
  have idb: "nodeId b = pid" by (rule findNode_id [OF b])
  have na: "nodeId a \<notin> set (nodeIds n)" by (rule parent_not_inside [OF dist po])
  have at: "nodeId a \<in> set (nodeIds t)" using fa findNode_None [of "nodeId a" t] by auto
  have it: "i \<in> set (nodeIds t)" using fn findNode_None [of i t] by auto
  obtain pre post ip iq where "plugged i t n pre post ip iq" by (rule plug_at [OF wf fn])
  then have valid: "allValid n" using wf by (auto simp: plugged_def wellFormed_def)
  note new = childrenToAdd_effect [OF valid, of "flexDir b"]
  show ?thesis
  proof (cases "nodeId a \<in> set (nodeIds b)")
    case True
    then obtain cs where cs: "childNodes b = Some cs" using other idb by (cases "childNodes b") (auto simp: nodeIds_eq [of b])
    have "findNode (nodeId a) (updateNode pid (\<lambda>_. b1) t) = Some a"
      unfolding kids [OF cs] using new na by (intro old_parent_inside [OF dist po b cs True other idx]) auto
    with ka occursFrom_0 [OF others] show ?thesis by (simp add: ni)
  next
    case outside: False
    have "nodeId a \<notin> set (nodeIds b1)" using grownBy_ids [OF gr] outside na at fresh by auto
    moreover have "nodeId b1 \<noteq> i" "i \<noteq> pid"
      using gr out fresh it idb ni nodeId_in_ids [of n] by (auto simp: grownBy_def)
    ultimately obtain a1 as1 bs1 where "findNode (nodeId a) (updateNode pid (\<lambda>_. b1) t) = Some a1" "childNodes a1 = Some (as1 @ n # bs1)"
        "length as1 = length as" "length bs1 = length bs" "\<forall>x \<in> set as1 \<union> set bs1. nodeId x \<noteq> i"
      using old_parent_outside [OF dist po b outside _ out] by blast
    with occursFrom_0 [of as1 bs1 n] show ?thesis by (auto simp: ni)
  qed
qed

text \<open>What an operation keeps of a tree: its panes, and the ids apart from one that may be new.\<close>

definition keepsPanes :: "string \<Rightarrow> 'd layoutNode \<Rightarrow> 'd layoutNode \<Rightarrow> bool" where
  "keepsPanes u t r \<longleftrightarrow> mset (leaves r) = mset (leaves t) \<and> distinct (nodeIds r) \<and> set (nodeIds r) \<subseteq> insert u (set (nodeIds t))"

text \<open>One copy of the ids of \<open>n\<close> leaves, \<open>extra\<close> comes: no id occurs twice.\<close>

lemma exchange_ids:
  fixes t :: "string list"
  assumes "distinct t" "u \<notin> set t" "set extra \<subseteq> insert u (set n)" "distinct extra" "mset r + mset n = mset t + mset extra"
    "mset n \<subseteq># mset t" "distinct n"
  shows "distinct r \<and> set r \<subseteq> insert u (set t)"
proof -
  have one: "count (mset xs) q = (if q \<in> set xs then 1 else 0)" if "distinct xs" for xs :: "string list" and q
    using that by (simp add: distinct_count_atmost_1)
  have sub: "set n \<subseteq> set t" using assms(6) by (metis set_mset_mono set_mset_mset)
  have eq: "count (mset r) q + count (mset n) q = count (mset t) q + count (mset extra) q" for q
    using arg_cong [OF assms(5), of "\<lambda>m. count m q"] by simp
  have r: "count (mset r) q = (if q \<in> set t \<and> q \<notin> set n \<or> q \<in> set extra then 1 else 0)" for q
  proof (cases "q \<in> set n")
    case True
    then show ?thesis using eq [of q] one [OF assms(1), of q] one [OF assms(4), of q] one [OF assms(7), of q] sub by auto
  next
    case False
    then have "q \<in> set extra \<longrightarrow> q = u" using assms(3) by auto
    then show ?thesis
      using False eq [of q] one [OF assms(1), of q] one [OF assms(4), of q] one [OF assms(7), of q] assms(2) by auto
  qed
  have "set r \<subseteq> insert u (set t)"
  proof
    fix q assume "q \<in> set r"
    then have "0 < count (mset r) q" by simp
    then show "q \<in> insert u (set t)" using r [of q] assms(3) sub by (auto split: if_splits)
  qed
  moreover have mem: "q \<in> set r \<longleftrightarrow> 0 < count (mset r) q" for q by simp
  have "distinct r" unfolding distinct_count_atmost_1 mem r by simp
  ultimately show ?thesis by simp
qed

text \<open>Placing in the new parent, then removing from the old one: the panes stay the same.\<close>

lemma place_then_remove:
  assumes wf: "wellFormed t" and po: "parentOf i t a as n bs" and b: "findNode pid t = Some b"
    and out: "pid \<notin> set (nodeIds n)" and idx: "0 \<le> idx" and fresh: "u1 \<notin> set (nodeIds t)"
    and st: "st \<le> (if nodeId a = pid \<and> idx \<le> int (length as) then nat (idx + 1) else 0)"
  shows "\<exists>b1. addChildAt u1 u2 b idx [n] = Inr b1
    \<and> keepsPanes u1 t (updateNode (nodeId a) (removeChild i st) (updateNode pid (\<lambda>_. b1) t))
    \<and> (as @ bs \<noteq> [] \<longrightarrow> allValid (updateNode (nodeId a) (removeChild i st) (updateNode pid (\<lambda>_. b1) t)))"
proof -
  have dist: "distinct (nodeIds t)" and validt: "allValid t" using wf by (simp_all add: wellFormed_def)
  have fa: "findNode (nodeId a) t = Some a" and ka: "childNodes a = Some (as @ n # bs)" and fn: "findNode i t = Some n"
    and ni: "nodeId n = i"
    using po by (auto simp: parentOf_def)
  obtain pre post ip iq where pl: "plugged pid t b pre post ip iq" by (rule plug_at [OF wf b])
  obtain pre' post' ip' iq' where pn: "plugged i t n pre' post' ip' iq'" by (rule plug_at [OF wf fn])
  have valid: "allValid b" "allValid n" using pl pn validt by (auto simp: plugged_def)
  have na: "nodeId a \<notin> set (nodeIds n)" by (rule parent_not_inside [OF dist po])
  have at: "nodeId a \<in> set (nodeIds t)" using fa findNode_None [of "nodeId a" t] by auto
  obtain b1 where add: "addChildAt u1 u2 b idx [n] = Inr b1" and gr: "grownBy b b1 u1 n"
    and kids: "\<And>cs. childNodes b = Some cs \<Longrightarrow> b1 = setChildren (spliceIn idx (childrenToAdd (flexDir b) [n]) cs) b"
  proof (cases "childNodes b")
    case None
    with addChildAt_leaf [OF None valid(1) idx valid(2)] that show thesis by auto
  next
    case (Some cs)
    with addChildAt_group [OF Some idx valid(2)] that show thesis by auto
  qed
  let ?t1 = "updateNode pid (\<lambda>_. b1) t"
  have "\<exists>a1 xs. findNode (nodeId a) ?t1 = Some a1 \<and> childNodes a1 = Some xs \<and> occursFrom st n xs \<and> length (as @ n # bs) \<le> length xs"
  proof (cases "nodeId a = pid")
    case True
    then have "b1 = setChildren (spliceIn idx (childrenToAdd (flexDir b) [n]) (as @ n # bs)) b" using kids ka fa b by simp
    with placed_same_parent [OF wf po, of b idx st] b True idx st show ?thesis by simp
  next
    case False
    with placed_other_parent [OF wf po b out idx fresh gr kids] st show ?thesis by simp
  qed
  then obtain a1 xs where a1: "findNode (nodeId a) ?t1 = Some a1" "childNodes a1 = Some xs" "occursFrom st n xs"
    "length (as @ n # bs) \<le> length xs" by blast
  have "nodeId a \<noteq> u1" using at fresh by auto
  then have "count_list (nodeIds ?t1) (nodeId a) = 1"
    using grownBy_count [OF pl gr _ na] distinct_count_one [OF dist at] by simp
  note gone = remove_occurrence [OF this a1(1-3), unfolded ni]
  have valid1: "allValid ?t1" using pl gr valid(1) validt by (simp add: plugged_def grownBy_def)
  obtain extra where extra: "mset (nodeIds b1) = mset (nodeIds b) + mset extra" "set extra \<subseteq> insert u1 (set (nodeIds n))"
    "distinct (u1 # nodeIds n) \<Longrightarrow> distinct extra"
    using gr by (auto simp: grownBy_def)
  have n: "mset (nodeIds n) \<subseteq># mset (nodeIds t)" "distinct (nodeIds n)" "u1 \<notin> set (nodeIds n)"
    using pn dist fresh by (auto simp: plugged_def)
  have "mset (nodeIds ?t1) = mset (nodeIds t) + mset extra" "mset (leaves ?t1) = mset (leaves t) + mset (leaves n)"
    using pl gr extra(1) by (simp_all add: plugged_def grownBy_def union_ac)
  with gone(1,2) exchange_ids [OF dist fresh extra(2) extra(3) _ n(1,2)] n
  have "keepsPanes u1 t (updateNode (nodeId a) (removeChild i st) ?t1)" by (simp add: keepsPanes_def)
  moreover have "as @ bs \<noteq> [] \<Longrightarrow> allValid (updateNode (nodeId a) (removeChild i st) ?t1)"
    using gone(3) [OF valid1] a1(4) by (cases as; cases bs) auto
  ultimately show ?thesis using add by blast
qed

text \<open>Changing the size and direction of the moved node in place changes neither panes nor ids.\<close>

lemma replace_same_shape:
  assumes wf: "wellFormed t" and po: "parentOf i t a as n bs"
    and n': "nodeIds n' = nodeIds n" "leaves n' = leaves n" "allValid n \<Longrightarrow> allValid n'" "nodeId n' = nodeId n"
  shows "wellFormed (updateNode i (\<lambda>_. n') t) \<and> leaves (updateNode i (\<lambda>_. n') t) = leaves t
    \<and> nodeIds (updateNode i (\<lambda>_. n') t) = nodeIds t
    \<and> parentOf i (updateNode i (\<lambda>_. n') t) (setChildren (as @ n' # bs) a) as n' bs"
proof -
  let ?u = "updateNode i (\<lambda>_. n')"
  have dist: "distinct (nodeIds t)" using wf by (simp add: wellFormed_def)
  have fn: "findNode i t = Some n" and fa: "findNode (nodeId a) t = Some a" and ka: "childNodes a = Some (as @ n # bs)"
    and ni: "nodeId n = i"
    using po by (auto simp: parentOf_def)
  obtain pre post ip iq where pl: "plugged i t n pre post ip iq" by (rule plug_at [OF wf fn])
  obtain pre' post' ip' iq' where pa: "plugged (nodeId a) t a pre' post' ip' iq'" by (rule plug_at [OF wf fa])
  have na: "nodeId a \<notin> set (nodeIds n)" by (rule parent_not_inside [OF dist po])
  have "distinct (nodeIds a)" using pa dist by (auto simp: plugged_def)
  then have da: "distinct (concat (map nodeIds (as @ n # bs)))" by (simp add: nodeIds_eq [of a] ka)
  have same: "map ?u as = as" "map ?u bs = bs"
    using distinct_siblings [OF da, of i] nodeId_in_ids [of n] ni by (auto intro!: map_idI updateNode_absent)
  have "nodeId a \<noteq> i" using na nodeId_in_ids [of n] ni by auto
  then have "?u a = setChildren (as @ n' # bs) a"
    using same ni by (simp add: updateNode_eq [of i _ a] updateNode_eq [of i _ n] ka)
  moreover have "findNode (nodeId a) (?u t) = Some (?u a)"
    using findNode_update_outside [OF dist fn na, of "\<lambda>_. n'"] na n'(1) fa by simp
  moreover have "findNode i (?u t) = Some n'"
    using findNode_update_inside [OF dist fn, of i n'] ni n'(1,4) nodeId_in_ids [of n] by (simp add: findNode_eq [of i n'])
  ultimately have "parentOf i (?u t) (setChildren (as @ n' # bs) a) as n' bs"
    using po n'(4) by (simp add: parentOf_def)
  moreover have "leaves (?u t) = leaves t" "nodeIds (?u t) = nodeIds t" "allValid (?u t)"
    using pl n' wf by (auto simp: plugged_def wellFormed_def)
  ultimately show ?thesis using dist by (simp add: wellFormed_def)
qed

lemma movedNode_shape [simp]:
  "nodeIds (movedNode same b n) = nodeIds n" "leaves (movedNode same b n) = leaves n"
  "allValid (movedNode same b n) = allValid n" "nodeId (movedNode same b n) = nodeId n"
  by (simp_all add: movedNode_def Let_def)

lemma moveNode_run:
  assumes "rootNode s = Some t" "findParent i t = Some a" "findNode i t = Some n" "nodeId (moveTarget op) = i"
    "moveParentId op = Some pid" "findNode pid t = Some b" "\<not> insertAtRoot op"
    "findNode pid (updateNode i (\<lambda>_. movedNode (nodeId a = pid) b n) t) = Some b0"
    "addChildAt u1 u2 b0 (moveIndex op) [movedNode (nodeId a = pid) b n] = Inr b1"
    "st = (if nodeId a = pid \<and> moveIndex op \<le> (case childIndex i b of None \<Rightarrow> - 1 | Some k \<Rightarrow> int k) then nat (moveIndex op + 1) else 0)"
  shows "moveNode u1 u2 op s = (Inr (), s \<lparr> rootNode := Some (updateNode (nodeId a) (removeChild i st)
    (updateNode pid (\<lambda>_. b1) (updateNode i (\<lambda>_. movedNode (nodeId a = pid) b n) t))) \<rparr>)"
proof -
  have idb: "nodeId b = pid" by (rule findNode_id [OF assms(6)])
  show ?thesis
    unfolding moveNode_def updateE_def finish_def Let_def assms(1-6) assms(10) option.case sum.case prod.case idb
    using assms(7-9) by (simp add: idb cong: if_cong option.case_cong del: updateNode.simps)
qed

lemma moveNode_keeps:
  assumes "rootNode s = Some t" "wellFormed t"
    "findParent (nodeId (moveTarget op)) t = Some a" "findNode (nodeId (moveTarget op)) t = Some n"
    "moveParentId op = Some pid" "findNode pid t = Some b" "\<not> insertAtRoot op" "0 \<le> moveIndex op"
    "pid \<notin> set (nodeIds n)" "u1 \<notin> set (nodeIds t)"
  shows "\<exists>t'. moveNode u1 u2 op s = (Inr (), s \<lparr> rootNode := Some t' \<rparr>) \<and> keepsPanes u1 t t'
    \<and> (2 \<le> length (kidsOf a) \<longrightarrow> allValid t')"
proof -
  let ?i = "nodeId (moveTarget op)" and ?n = "movedNode (nodeId a = pid) b n"
  let ?t = "updateNode ?i (\<lambda>_. ?n) t"
  have dist: "distinct (nodeIds t)" using assms(2) by (simp add: wellFormed_def)
  obtain as m bs where "parentOf ?i t a as m bs" using findParent_parentOf [OF dist assms(3)] by blast
  then have po: "parentOf ?i t a as n bs" using assms(4) by (auto simp: parentOf_def)
  define a0 where "a0 = setChildren (as @ ?n # bs) a"
  have shape: "wellFormed ?t" "leaves ?t = leaves t" "nodeIds ?t = nodeIds t" "parentOf ?i ?t a0 as ?n bs"
    using replace_same_shape [OF assms(2) po, of ?n] by (simp_all add: a0_def)
  have "findNode pid ?t = Some (updateNode ?i (\<lambda>_. ?n) b)"
    using findNode_update_outside [OF dist assms(4,9), of "\<lambda>_. ?n"] assms(6,9) by simp
  then obtain b0 where b0: "findNode pid ?t = Some b0" by blast
  define st where "st = (if nodeId a0 = pid \<and> moveIndex op \<le> int (length as) then nat (moveIndex op + 1) else 0)"
  obtain b1 where b1: "addChildAt u1 u2 b0 (moveIndex op) [?n] = Inr b1"
    "keepsPanes u1 ?t (updateNode (nodeId a0) (removeChild ?i st) (updateNode pid (\<lambda>_. b1) ?t))"
    "as @ bs \<noteq> [] \<longrightarrow> allValid (updateNode (nodeId a0) (removeChild ?i st) (updateNode pid (\<lambda>_. b1) ?t))"
    using place_then_remove [OF shape(1,4) b0 _ assms(8) _ eq_refl [OF st_def]] assms(9,10) shape(3) by auto
  have "nodeId a = pid \<Longrightarrow> a = b" using assms(6) po by (simp add: parentOf_def)
  then have "st = (if nodeId a = pid \<and> moveIndex op \<le> (case childIndex ?i b of None \<Rightarrow> - 1 | Some k \<Rightarrow> int k) then nat (moveIndex op + 1) else 0)"
    using parentOf_childIndex [OF po] by (auto simp: st_def a0_def)
  from moveNode_run [OF assms(1,3,4) refl assms(5-7) b0 b1(1) this] b1(2,3) shape(2,3) parentOf_childIndex [OF po]
  show ?thesis by (auto simp: a0_def keepsPanes_def)
qed

text \<open>Moving a pane or group under another node of the tree (in any order among its
  siblings, or to another parent, a pane becoming a group when something is dropped on it) keeps the
  panes of the tab: none is lost and none is doubled, although the moved node is a child of both
  parents in between.  The tree has valid nodes with distinct ids and the target is not inside the
  moved node.\<close>

theorem move_keeps_panes:
  assumes "rootNode s = Some t" "wellFormed t"
    "findParent (nodeId (moveTarget op)) t = Some a" "findNode (nodeId (moveTarget op)) t = Some n"
    "moveParentId op = Some pid" "findNode pid t = Some b" "\<not> insertAtRoot op" "0 \<le> moveIndex op"
    "pid \<notin> set (nodeIds n)" "u1 \<notin> set (nodeIds t)"
  shows "\<exists>t'. moveNode u1 u2 op s = (Inr (), s \<lparr> rootNode := Some t' \<rparr>) \<and> keepsPanes u1 t t'"
  using moveNode_keeps [OF assms] by blast

theorem move_keeps_panes_witness:
  "let s = \<lparr> rootNode = Some sampleRow, focusedNodeId = None, magnifiedNodeId = None, leafOrder = None \<rparr>;
       op = \<lparr> moveIndex = 0, moveParentId = Some ''r'', insertAtRoot = False, moveTarget = samplePane ''b'' \<rparr>
   in \<exists>t'. moveNode ''u'' ''v'' op s = (Inr (), s \<lparr> rootNode := Some t' \<rparr>) \<and> keepsPanes ''u'' sampleRow t'"
  unfolding Let_def
  by (rule move_keeps_panes [where t = sampleRow and a = sampleRow and b = sampleRow and n = "samplePane ''b''" and pid = "''r''"])
    (simp_all add: sampleRow_def samplePane_def wellFormed_def validateNode_def)

end
