(* ===== verification/LayoutDrops.thy ===== *)
theory LayoutDrops
  imports LayoutMoves
begin

section \<open>Dropping a pane\<close>

text \<open>
  The drag and drop of panes: \<open>computeMoveNode\<close> of \<open>frontend/layout/lib/layoutTree.ts\<close>, which turns a
  target, a dragged node and a direction into a pending action, and \<open>treeReducer\<close> of
  \<open>layoutModel.ts\<close>, which computes, commits and rebalances.  The state of the model is the tree state,
  the pending action and the magnification it remembers; the pixel layout, the leaf order, the focus
  stack and the persistence that \<open>updateTree\<close> and \<open>treeReducer\<close> also see to are left out, and the
  container is on display.  A pending action is one a drag or a resize sets.

  Proved: whatever pane is dropped on whatever other pane in whatever direction, computing and
  committing succeed and the panes of the tab stay the same.
\<close>

subsection \<open>Computing the move\<close>

datatype dropDirection = Top | Right | Bottom | Left | OuterTop | OuterRight | OuterBottom | OuterLeft | Center

text \<open>\<open>PendingMove None\<close> is a move action made from no operation: an action without a node.\<close>

datatype 'd pendingAction =
    PendingMove "'d moveOperation option"
  | PendingSwap string string
  | PendingResize "(string \<times> rat) list"

definition indexIn :: "string \<Rightarrow> 'd layoutNode \<Rightarrow> int" where
  "indexIn k p = (case childIndex k p of None \<Rightarrow> - 1 | Some i \<Rightarrow> int i)"

definition sideOperation :: "flexDirection \<Rightarrow> bool \<Rightarrow> int \<Rightarrow> 'd layoutNode \<Rightarrow> 'd layoutNode \<Rightarrow> 'd layoutNode \<Rightarrow> 'd moveOperation option" where
  "sideOperation axis atRoot offset tree node moving =
    (if flexDir node = axis then
       Some \<lparr> moveIndex = offset, moveParentId = Some (nodeId node), insertAtRoot = False, moveTarget = moving \<rparr>
     else (case findParent (nodeId node) tree of
         Some p \<Rightarrow> Some \<lparr> moveIndex = indexIn (nodeId node) p + offset, moveParentId = Some (nodeId p),
           insertAtRoot = False, moveTarget = moving \<rparr>
       | None \<Rightarrow>
           if atRoot \<and> nodeId tree = nodeId node then
             Some \<lparr> moveIndex = offset, moveParentId = None, insertAtRoot = True, moveTarget = moving \<rparr>
           else None))"

definition outerOperation :: "flexDirection \<Rightarrow> bool \<Rightarrow> int \<Rightarrow> 'd layoutNode \<Rightarrow> 'd layoutNode \<Rightarrow> 'd layoutNode
    \<Rightarrow> layoutError + 'd moveOperation option" where
  "outerOperation axis atRoot offset tree node moving =
    (if flexDir node = axis then
       (case findParent (nodeId node) tree of
          None \<Rightarrow> Inl TypeErr
        | Some p \<Rightarrow>
            (case findParent (nodeId p) tree of
               Some g \<Rightarrow> Inr (Some \<lparr> moveIndex = indexIn (nodeId p) g + offset, moveParentId = Some (nodeId g),
                 insertAtRoot = False, moveTarget = moving \<rparr>)
             | None \<Rightarrow> Inr (sideOperation axis atRoot offset tree node moving)))
     else Inr (sideOperation axis atRoot offset tree node moving))"

definition dropOperation :: "dropDirection \<Rightarrow> 'd layoutNode \<Rightarrow> 'd layoutNode \<Rightarrow> 'd layoutNode \<Rightarrow> layoutError + 'd moveOperation option" where
  "dropOperation direction tree node moving = (case direction of
     OuterTop \<Rightarrow> outerOperation Column True 0 tree node moving
   | Top \<Rightarrow> Inr (sideOperation Column True 0 tree node moving)
   | OuterBottom \<Rightarrow> outerOperation Column True 1 tree node moving
   | Bottom \<Rightarrow> Inr (sideOperation Column True 1 tree node moving)
   | OuterLeft \<Rightarrow> outerOperation Row False 0 tree node moving
   | Left \<Rightarrow> Inr (sideOperation Row False 0 tree node moving)
   | OuterRight \<Rightarrow> outerOperation Row False 1 tree node moving
   | Right \<Rightarrow> Inr (sideOperation Row False 1 tree node moving)
   | Center \<Rightarrow> Inr None)"

definition unlessInPlace :: "'d layoutNode option \<Rightarrow> string \<Rightarrow> 'd moveOperation option \<Rightarrow> layoutError + 'd pendingAction option" where
  "unlessInPlace movingParent movingId newOp =
    (if (case newOp of None \<Rightarrow> None | Some op \<Rightarrow> moveParentId op) \<noteq> map_option nodeId movingParent then Inr (Some (PendingMove newOp))
     else (case newOp of
         None \<Rightarrow> Inl TypeErr
       | Some op \<Rightarrow>
           (case movingParent of
              None \<Rightarrow> Inr (Some (PendingMove newOp))
            | Some p \<Rightarrow>
                (if moveIndex op \<noteq> indexIn movingId p \<and> moveIndex op \<noteq> indexIn movingId p + 1
                 then Inr (Some (PendingMove newOp)) else Inr None))))"

definition computeMoveNode :: "string \<Rightarrow> string \<Rightarrow> dropDirection option \<Rightarrow> 'd layoutTreeState \<Rightarrow> layoutError + 'd pendingAction option" where
  "computeMoveNode k movingId direction s =
    (if k = [] \<or> movingId = [] \<or> direction = None \<or> k = movingId then Inr None
     else (case rootNode s of
         None \<Rightarrow> Inl TypeErr
       | Some tree \<Rightarrow>
           (case (findNode k tree, findNode movingId tree) of
              (Some node, Some moving) \<Rightarrow>
                (if direction = Some Center \<and> k \<noteq> nodeId tree \<and> movingId \<noteq> nodeId tree
                 then Inr (Some (PendingSwap k movingId))
                 else andThen (dropOperation (the direction) tree node moving)
                   (unlessInPlace (findParent movingId tree) movingId))
            | _ \<Rightarrow> Inr None)))"

subsection \<open>The reducer\<close>

record 'd layoutModel =
  treeState :: "'d layoutTreeState"
  pendingTreeAction :: "'d pendingAction option"
  modelMagnifiedNodeId :: "string option"
  lastMagnifiedNodeId :: "string option"
  lastEphemeralNodeId :: "string option"

type_synonym 'd modelAction = "('d layoutModel, layoutError, unit) action"

datatype 'd treeAction =
    ComputeMove string string "dropDirection option"
  | Move "'d moveOperation option"
  | InsertNode "'d layoutNode" bool bool
  | InsertNodeAtIndex "'d layoutNode" "int list" bool bool
  | DeleteNode string
  | Swap string string
  | ResizeNode "(string \<times> rat) list"
  | SetPendingAction "'d pendingAction option"
  | ClearPendingAction
  | CommitPendingAction
  | FocusNode string
  | MagnifyNodeToggle string
  | ClearTree
  | ReplaceNode string "'d layoutNode" bool
  | SplitHorizontal string "'d layoutNode" position bool
  | SplitVertical string "'d layoutNode" position bool

definition onTree :: "'d layoutAction \<Rightarrow> 'd modelAction" where
  "onTree f m = (case f (treeState m) of (r, s) \<Rightarrow> (r, m \<lparr> treeState := s \<rparr>))"

definition balanceRoot :: "'d layoutAction" where
  "balanceRoot s = (case rootNode s of
     None \<Rightarrow> finish s
   | Some tree \<Rightarrow> (case balanceNode tree of Inl e \<Rightarrow> (Inl e, s) | Inr tree' \<Rightarrow> finish (s \<lparr> rootNode := Some tree' \<rparr>)))"

definition updateTree :: "'d modelAction" where
  "updateTree = onTree balanceRoot"

definition runMove :: "string \<Rightarrow> string \<Rightarrow> 'd moveOperation option \<Rightarrow> 'd modelAction" where
  "runMove u1 u2 newOp = (case newOp of None \<Rightarrow> (\<lambda>m. (Inl TypeErr, m)) | Some op \<Rightarrow> onTree (moveNode u1 u2 op))"

definition runPending :: "string \<Rightarrow> string \<Rightarrow> 'd pendingAction \<Rightarrow> 'd modelAction" where
  "runPending u1 u2 act = (case act of
     PendingMove newOp \<Rightarrow> runMove u1 u2 newOp
   | PendingSwap k1 k2 \<Rightarrow> onTree (swapNode k1 k2)
   | PendingResize rs \<Rightarrow> onTree (resizeNode rs))"

definition noteMagnified :: "'d modelAction" where
  "noteMagnified m = (Inr (), if modelMagnifiedNodeId m \<noteq> magnifiedNodeId (treeState m)
     then m \<lparr> lastMagnifiedNodeId := modelMagnifiedNodeId m, lastEphemeralNodeId := None,
        modelMagnifiedNodeId := magnifiedNodeId (treeState m) \<rparr> else m)"

definition afterAction :: "bool \<Rightarrow> 'd modelAction" where
  "afterAction setState = bindS noteMagnified (\<lambda>_. if setState then updateTree else retS ())"

definition setPending :: "'d pendingAction option \<Rightarrow> 'd modelAction" where
  "setPending p m = (Inr (), m \<lparr> pendingTreeAction := p \<rparr>)"

definition reduceAction :: "string \<Rightarrow> string \<Rightarrow> 'd treeAction \<Rightarrow> 'd modelAction" where
  "reduceAction u1 u2 act = (case act of
     ComputeMove k movingId direction \<Rightarrow>
       (\<lambda>m. case computeMoveNode k movingId direction (treeState m) of Inl e \<Rightarrow> (Inl e, m) | Inr p \<Rightarrow> setPending p m)
   | Move newOp \<Rightarrow> runMove u1 u2 newOp
   | InsertNode n magnified focused \<Rightarrow> onTree (insertNode u1 u2 n magnified focused)
   | InsertNodeAtIndex n indexArr magnified focused \<Rightarrow> onTree (insertNodeAtIndex u1 u2 n indexArr magnified focused)
   | DeleteNode k \<Rightarrow> onTree (deleteNode k)
   | Swap k1 k2 \<Rightarrow> onTree (swapNode k1 k2)
   | ResizeNode rs \<Rightarrow> onTree (resizeNode rs)
   | SetPendingAction p \<Rightarrow> (if p = None then retS () else setPending p)
   | ClearPendingAction \<Rightarrow> setPending None
   | CommitPendingAction \<Rightarrow>
       (\<lambda>m. case pendingTreeAction m of
          None \<Rightarrow> (Inr (), m)
        | Some p \<Rightarrow> bindS (runPending u1 u2 p) (\<lambda>_. bindS (afterAction True) (\<lambda>_. setPending None)) m)
   | FocusNode k \<Rightarrow> onTree (focusNode k)
   | MagnifyNodeToggle k \<Rightarrow> onTree (magnifyNodeToggle k)
   | ClearTree \<Rightarrow> onTree clearTree
   | ReplaceNode k n focused \<Rightarrow> onTree (replaceNode k n focused)
   | SplitHorizontal k n pos focused \<Rightarrow> onTree (splitHorizontal u1 k n pos focused)
   | SplitVertical k n pos focused \<Rightarrow> onTree (splitVertical u1 k n pos focused))"

definition treeReducer :: "string \<Rightarrow> string \<Rightarrow> 'd treeAction \<Rightarrow> bool \<Rightarrow> 'd modelAction" where
  "treeReducer u1 u2 act setState = bindS (reduceAction u1 u2 act) (\<lambda>_. afterAction setState)"

text \<open>A drag hovers over a pane and lets go there.\<close>

definition dropPane :: "string \<Rightarrow> string \<Rightarrow> string \<Rightarrow> string \<Rightarrow> dropDirection \<Rightarrow> 'd modelAction" where
  "dropPane u1 u2 k movingId direction =
    bindS (treeReducer u1 u2 (ComputeMove k movingId (Some direction)) True)
      (\<lambda>_. treeReducer u1 u2 CommitPendingAction True)"

subsection \<open>Balanced trees\<close>

text \<open>No group is left with a single pane.\<close>

fun settled :: "'d layoutNode \<Rightarrow> bool" where
  "settled (LayoutNode i f s None d) \<longleftrightarrow> True"
| "settled (LayoutNode i f s (Some cs) d) \<longleftrightarrow>
    \<not> (\<exists>c. cs = [c] \<and> childNodes c = None) \<and> list_all settled cs"

lemma settled_eq: "settled n \<longleftrightarrow> (case childNodes n of None \<Rightarrow> True
    | Some cs \<Rightarrow> \<not> (\<exists>c. cs = [c] \<and> childNodes c = None) \<and> list_all settled cs)"
  by (cases n rule: settled.cases) auto

lemma settled_sub: "settled t \<Longrightarrow> findNode k t = Some p \<Longrightarrow> settled p"
proof (induction t rule: layout_induct)
  case (group i f s cs d)
  show ?case
  proof (cases "i = k")
    case False
    with group.prems(2) obtain as c bs where "cs = as @ c # bs" "findNode k c = Some p"
      by (auto dest!: firstSome_map_Some)
    with group show ?thesis by auto
  qed (use group.prems in auto)
qed (auto split: if_splits)

lemma hoist_ids: "mset (concat (map nodeIds (hoist f c))) \<subseteq># mset (nodeIds c)"
proof (cases "\<exists>g gs. childNodes c = Some [g] \<and> childNodes g = Some gs")
  case True
  then obtain g gs where "childNodes c = Some [g]" "childNodes g = Some gs" by blast
  then have "hoist f c = gs" "mset (nodeIds c) = {#nodeId c, nodeId g#} + mset (concat (map nodeIds gs))"
    by (simp_all add: hoist_def nodeIds_eq [of c] nodeIds_eq [of g])
  then show ?thesis by simp
next
  case False
  then show ?thesis by (auto simp: hoist_def Let_def split: option.split list.split)
qed

lemma hoist_kids_ids: "mset (concat (map nodeIds (concat (map (hoist f) cs)))) \<subseteq># mset (concat (map nodeIds cs))"
proof (induction cs)
  case (Cons c cs)
  then show ?case using subset_mset.add_mono [OF hoist_ids [of f c]] by simp
qed simp

lemma subset_concat:
  assumes "list_all2 (\<lambda>x y. mset (g y) \<subseteq># mset (f x)) xs ys"
  shows "mset (concat (map g ys)) \<subseteq># mset (concat (map f xs))"
  using assms by (induction rule: list_all2_induct) (auto intro: subset_mset.add_mono)

lemma collapse_ids: "mset (nodeIds (collapse n ks)) \<subseteq># add_mset (nodeId n) (mset (concat (map nodeIds ks)))"
  by (auto simp: collapse_def nodeIds_eq split: list.split option.split)

lemma collapse_settled: "list_all settled ks \<Longrightarrow> settled (collapse n ks)"
  by (auto simp: collapse_def settled_eq [of "setChildren _ _"] split: list.split option.split)

lemma balanceNode_settles:
  "balanceNode n = Inr m \<Longrightarrow> settled m \<and> mset (nodeIds m) \<subseteq># mset (nodeIds n)"
proof (induction n arbitrary: m rule: balanceNode.induct)
  case (1 n)
  have valid: "validateNode n" using "1.prems" by (subst (asm) balanceNode.simps) (simp split: if_splits)
  show ?case
  proof (cases "childNodes n")
    case None
    with valid "1.prems" have "m = n" by (subst (asm) balanceNode.simps) simp
    with None show ?thesis by (simp add: settled_eq [of n])
  next
    case (Some cs)
    let ?kids = "concat (map (hoist (flexDir n)) cs)"
    from valid "1.prems" Some obtain ms where ms: "mapE balanceNode ?kids = Inr ms" "m = collapse n ms"
      by (subst (asm) balanceNode.simps) (auto split: sum.splits)
    have kids: "list_all2 (\<lambda>k m. settled m \<and> mset (nodeIds m) \<subseteq># mset (nodeIds k)) ?kids ms"
    proof (rule list.rel_mono_strong [OF ms(1) [unfolded mapE_Inr]])
      fix k x assume "k \<in> set ?kids" "balanceNode k = Inr x"
      with "1.IH" [OF _ Some] valid show "settled x \<and> mset (nodeIds x) \<subseteq># mset (nodeIds k)" by simp
    qed
    then have "list_all settled ms" by (induction rule: list_all2_induct) auto
    then have "settled m" unfolding ms(2) by (rule collapse_settled)
    have "mset (concat (map nodeIds ms)) \<subseteq># mset (concat (map nodeIds ?kids))"
      by (rule subset_concat) (rule list_all2_mono [OF kids], simp)
    also have "\<dots> \<subseteq># mset (concat (map nodeIds cs))"
      by (rule hoist_kids_ids)
    finally have "mset (nodeIds m) \<subseteq># mset (nodeIds n)"
      using subset_mset.order_trans [OF collapse_ids [of n ms]] by (simp add: ms(2) nodeIds_eq [of n] Some)
    with \<open>settled m\<close> show ?thesis by simp
  qed
qed

lemma distinct_submset: "mset ys \<subseteq># mset xs \<Longrightarrow> distinct xs \<Longrightarrow> distinct ys"
proof -
  assume sub: "mset ys \<subseteq># mset xs" and "distinct xs"
  obtain zs where "mset zs = mset xs - mset ys" using ex_mset by blast
  then have "mset xs = mset (ys @ zs)" using sub by (simp add: subset_mset.add_diff_inverse)
  with \<open>distinct xs\<close> show "distinct ys" using mset_eq_imp_distinct_iff [of xs "ys @ zs"] by simp
qed

lemma balanceNode_keeps:
  assumes "wellFormed t"
  shows "\<exists>r. balanceNode t = Inr r \<and> wellFormed r \<and> settled r \<and> leaves r = leaves t \<and> set (nodeIds r) \<subseteq> set (nodeIds t)"
proof -
  obtain r where r: "balanceNode t = Inr r" "allValid r" "leaves r = leaves t"
    using balanceNode_valid [of t] assms by (auto simp: wellFormed_def)
  from balanceNode_settles [OF r(1)] have sub: "settled r" "mset (nodeIds r) \<subseteq># mset (nodeIds t)" by simp_all
  have "distinct (nodeIds r)" using distinct_submset [OF sub(2)] assms by (simp add: wellFormed_def)
  moreover have "set (nodeIds r) \<subseteq> set (nodeIds t)" using sub(2) by (metis set_mset_mono set_mset_mset)
  ultimately show ?thesis using r sub(1) by (simp add: wellFormed_def)
qed

subsection \<open>Swapping two panes\<close>

lemma updateNode_const:
  "distinct (nodeIds t) \<Longrightarrow> findNode k t = Some n \<Longrightarrow> updateNode k g t = updateNode k (\<lambda>_. g n) t"
proof (induction t rule: layout_induct)
  case (group i f s cs d)
  show ?case
  proof (cases "i = k")
    case False
    from child_with [OF group.prems False] obtain as c bs where c: "cs = as @ c # bs" "findNode k c = Some n"
      "distinct (nodeIds c)" "\<And>x q. x \<in> set as \<union> set bs \<Longrightarrow> q \<in> set (nodeIds c) \<Longrightarrow> q \<notin> set (nodeIds x)" by metis
    have "k \<in> set (nodeIds c)" using c(2) findNode_None [of k c] by auto
    then have "map (updateNode k h) as = as" "map (updateNode k h) bs = bs" for h :: "'a layoutNode \<Rightarrow> 'a layoutNode"
      using c(4) by (auto intro!: map_idI updateNode_absent)
    with group.IH [of c] c False show ?thesis by simp
  qed (use group.prems in auto)
qed (auto split: if_splits)

lemma replaced_at:
  assumes "j < length xs"
  shows "mset (concat (map f (xs[j := y]))) + mset (f (xs ! j)) = mset (concat (map f xs)) + mset (f y)"
proof -
  have "xs = take j xs @ xs ! j # drop (Suc j) xs" using assms by (rule id_take_nth_drop)
  then have "mset (concat (map f xs)) = mset (concat (map f (take j xs @ xs ! j # drop (Suc j) xs)))" by simp
  moreover have "xs[j := y] = take j xs @ y # drop (Suc j) xs" using assms by (rule upd_conv_take_nth_drop)
  ultimately show ?thesis by simp
qed

lemma replace_child:
  fixes y :: "'d layoutNode"
  assumes "count_list (nodeIds t) k = 1" "findNode k t = Some q" "childNodes q = Some xs" "j < length xs"
  defines "r \<equiv> updateNode k (\<lambda>p. setChildren ((kidsOf p)[j := y]) p) t"
  shows "mset (leaves r) + mset (leaves (xs ! j)) = mset (leaves t) + mset (leaves y)"
    "mset (nodeIds r) + mset (nodeIds (xs ! j)) = mset (nodeIds t) + mset (nodeIds y)"
    "allValid t \<Longrightarrow> allValid y \<Longrightarrow> allValid r"
proof -
  obtain pre post ip iq where pl: "plugged k t q pre post ip iq" using plug_exists [OF assms(1,2)] by blast
  have kids: "kidsOf q = xs" using assms(3) by (simp add: kidsOf_def)
  show "mset (leaves r) + mset (leaves (xs ! j)) = mset (leaves t) + mset (leaves y)"
    "mset (nodeIds r) + mset (nodeIds (xs ! j)) = mset (nodeIds t) + mset (nodeIds y)"
    using pl replaced_at [OF assms(4), of leaves y] replaced_at [OF assms(4), of nodeIds y]
    by (simp_all add: plugged_def r_def kids leaves_eq [of q] nodeIds_eq [of q] assms(3) union_ac)
  assume valid: "allValid t" "allValid y"
  then have "allValid q" using pl by (simp add: plugged_def)
  from allValid_children [OF this assms(3)] valid(2) have "allValid (setChildren ((kidsOf q)[j := y]) q)"
    using set_update_subset_insert [of xs j y] by (auto simp: kids list_all_iff)
  with pl valid(1) show "allValid r" by (simp add: plugged_def r_def)
qed

text \<open>After the first pane is replaced by the second one, the second parent still holds the second pane.\<close>

lemma second_parent:
  assumes dist: "distinct (nodeIds t)" and p1: "parentOf k1 t p1 as1 n1 bs1" and p2: "parentOf k2 t p2 as2 n2 bs2"
    and leaf: "childNodes n1 = None" "childNodes n2 = None" and m: "nodeIds m = [k2]"
  defines "t1 \<equiv> updateNode (nodeId p1) (\<lambda>p. setChildren ((kidsOf p)[length as1 := m]) p) t"
  shows "\<exists>q xs. findNode (nodeId p2) t1 = Some q \<and> childNodes q = Some xs \<and> length as2 < length xs
    \<and> (k1 \<noteq> k2 \<longrightarrow> xs ! length as2 = n2)"
proof -
  let ?b = "setChildren ((kidsOf p1)[length as1 := m]) p1"
  have f1: "findNode (nodeId p1) t = Some p1" and c1: "childNodes p1 = Some (as1 @ n1 # bs1)" and i1: "nodeId n1 = k1"
    and f2: "findNode (nodeId p2) t = Some p2" and c2: "childNodes p2 = Some (as2 @ n2 # bs2)" and i2: "nodeId n2 = k2"
    and g1: "findNode k1 t = Some n1" and g2: "findNode k2 t = Some n2"
    using p1 p2 by (auto simp: parentOf_def)
  have k1: "kidsOf p1 = as1 @ n1 # bs1" and k2: "kidsOf p2 = as2 @ n2 # bs2" using c1 c2 by (simp_all add: kidsOf_def)
  have t1: "t1 = updateNode (nodeId p1) (\<lambda>_. ?b) t" unfolding t1_def by (rule updateNode_const [OF dist f1])
  have ne: "nodeId p2 \<noteq> k2" "nodeId p2 \<noteq> k1" "nodeId p1 \<noteq> k2"
    using f1 f2 g1 g2 c1 c2 leaf by auto
  have m_out: "findNode (nodeId p2) m = None" using ne(1) m by (simp add: findNode_None)
  show ?thesis
  proof (cases "nodeId p2 = nodeId p1")
    case True
    then have "p2 = p1" using f1 f2 by simp
    then have eq: "as2 @ n2 # bs2 = as1 @ n1 # bs1" using c1 c2 by simp
    have "findNode (nodeId p1) t1 = findNode (nodeId p1) ?b"
      unfolding t1 by (rule findNode_update_inside [OF dist f1]) simp_all
    then have "findNode (nodeId p2) t1 = Some ?b" using True by (simp add: findNode_eq [of _ ?b])
    moreover have "length as1 = length as2 \<Longrightarrow> n1 = n2" using eq by (simp add: append_eq_append_conv)
    then have "k1 \<noteq> k2 \<Longrightarrow> ((as1 @ n1 # bs1)[length as1 := m]) ! length as2 = n2"
      using i1 i2 nth_append_length [of as2 n2 bs2] unfolding eq [symmetric] by (cases "length as1 = length as2") auto
    moreover have "length as2 < length (as1 @ n1 # bs1)" unfolding eq [symmetric] by simp
    ultimately show ?thesis by (simp add: k1)
  next
    case False
    show ?thesis
    proof (cases "nodeId p2 \<in> set (nodeIds p1)")
      case True
      have "findNode (nodeId p2) m = findNode (nodeId p2) n1"
        using ne(2) i1 leaf(1) m_out by (simp add: findNode_eq [of _ n1])
      moreover have "?b = setChildren (as1 @ m # bs1) p1" by (simp add: k1)
      ultimately have "findNode (nodeId p2) ?b = findNode (nodeId p2) p1"
        using False c1 by (simp add: findNode_eq [of _ p1] findNode_eq [of _ "setChildren (as1 @ m # bs1) p1"])
      also have "\<dots> = Some p2" using findNode_inside [OF dist f1 True] f2 by simp
      finally have in_b: "findNode (nodeId p2) ?b = Some p2" .
      then have "nodeId p2 \<in> set (nodeIds ?b)" using findNode_None [of "nodeId p2" ?b] by auto
      from findNode_update_inside [OF dist f1 True this] in_b have "findNode (nodeId p2) t1 = Some p2" by (simp add: t1)
      with c2 show ?thesis by simp
    next
      case outside: False
      let ?u = "updateNode (nodeId p1) (\<lambda>_. ?b)"
      have "nodeId p2 \<notin> set (nodeIds ?b)"
        using outside ne(1) m set_update_subset_insert [of "kidsOf p1" "length as1" m]
        by (auto simp: nodeIds_eq [of p1] c1 k1)
      from findNode_update_outside [OF dist f1 outside, of "\<lambda>_. ?b", OF this] f2
      have "findNode (nodeId p2) t1 = Some (?u p2)" by (simp add: t1)
      moreover have "?u n2 = n2" using ne(3) i2 leaf(2) by (simp add: updateNode_eq [of _ _ n2])
      ultimately show ?thesis
        using False c2 by (simp add: childNodes_update nth_append)
    qed
  qed
qed

lemma findNode_in: "findNode k t = Some n \<Longrightarrow> k \<in> set (nodeIds t)"
  using findNode_None [of k t] by auto

lemma parent_once:
  "distinct (nodeIds t) \<Longrightarrow> parentOf k t p as n bs \<Longrightarrow> count_list (nodeIds t) (nodeId p) = 1"
  by (rule distinct_count_one) (auto simp: parentOf_def intro: findNode_in)

lemma swapNode_keeps:
  assumes "rootNode s = Some t" "wellFormed t" "findNode k1 t = Some n1" "findNode k2 t = Some n2"
    "childNodes n1 = None" "childNodes n2 = None" "k1 \<noteq> k2" "k1 \<noteq> nodeId t" "k2 \<noteq> nodeId t" "k1 \<noteq> []" "k2 \<noteq> []"
  shows "\<exists>t'. swapNode k1 k2 s = (Inr (), s \<lparr> rootNode := Some t' \<rparr>) \<and> keepsPanes u t t' \<and> allValid t'"
proof -
  have dist: "distinct (nodeIds t)" and valid: "allValid t" using assms(2) by (simp_all add: wellFormed_def)
  have "k1 \<in> set (nodeIds t)" "k2 \<in> set (nodeIds t)" using assms(3,4) by (auto intro: findNode_in)
  then obtain p1 p2 where fp: "findParent k1 t = Some p1" "findParent k2 t = Some p2"
    using findParent_None [of k1 t] findParent_None [of k2 t] assms(8,9) by fastforce
  from findParent_parentOf [OF dist fp(1)] assms(3) obtain as1 bs1 where p1: "parentOf k1 t p1 as1 n1 bs1"
    by (auto simp: parentOf_def)
  from findParent_parentOf [OF dist fp(2)] assms(4) obtain as2 bs2 where p2: "parentOf k2 t p2 as2 n2 bs2"
    by (auto simp: parentOf_def)
  let ?n1 = "setSize (nodeSize n2) n1" and ?n2 = "setSize (nodeSize n1) n2"
  define t1 where "t1 = updateNode (nodeId p1) (\<lambda>p. setChildren ((kidsOf p)[length as1 := ?n2]) p) t"
  define t2 where "t2 = updateNode (nodeId p2) (\<lambda>p. setChildren ((kidsOf p)[length as2 := ?n1]) p) t1"
  note at1 = parentOf_childIndex [OF p1] and at2 = parentOf_childIndex [OF p2]
  have run: "swapNode k1 k2 s = (Inr (), s \<lparr> rootNode := Some t2 \<rparr>)"
    using assms fp at1 at2 by (simp add: swapNode_def finish_def t1_def t2_def)
  have ids: "nodeIds n1 = [k1]" "nodeIds n2 = [k2]"
    using assms(5,6) p1 p2 by (simp_all add: nodeIds_eq parentOf_def)
  have vn: "allValid n1" "allValid n2"
    using plug_at [OF assms(2,3)] plug_at [OF assms(2,4)] valid by (auto simp: plugged_def)
  have c1: "childNodes p1 = Some (as1 @ n1 # bs1)" "findNode (nodeId p1) t = Some p1" using p1 by (auto simp: parentOf_def)
  note step1 = replace_child [OF parent_once [OF dist p1] c1(2,1), of "length as1" ?n2, folded t1_def]
  have s1: "mset (leaves t1) + mset (leaves n1) = mset (leaves t) + mset (leaves n2)"
    "mset (nodeIds t1) + {#k1#} = mset (nodeIds t) + {#k2#}" "allValid t1"
    using step1 valid vn ids by simp_all
  obtain q xs where q: "findNode (nodeId p2) t1 = Some q" "childNodes q = Some xs" "length as2 < length xs" "xs ! length as2 = n2"
    using second_parent [OF dist p1 p2 assms(5,6), of ?n2, folded t1_def, unfolded nodeIds_setters, OF ids(2)] assms(7) by blast
  have "nodeId p2 \<noteq> k1" "nodeId p2 \<noteq> k2"
    using p1 p2 assms(5,6) unfolding parentOf_def by (metis option.distinct(1) option.inject)+
  with arg_cong [OF s1(2), of "\<lambda>M. count M (nodeId p2)"] parent_once [OF dist p2]
  have "count_list (nodeIds t1) (nodeId p2) = 1" by (simp add: count_mset)
  note step2 = replace_child [OF this q(1-3), of ?n1, folded t2_def]
  have s2: "mset (leaves t2) + mset (leaves n2) = mset (leaves t1) + mset (leaves n1)"
    "mset (nodeIds t2) + {#k2#} = mset (nodeIds t1) + {#k1#}" "allValid t2"
    using step2 s1(3) vn ids q(4) by simp_all
  from s1 s2 have same: "mset (leaves t2) = mset (leaves t)" "mset (nodeIds t2) = mset (nodeIds t)" by simp_all
  have "distinct (nodeIds t2)" "set (nodeIds t2) = set (nodeIds t)"
    using mset_eq_imp_distinct_iff [OF same(2)] mset_eq_setD [OF same(2)] dist by simp_all
  with run same s2(3) show ?thesis by (auto simp: keepsPanes_def)
qed

subsection \<open>Every drop keeps the panes\<close>

text \<open>The nodes a drop can name as the new parent: the target itself or a group.\<close>

definition goodMove :: "'d layoutNode \<Rightarrow> 'd layoutNode \<Rightarrow> 'd moveOperation \<Rightarrow> bool" where
  "goodMove t moving op \<longleftrightarrow> moveTarget op = moving \<and> \<not> insertAtRoot op \<and> 0 \<le> moveIndex op
    \<and> (\<exists>pid b. moveParentId op = Some pid \<and> findNode pid t = Some b \<and> pid \<noteq> nodeId moving)"

lemma parent_found:
  assumes "distinct (nodeIds t)" "findParent k t = Some p"
  shows "findNode (nodeId p) t = Some p" "childNodes p \<noteq> None" "0 \<le> indexIn k p"
proof -
  obtain as n bs where po: "parentOf k t p as n bs" using findParent_parentOf [OF assms] by blast
  then show "findNode (nodeId p) t = Some p" "childNodes p \<noteq> None" by (simp_all add: parentOf_def)
  show "0 \<le> indexIn k p" using parentOf_childIndex [OF po] by (simp add: indexIn_def)
qed

lemma goodMove_parent:
  assumes "distinct (nodeIds t)" "findParent k t = Some p" "findNode (nodeId moving) t = Some moving" "childNodes moving = None"
    "moveTarget op = moving" "\<not> insertAtRoot op" "moveParentId op = Some (nodeId p)" "moveIndex op = indexIn k p + offset" "0 \<le> offset"
  shows "goodMove t moving op"
proof -
  note p = parent_found [OF assms(1,2)]
  have "nodeId p \<noteq> nodeId moving" using p(1,2) assms(3,4) by (metis option.inject)
  with p assms(5-) show ?thesis by (simp add: goodMove_def)
qed

lemma sideOperation_good:
  assumes "distinct (nodeIds t)" "findNode k t = Some node" "findNode (nodeId moving) t = Some moving" "childNodes moving = None"
    "k \<noteq> nodeId moving" "findParent k t = Some p" "0 \<le> offset"
  shows "\<exists>op. sideOperation axis atRoot offset t node moving = Some op \<and> goodMove t moving op"
proof -
  have k: "nodeId node = k" by (rule findNode_id [OF assms(2)])
  show ?thesis
  proof (cases "flexDir node = axis")
    case True
    with k assms(2,5,7) show ?thesis by (auto simp: sideOperation_def goodMove_def)
  next
    case False
    with k assms(6) goodMove_parent [OF assms(1,6,3,4)] assms(7) show ?thesis by (simp add: sideOperation_def)
  qed
qed

lemma outerOperation_good:
  assumes "distinct (nodeIds t)" "findNode k t = Some node" "findNode (nodeId moving) t = Some moving" "childNodes moving = None"
    "k \<noteq> nodeId moving" "findParent k t = Some p" "0 \<le> offset"
  shows "\<exists>op. outerOperation axis atRoot offset t node moving = Inr (Some op) \<and> goodMove t moving op"
proof -
  have k: "nodeId node = k" by (rule findNode_id [OF assms(2)])
  note side = sideOperation_good [OF assms, of axis atRoot]
  show ?thesis
  proof (cases "findParent (nodeId p) t")
    case (Some g)
    with goodMove_parent [OF assms(1) Some assms(3,4)] assms(6,7) side k show ?thesis by (simp add: outerOperation_def)
  qed (use side assms(6) k in \<open>simp add: outerOperation_def\<close>)
qed

lemma dropOperation_good:
  assumes "distinct (nodeIds t)" "findNode k t = Some node" "findNode (nodeId moving) t = Some moving" "childNodes moving = None"
    "k \<noteq> nodeId moving" "findParent k t = Some p" "direction \<noteq> Center"
  shows "\<exists>op. dropOperation direction t node moving = Inr (Some op) \<and> goodMove t moving op"
  using assms(7) sideOperation_good [OF assms(1-6)] outerOperation_good [OF assms(1-6)]
  by (cases direction) (simp_all add: dropOperation_def)

lemma panes_not_root:
  assumes "findNode k t = Some n" "childNodes n = None" "findNode k' t = Some n'" "k \<noteq> k'"
  shows "nodeId t \<noteq> k"
proof
  assume root: "nodeId t = k"
  then have "childNodes t = None" using assms(1,2) by (simp add: findNode_eq [of k t])
  with assms(3,4) root show False by (simp add: findNode_eq [of k' t])
qed

lemma computeMoveNode_cases:
  assumes "rootNode s = Some t" "distinct (nodeIds t)" "findNode k t = Some node" "childNodes node = None"
    "findNode k' t = Some moving" "childNodes moving = None" "k \<noteq> k'" "k \<noteq> []" "k' \<noteq> []"
  shows "computeMoveNode k k' (Some direction) s \<in> {Inr None, Inr (Some (PendingSwap k k'))}
    \<or> (\<exists>op. computeMoveNode k k' (Some direction) s = Inr (Some (PendingMove (Some op))) \<and> goodMove t moving op)"
proof -
  have root: "nodeId t \<noteq> k" "nodeId t \<noteq> k'" using panes_not_root assms by metis+
  have ids: "nodeId moving = k'" by (rule findNode_id [OF assms(5)])
  obtain p where p: "findParent k t = Some p" using findParent_None [of k t] root findNode_in [OF assms(3)] by fastforce
  show ?thesis
  proof (cases "direction = Center")
    case True
    with assms root show ?thesis by (simp add: computeMoveNode_def)
  next
    case False
    obtain op where op: "dropOperation direction t node moving = Inr (Some op)" "goodMove t moving op"
      using dropOperation_good [OF assms(2,3) _ assms(6) _ p False] assms(5,7) ids by auto
    with assms False show ?thesis
      by (auto simp: computeMoveNode_def unlessInPlace_def goodMove_def split: option.split)
  qed
qed

lemma afterAction_run:
  assumes "rootNode (treeState m) = Some t" "balanceNode t = Inr r"
  shows "\<exists>m'. afterAction True m = (Inr (), m') \<and> treeState m' = (treeState m) \<lparr> rootNode := Some r \<rparr>
    \<and> pendingTreeAction m' = pendingTreeAction m"
  using assms by (simp add: afterAction_def bindS_def noteMagnified_def updateTree_def onTree_def balanceRoot_def finish_def)

text \<open>A tree with the panes of \<open>t\<close>, as rebalancing needs and leaves it.\<close>

definition keptTree :: "string \<Rightarrow> 'd layoutNode \<Rightarrow> 'd layoutNode \<Rightarrow> bool" where
  "keptTree u t r \<longleftrightarrow> keepsPanes u t r \<and> wellFormed r"

lemma keptTree_balanced:
  assumes "rootNode (treeState m) = Some t'" "keptTree u t t'"
  shows "\<exists>m' r. afterAction True m = (Inr (), m') \<and> rootNode (treeState m') = Some r \<and> keptTree u t r \<and> settled r
    \<and> pendingTreeAction m' = pendingTreeAction m"
proof -
  obtain r where r: "balanceNode t' = Inr r" "wellFormed r" "settled r" "leaves r = leaves t'" "set (nodeIds r) \<subseteq> set (nodeIds t')"
    using balanceNode_keeps [of t'] assms(2) by (auto simp: keptTree_def)
  from afterAction_run [OF assms(1) r(1)] obtain m' where "afterAction True m = (Inr (), m')"
    "treeState m' = (treeState m) \<lparr> rootNode := Some r \<rparr>" "pendingTreeAction m' = pendingTreeAction m" by blast
  with r assms(2) show ?thesis
    by (intro exI [of _ m'] exI [of _ r]) (auto simp: keptTree_def keepsPanes_def wellFormed_def)
qed

lemma settled_siblings:
  assumes "wellFormed t" "settled t" "parentOf k t p as n bs" "childNodes n = None"
  shows "2 \<le> length (kidsOf p)"
proof -
  have "settled p" using settled_sub [OF assms(2)] assms(3) by (auto simp: parentOf_def)
  with assms(3,4) show ?thesis
    by (cases as; cases bs) (auto simp: settled_eq [of p] parentOf_def kidsOf_def)
qed

text \<open>Running the pending action of a drop of one pane on another.\<close>

lemma pending_move_keeps:
  assumes "rootNode s = Some t" "wellFormed t" "settled t" "findNode k' t = Some moving" "childNodes moving = None"
    "nodeId t \<noteq> k'" "u1 \<notin> set (nodeIds t)" "goodMove t moving op"
  shows "\<exists>t'. moveNode u1 u2 op s = (Inr (), s \<lparr> rootNode := Some t' \<rparr>) \<and> keptTree u1 t t'"
proof -
  have dist: "distinct (nodeIds t)" using assms(2) by (simp add: wellFormed_def)
  have k: "nodeId moving = k'" by (rule findNode_id [OF assms(4)])
  obtain a where a: "findParent k' t = Some a" using findParent_None [of k' t] assms(6) findNode_in [OF assms(4)] by fastforce
  obtain as bs where po: "parentOf k' t a as moving bs"
    using findParent_parentOf [OF dist a] assms(4) by (auto simp: parentOf_def)
  obtain pid b where op: "moveTarget op = moving" "\<not> insertAtRoot op" "0 \<le> moveIndex op" "moveParentId op = Some pid"
    "findNode pid t = Some b" "pid \<noteq> k'"
    using assms(8) k by (auto simp: goodMove_def)
  have "pid \<notin> set (nodeIds moving)" using op(6) k assms(5) by (simp add: nodeIds_eq [of moving])
  then obtain t' where "moveNode u1 u2 op s = (Inr (), s \<lparr> rootNode := Some t' \<rparr>)" "keepsPanes u1 t t'"
    "2 \<le> length (kidsOf a) \<longrightarrow> allValid t'"
    using moveNode_keeps [OF assms(1,2), of op a moving pid b u1 u2] op a k assms(4,7) by auto
  with settled_siblings [OF assms(2,3) po assms(5)] show ?thesis by (auto simp: keptTree_def wellFormed_def keepsPanes_def)
qed

lemma onTree_kept:
  "f (treeState m) = (Inr (), (treeState m) \<lparr> rootNode := Some r \<rparr>) \<Longrightarrow> keptTree u t r
    \<Longrightarrow> \<exists>t' s. onTree f m = (Inr (), m \<lparr> treeState := s \<rparr>) \<and> rootNode s = Some t' \<and> keptTree u t t'"
  by (intro exI [of _ r] exI [of _ "(treeState m) \<lparr> rootNode := Some r \<rparr>"]) (simp add: onTree_def)

lemma runPending_keeps:
  assumes "rootNode (treeState m) = Some t" "wellFormed t" "settled t" "findNode k t = Some node" "childNodes node = None"
    "findNode k' t = Some moving" "childNodes moving = None" "k \<noteq> k'" "k \<noteq> []" "k' \<noteq> []" "u1 \<notin> set (nodeIds t)"
    "p = PendingSwap k k' \<or> (\<exists>op. p = PendingMove (Some op) \<and> goodMove t moving op)"
  shows "\<exists>t' s. runPending u1 u2 p m = (Inr (), m \<lparr> treeState := s \<rparr>) \<and> rootNode s = Some t' \<and> keptTree u1 t t'"
proof -
  have root: "nodeId t \<noteq> k" "nodeId t \<noteq> k'" using panes_not_root assms(4-8) by metis+
  from assms(12) show ?thesis
  proof (elim disjE exE conjE)
    assume p: "p = PendingSwap k k'"
    obtain r where "swapNode k k' (treeState m) = (Inr (), (treeState m) \<lparr> rootNode := Some r \<rparr>)" "keptTree u1 t r"
      using swapNode_keeps [OF assms(1,2,4,6,5,7,8) root [symmetric] assms(9,10), of u1]
      by (auto simp: keptTree_def wellFormed_def keepsPanes_def)
    then show ?thesis by (simp add: p runPending_def onTree_kept)
  next
    fix op assume p: "p = PendingMove (Some op)" "goodMove t moving op"
    from pending_move_keeps [OF assms(1-3,6,7) root(2) assms(11) p(2), of u2]
    show ?thesis by (auto simp: p(1) runPending_def runMove_def intro!: onTree_kept)
  qed
qed

lemma commit_run:
  assumes "pendingTreeAction m = Some p" "runPending u1 u2 p m = (Inr (), m1)" "rootNode (treeState m1) = Some t1" "keptTree u t t1"
  shows "\<exists>m' r. treeReducer u1 u2 CommitPendingAction True m = (Inr (), m') \<and> rootNode (treeState m') = Some r
    \<and> keptTree u t r \<and> settled r \<and> pendingTreeAction m' = None"
proof -
  obtain m2 r2 where m2: "afterAction True m1 = (Inr (), m2)" "rootNode (treeState m2) = Some r2" "keptTree u t r2"
    using keptTree_balanced [OF assms(3,4)] by blast
  from keptTree_balanced [of "m2 \<lparr> pendingTreeAction := None \<rparr>" r2 u t] m2 obtain m3 r3 where
    "afterAction True (m2 \<lparr> pendingTreeAction := None \<rparr>) = (Inr (), m3)" "rootNode (treeState m3) = Some r3"
    "keptTree u t r3" "settled r3" "pendingTreeAction m3 = None" by auto
  with assms(1,2) m2(1) show ?thesis
    by (simp add: treeReducer_def reduceAction_def bindS_def setPending_def)
qed

text \<open>Dropping on the middle of the root makes a move action without a node, which throws when it is committed.\<close>

lemma center_on_root_throws:
  assumes "rootNode (treeState m) = Some t" "k = nodeId t" "findParent k' t = Some p" "findNode k' t = Some n" "k \<noteq> k'" "k \<noteq> []" "k' \<noteq> []"
  shows "computeMoveNode k k' (Some Center) (treeState m) = Inr (Some (PendingMove None))"
    "runPending u1 u2 (PendingMove None) m = (Inl TypeErr, m)"
  using assms by (simp_all add: computeMoveNode_def findNode_eq [of "nodeId t" t] dropOperation_def unlessInPlace_def
      runPending_def runMove_def)

text \<open>C40: A drop never loses a pane.  On a tab at rest (valid nodes, distinct ids, a tree that
  rebalancing leaves alone), dropping a pane on any other pane in any of the nine directions, that
  is computing the pending action while it hovers and committing it when it is let go, succeeds; the
  tab has the same panes as before, each once, in a valid tree with distinct ids in which no group
  holds a single pane; and no pending action is left.\<close>

theorem drop_keeps_panes:
  assumes "rootNode (treeState m) = Some t" "wellFormed t" "balanceNode t = Inr t"
    "findNode k t = Some node" "childNodes node = None" "findNode k' t = Some moving" "childNodes moving = None"
    "k \<noteq> k'" "k \<noteq> []" "k' \<noteq> []" "u1 \<notin> set (nodeIds t)"
  shows "\<exists>m' r. dropPane u1 u2 k k' direction m = (Inr (), m') \<and> rootNode (treeState m') = Some r
    \<and> keptTree u1 t r \<and> settled r \<and> pendingTreeAction m' = None"
proof -
  have dist: "distinct (nodeIds t)" and settled: "settled t"
    using assms(2) balanceNode_settles [OF assms(3)] by (simp_all add: wellFormed_def)
  note c = computeMoveNode_cases [OF assms(1) dist assms(4-10), of direction]
  then obtain p where p: "computeMoveNode k k' (Some direction) (treeState m) = Inr p"
    and good: "p = None \<or> p = Some (PendingSwap k k') \<or> (\<exists>op. p = Some (PendingMove (Some op)) \<and> goodMove t moving op)"
    by auto
  obtain m1 where m1: "afterAction True (m \<lparr> pendingTreeAction := p \<rparr>) = (Inr (), m1)" "treeState m1 = treeState m"
    "pendingTreeAction m1 = p"
    using afterAction_run [of "m \<lparr> pendingTreeAction := p \<rparr>" t t] assms(1,3) by auto
  have first: "treeReducer u1 u2 (ComputeMove k k' (Some direction)) True m = (Inr (), m1)"
    using p m1(1) by (simp add: treeReducer_def reduceAction_def bindS_def setPending_def)
  have root: "rootNode (treeState m1) = Some t" using m1(2) assms(1) by simp
  have kept: "keptTree u1 t t" using dist assms(2) by (auto simp: keptTree_def keepsPanes_def)
  have "\<exists>m' r. treeReducer u1 u2 CommitPendingAction True m1 = (Inr (), m') \<and> rootNode (treeState m') = Some r
    \<and> keptTree u1 t r \<and> settled r \<and> pendingTreeAction m' = None"
  proof (cases p)
    case None
    with keptTree_balanced [OF root kept] m1(3) show ?thesis
      by (auto simp: treeReducer_def reduceAction_def bindS_def)
  next
    case (Some act)
    obtain t' s where "runPending u1 u2 act m1 = (Inr (), m1 \<lparr> treeState := s \<rparr>)" "rootNode s = Some t'" "keptTree u1 t t'"
      using runPending_keeps [OF root assms(2) settled assms(4-11), of act u2] good Some by auto
    with commit_run [of m1 act] m1(3) Some show ?thesis by simp
  qed
  with first show ?thesis by (simp add: dropPane_def bindS_def)
qed

definition sampleModel :: "string layoutModel" where
  "sampleModel = \<lparr> treeState = \<lparr> rootNode = Some sampleRow, focusedNodeId = None, magnifiedNodeId = None, leafOrder = None \<rparr>,
    pendingTreeAction = None, modelMagnifiedNodeId = None, lastMagnifiedNodeId = None, lastEphemeralNodeId = None \<rparr>"

lemma sampleRow_at_rest: "balanceNode sampleRow = Inr sampleRow"
  by (simp add: sampleRow_def samplePane_def balanceNode.simps hoist_def collapse_def validateNode_def setChildren_def)

theorem drop_keeps_panes_witness:
  "\<exists>m' r. dropPane ''u'' ''v'' ''a'' ''b'' OuterTop sampleModel = (Inr (), m') \<and> rootNode (treeState m') = Some r
    \<and> keptTree ''u'' sampleRow r \<and> settled r \<and> pendingTreeAction m' = None"
  by (rule drop_keeps_panes [where t = sampleRow and node = "samplePane ''a''" and moving = "samplePane ''b''"])
    (simp_all add: sampleModel_def sampleRow_at_rest, simp_all add: sampleRow_def samplePane_def wellFormed_def validateNode_def)

end
